(* ===== verification/Prelude.thy ===== *)
theory Prelude
  imports Complex_Main "HOL-Library.Word" "HOL-Library.AList"
begin

text \<open>
  Shared vocabulary of the development: the value types every component uses (bytes, text,
  insertion-ordered dictionaries), the lemma collections its proofs draw on, and the interface of a
  wire codec, which the encodings of the later theories all provide.

  Python's \<^verbatim>\<open>bytes\<close> are lists of 8-bit words, its \<^verbatim>\<open>str\<close> lists of code points and its
  unbounded \<^verbatim>\<open>int\<close> is \<open>int\<close>.  A \<^verbatim>\<open>dict\<close> whose order the code observes is an
  association list kept in insertion order: \<open>AList.update\<close> overwrites in place or appends,
  which is what assignment to a key does.
\<close>

type_synonym byte = "8 word"
type_synonym bytes = "byte list"
type_synonym pystr = "nat list"

named_theorems codec_simps \<open>evaluation and length rules of the encodings\<close>
named_theorems log_simps \<open>how the session-log operations act on each field\<close>
named_theorems probe_simps \<open>probe-counter bookkeeping of the resolvers\<close>
named_theorems accept_intros \<open>introduction rules for accepting runs\<close>

section \<open>Text literals\<close>

definition lit :: "string \<Rightarrow> pystr" where
  "lit s = map of_char s"

lemma lit_Nil [simp]: "lit [] = []"
  by (simp add: lit_def)

lemma lit_Cons [simp]: "lit (c # cs) = of_char c # lit cs"
  by (simp add: lit_def)

lemma lit_inject [simp]: "lit s = lit t \<longleftrightarrow> s = t"
  by (simp add: lit_def inj_map_eq_map inj_of_char)

section \<open>Slices from the right end\<close>

text \<open>\<^verbatim>\<open>xs[-n:]\<close> and \<^verbatim>\<open>xs[:-n]\<close> for a positive constant \<open>n\<close>: both clamp when the list is short.\<close>

definition last_n :: "nat \<Rightarrow> 'a list \<Rightarrow> 'a list" where
  "last_n n xs = drop (length xs - n) xs"

definition but_last_n :: "nat \<Rightarrow> 'a list \<Rightarrow> 'a list" where
  "but_last_n n xs = take (length xs - n) xs"

lemma last_n_append [simp]: "length ys = n \<Longrightarrow> last_n n (xs @ ys) = ys"
  by (simp add: last_n_def)

lemma but_last_n_append [simp]: "length ys = n \<Longrightarrow> but_last_n n (xs @ ys) = xs"
  by (simp add: but_last_n_def)

lemma but_last_n_last_n [simp]: "but_last_n n xs @ last_n n xs = xs"
  by (simp add: last_n_def but_last_n_def)

lemma length_last_n [simp]: "length (last_n n xs) = min n (length xs)"
  by (simp add: last_n_def)

section \<open>Insertion-ordered dictionaries\<close>

lemma map_of_alist_update [simp]: "map_of (AList.update k v ps) = (map_of ps)(k \<mapsto> v)"
  by (rule update_conv')

lemma length_alist_update:
  "length (AList.update k v ps) = (if k \<in> fst ` set ps then length ps else Suc (length ps))"
  by (induction ps) auto

lemma set_alist_update: "set (AList.update k v ps) \<subseteq> insert (k, v) (set ps)"
  by (induction ps) auto

lemma alist_update_fresh: "k \<notin> fst ` set ps \<Longrightarrow> AList.update k v ps = ps @ [(k, v)]"
  by (induction ps) auto

lemma map_of_filter_snd:
  assumes "distinct (map fst ps)"
  shows "map_of (filter (\<lambda>(k, v). Q v) ps) k =
     (case map_of ps k of None \<Rightarrow> None | Some v \<Rightarrow> if Q v then Some v else None)"
  using assms
proof (induction ps)
  case Nil
  then show ?case by simp
next
  case (Cons p ps)
  obtain a b where p: "p = (a, b)" by (cases p)
  from Cons.prems p have "map_of ps a = None"
    by (auto simp: map_of_eq_None_iff)
  with Cons p show ?case
    by (auto split: option.splits)
qed

lemma distinct_fst_filter: "distinct (map fst ps) \<Longrightarrow> distinct (map fst (filter Q ps))"
  by (rule distinct_map_filter)

lemma find_unique: "x \<in> set xs \<Longrightarrow> Q x \<Longrightarrow> \<forall>y \<in> set xs. Q y \<longrightarrow> y = x \<Longrightarrow> List.find Q xs = Some x"
proof (cases "List.find Q xs")
  case None
  assume "x \<in> set xs" "Q x"
  with None show ?thesis by (simp add: find_None_iff)
next
  case (Some y)
  assume u: "\<forall>y \<in> set xs. Q y \<longrightarrow> y = x"
  from Some have "y \<in> set xs" "Q y" by (auto simp: find_Some_iff)
  with u have "y = x" by blast
  with Some show ?thesis by simp
qed

section \<open>Encodings as an interface\<close>

text \<open>
  What every reader of an encoding relies on: decoding what the writer produced gives the value
  back.  The theories below prove it for the integers, the text encoding, Base64, JSON, the two
  messages and the frames of the transport; distinct values then never share an encoding.
\<close>

locale codec =
  fixes valid :: "'a \<Rightarrow> bool"
    and enc :: "'a \<Rightarrow> 'b"
    and dec :: "'b \<Rightarrow> 'e + 'a"
  assumes dec_enc: "valid x \<Longrightarrow> dec (enc x) = Inr x"
begin

lemma enc_inject: "valid x \<Longrightarrow> valid y \<Longrightarrow> enc x = enc y \<longleftrightarrow> x = y"
  by (metis dec_enc sum.inject(2))

lemma enc_inj_on: "inj_on enc {x. valid x}"
  by (rule inj_onI) (simp add: enc_inject)

lemma dec_of_enc: "valid x \<Longrightarrow> b = enc x \<Longrightarrow> dec b = Inr x"
  by (simp add: dec_enc)

end

section \<open>Functions that may raise over lists\<close>

text \<open>A function that may raise, over a list.\<close>

fun map_raise :: "('a \<Rightarrow> 'e + 'b) \<Rightarrow> 'a list \<Rightarrow> 'e + 'b list" where
  "map_raise f [] = Inr []"
| "map_raise f (x # xs) =
     (case f x of
        Inl e \<Rightarrow> Inl e
      | Inr y \<Rightarrow> (case map_raise f xs of Inl e \<Rightarrow> Inl e | Inr ys \<Rightarrow> Inr (y # ys)))"

lemma map_raise_iff: "map_raise f xs = Inr ys \<longleftrightarrow> list_all2 (\<lambda>x y. f x = Inr y) xs ys"
proof (induction xs arbitrary: ys)
  case (Cons x xs)
  have "map_raise f (x # xs) = Inr ys \<longleftrightarrow> (\<exists>z zs. ys = z # zs \<and> f x = Inr z \<and> map_raise f xs = Inr zs)"
    by (auto split: sum.split)
  then show ?case by (simp add: Cons.IH list_all2_Cons1 conj_ac)
qed auto

lemma map_raise_total: "\<forall>x \<in> set xs. f x \<in> range Inr \<Longrightarrow> \<exists>ys. map_raise f xs = Inr ys"
proof (induction xs)
  case (Cons x xs)
  then show ?case by (cases "f x") auto
qed simp

lemma map_raise_map: "\<forall>x \<in> set xs. f x = Inr (h x) \<Longrightarrow> map_raise f xs = Inr (map h xs)"
  by (induction xs) simp_all

section \<open>Splitting at a separator\<close>

fun split_on :: "'a \<Rightarrow> 'a list \<Rightarrow> 'a list list" where
  "split_on sep [] = [[]]"
| "split_on sep (c # s) =
     (if c = sep then [] # split_on sep s
      else case split_on sep s of [] \<Rightarrow> [[c]] | p # ps \<Rightarrow> (c # p) # ps)"

lemma split_on_plain: "sep \<notin> set s \<Longrightarrow> split_on sep s = [s]"
  by (induction s) auto

lemma split_on_first: "sep \<notin> set s \<Longrightarrow> split_on sep (s @ sep # t) = s # split_on sep t"
  by (induction s) auto

end
