(* ===== verification/Errors.thy ===== *)
theory Errors
  imports Prelude
begin

text \<open>
  The exceptions of the program as values (\<^verbatim>\<open>protocol/errors.py\<close>, \<^verbatim>\<open>protocol/messages.py\<close>) together
  with the built-in exceptions its calls can raise.  An exception keeps the data its message is
  built from (the peer, the epoch), not the message text, except \<open>IntegrityError\<close>, whose texts have
  no such data in common and are kept as they are.  An operation that can raise returns
  \<open>exn + 'a\<close>; one that also changes an object returns the object beside it, because what was
  assigned before a \<^verbatim>\<open>raise\<close> stays assigned.
\<close>

datatype exn =
    IntegrityError pystr
  | ReplayDetected pystr int
  | UnknownPeerError
  | BlockedEntity pystr
  | CoverageError pystr
  | SessionTimeoutError pystr
  | OfflinePhaseViolation
  | MessageFormatError
  | ValueError
  | KeyError
  | IndexError
  | TypeError
  | AttributeError
  | OverflowError
  | ZeroDivisionError
  | StructError
  | UnicodeError
  | InvalidTag
  | ConnectionError
  | OSError
  | NotImplementedError
  | AssertionError
  | ArgumentTypeError

text \<open>\<^verbatim>\<open>isinstance(exc, AuthenticationError)\<close>\<close>

definition is_authentication_error :: "exn \<Rightarrow> bool" where
  "is_authentication_error x = (case x of
      IntegrityError _ \<Rightarrow> True
    | ReplayDetected _ _ \<Rightarrow> True
    | UnknownPeerError \<Rightarrow> True
    | BlockedEntity _ \<Rightarrow> True
    | CoverageError _ \<Rightarrow> True
    | SessionTimeoutError _ \<Rightarrow> True
    | _ \<Rightarrow> False)"

end
