(* ===== verification/Pybytes.thy ===== *)
theory Pybytes
  imports Errors
begin

text \<open>
  The conversions between integers, text and bytes that the program takes from Python itself:
  \<^verbatim>\<open>int.to_bytes(n, "big")\<close>, \<^verbatim>\<open>int.from_bytes(b, "big")\<close>, \<^verbatim>\<open>struct.pack(">Q", x)\<close>, \<^verbatim>\<open>struct.pack(">I", x)\<close>,
  \<^verbatim>\<open>str.encode("utf-8")\<close>, \<^verbatim>\<open>str.encode("ascii")\<close>, \<^verbatim>\<open>bytes.decode("utf-8")\<close> and \<^verbatim>\<open>bytes.decode("ascii")\<close>,
  each with the inputs on which it raises.
\<close>

section \<open>Big-endian integers\<close>

primrec be_bytes :: "nat \<Rightarrow> nat \<Rightarrow> bytes" where
  "be_bytes 0 x = []"
| "be_bytes (Suc n) x = be_bytes n (x div 256) @ [word_of_nat x]"

definition int_to_bytes :: "nat \<Rightarrow> int \<Rightarrow> exn + bytes" where
  "int_to_bytes n x = (if 0 \<le> x \<and> x < 256 ^ n then Inr (be_bytes n (nat x)) else Inl OverflowError)"

definition struct_pack :: "nat \<Rightarrow> int \<Rightarrow> exn + bytes" where
  "struct_pack n x = (if 0 \<le> x \<and> x < 256 ^ n then Inr (be_bytes n (nat x)) else Inl StructError)"

definition int_from_bytes :: "bytes \<Rightarrow> int" where
  "int_from_bytes bs = foldl (\<lambda>acc b. acc * 256 + uint b) 0 bs"

lemma length_be_bytes [simp, codec_simps]: "length (be_bytes n x) = n"
  by (induction n arbitrary: x) simp_all

lemma int_from_bytes_snoc: "int_from_bytes (bs @ [b]) = int_from_bytes bs * 256 + uint b"
  by (simp add: int_from_bytes_def)

lemma int_from_be_bytes: "x < 256 ^ n \<Longrightarrow> int_from_bytes (be_bytes n x) = int x"
proof (induction n arbitrary: x)
  case 0
  then show ?case by (simp add: int_from_bytes_def)
next
  case (Suc n)
  from Suc.prems have "x div 256 < 256 ^ n"
    by (simp add: less_mult_imp_div_less mult.commute)
  then have "int_from_bytes (be_bytes n (x div 256)) = int (x div 256)"
    by (rule Suc.IH)
  moreover have "uint (word_of_nat x :: byte) = int (x mod 256)"
    by (simp add: unsigned_of_nat take_bit_eq_mod zmod_int)
  ultimately show ?case
    by (simp add: int_from_bytes_snoc zdiv_int zmod_int)
qed

lemma int_from_bytes_nonneg: "0 \<le> int_from_bytes bs"
  by (induction bs rule: rev_induct) (simp_all add: int_from_bytes_snoc int_from_bytes_def)

lemma int_from_bytes_bound: "int_from_bytes bs < 256 ^ length bs"
proof (induction bs rule: rev_induct)
  case Nil
  then show ?case by (simp add: int_from_bytes_def)
next
  case (snoc b bs)
  have "uint b < 256" using uint_lt2p [of b] by simp
  with snoc show ?case
    by (simp add: int_from_bytes_snoc)
qed

lemma int_to_bytes_cases:
  "int_to_bytes n x = (case struct_pack n x of Inl _ \<Rightarrow> Inl OverflowError | Inr b \<Rightarrow> Inr b)"
  by (simp add: int_to_bytes_def struct_pack_def)

lemma int_to_bytes_length: "int_to_bytes n x = Inr b \<Longrightarrow> length b = n"
  by (auto simp: int_to_bytes_def split: if_splits)

interpretation uint_be: codec
  "\<lambda>(n, x). 0 \<le> x \<and> x < 256 ^ n"
  "\<lambda>(n, x). be_bytes n (nat x)"
  "\<lambda>bs. Inr (length bs, int_from_bytes bs)"
  by unfold_locales (auto simp: int_from_be_bytes nat_less_iff)

lemma be_bytes_inject:
  assumes "0 \<le> x" "x < 256 ^ n" "0 \<le> y" "y < 256 ^ n"
  shows "be_bytes n (nat x) = be_bytes n (nat y) \<longleftrightarrow> x = y"
  using uint_be.enc_inject [of "(n, x)" "(n, y)"] assms by simp

section \<open>Text encodings\<close>

text \<open>A code point of valid text: in range and not a surrogate.\<close>

definition valid_str :: "pystr \<Rightarrow> bool" where
  "valid_str s \<longleftrightarrow> (\<forall>c \<in> set s. c < 0x110000 \<and> \<not> (0xD800 \<le> c \<and> c \<le> 0xDFFF))"

lemma valid_str_simps [simp]:
  "valid_str []"
  "valid_str (c # s) \<longleftrightarrow> c < 0x110000 \<and> \<not> (0xD800 \<le> c \<and> c \<le> 0xDFFF) \<and> valid_str s"
  "valid_str (s @ t) \<longleftrightarrow> valid_str s \<and> valid_str t"
  by (auto simp: valid_str_def)

definition utf8_char :: "nat \<Rightarrow> bytes" where
  "utf8_char c =
     (if c < 0x80 then [word_of_nat c]
      else if c < 0x800 then [word_of_nat (0xC0 + c div 64), word_of_nat (0x80 + c mod 64)]
      else if c < 0x10000 then
        [word_of_nat (0xE0 + c div 4096), word_of_nat (0x80 + c div 64 mod 64),
         word_of_nat (0x80 + c mod 64)]
      else
        [word_of_nat (0xF0 + c div 262144), word_of_nat (0x80 + c div 4096 mod 64),
         word_of_nat (0x80 + c div 64 mod 64), word_of_nat (0x80 + c mod 64)])"

definition utf8_encode :: "pystr \<Rightarrow> exn + bytes" where
  "utf8_encode s = (if valid_str s then Inr (concat (map utf8_char s)) else Inl UnicodeError)"

definition is_cont :: "byte \<Rightarrow> bool" where
  "is_cont b \<longleftrightarrow> 0x80 \<le> unat b \<and> unat b < 0xC0"

text \<open>
  The strict decoder: over-long forms (a lead byte below \<^verbatim>\<open>C2\<close>, \<^verbatim>\<open>E0\<close> or \<^verbatim>\<open>F0\<close> with too small a second
  byte), surrogates (\<^verbatim>\<open>ED\<close> above \<^verbatim>\<open>9F\<close>) and values past \<^verbatim>\<open>10FFFF\<close> are errors.
\<close>

fun utf8_decode :: "bytes \<Rightarrow> exn + pystr" where
  "utf8_decode [] = Inr []"
| "utf8_decode (b0 # bs) =
    (let n = unat b0; ret = (\<lambda>c r. case r of Inl e \<Rightarrow> Inl e | Inr s \<Rightarrow> Inr (c # s)) in
     if n < 0x80 then ret n (utf8_decode bs)
     else if n < 0xC2 then Inl UnicodeError
     else if n < 0xE0 then
       (case bs of b1 # cs \<Rightarrow>
          if is_cont b1 then ret ((n - 0xC0) * 64 + (unat b1 - 0x80)) (utf8_decode cs)
          else Inl UnicodeError
        | _ \<Rightarrow> Inl UnicodeError)
     else if n < 0xF0 then
       (case bs of b1 # b2 # cs \<Rightarrow>
          if is_cont b1 \<and> is_cont b2 \<and> (n = 0xE0 \<longrightarrow> 0xA0 \<le> unat b1) \<and> (n = 0xED \<longrightarrow> unat b1 < 0xA0)
          then ret ((n - 0xE0) * 4096 + (unat b1 - 0x80) * 64 + (unat b2 - 0x80)) (utf8_decode cs)
          else Inl UnicodeError
        | _ \<Rightarrow> Inl UnicodeError)
     else if n < 0xF5 then
       (case bs of b1 # b2 # b3 # cs \<Rightarrow>
          if is_cont b1 \<and> is_cont b2 \<and> is_cont b3 \<and> (n = 0xF0 \<longrightarrow> 0x90 \<le> unat b1)
             \<and> (n = 0xF4 \<longrightarrow> unat b1 < 0x90)
          then ret ((n - 0xF0) * 262144 + (unat b1 - 0x80) * 4096 + (unat b2 - 0x80) * 64
                    + (unat b3 - 0x80)) (utf8_decode cs)
          else Inl UnicodeError
        | _ \<Rightarrow> Inl UnicodeError)
     else Inl UnicodeError)"

declare utf8_decode.simps(2) [simp del]

lemma base64_digits: "(c::nat) div 64 = c div 4096 * 64 + c div 64 mod 64"
  "(c::nat) div 4096 = c div 262144 * 64 + c div 4096 mod 64"
  using div_mult_mod_eq [of "c div 64" 64] div_mult_mod_eq [of "c div 4096" 64]
  by (simp_all flip: div_mult2_eq)

lemma unat_byte_of_nat: "n < 256 \<Longrightarrow> unat (word_of_nat n :: byte) = n"
  by (simp add: unat_of_nat)

lemma utf8_decode_1:
  "c < 0x80 \<Longrightarrow> utf8_decode (word_of_nat c # bs)
     = (case utf8_decode bs of Inl e \<Rightarrow> Inl e | Inr s \<Rightarrow> Inr (c # s))"
  by (simp add: utf8_decode.simps(2) unat_byte_of_nat)

lemma utf8_decode_2:
  assumes "0x80 \<le> c" "c < 0x800"
  shows "utf8_decode (word_of_nat (0xC0 + c div 64) # word_of_nat (0x80 + c mod 64) # bs)
     = (case utf8_decode bs of Inl e \<Rightarrow> Inl e | Inr s \<Rightarrow> Inr (c # s))"
proof -
  have c: "(c div 64) * 64 + c mod 64 = c" by simp
  have b: "2 \<le> c div 64" "c div 64 < 32" "c mod 64 < 64"
    using assms by (simp_all add: less_mult_imp_div_less)
  then have u: "unat (word_of_nat (0xC0 + c div 64) :: byte) = 0xC0 + c div 64"
    "unat (word_of_nat (0x80 + c mod 64) :: byte) = 0x80 + c mod 64"
    by (simp_all add: unat_byte_of_nat del: of_nat_add of_nat_numeral)
  show ?thesis
    unfolding utf8_decode.simps(2) [of "word_of_nat (0xC0 + c div 64)"] Let_def is_cont_def
      list.case u using b by (simp add: c split: sum.split)
qed

lemma utf8_decode_3:
  assumes "0x800 \<le> c" "c < 0x10000" "\<not> (0xD800 \<le> c \<and> c \<le> 0xDFFF)"
  shows "utf8_decode (word_of_nat (0xE0 + c div 4096) # word_of_nat (0x80 + c div 64 mod 64)
            # word_of_nat (0x80 + c mod 64) # bs)
     = (case utf8_decode bs of Inl e \<Rightarrow> Inl e | Inr s \<Rightarrow> Inr (c # s))"
proof -
  define h m l where d: "h = c div 4096" "m = c div 64 mod 64" "l = c mod 64"
  have "c = c div 64 * 64 + l" "c div 64 = h * 64 + m"
    unfolding d by (simp, rule base64_digits)
  then have c: "c = h * 4096 + m * 64 + l" by linarith
  have b: "h < 16" "m < 64" "l < 64"
    using assms(2) by (simp_all add: d less_mult_imp_div_less)
  have g: "h = 0 \<longrightarrow> 32 \<le> m" "h = 13 \<longrightarrow> m < 32" using assms c b by auto
  have u: "unat (word_of_nat (0xE0 + h) :: byte) = 0xE0 + h"
    "unat (word_of_nat (0x80 + m) :: byte) = 0x80 + m" "unat (word_of_nat (0x80 + l) :: byte) = 0x80 + l"
    using b by (simp_all add: unat_byte_of_nat del: of_nat_add of_nat_numeral)
  show ?thesis
    unfolding d [symmetric] utf8_decode.simps(2) [of "word_of_nat (0xE0 + h)"] Let_def is_cont_def
      list.case u using b g by (simp add: c split: sum.split)
qed

lemma utf8_decode_4:
  assumes "0x10000 \<le> c" "c < 0x110000"
  shows "utf8_decode (word_of_nat (0xF0 + c div 262144) # word_of_nat (0x80 + c div 4096 mod 64)
            # word_of_nat (0x80 + c div 64 mod 64) # word_of_nat (0x80 + c mod 64) # bs)
     = (case utf8_decode bs of Inl e \<Rightarrow> Inl e | Inr s \<Rightarrow> Inr (c # s))"
proof -
  define h k m l where d: "h = c div 262144" "k = c div 4096 mod 64" "m = c div 64 mod 64" "l = c mod 64"
  have "c = c div 64 * 64 + l" "c div 64 = c div 4096 * 64 + m" "c div 4096 = h * 64 + k"
    unfolding d by (simp, rule base64_digits, rule base64_digits)
  then have c: "c = h * 262144 + k * 4096 + m * 64 + l" by linarith
  have b: "h < 5" "k < 64" "m < 64" "l < 64"
    using assms(2) by (simp_all add: d less_mult_imp_div_less)
  have g: "h = 0 \<longrightarrow> 16 \<le> k" "h = 4 \<longrightarrow> k < 16" using assms c b by auto
  have u: "unat (word_of_nat (0xF0 + h) :: byte) = 0xF0 + h"
    "unat (word_of_nat (0x80 + k) :: byte) = 0x80 + k" "unat (word_of_nat (0x80 + m) :: byte) = 0x80 + m"
    "unat (word_of_nat (0x80 + l) :: byte) = 0x80 + l"
    using b by (simp_all add: unat_byte_of_nat del: of_nat_add of_nat_numeral)
  show ?thesis
    unfolding d [symmetric] utf8_decode.simps(2) [of "word_of_nat (0xF0 + h)"] Let_def is_cont_def
      list.case u using b g by (simp add: c split: sum.split)
qed

lemma utf8_decode_char:
  assumes "c < 0x110000" "\<not> (0xD800 \<le> c \<and> c \<le> 0xDFFF)"
  shows "utf8_decode (utf8_char c @ bs)
     = (case utf8_decode bs of Inl e \<Rightarrow> Inl e | Inr s \<Rightarrow> Inr (c # s))"
  using assms by (auto simp: utf8_char_def utf8_decode_1 utf8_decode_2 utf8_decode_3 utf8_decode_4
      simp del: of_nat_add of_nat_numeral)

lemma utf8_decode_chars: "valid_str s \<Longrightarrow> utf8_decode (concat (map utf8_char s)) = Inr s"
  by (induction s) (auto simp: utf8_decode_char)

interpretation utf8: codec valid_str "\<lambda>s. concat (map utf8_char s)" utf8_decode
  by unfold_locales (rule utf8_decode_chars)

lemma utf8_encode_inject:
  "utf8_encode s = Inr b \<Longrightarrow> utf8_encode t = Inr b \<Longrightarrow> s = t"
  by (auto simp: utf8_encode_def utf8.enc_inject split: if_splits)

definition is_ascii :: "pystr \<Rightarrow> bool" where
  "is_ascii s \<longleftrightarrow> (\<forall>c \<in> set s. c < 0x80)"

definition ascii_encode :: "pystr \<Rightarrow> exn + bytes" where
  "ascii_encode s = (if is_ascii s then Inr (map word_of_nat s) else Inl UnicodeError)"

definition ascii_decode :: "bytes \<Rightarrow> exn + pystr" where
  "ascii_decode bs = (if \<forall>b \<in> set bs. unat b < 0x80 then Inr (map unat bs) else Inl UnicodeError)"

lemma is_ascii_simps [simp]:
  "is_ascii []" "is_ascii (c # s) \<longleftrightarrow> c < 0x80 \<and> is_ascii s" "is_ascii (s @ t) \<longleftrightarrow> is_ascii s \<and> is_ascii t"
  by (auto simp: is_ascii_def)

lemma is_ascii_valid: "is_ascii s \<Longrightarrow> valid_str s"
  by (fastforce simp: is_ascii_def valid_str_def)

lemma utf8_encode_ascii: "is_ascii s \<Longrightarrow> utf8_encode s = Inr (map word_of_nat s)"
proof -
  assume a: "is_ascii s"
  then have "concat (map utf8_char s) = map word_of_nat s"
    by (induction s) (auto simp: utf8_char_def)
  with a show ?thesis by (simp add: utf8_encode_def is_ascii_valid)
qed

lemma ascii_decode_encode: "is_ascii s \<Longrightarrow> ascii_decode (map word_of_nat s) = Inr s"
proof -
  assume a: "is_ascii s"
  then have "map (unat \<circ> (word_of_nat :: nat \<Rightarrow> byte)) s = s"
    by (induction s) (auto simp: unat_byte_of_nat)
  with a show ?thesis by (auto simp: ascii_decode_def is_ascii_def unat_byte_of_nat)
qed

interpretation ascii: codec is_ascii "map word_of_nat" ascii_decode
  by unfold_locales (rule ascii_decode_encode)

end
