(* ===== verification/Crypto.thy ===== *)
theory Crypto
  imports Pybytes
begin

text \<open>
  The package \<^verbatim>\<open>crypto/\<close>: thin wrappers around primitives that live outside the repository.  The
  primitives are the record \<open>prims\<close>, an argument of every definition that reaches them: SHA-256 of
  OpenSSL behind \<^verbatim>\<open>hashlib\<close>, and HKDF, AES-GCM and the P-256 base-point multiplication of the
  \<^verbatim>\<open>cryptography\<close> package.  The predicates after the record state the documented behaviour that
  individual theorems rely on; no theorem assumes more of the primitives than it names.

  \<^verbatim>\<open>os.urandom\<close> is an argument too: each call of it is a function from the requested length to the
  bytes that call returned.
\<close>

record prims =
  p_sha256 :: "bytes \<Rightarrow> bytes"
  p_hkdf :: "bytes \<Rightarrow> bytes option \<Rightarrow> bytes \<Rightarrow> nat \<Rightarrow> bytes"
  p_gcm_encrypt :: "bytes \<Rightarrow> bytes \<Rightarrow> bytes \<Rightarrow> bytes \<Rightarrow> bytes"
  p_gcm_decrypt :: "bytes \<Rightarrow> bytes \<Rightarrow> bytes \<Rightarrow> bytes \<Rightarrow> exn + bytes"
  p_ec_point :: "int \<Rightarrow> bytes"

type_synonym urandom = "nat \<Rightarrow> bytes"

definition KEY_LEN :: nat where
  "KEY_LEN = 32"

definition GCM_NONCE_LEN :: nat where
  "GCM_NONCE_LEN = 12"

definition TAG_LEN :: nat where
  "TAG_LEN = 16"

section \<open>What the primitives promise\<close>

definition sha256_ok :: "prims \<Rightarrow> bool" where
  "sha256_ok P \<longleftrightarrow> (\<forall>x. length (p_sha256 P x) = 32)"

definition hkdf_ok :: "prims \<Rightarrow> bool" where
  "hkdf_ok P \<longleftrightarrow> (\<forall>ikm salt info n. length (p_hkdf P ikm salt info n) = n)"

text \<open>Opening what was sealed, with the same key, IV and associated data, gives the plaintext.\<close>

definition gcm_ok :: "prims \<Rightarrow> bool" where
  "gcm_ok P \<longleftrightarrow> (\<forall>k n x a. length k = KEY_LEN \<longrightarrow> length n = GCM_NONCE_LEN \<longrightarrow>
      p_gcm_decrypt P k n (p_gcm_encrypt P k n x a) a = Inr x
      \<and> length (p_gcm_encrypt P k n x a) = length x + TAG_LEN)"

text \<open>\<^verbatim>\<open>AESGCM\<close> checks the IV length before it looks at the data.\<close>

definition gcm_checks_iv :: "prims \<Rightarrow> bool" where
  "gcm_checks_iv P \<longleftrightarrow> (\<forall>k n x a. \<not> (8 \<le> length n \<and> length n \<le> 128) \<longrightarrow> p_gcm_decrypt P k n x a = Inl ValueError)"

definition urandom_ok :: "urandom \<Rightarrow> bool" where
  "urandom_ok u \<longleftrightarrow> (\<forall>n. length (u n) = n)"

section \<open>Curve\<close>

definition CURVE_ORDER :: int where
  "CURVE_ORDER = 0xFFFFFFFF00000000FFFFFFFFFFFFFFFFBCE6FAADA7179E84F3B9CAC2FC632551"

definition reduce_mod_n :: "int \<Rightarrow> int" where
  "reduce_mod_n v = (let r = v mod CURVE_ORDER in if r \<noteq> 0 then r else 1)"

definition scalar_to_public_point :: "prims \<Rightarrow> int \<Rightarrow> bytes" where
  "scalar_to_public_point P scalar = p_ec_point P (reduce_mod_n scalar)"

lemma reduce_mod_n_range: "1 \<le> reduce_mod_n v \<and> reduce_mod_n v < CURVE_ORDER"
proof -
  have "0 \<le> v mod CURVE_ORDER" "v mod CURVE_ORDER < CURVE_ORDER" "1 < CURVE_ORDER"
    by (simp_all add: CURVE_ORDER_def)
  moreover from this have "v mod CURVE_ORDER \<noteq> 0 \<longrightarrow> 1 \<le> v mod CURVE_ORDER" by linarith
  ultimately show ?thesis by (simp add: reduce_mod_n_def Let_def)
qed

lemma reduce_mod_n_id: "1 \<le> v \<Longrightarrow> v < CURVE_ORDER \<Longrightarrow> reduce_mod_n v = v"
  by (simp add: reduce_mod_n_def)

lemma reduce_mod_n_lt_2_256: "0 \<le> reduce_mod_n v" "reduce_mod_n v < 256 ^ 32"
proof -
  have "CURVE_ORDER < 256 ^ 32" by (simp add: CURVE_ORDER_def)
  then show "0 \<le> reduce_mod_n v" "reduce_mod_n v < 256 ^ 32"
    using reduce_mod_n_range [of v] by linarith+
qed

section \<open>Hashes\<close>

definition sha256_parts :: "prims \<Rightarrow> bytes list \<Rightarrow> bytes" where
  "sha256_parts P parts = p_sha256 P (concat parts)"

definition h1_derive_secret :: "prims \<Rightarrow> bytes \<Rightarrow> bytes \<Rightarrow> int" where
  "h1_derive_secret P identity master_secret =
     reduce_mod_n (int_from_bytes (sha256_parts P [identity, master_secret]))"

definition h2_pseudonym :: "prims \<Rightarrow> int \<Rightarrow> int \<Rightarrow> exn + bytes" where
  "h2_pseudonym P lam epoch =
     (case int_to_bytes 32 lam of
        Inl e \<Rightarrow> Inl e
      | Inr lam_bytes \<Rightarrow>
          (case struct_pack 8 epoch of
             Inl e \<Rightarrow> Inl e
           | Inr epoch_bytes \<Rightarrow> Inr (sha256_parts P [lam_bytes, epoch_bytes])))"

definition h3_rekey_binder :: "prims \<Rightarrow> int \<Rightarrow> exn + bytes" where
  "h3_rekey_binder P update_index =
     (case struct_pack 8 update_index of Inl e \<Rightarrow> Inl e | Inr b \<Rightarrow> Inr (sha256_parts P [b]))"

text \<open>The ranges in which a secret and an epoch have an encoding.\<close>

definition valid_lam :: "int \<Rightarrow> bool" where
  "valid_lam lam \<longleftrightarrow> 0 \<le> lam \<and> lam < 256 ^ 32"

definition valid_epoch :: "int \<Rightarrow> bool" where
  "valid_epoch t \<longleftrightarrow> 0 \<le> t \<and> t < 256 ^ 8"

definition pseudonym :: "prims \<Rightarrow> int \<Rightarrow> int \<Rightarrow> bytes" where
  "pseudonym P lam t = p_sha256 P (be_bytes 32 (nat lam) @ be_bytes 8 (nat t))"

lemma h1_valid_lam: "valid_lam (h1_derive_secret P i s)"
  using reduce_mod_n_lt_2_256 by (simp add: valid_lam_def h1_derive_secret_def)

lemma h2_pseudonym_valid: "valid_lam lam \<Longrightarrow> valid_epoch t \<Longrightarrow> h2_pseudonym P lam t = Inr (pseudonym P lam t)"
  by (simp add: h2_pseudonym_def int_to_bytes_def struct_pack_def valid_lam_def valid_epoch_def
      sha256_parts_def pseudonym_def)

lemma h2_pseudonym_Inr:
  "h2_pseudonym P lam t = Inr h \<longleftrightarrow> valid_lam lam \<and> valid_epoch t \<and> h = pseudonym P lam t"
  by (auto simp: h2_pseudonym_def int_to_bytes_def struct_pack_def valid_lam_def valid_epoch_def
      sha256_parts_def pseudonym_def)

section \<open>Key derivation and nonces\<close>

definition kdf :: "prims \<Rightarrow> bytes \<Rightarrow> bytes \<Rightarrow> bytes option \<Rightarrow> nat \<Rightarrow> bytes" where
  "kdf P ikm info salt len = p_hkdf P ikm salt info len"

definition DEFAULT_NONCE_BITS :: int where
  "DEFAULT_NONCE_BITS = 128"

definition SUPPORTED_NONCE_BITS :: "int list" where
  "SUPPORTED_NONCE_BITS = [128, 192, 256]"

definition generate_nonce :: "urandom \<Rightarrow> int \<Rightarrow> exn + bytes" where
  "generate_nonce u bits =
     (if bits \<notin> set SUPPORTED_NONCE_BITS then Inl ValueError else Inr (u (nat (bits div 8))))"

lemma generate_nonce_length:
  "urandom_ok u \<Longrightarrow> generate_nonce u bits = Inr n \<Longrightarrow> length n \<in> {16, 24, 32} \<and> bits = 8 * int (length n)"
  by (auto simp: generate_nonce_def urandom_ok_def SUPPORTED_NONCE_BITS_def split: if_splits)

section \<open>Authenticated encryption\<close>

definition aead_encrypt :: "prims \<Rightarrow> urandom \<Rightarrow> bytes \<Rightarrow> bytes \<Rightarrow> bytes \<Rightarrow> exn + (bytes \<times> bytes \<times> bytes)" where
  "aead_encrypt P u key plaintext aad =
     (if length key \<noteq> KEY_LEN then Inl ValueError
      else let nonce = u GCM_NONCE_LEN; combined = p_gcm_encrypt P key nonce plaintext aad
           in Inr (nonce, but_last_n TAG_LEN combined, last_n TAG_LEN combined))"

definition aead_decrypt :: "prims \<Rightarrow> bytes \<Rightarrow> bytes \<Rightarrow> bytes \<Rightarrow> bytes \<Rightarrow> bytes \<Rightarrow> exn + bytes" where
  "aead_decrypt P key nonce ciphertext tag aad =
     (if length key \<noteq> KEY_LEN then Inl ValueError
      else p_gcm_decrypt P key nonce (ciphertext @ tag) aad)"

lemma aead_encrypt_total: "length key = KEY_LEN \<Longrightarrow> \<exists>n c t. aead_encrypt P u key x a = Inr (n, c, t)"
  by (simp add: aead_encrypt_def Let_def)

lemma aead_roundtrip:
  assumes "gcm_ok P" "urandom_ok u" "aead_encrypt P u key x a = Inr (n, c, t)"
  shows "aead_decrypt P key n c t a = Inr x" "length t = TAG_LEN" "length c = length x" "length n = GCM_NONCE_LEN"
proof -
  from assms have k: "length key = KEY_LEN" and n: "n = u GCM_NONCE_LEN"
    and ct: "c = but_last_n TAG_LEN (p_gcm_encrypt P key n x a)" "t = last_n TAG_LEN (p_gcm_encrypt P key n x a)"
    by (auto simp: aead_encrypt_def Let_def split: if_splits)
  from n assms(2) show ln: "length n = GCM_NONCE_LEN" by (simp add: urandom_ok_def)
  from assms(1) k ln have g: "p_gcm_decrypt P key n (p_gcm_encrypt P key n x a) a = Inr x"
    "length (p_gcm_encrypt P key n x a) = length x + TAG_LEN"
    by (simp_all add: gcm_ok_def)
  then show "aead_decrypt P key n c t a = Inr x" "length t = TAG_LEN"
    using k by (simp_all add: aead_decrypt_def ct)
  from g show "length c = length x" by (simp add: ct but_last_n_def)
qed

end
