(* ===== verification/TrustedAuthority.thy ===== *)
theory TrustedAuthority
  imports Crypto
begin

text \<open>
  The offline trusted authority (\<^verbatim>\<open>protocol/ta.py\<close>).  Credentials are mutable objects that the registry
  and the callers share, and sharing peer keys changes one in place, so they live in a store: a
  reference is an index into the list of all credentials made so far.
\<close>

record credential =
  cred_identity :: pystr
  cred_role :: pystr
  cred_lam :: int
  cred_public_point :: "bytes option"
  cred_peer_secrets :: "(pystr \<times> int) list"

type_synonym cred_store = "credential list"

record trusted_authority =
  ta_master_secret :: bytes
  ta_registry :: "(pystr \<times> nat) list"

definition VALID_ROLES :: "pystr list" where
  "VALID_ROLES = [lit ''device'', lit ''server'']"

definition derive_long_term_secret :: "prims \<Rightarrow> pystr \<Rightarrow> bytes \<Rightarrow> exn + int" where
  "derive_long_term_secret P identity master_secret =
     (case utf8_encode identity of Inl x \<Rightarrow> Inl x | Inr b \<Rightarrow> Inr (h1_derive_secret P b master_secret))"

text \<open>\<open>fresh\<close> is what \<^verbatim>\<open>secrets.token_bytes(32)\<close> returns when no secret is given.\<close>

definition new_trusted_authority :: "bytes option \<Rightarrow> urandom \<Rightarrow> trusted_authority" where
  "new_trusted_authority master_secret fresh =
     \<lparr>ta_master_secret = (case master_secret of Some s \<Rightarrow> s | None \<Rightarrow> fresh 32), ta_registry = []\<rparr>"

definition enroll ::
  "prims \<Rightarrow> trusted_authority \<Rightarrow> cred_store \<Rightarrow> pystr \<Rightarrow> pystr \<Rightarrow> bool
     \<Rightarrow> (exn + nat) \<times> trusted_authority \<times> cred_store" where
  "enroll P ta st identity role export_public_point =
     (if role \<notin> set VALID_ROLES then (Inl ValueError, ta, st)
      else if map_of (ta_registry ta) identity \<noteq> None then (Inl ValueError, ta, st)
      else case derive_long_term_secret P identity (ta_master_secret ta) of
             Inl x \<Rightarrow> (Inl x, ta, st)
           | Inr lam \<Rightarrow>
               let public_point = (if export_public_point then Some (scalar_to_public_point P lam) else None);
                   cred = \<lparr>cred_identity = identity, cred_role = role, cred_lam = lam,
                           cred_public_point = public_point, cred_peer_secrets = []\<rparr>
               in (Inr (length st),
                   ta\<lparr>ta_registry := AList.update identity (length st) (ta_registry ta)\<rparr>, st @ [cred]))"

text \<open>An entry of a manifest: the keys may be missing.\<close>

record manifest_entry =
  me_identity :: "pystr option"
  me_role :: "pystr option"
  me_export_public_point :: "bool option"

fun enroll_batch ::
  "prims \<Rightarrow> manifest_entry list \<Rightarrow> (pystr \<times> nat) list \<Rightarrow> trusted_authority \<Rightarrow> cred_store
     \<Rightarrow> (exn + (pystr \<times> nat) list) \<times> trusted_authority \<times> cred_store" where
  "enroll_batch P [] acc ta st = (Inr acc, ta, st)"
| "enroll_batch P (entry # es) acc ta st =
     (case (me_identity entry, me_role entry) of
        (Some identity, Some role) \<Rightarrow>
          (case enroll P ta st identity role (case me_export_public_point entry of Some b \<Rightarrow> b | None \<Rightarrow> False) of
             (Inl x, ta', st') \<Rightarrow> (Inl x, ta', st')
           | (Inr r, ta', st') \<Rightarrow> enroll_batch P es (AList.update identity r acc) ta' st')
      | _ \<Rightarrow> (Inl KeyError, ta, st))"

definition share_one :: "nat \<Rightarrow> cred_store \<Rightarrow> nat \<Rightarrow> cred_store" where
  "share_one cred st peer =
     (if cred_identity (st ! peer) = cred_identity (st ! cred) then st
      else st[cred := (st ! cred)\<lparr>cred_peer_secrets :=
             AList.update (cred_identity (st ! peer)) (cred_lam (st ! peer)) (cred_peer_secrets (st ! cred))\<rparr>])"

definition share_peer_keys :: "cred_store \<Rightarrow> nat \<Rightarrow> nat list \<Rightarrow> cred_store" where
  "share_peer_keys st cred peers = foldl (share_one cred) st peers"

definition share_mutual_peer_keys :: "cred_store \<Rightarrow> nat list \<Rightarrow> cred_store" where
  "share_mutual_peer_keys st creds =
     foldl (\<lambda>s cred. share_peer_keys s cred (filter (\<lambda>c. cred_identity (s ! c) \<noteq> cred_identity (s ! cred)) creds)) st creds"

definition lookup_credential :: "trusted_authority \<Rightarrow> pystr \<Rightarrow> exn + nat" where
  "lookup_credential ta identity = (case map_of (ta_registry ta) identity of None \<Rightarrow> Inl KeyError | Some r \<Rightarrow> Inr r)"

section \<open>What every credential always satisfies\<close>

text \<open>
  The invariant of the authority and its store.  Registered references are live and name their own
  credential; every credential has a valid role and the secret derived from its identity; every
  secret in a peer list is the secret derived from that peer's identity, never its owner's.
\<close>

definition cred_ok :: "prims \<Rightarrow> bytes \<Rightarrow> credential \<Rightarrow> bool" where
  "cred_ok P s c \<longleftrightarrow> cred_role c \<in> set VALID_ROLES \<and> derive_long_term_secret P (cred_identity c) s = Inr (cred_lam c) \<and>
     distinct (map fst (cred_peer_secrets c)) \<and>
     (\<forall>(p, lam) \<in> set (cred_peer_secrets c). p \<noteq> cred_identity c \<and> derive_long_term_secret P p s = Inr lam)"

definition ta_ok :: "prims \<Rightarrow> trusted_authority \<Rightarrow> cred_store \<Rightarrow> bool" where
  "ta_ok P ta st \<longleftrightarrow> (\<forall>c \<in> set st. cred_ok P (ta_master_secret ta) c) \<and> distinct (map cred_identity st) \<and>
     (\<forall>i r. map_of (ta_registry ta) i = Some r \<longleftrightarrow> r < length st \<and> cred_identity (st ! r) = i)"

lemma derive_range: "derive_long_term_secret P i s = Inr lam \<Longrightarrow> 1 \<le> lam \<and> lam < CURVE_ORDER"
  using reduce_mod_n_range by (auto simp: derive_long_term_secret_def h1_derive_secret_def split: sum.splits)

lemma derive_valid_lam: "derive_long_term_secret P i s = Inr lam \<Longrightarrow> valid_lam lam"
  by (auto simp: derive_long_term_secret_def h1_valid_lam split: sum.splits)

lemma ta_ok_new [simp]: "ta_ok P (new_trusted_authority s fresh) []"
  by (simp add: ta_ok_def new_trusted_authority_def)

lemma enroll_raises:
  "role \<notin> set VALID_ROLES \<or> map_of (ta_registry ta) identity \<noteq> None \<Longrightarrow>
     enroll P ta st identity role export = (Inl ValueError, ta, st)"
  by (auto simp: enroll_def)

lemma enroll_Inl: "enroll P ta st identity role export = (Inl x, ta', st') \<Longrightarrow> ta' = ta \<and> st' = st"
  by (auto simp: enroll_def Let_def split: if_splits sum.splits)

lemma enroll_Inr:
  assumes "enroll P ta st identity role export = (Inr r, ta', st')"
  shows "\<exists>lam. role \<in> set VALID_ROLES \<and> map_of (ta_registry ta) identity = None \<and>
    derive_long_term_secret P identity (ta_master_secret ta) = Inr lam \<and> r = length st \<and>
    ta' = ta\<lparr>ta_registry := AList.update identity r (ta_registry ta)\<rparr> \<and>
    st' = st @ [\<lparr>cred_identity = identity, cred_role = role, cred_lam = lam,
      cred_public_point = (if export then Some (scalar_to_public_point P lam) else None), cred_peer_secrets = []\<rparr>]"
  using assms by (auto simp: enroll_def Let_def split: if_splits sum.splits)

lemma enroll_ok:
  assumes "ta_ok P ta st" "enroll P ta st identity role export = (res, ta', st')"
  shows "ta_ok P ta' st' \<and> ta_master_secret ta' = ta_master_secret ta"
proof (cases res)
  case (Inl x)
  with assms show ?thesis by (auto dest: enroll_Inl)
next
  case (Inr r)
  from enroll_Inr [OF assms(2) [unfolded Inr]] obtain lam c where e: "role \<in> set VALID_ROLES"
    "map_of (ta_registry ta) identity = None" "derive_long_term_secret P identity (ta_master_secret ta) = Inr lam"
    "r = length st" "ta' = ta\<lparr>ta_registry := AList.update identity r (ta_registry ta)\<rparr>" "st' = st @ [c]"
    "cred_identity c = identity" "cred_role c = role" "cred_lam c = lam" "cred_peer_secrets c = []"
    by force
  have new: "identity \<notin> cred_identity ` set st"
  proof
    assume "identity \<in> cred_identity ` set st"
    then obtain k where "k < length st" "cred_identity (st ! k) = identity" by (auto simp: in_set_conv_nth)
    with assms(1) e(2) show False unfolding ta_ok_def by (metis option.distinct(1))
  qed
  have "map_of (ta_registry ta') i = Some k \<longleftrightarrow> k < length st' \<and> cred_identity (st' ! k) = i" for i k
  proof -
    have reg: "map_of (ta_registry ta) i = Some k \<longleftrightarrow> k < length st \<and> cred_identity (st ! k) = i"
      using assms(1) by (simp add: ta_ok_def)
    have "\<not> (k < length st \<and> cred_identity (st ! k) = identity)"
      using new by (metis image_eqI nth_mem)
    with reg e(4-8) show ?thesis
      by (cases "k < length st"; cases "i = identity") (auto simp: nth_append)
  qed
  moreover have "distinct (map cred_identity st')" "\<forall>d \<in> set st'. cred_ok P (ta_master_secret ta) d"
    using assms(1) e new by (auto simp: ta_ok_def cred_ok_def)
  ultimately show ?thesis using e(5) by (simp add: ta_ok_def)
qed

lemma enroll_batch_ok:
  "ta_ok P ta st \<Longrightarrow> enroll_batch P es acc ta st = (res, ta', st') \<Longrightarrow>
     ta_ok P ta' st' \<and> ta_master_secret ta' = ta_master_secret ta"
proof (induction es arbitrary: acc ta st)
  case Nil
  then show ?case by simp
next
  case (Cons e es)
  show ?case
  proof (cases "\<exists>i r. me_identity e = Some i \<and> me_role e = Some r")
    case False
    with Cons.prems show ?thesis by (auto split: option.splits)
  next
    case True
    then obtain i r where ir: "me_identity e = Some i" "me_role e = Some r" by blast
    obtain res1 ta1 st1 where s1: "enroll P ta st i r (case me_export_public_point e of Some b \<Rightarrow> b | None \<Rightarrow> False)
        = (res1, ta1, st1)" by (metis prod_cases3)
    from enroll_ok [OF Cons.prems(1) s1] have ok1: "ta_ok P ta1 st1" "ta_master_secret ta1 = ta_master_secret ta"
      by simp_all
    show ?thesis
    proof (cases res1)
      case (Inl x)
      with Cons.prems(2) ir s1 ok1 show ?thesis by simp
    next
      case (Inr n)
      with Cons.prems(2) ir s1 have "enroll_batch P es (AList.update i n acc) ta1 st1 = (res, ta', st')" by simp
      from Cons.IH [OF ok1(1) this] ok1(2) show ?thesis by simp
    qed
  qed
qed

section \<open>Sharing keys\<close>

lemma share_one_fields [simp]:
  "length (share_one c st p) = length st"
  "cred_identity (share_one c st p ! k) = cred_identity (st ! k)"
  "cred_role (share_one c st p ! k) = cred_role (st ! k)"
  "cred_lam (share_one c st p ! k) = cred_lam (st ! k)"
  by (cases "c < length st"; cases "c = k"; simp add: share_one_def nth_list_update list_update_beyond)+

lemma share_one_other: "k \<noteq> c \<Longrightarrow> share_one c st p ! k = st ! k"
  by (simp add: share_one_def)

lemma cred_ok_learn:
  assumes "cred_ok P s c" "cred_ok P s d" "cred_identity d \<noteq> cred_identity c"
  shows "cred_ok P s (c\<lparr>cred_peer_secrets := AList.update (cred_identity d) (cred_lam d) (cred_peer_secrets c)\<rparr>)"
proof -
  have "\<forall>(p, lam) \<in> insert (cred_identity d, cred_lam d) (set (cred_peer_secrets c)).
      p \<noteq> cred_identity c \<and> derive_long_term_secret P p s = Inr lam"
    using assms by (auto simp: cred_ok_def)
  with set_alist_update [of "cred_identity d" "cred_lam d" "cred_peer_secrets c"] assms(1)
  show ?thesis by (auto simp: cred_ok_def distinct_update)
qed

lemma share_one_ok:
  assumes "ta_ok P ta st" "c < length st" "p < length st"
  shows "ta_ok P ta (share_one c st p)"
proof -
  have ids: "map cred_identity (share_one c st p) = map cred_identity st"
    by (rule nth_equalityI) simp_all
  have "cred_ok P (ta_master_secret ta) (st ! c)" "cred_ok P (ta_master_secret ta) (st ! p)"
    using assms by (auto simp: ta_ok_def)
  then have "\<forall>d \<in> set (share_one c st p). cred_ok P (ta_master_secret ta) d"
    using assms(1) set_update_subset_insert [of st c] by (auto simp: ta_ok_def share_one_def intro: cred_ok_learn)
  with assms(1) ids show ?thesis by (simp add: ta_ok_def)
qed

lemma share_peer_keys_ok:
  assumes "ta_ok P ta st" "c < length st" "\<forall>p \<in> set ps. p < length st"
  shows "ta_ok P ta (share_peer_keys st c ps) \<and> length (share_peer_keys st c ps) = length st"
  using assms by (induction ps arbitrary: st) (auto simp: share_peer_keys_def share_one_ok)

lemma share_mutual_ok:
  assumes "ta_ok P ta st" "\<forall>c \<in> set cs. c < length st" "\<forall>c \<in> set ds. c < length st"
  shows "ta_ok P ta (foldl (\<lambda>s c. share_peer_keys s c (filter (Q s c) ds)) st cs)"
  using assms
proof (induction cs arbitrary: st)
  case Nil
  then show ?case by simp
next
  case (Cons c cs)
  have "ta_ok P ta (share_peer_keys st c (filter (Q st c) ds)) \<and>
      length (share_peer_keys st c (filter (Q st c) ds)) = length st"
    using Cons.prems by (intro share_peer_keys_ok) auto
  with Cons show ?case by simp
qed

text \<open>What sharing leaves in the peer lists.\<close>

lemma share_peer_keys_fields [simp]:
  "length (share_peer_keys st c ps) = length st"
  "cred_identity (share_peer_keys st c ps ! k) = cred_identity (st ! k)"
  "cred_lam (share_peer_keys st c ps ! k) = cred_lam (st ! k)"
  by (induction ps arbitrary: st) (simp_all add: share_peer_keys_def)

lemma share_peer_keys_other: "k \<noteq> c \<Longrightarrow> share_peer_keys st c ps ! k = st ! k"
  by (induction ps arbitrary: st) (simp_all add: share_peer_keys_def share_one_other)

text \<open>A later entry for the same identity overwrites an earlier one; equal identities carry equal secrets here.\<close>

lemma share_peer_keys_map:
  assumes "c < length st" "\<forall>p \<in> set ps. \<forall>q \<in> set ps. cred_identity (st ! p) = cred_identity (st ! q) \<longrightarrow>
      cred_lam (st ! p) = cred_lam (st ! q)"
    and "c \<notin> set ps"
  shows "map_of (cred_peer_secrets (share_peer_keys st c ps ! c)) i =
    (case List.find (\<lambda>p. cred_identity (st ! p) = i) ps of
       Some p \<Rightarrow> if i = cred_identity (st ! c) then map_of (cred_peer_secrets (st ! c)) i else Some (cred_lam (st ! p))
     | None \<Rightarrow> map_of (cred_peer_secrets (st ! c)) i)"
  using assms
proof (induction ps arbitrary: st)
  case Nil
  then show ?case by (simp add: share_peer_keys_def)
next
  case (Cons p ps)
  let ?st = "share_one c st p"
  have IH: "map_of (cred_peer_secrets (share_peer_keys ?st c ps ! c)) i =
    (case List.find (\<lambda>q. cred_identity (st ! q) = i) ps of
       Some q \<Rightarrow> if i = cred_identity (st ! c) then map_of (cred_peer_secrets (?st ! c)) i else Some (cred_lam (st ! q))
     | None \<Rightarrow> map_of (cred_peer_secrets (?st ! c)) i)"
    using Cons.IH [of ?st] Cons.prems by (simp cong: option.case_cong if_cong)
  have one: "map_of (cred_peer_secrets (?st ! c)) i =
    (if cred_identity (st ! p) = i \<and> i \<noteq> cred_identity (st ! c) then Some (cred_lam (st ! p))
     else map_of (cred_peer_secrets (st ! c)) i)"
    using Cons.prems(1) by (auto simp: share_one_def)
  have go: "share_peer_keys st c (p # ps) = share_peer_keys ?st c ps" by (simp add: share_peer_keys_def)
  show ?case
  proof (cases "cred_identity (st ! p) = i")
    case False
    then have "map_of (cred_peer_secrets (?st ! c)) i = map_of (cred_peer_secrets (st ! c)) i"
      unfolding one by simp
    with IH False show ?thesis by (simp only: go find.simps if_False)
  next
    case True
    show ?thesis
    proof (cases "List.find (\<lambda>q. cred_identity (st ! q) = i) ps")
      case None
      with IH one True show ?thesis unfolding go by simp
    next
      case (Some q)
      then have q: "q \<in> set (p # ps)" "cred_identity (st ! q) = i" by (auto simp: find_Some_iff)
      have lam: "cred_lam (st ! q) = cred_lam (st ! p)"
        using Cons.prems(2) [rule_format, OF q(1), of p] q(2) True by simp
      have "map_of (cred_peer_secrets (share_peer_keys ?st c ps ! c)) i =
        (if i = cred_identity (st ! c) then map_of (cred_peer_secrets (st ! c)) i else Some (cred_lam (st ! p)))"
        unfolding IH Some option.case one lam using True by auto
      then show ?thesis unfolding go using True by (simp only: find.simps simp_thms if_True option.case)
    qed
  qed
qed

text \<open>After mutual sharing every member of the group knows every other member's secret.\<close>

lemma share_mutual_knows:
  assumes "\<forall>x \<in> set cs. x < length st" "\<forall>x \<in> set ds. x < length st" "distinct (map cred_identity st)"
    and "distinct cs" "c \<in> set cs" "d \<in> set ds" "c \<noteq> d"
  shows "map_of (cred_peer_secrets (foldl (\<lambda>s c. share_peer_keys s c
            (filter (\<lambda>x. cred_identity (s ! x) \<noteq> cred_identity (s ! c)) ds)) st cs ! c)) (cred_identity (st ! d))
         = Some (cred_lam (st ! d))"
  using assms(1-5)
proof (induction cs arbitrary: st)
  case Nil
  then show ?case by simp
next
  case (Cons x cs)
  let ?f = "\<lambda>s c. share_peer_keys s c (filter (\<lambda>x. cred_identity (s ! x) \<noteq> cred_identity (s ! c)) ds)"
  have ids: "map cred_identity (?f st x) = map cred_identity st"
    by (rule nth_equalityI) simp_all
  have inj: "cred_identity (st ! a) = cred_identity (st ! b) \<longleftrightarrow> a = b" if "a < length st" "b < length st" for a b
    using Cons.prems(3) that by (metis length_map nth_eq_iff_index_eq nth_map)
  show ?case
  proof (cases "c = x")
    case False
    then have "c \<in> set cs" using Cons.prems(5) by simp
    with Cons.IH [of "?f st x"] Cons.prems ids show ?thesis by simp
  next
    case True
    have keep: "foldl ?f s cs ! c = s ! c" if "c \<notin> set cs" for s
      using that by (induction cs arbitrary: s) (simp_all add: share_peer_keys_other)
    have dl: "d < length st" "c < length st" using assms(6) Cons.prems(1,2,5) by auto
    let ?ps = "filter (\<lambda>x. cred_identity (st ! x) \<noteq> cred_identity (st ! c)) ds"
    have "List.find (\<lambda>p. cred_identity (st ! p) = cred_identity (st ! d)) ?ps = Some d"
    proof (rule find_unique)
      show "d \<in> set ?ps" using assms(6,7) inj [OF dl] by auto
      show "\<forall>y \<in> set ?ps. cred_identity (st ! y) = cred_identity (st ! d) \<longrightarrow> y = d"
        using Cons.prems(2) inj dl by auto
    qed simp
    then have "map_of (cred_peer_secrets (?f st c ! c)) (cred_identity (st ! d)) = Some (cred_lam (st ! d))"
      using inj dl assms(7) Cons.prems(2) by (subst share_peer_keys_map) auto
    with keep [of "?f st x"] Cons.prems(4) True show ?thesis by simp
  qed
qed

section \<open>Every history of an authority\<close>

inductive ta_reach :: "prims \<Rightarrow> bytes \<Rightarrow> trusted_authority \<Rightarrow> cred_store \<Rightarrow> bool" for P s where
  ta_start: "ta_master_secret ta = s \<Longrightarrow> ta_registry ta = [] \<Longrightarrow> ta_reach P s ta []"
| ta_enroll: "ta_reach P s ta st \<Longrightarrow> enroll P ta st i role ex = (res, ta', st') \<Longrightarrow> ta_reach P s ta' st'"
| ta_batch: "ta_reach P s ta st \<Longrightarrow> enroll_batch P es [] ta st = (bres, ta', st') \<Longrightarrow> ta_reach P s ta' st'"
| ta_share: "ta_reach P s ta st \<Longrightarrow> c < length st \<Longrightarrow> \<forall>p \<in> set ps. p < length st \<Longrightarrow>
     ta_reach P s ta (share_peer_keys st c ps)"
| ta_mutual: "ta_reach P s ta st \<Longrightarrow> \<forall>c \<in> set cs. c < length st \<Longrightarrow> ta_reach P s ta (share_mutual_peer_keys st cs)"

lemma ta_reach_ok: "ta_reach P s ta st \<Longrightarrow> ta_ok P ta st \<and> ta_master_secret ta = s"
proof (induction rule: ta_reach.induct)
  case (ta_start ta)
  then show ?case by (simp add: ta_ok_def)
next
  case (ta_enroll ta st i role ex res ta' st')
  then show ?case using enroll_ok by blast
next
  case (ta_batch ta st es bres ta' st')
  then show ?case using enroll_batch_ok by blast
next
  case (ta_share ta st c ps)
  then show ?case using share_peer_keys_ok by blast
next
  case (ta_mutual ta st cs)
  then show ?case by (simp add: share_mutual_peer_keys_def share_mutual_ok)
qed

end
