(* ===== verification/Entity.thy ===== *)
theory Entity
  imports TrustedAuthority
begin

text \<open>
  \<^verbatim>\<open>protocol/entity.py\<close>: what devices and servers share.  The pairwise root of Eq. 9 and the session key
  of Eq. 16, the root cache, and the coverage predicate.  The cache is a map; the predicate is the
  function currently installed.
\<close>

definition INFO_PAIRWISE_ROOT :: bytes where
  "INFO_PAIRWISE_ROOT = map word_of_nat (lit ''hybrid-ecc-auth/pairwise-root/v1'')"

definition INFO_SESSION_KEY :: bytes where
  "INFO_SESSION_KEY = map word_of_nat (lit ''hybrid-ecc-auth/session-key/v1'')"

definition derive_pairwise_root :: "prims \<Rightarrow> int \<Rightarrow> int \<Rightarrow> exn + bytes" where
  "derive_pairwise_root P lam_device lam_server =
     (case int_to_bytes 32 lam_device of
        Inl x \<Rightarrow> Inl x
      | Inr d \<Rightarrow> (case int_to_bytes 32 lam_server of
          Inl x \<Rightarrow> Inl x
        | Inr s \<Rightarrow> Inr (kdf P (d @ s) INFO_PAIRWISE_ROOT None 32)))"

definition derive_session_key :: "prims \<Rightarrow> bytes \<Rightarrow> bytes \<Rightarrow> bytes \<Rightarrow> int \<Rightarrow> exn + bytes" where
  "derive_session_key P k_star n_i n_j epoch =
     (case int_to_bytes 8 epoch of
        Inl x \<Rightarrow> Inl x
      | Inr epoch_bytes \<Rightarrow> Inr (kdf P (k_star @ n_i @ n_j @ epoch_bytes) INFO_SESSION_KEY None 32))"

record entity =
  ent_credential :: credential
  ent_coverage_predicate :: "pystr \<Rightarrow> bool"
  ent_root_cache :: "pystr \<rightharpoonup> bytes"

text \<open>\<^verbatim>\<open>coverage_predicate or (lambda peer_identity: True)\<close>\<close>

definition coverage_or_default :: "(pystr \<Rightarrow> bool) option \<Rightarrow> pystr \<Rightarrow> bool" where
  "coverage_or_default cov = (case cov of Some f \<Rightarrow> f | None \<Rightarrow> (\<lambda>_. True))"

definition get_pairwise_root :: "prims \<Rightarrow> pystr \<Rightarrow> 'a entity_scheme \<Rightarrow> (exn + bytes) \<times> 'a entity_scheme" where
  "get_pairwise_root P peer_identity ent =
     (case ent_root_cache ent peer_identity of
        Some cached \<Rightarrow> (Inr cached, ent)
      | None \<Rightarrow>
          (case map_of (cred_peer_secrets (ent_credential ent)) peer_identity of
             None \<Rightarrow> (Inl KeyError, ent)
           | Some peer_lam \<Rightarrow>
               (case (if cred_role (ent_credential ent) = lit ''device''
                      then derive_pairwise_root P (cred_lam (ent_credential ent)) peer_lam
                      else derive_pairwise_root P peer_lam (cred_lam (ent_credential ent))) of
                  Inl x \<Rightarrow> (Inl x, ent)
                | Inr k \<Rightarrow> (Inr k, ent\<lparr>ent_root_cache := (ent_root_cache ent)(peer_identity \<mapsto> k)\<rparr>))))"

definition invalidate_pairwise_root :: "pystr option \<Rightarrow> 'a entity_scheme \<Rightarrow> 'a entity_scheme" where
  "invalidate_pairwise_root peer_identity ent =
     (case peer_identity of
        None \<Rightarrow> ent\<lparr>ent_root_cache := Map.empty\<rparr>
      | Some p \<Rightarrow> ent\<lparr>ent_root_cache := (ent_root_cache ent)(p := None)\<rparr>)"

definition coverage_ok :: "'a entity_scheme \<Rightarrow> pystr \<Rightarrow> bool" where
  "coverage_ok ent peer_identity = ent_coverage_predicate ent peer_identity"

definition access_control_gate :: "'a entity_scheme \<Rightarrow> pystr \<Rightarrow> bool \<Rightarrow> bool" where
  "access_control_gate ent peer_identity auth_ok \<longleftrightarrow> coverage_ok ent peer_identity \<and> auth_ok"

text \<open>\<^verbatim>\<open>protocol/rekey.py\<close> (Eq. 24) is a stub that always raises.\<close>

definition rekey :: "exn + unit" where
  "rekey = Inl NotImplementedError"

section \<open>The root an entity uses for a peer\<close>

text \<open>
  The specification of the cache: with or without it, the root for a peer is Eq. 9 of the two
  secrets, device first.  \<open>cache_ok\<close> says that the cache holds nothing else.
\<close>

definition pairwise_root :: "prims \<Rightarrow> int \<Rightarrow> int \<Rightarrow> bytes" where
  "pairwise_root P lam_device lam_server =
     p_hkdf P (be_bytes 32 (nat lam_device) @ be_bytes 32 (nat lam_server)) None INFO_PAIRWISE_ROOT 32"

definition session_key :: "prims \<Rightarrow> bytes \<Rightarrow> bytes \<Rightarrow> bytes \<Rightarrow> int \<Rightarrow> bytes" where
  "session_key P k n_i n_j epoch = p_hkdf P (k @ n_i @ n_j @ be_bytes 8 (nat epoch)) None INFO_SESSION_KEY 32"

definition root_of :: "prims \<Rightarrow> credential \<Rightarrow> pystr \<Rightarrow> exn + bytes" where
  "root_of P c p = (case map_of (cred_peer_secrets c) p of
      None \<Rightarrow> Inl KeyError
    | Some lam \<Rightarrow> if cred_role c = lit ''device'' then derive_pairwise_root P (cred_lam c) lam
                  else derive_pairwise_root P lam (cred_lam c))"

definition cache_ok :: "prims \<Rightarrow> 'a entity_scheme \<Rightarrow> bool" where
  "cache_ok P ent \<longleftrightarrow> (\<forall>p k. ent_root_cache ent p = Some k \<longrightarrow> root_of P (ent_credential ent) p = Inr k)"

lemma derive_pairwise_root_valid:
  "valid_lam d \<Longrightarrow> valid_lam s \<Longrightarrow> derive_pairwise_root P d s = Inr (pairwise_root P d s)"
  by (simp add: derive_pairwise_root_def int_to_bytes_def valid_lam_def kdf_def pairwise_root_def)

lemma derive_pairwise_root_Inr:
  "derive_pairwise_root P d s = Inr k \<longleftrightarrow> valid_lam d \<and> valid_lam s \<and> k = pairwise_root P d s"
  by (auto simp: derive_pairwise_root_def int_to_bytes_def valid_lam_def kdf_def pairwise_root_def)

lemma derive_session_key_valid: "valid_epoch t \<Longrightarrow> derive_session_key P k a b t = Inr (session_key P k a b t)"
  by (simp add: derive_session_key_def int_to_bytes_def valid_epoch_def kdf_def session_key_def)

lemma derive_session_key_Inr:
  "derive_session_key P k a b t = Inr x \<longleftrightarrow> valid_epoch t \<and> x = session_key P k a b t"
  by (auto simp: derive_session_key_def int_to_bytes_def valid_epoch_def kdf_def session_key_def)

lemma pairwise_root_length: "hkdf_ok P \<Longrightarrow> length (pairwise_root P d s) = KEY_LEN"
  by (simp add: pairwise_root_def hkdf_ok_def KEY_LEN_def)

lemma session_key_length: "hkdf_ok P \<Longrightarrow> length (session_key P k a b t) = KEY_LEN"
  by (simp add: session_key_def hkdf_ok_def KEY_LEN_def)

lemma get_pairwise_root_eq:
  assumes "cache_ok P ent"
  shows "fst (get_pairwise_root P p ent) = root_of P (ent_credential ent) p"
  using assms
  by (auto simp: get_pairwise_root_def root_of_def cache_ok_def split: option.splits sum.splits if_splits)

lemma get_pairwise_root_state:
  "snd (get_pairwise_root P p ent) = ent \<or>
   (\<exists>k. root_of P (ent_credential ent) p = Inr k \<and>
        snd (get_pairwise_root P p ent) = ent\<lparr>ent_root_cache := (ent_root_cache ent)(p \<mapsto> k)\<rparr>)"
  by (auto simp: get_pairwise_root_def root_of_def split: option.splits sum.splits)

lemma get_pairwise_root_cache_ok: "cache_ok P ent \<Longrightarrow> cache_ok P (snd (get_pairwise_root P p ent))"
  using get_pairwise_root_state [of P p ent] by (auto simp: cache_ok_def split: if_splits)

lemma get_pairwise_root_fields [simp]:
  "ent_credential (snd (get_pairwise_root P p ent)) = ent_credential ent"
  "ent_coverage_predicate (snd (get_pairwise_root P p ent)) = ent_coverage_predicate ent"
  "entity.more (snd (get_pairwise_root P p ent)) = entity.more ent"
  using get_pairwise_root_state [of P p ent] by auto

lemma cache_ok_invalidate: "cache_ok P ent \<Longrightarrow> cache_ok P (invalidate_pairwise_root q ent)"
  by (auto simp: cache_ok_def invalidate_pairwise_root_def split: option.splits if_splits)

lemma invalidate_fields [simp]:
  "ent_credential (invalidate_pairwise_root q ent) = ent_credential ent"
  "ent_coverage_predicate (invalidate_pairwise_root q ent) = ent_coverage_predicate ent"
  "entity.more (invalidate_pairwise_root q ent) = entity.more ent"
  by (auto simp: invalidate_pairwise_root_def split: option.splits)

text \<open>Both sides compute one root from each other's secret (Eq. 9).\<close>

lemma roots_agree:
  assumes "cred_role d = lit ''device''" "cred_role s = lit ''server''"
    and "map_of (cred_peer_secrets d) (cred_identity s) = Some (cred_lam s)"
    and "map_of (cred_peer_secrets s) (cred_identity d) = Some (cred_lam d)"
  shows "root_of P d (cred_identity s) = derive_pairwise_root P (cred_lam d) (cred_lam s)"
    and "root_of P s (cred_identity d) = derive_pairwise_root P (cred_lam d) (cred_lam s)"
  using assms by (simp_all add: root_of_def)

end
