(* ===== verification/Base64.thy ===== *)
theory Base64
  imports Pybytes
begin

text \<open>
  \<^verbatim>\<open>_b64\<close> and \<^verbatim>\<open>_unb64\<close> of \<^verbatim>\<open>protocol/messages.py\<close> with the standard-library codec they call.
  The decoder is the non-strict one (\<^verbatim>\<open>b64decode\<close> without \<^verbatim>\<open>validate\<close>): characters outside the
  alphabet are skipped, and reading stops at the padding that completes a group of four.
\<close>

definition b64_char :: "nat \<Rightarrow> nat" where
  "b64_char i =
     (if i < 26 then 65 + i else if i < 52 then 97 + (i - 26) else if i < 62 then 48 + (i - 52)
      else if i = 62 then 43 else 47)"

definition b64_val :: "nat \<Rightarrow> nat option" where
  "b64_val c =
     (if 65 \<le> c \<and> c \<le> 90 then Some (c - 65) else if 97 \<le> c \<and> c \<le> 122 then Some (c - 71)
      else if 48 \<le> c \<and> c \<le> 57 then Some (c + 4) else if c = 43 then Some 62
      else if c = 47 then Some 63 else None)"

definition pad :: nat where
  "pad = 61"

fun b64encode :: "bytes \<Rightarrow> pystr" where
  "b64encode [] = []"
| "b64encode [a] = [b64_char (unat a div 4), b64_char (unat a mod 4 * 16), pad, pad]"
| "b64encode [a, b] =
     [b64_char (unat a div 4), b64_char (unat a mod 4 * 16 + unat b div 16),
      b64_char (unat b mod 16 * 4), pad]"
| "b64encode (a # b # c # bs) =
     b64_char (unat a div 4) # b64_char (unat a mod 4 * 16 + unat b div 16)
     # b64_char (unat b mod 16 * 4 + unat c div 64) # b64_char (unat c mod 64) # b64encode bs"

text \<open>
  \<^verbatim>\<open>binascii.a2b_base64\<close>: \<open>q\<close> is the position in the group of four, \<open>l\<close> the bits left over from the
  previous character, \<open>p\<close> the padding characters seen since the last data character.
\<close>

fun a2b_base64 :: "nat \<Rightarrow> nat \<Rightarrow> nat \<Rightarrow> pystr \<Rightarrow> exn + bytes" where
  "a2b_base64 q l p [] = (if q = 0 then Inr [] else Inl ValueError)"
| "a2b_base64 q l p (c # cs) =
     (if c = pad then
        (if 2 \<le> q then (if 4 \<le> q + Suc p then Inr [] else a2b_base64 q l (Suc p) cs)
         else a2b_base64 q l p cs)
      else case b64_val c of
          None \<Rightarrow> a2b_base64 q l p cs
        | Some v \<Rightarrow>
            (if q = 0 then a2b_base64 1 v 0 cs
             else let (b, q', l') = (if q = 1 then (l * 4 + v div 16, 2, v mod 16)
                                     else if q = 2 then (l * 16 + v div 4, 3, v mod 4)
                                     else (l * 64 + v, 0, 0))
                  in case a2b_base64 q' l' 0 cs of
                       Inl e \<Rightarrow> Inl e
                     | Inr bs \<Rightarrow> Inr (word_of_nat b # bs)))"

definition b64 :: "bytes \<Rightarrow> pystr" where
  "b64 data = b64encode data"

definition unb64 :: "pystr \<Rightarrow> exn + bytes" where
  "unb64 s = (case ascii_encode s of Inl e \<Rightarrow> Inl e | Inr bs \<Rightarrow> a2b_base64 0 0 0 (map unat bs))"

lemma b64_val_char [simp]: "i < 64 \<Longrightarrow> b64_val (b64_char i) = Some i"
  by (auto simp: b64_char_def b64_val_def)

lemma b64_char_not_pad [simp]: "i < 64 \<Longrightarrow> b64_char i \<noteq> pad"
  by (auto simp: b64_char_def pad_def)

lemma b64_char_range: "i < 64 \<Longrightarrow> 43 \<le> b64_char i \<and> b64_char i < 123 \<and> b64_char i \<noteq> 92"
  by (auto simp: b64_char_def)

lemma unat_byte_bound: "unat (b :: byte) < 256"
  using unsigned_less [of b, where 'a = nat] by simp

lemma unat_byte_sixbits [simp]:
  "unat (a :: byte) div 4 < 64" "unat a mod 4 * 16 < 64" "unat a mod 4 * 16 + unat (b :: byte) div 16 < 64"
  "unat b mod 16 * 4 < 64" "unat b mod 16 * 4 + unat (c :: byte) div 64 < 64"
proof -
  have "unat a div 4 < 64" "unat b div 16 < 16" "unat c div 64 < 4"
    using unat_byte_bound [of a] unat_byte_bound [of b] unat_byte_bound [of c]
    by (simp_all add: less_mult_imp_div_less)
  moreover have "unat a mod 4 < 4" "unat b mod 16 < 16" by simp_all
  ultimately show "unat a div 4 < 64" "unat a mod 4 * 16 < 64" "unat a mod 4 * 16 + unat b div 16 < 64"
    "unat b mod 16 * 4 < 64" "unat b mod 16 * 4 + unat c div 64 < 64"
    by linarith+
qed

lemma word_of_unat_parts:
  "word_of_nat (unat (a :: byte) div 4 * 4 + unat a mod 4) = a"
  "word_of_nat (unat a div 16 * 16 + unat a mod 16) = a"
  "word_of_nat (unat a div 64 * 64 + unat a mod 64) = a"
  by simp_all

lemma group_parts:
  assumes "y < n" "0 < n"
  shows "(x * n + y) div n = (x::nat)" "(x * n + y) mod n = y"
  using assms by simp_all

lemma a2b_group2:
  "a2b_base64 0 0 0 (b64_char (unat a div 4) # b64_char (unat a mod 4 * 16 + unat b div 16) # cs)
     = (case a2b_base64 2 (unat (b :: byte) div 16) 0 cs of Inl e \<Rightarrow> Inl e | Inr bs \<Rightarrow> Inr ((a :: byte) # bs))"
proof -
  have y: "unat b div 16 < 16"
    using unat_byte_bound [of b] by (simp add: less_mult_imp_div_less)
  show ?thesis
    by (simp add: y group_parts [OF y] word_of_unat_parts del: of_nat_add of_nat_mult split: sum.split)
qed

lemma a2b_group3:
  "a2b_base64 2 (unat b div 16) 0 (b64_char (unat b mod 16 * 4 + unat (c :: byte) div 64) # cs)
     = (case a2b_base64 3 (unat c div 64) 0 cs of Inl e \<Rightarrow> Inl e | Inr bs \<Rightarrow> Inr ((b :: byte) # bs))"
proof -
  have y: "unat c div 64 < 4"
    using unat_byte_bound [of c] by (simp add: less_mult_imp_div_less)
  show ?thesis
    by (simp add: y group_parts [OF y] word_of_unat_parts del: of_nat_add of_nat_mult split: sum.split)
qed

lemma a2b_group4:
  "a2b_base64 3 (unat c div 64) 0 (b64_char (unat c mod 64) # cs)
     = (case a2b_base64 0 0 0 cs of Inl e \<Rightarrow> Inl e | Inr bs \<Rightarrow> Inr ((c :: byte) # bs))"
  by (simp add: word_of_unat_parts del: of_nat_add of_nat_mult split: sum.split)

lemma a2b_pad: "a2b_base64 2 l 0 (pad # pad # cs) = Inr []" "a2b_base64 3 l 0 (pad # cs) = Inr []"
  by simp_all

lemmas a2b_groups = a2b_group2 a2b_group3 a2b_group4

lemma a2b_b64encode: "a2b_base64 0 0 0 (b64encode bs) = Inr bs"
proof (induction bs rule: b64encode.induct)
  case 1
  then show ?case by simp
next
  case (2 a)
  show ?case
    using a2b_group2 [of a "0 :: byte" "[pad, pad]"]
    by (simp del: a2b_base64.simps add: a2b_pad)
next
  case (3 a b)
  show ?case
    using a2b_group2 [of a b "[b64_char (unat b mod 16 * 4), pad]"]
      a2b_group3 [of b "0 :: byte" "[pad]"]
    by (simp del: a2b_base64.simps add: a2b_pad)
next
  case (4 a b c bs)
  then show ?case
    by (simp only: b64encode.simps a2b_groups sum.case)
qed

lemma b64encode_chars: "x \<in> set (b64encode bs) \<Longrightarrow> 43 \<le> x \<and> x < 123 \<and> x \<noteq> 92"
proof (induction bs rule: b64encode.induct)
  case (4 a b c bs)
  then show ?case using b64_char_range by (auto simp del: mod_less)
qed (use b64_char_range in \<open>auto simp: pad_def\<close>)

lemma b64encode_ascii: "is_ascii (b64encode bs)"
  using b64encode_chars by (fastforce simp: is_ascii_def)

lemma unb64_b64 [simp, codec_simps]: "unb64 (b64 data) = Inr data"
proof -
  have "map (unat \<circ> (word_of_nat :: nat \<Rightarrow> byte)) (b64encode data) = b64encode data"
    using b64encode_chars by (intro map_idI) (fastforce simp: unat_byte_of_nat)
  then show ?thesis
    by (simp add: unb64_def b64_def ascii_encode_def b64encode_ascii a2b_b64encode)
qed

interpretation base64: codec "\<lambda>_. True" b64 unb64
  by unfold_locales simp

lemma length_b64encode: "length (b64encode bs) = (length bs + 2) div 3 * 4"
proof (induction bs rule: b64encode.induct)
  case (4 a b c bs)
  have "(length (a # b # c # bs) + 2) div 3 = Suc ((length bs + 2) div 3)" by simp
  with 4 show ?case by (simp only: b64encode.simps list.size mult_Suc)
qed simp_all

end
