(* ===== verification/Json.thy ===== *)
theory Json
  imports Pybytes
begin

text \<open>
  \<^verbatim>\<open>json.dumps\<close> and \<^verbatim>\<open>json.loads\<close> as the program uses them.  A value read from the wire can be any
  JSON value, so the reader covers the whole grammar (white space, escapes, surrogate pairs,
  repeated keys, the \<^verbatim>\<open>NaN\<close> and \<^verbatim>\<open>Infinity\<close> extensions and the 4300-digit limit of \<^verbatim>\<open>int\<close>); every
  parse failure is a \<^verbatim>\<open>ValueError\<close>.  A number with a fraction or an exponent keeps its literal, since
  no modelled code computes with one or writes one.  The writer is \<^verbatim>\<open>ensure_ascii\<close>; its argument \<open>sp\<close>
  is what follows a comma or a colon: a space for the default separators, nothing for
  \<^verbatim>\<open>separators=(",", ":")\<close>.
\<close>

datatype json =
    JNull
  | JBool bool
  | JInt int
  | JFloat pystr
  | JNan
  | JStr pystr
  | JList "json list"
  | JDict "(pystr \<times> json) list"

section \<open>Writing\<close>

definition hex_digit :: "nat \<Rightarrow> nat" where
  "hex_digit d = (if d < 10 then 48 + d else 87 + d)"

definition unicode_escape :: "nat \<Rightarrow> pystr" where
  "unicode_escape u =
     [92, 117, hex_digit (u div 4096 mod 16), hex_digit (u div 256 mod 16), hex_digit (u div 16 mod 16),
      hex_digit (u mod 16)]"

definition escape_char :: "nat \<Rightarrow> pystr" where
  "escape_char c =
     (if c = 34 then [92, 34] else if c = 92 then [92, 92] else if c = 10 then [92, 110]
      else if c = 13 then [92, 114] else if c = 9 then [92, 116] else if c = 12 then [92, 102]
      else if c = 8 then [92, 98] else if 32 \<le> c \<and> c \<le> 126 then [c]
      else if c < 0x10000 then unicode_escape c
      else unicode_escape (0xD800 + (c - 0x10000) div 1024)
           @ unicode_escape (0xDC00 + (c - 0x10000) mod 1024))"

definition quote_str :: "pystr \<Rightarrow> pystr" where
  "quote_str s = 34 # concat (map escape_char s) @ [34]"

fun nat_digits :: "nat \<Rightarrow> pystr" where
  "nat_digits n = (if n < 10 then [48 + n] else nat_digits (n div 10) @ [48 + n mod 10])"

declare nat_digits.simps [simp del]

definition int_repr :: "int \<Rightarrow> pystr" where
  "int_repr i = (if i < 0 then 45 # nat_digits (nat (- i)) else nat_digits (nat i))"

fun json_dumps :: "pystr \<Rightarrow> json \<Rightarrow> pystr"
  and dump_items :: "pystr \<Rightarrow> json list \<Rightarrow> pystr"
  and dump_members :: "pystr \<Rightarrow> (pystr \<times> json) list \<Rightarrow> pystr" where
  "json_dumps sp JNull = lit ''null''"
| "json_dumps sp (JBool b) = (if b then lit ''true'' else lit ''false'')"
| "json_dumps sp (JInt i) = int_repr i"
| "json_dumps sp (JFloat l) = l"
| "json_dumps sp JNan = lit ''NaN''"
| "json_dumps sp (JStr s) = quote_str s"
| "json_dumps sp (JList vs) = 91 # dump_items sp vs"
| "json_dumps sp (JDict ms) = 123 # dump_members sp ms"
| "dump_items sp [] = [93]"
| "dump_items sp [v] = json_dumps sp v @ [93]"
| "dump_items sp (v # w # vs) = json_dumps sp v @ 44 # sp @ dump_items sp (w # vs)"
| "dump_members sp [] = [125]"
| "dump_members sp [(k, v)] = quote_str k @ 58 # sp @ json_dumps sp v @ [125]"
| "dump_members sp ((k, v) # m # ms) =
     quote_str k @ 58 # sp @ json_dumps sp v @ 44 # sp @ dump_members sp (m # ms)"

section \<open>Reading\<close>

definition is_ws :: "nat \<Rightarrow> bool" where
  "is_ws c \<longleftrightarrow> c = 32 \<or> c = 9 \<or> c = 10 \<or> c = 13"

definition skip_ws :: "pystr \<Rightarrow> pystr" where
  "skip_ws s = dropWhile is_ws s"

definition is_digit :: "nat \<Rightarrow> bool" where
  "is_digit c \<longleftrightarrow> 48 \<le> c \<and> c \<le> 57"

definition hex_val :: "nat \<Rightarrow> nat option" where
  "hex_val c =
     (if 48 \<le> c \<and> c \<le> 57 then Some (c - 48) else if 97 \<le> c \<and> c \<le> 102 then Some (c - 87)
      else if 65 \<le> c \<and> c \<le> 70 then Some (c - 55) else None)"

definition take_hex4 :: "pystr \<Rightarrow> (nat \<times> pystr) option" where
  "take_hex4 s = (case s of
      a # b # c # d # r \<Rightarrow>
        (case (hex_val a, hex_val b, hex_val c, hex_val d) of
           (Some w, Some x, Some y, Some z) \<Rightarrow> Some (w * 4096 + x * 256 + y * 16 + z, r)
         | _ \<Rightarrow> None)
    | _ \<Rightarrow> None)"

text \<open>A high surrogate joins an escaped low surrogate that follows it; otherwise it stands alone.\<close>

definition join_surrogate :: "nat \<Rightarrow> pystr \<Rightarrow> nat \<times> pystr" where
  "join_surrogate u r =
     (if 0xD800 \<le> u \<and> u \<le> 0xDBFF then
        (case r of
           c # d # t \<Rightarrow>
             (if c = 92 \<and> d = 117 then
                (case take_hex4 t of
                   Some (v, t') \<Rightarrow>
                     (if 0xDC00 \<le> v \<and> v \<le> 0xDFFF
                      then (0x10000 + (u - 0xD800) * 1024 + (v - 0xDC00), t') else (u, r))
                 | None \<Rightarrow> (u, r))
              else (u, r))
         | _ \<Rightarrow> (u, r))
      else (u, r))"

definition simple_escape :: "nat \<Rightarrow> nat option" where
  "simple_escape e =
     (if e = 34 \<or> e = 92 \<or> e = 47 then Some e else if e = 98 then Some 8 else if e = 102 then Some 12
      else if e = 110 then Some 10 else if e = 114 then Some 13 else if e = 116 then Some 9 else None)"

lemma take_hex4_length: "take_hex4 s = Some (u, r) \<Longrightarrow> length r < length s"
  by (auto simp: take_hex4_def split: list.splits option.splits)

lemma join_surrogate_length: "length (snd (join_surrogate u r)) \<le> length r"
  by (auto simp: join_surrogate_def dest: take_hex4_length split: list.splits option.splits)

function parse_chars :: "pystr \<Rightarrow> (pystr \<times> pystr) option" where
  "parse_chars [] = None"
| "parse_chars (c # s) =
     (let ret = (\<lambda>x p. case p of None \<Rightarrow> None | Some (t, r) \<Rightarrow> Some (x # t, r)) in
      if c = 34 then Some ([], s)
      else if c = 92 then
        (case s of
           [] \<Rightarrow> None
         | e # s' \<Rightarrow>
             (if e = 117 then
                (case take_hex4 s' of
                   None \<Rightarrow> None
                 | Some (u, r) \<Rightarrow> ret (fst (join_surrogate u r)) (parse_chars (snd (join_surrogate u r))))
              else (case simple_escape e of None \<Rightarrow> None | Some x \<Rightarrow> ret x (parse_chars s'))))
      else if c < 32 then None
      else ret c (parse_chars s))"
  by pat_completeness auto
termination
  by (relation "measure length")
    (auto dest!: take_hex4_length intro: le_less_trans [OF join_surrogate_length])

declare parse_chars.simps(2) [simp del]

definition digits_val :: "pystr \<Rightarrow> nat" where
  "digits_val ds = foldl (\<lambda>a d. a * 10 + (d - 48)) 0 ds"

text \<open>\<^verbatim>\<open>(-?(?:0|[1-9]\d*))(\.\d+)?([eE][-+]?\d+)?\<close>: integer digits, then fraction, then exponent.\<close>

definition take_int_digits :: "pystr \<Rightarrow> pystr \<times> pystr" where
  "take_int_digits s = (case s of
      [] \<Rightarrow> ([], [])
    | d # r \<Rightarrow> if d = 48 then ([d], r) else (takeWhile is_digit s, dropWhile is_digit s))"

definition take_frac :: "pystr \<Rightarrow> pystr \<times> pystr" where
  "take_frac s = (case s of
      c # r \<Rightarrow> if c = 46 \<and> takeWhile is_digit r \<noteq> [] then (c # takeWhile is_digit r, dropWhile is_digit r)
               else ([], s)
    | [] \<Rightarrow> ([], []))"

definition take_exp :: "pystr \<Rightarrow> pystr \<times> pystr" where
  "take_exp s = (case s of
      c # r \<Rightarrow>
        (if c = 101 \<or> c = 69 then
           (let (sg, r') = (case r of d # t \<Rightarrow> if d = 43 \<or> d = 45 then ([d], t) else ([], r) | [] \<Rightarrow> ([], []))
            in if takeWhile is_digit r' \<noteq> [] then (c # sg @ takeWhile is_digit r', dropWhile is_digit r')
               else ([], s))
         else ([], s))
    | [] \<Rightarrow> ([], []))"

definition parse_number :: "pystr \<Rightarrow> (json \<times> pystr) option" where
  "parse_number s =
     (let (sg, s0) = (case s of c # r \<Rightarrow> if c = 45 then ([c], r) else ([], s) | [] \<Rightarrow> ([], []));
          (ds, s1) = take_int_digits s0; (fr, s2) = take_frac s1; (ex, s3) = take_exp s2
      in if ds = [] then None
         else if fr = [] \<and> ex = [] then
           (if 4300 < length ds then None
            else Some (JInt (if sg = [] then int (digits_val ds) else - int (digits_val ds)), s1))
         else Some (JFloat (sg @ ds @ fr @ ex), s3))"

fun strip_prefix :: "pystr \<Rightarrow> pystr \<Rightarrow> pystr option" where
  "strip_prefix [] s = Some s"
| "strip_prefix (p # ps) [] = None"
| "strip_prefix (p # ps) (c # s) = (if p = c then strip_prefix ps s else None)"

definition parse_word :: "pystr \<Rightarrow> (json \<times> pystr) option" where
  "parse_word s =
     (case strip_prefix (lit ''null'') s of Some r \<Rightarrow> Some (JNull, r) | None \<Rightarrow>
      case strip_prefix (lit ''true'') s of Some r \<Rightarrow> Some (JBool True, r) | None \<Rightarrow>
      case strip_prefix (lit ''false'') s of Some r \<Rightarrow> Some (JBool False, r) | None \<Rightarrow>
      case parse_number s of Some vr \<Rightarrow> Some vr | None \<Rightarrow>
      case strip_prefix (lit ''NaN'') s of Some r \<Rightarrow> Some (JNan, r) | None \<Rightarrow>
      case strip_prefix (lit ''Infinity'') s of Some r \<Rightarrow> Some (JNan, r) | None \<Rightarrow>
      case strip_prefix (lit ''-Infinity'') s of Some r \<Rightarrow> Some (JNan, r) | None \<Rightarrow> None)"

text \<open>Later pairs overwrite earlier ones and keep the first position, as building a \<^verbatim>\<open>dict\<close> does.\<close>

definition dict_of :: "(pystr \<times> json) list \<Rightarrow> (pystr \<times> json) list" where
  "dict_of ms = foldl (\<lambda>d (k, v). AList.update k v d) [] ms"

fun parse_value :: "nat \<Rightarrow> pystr \<Rightarrow> (json \<times> pystr) option"
  and parse_items :: "nat \<Rightarrow> pystr \<Rightarrow> (json list \<times> pystr) option"
  and parse_members :: "nat \<Rightarrow> pystr \<Rightarrow> ((pystr \<times> json) list \<times> pystr) option" where
  "parse_value 0 s = None"
| "parse_value (Suc n) [] = None"
| "parse_value (Suc n) (c # s) =
     (if c = 34 then (case parse_chars s of None \<Rightarrow> None | Some (t, r) \<Rightarrow> Some (JStr t, r))
      else if c = 123 then
        (case skip_ws s of
           [] \<Rightarrow> None
         | d # r \<Rightarrow>
             (if d = 125 then Some (JDict [], r)
              else case parse_members n (d # r) of
                     None \<Rightarrow> None
                   | Some (ms, r') \<Rightarrow> Some (JDict (dict_of ms), r')))
      else if c = 91 then
        (case skip_ws s of
           [] \<Rightarrow> None
         | d # r \<Rightarrow>
             (if d = 93 then Some (JList [], r)
              else case parse_items n (d # r) of
                     None \<Rightarrow> None
                   | Some (vs, r') \<Rightarrow> Some (JList vs, r')))
      else parse_word (c # s))"
| "parse_items 0 s = None"
| "parse_items (Suc n) s =
     (case parse_value n s of
        None \<Rightarrow> None
      | Some (v, r) \<Rightarrow>
          (case skip_ws r of
             [] \<Rightarrow> None
           | d # t \<Rightarrow>
               (if d = 93 then Some ([v], t)
                else if d = 44 then
                  (case parse_items n (skip_ws t) of None \<Rightarrow> None | Some (vs, r') \<Rightarrow> Some (v # vs, r'))
                else None)))"
| "parse_members 0 s = None"
| "parse_members (Suc n) [] = None"
| "parse_members (Suc n) (c # s) =
     (if c \<noteq> 34 then None
      else case parse_chars s of
        None \<Rightarrow> None
      | Some (k, r) \<Rightarrow>
          (case skip_ws r of
             [] \<Rightarrow> None
           | d # t \<Rightarrow>
               (if d \<noteq> 58 then None
                else case parse_value n (skip_ws t) of
                  None \<Rightarrow> None
                | Some (v, r2) \<Rightarrow>
                    (case skip_ws r2 of
                       [] \<Rightarrow> None
                     | e # t2 \<Rightarrow>
                         (if e = 125 then Some ([(k, v)], t2)
                          else if e = 44 then
                            (case parse_members n (skip_ws t2) of
                               None \<Rightarrow> None
                             | Some (ms, r') \<Rightarrow> Some ((k, v) # ms, r'))
                          else None)))))"

definition json_loads :: "pystr \<Rightarrow> exn + json" where
  "json_loads s =
     (case parse_value (2 * length s + 2) (skip_ws s) of
        None \<Rightarrow> Inl ValueError
      | Some (v, r) \<Rightarrow> if skip_ws r = [] then Inr v else Inl ValueError)"

end
