(* ===== verification/Json_Roundtrip.thy ===== *)
theory Json_Roundtrip
  imports Json
begin

text \<open>
  Reading back what \<open>json_dumps\<close> wrote gives the value, for every value made of the constructors the
  program writes: strings without surrogates, integers below the digit limit, dictionaries without
  repeated keys.  The lemmas go from the scanners up: hexadecimal escapes, strings, numbers, then
  values, with the fuel of the mutually recursive parser bounded by twice the length of the text.
\<close>

section \<open>Strings\<close>

lemma hex_val_digit [simp]: "d < 16 \<Longrightarrow> hex_val (hex_digit d) = Some d"
  by (auto simp: hex_val_def hex_digit_def)

lemma hex4_recombine:
  assumes "u < 65536"
  shows "u div 4096 mod 16 * 4096 + u div 256 mod 16 * 256 + u div 16 mod 16 * 16 + u mod 16 = (u::nat)"
proof -
  have a: "u div 16 = u div 256 * 16 + u div 16 mod 16" "u div 256 = u div 4096 * 16 + u div 256 mod 16"
    using div_mult_mod_eq [of "u div 16" 16] div_mult_mod_eq [of "u div 256" 16]
    by (simp_all flip: div_mult2_eq)
  have "u div 4096 < 16"
    using assms by (simp add: less_mult_imp_div_less)
  then have "u div 4096 mod 16 = u div 4096" by simp
  moreover have "u = u div 16 * 16 + u mod 16" by simp
  ultimately show ?thesis using a by linarith
qed

lemma hex4_recombine':
  assumes "u < 65536"
  shows "u div 4096 * 4096 + u div 256 mod 16 * 256 + u div 16 mod 16 * 16 + u mod 16 = (u::nat)"
  using hex4_recombine [OF assms] assms by (simp add: less_mult_imp_div_less)

lemma take_hex4_escape:
  "u < 65536 \<Longrightarrow> take_hex4 (hex_digit (u div 4096 mod 16) # hex_digit (u div 256 mod 16)
      # hex_digit (u div 16 mod 16) # hex_digit (u mod 16) # r) = Some (u, r)"
  by (simp add: take_hex4_def hex4_recombine hex4_recombine')

lemma parse_chars_unicode:
  assumes "u < 65536"
  shows "parse_chars (unicode_escape u @ s) =
     (case parse_chars (snd (join_surrogate u s)) of
        None \<Rightarrow> None | Some (t, r) \<Rightarrow> Some (fst (join_surrogate u s) # t, r))"
  using take_hex4_escape [OF assms] by (simp add: unicode_escape_def parse_chars.simps(2))

lemma parse_chars_escape:
  assumes "c < 0x110000" "\<not> (0xD800 \<le> c \<and> c \<le> 0xDFFF)"
  shows "parse_chars (escape_char c @ s) =
     (case parse_chars s of None \<Rightarrow> None | Some (t, r) \<Rightarrow> Some (c # t, r))"
proof (cases "c < 0x10000")
  case True
  have "\<not> (0xD800 \<le> c \<and> c \<le> 0xDBFF)" using assms(2) by auto
  then have "join_surrogate c s = (c, s)"
    unfolding join_surrogate_def by (rule if_not_P)
  with True show ?thesis
    by (auto simp: escape_char_def parse_chars_unicode)
      (simp_all add: parse_chars.simps(2) simple_escape_def split: option.split)
next
  case False
  define x where "x = c - 0x10000"
  from False assms have c: "c = 0x10000 + x" "x < 0x100000" by (auto simp: x_def)
  then have d: "x div 1024 < 1024" "x mod 1024 < 1024" "x div 1024 * 1024 + x mod 1024 = x"
    by (simp_all add: less_mult_imp_div_less)
  define h l where hl: "h = x div 1024" "l = x mod 1024"
  note d = d [folded hl]
  have hi: "join_surrogate (0xD800 + h) (unicode_escape (0xDC00 + l) @ s) = (c, s)"
    using d take_hex4_escape [of "0xDC00 + l" s] c
    by (simp add: join_surrogate_def unicode_escape_def)
  have "escape_char c = unicode_escape (0xD800 + h) @ unicode_escape (0xDC00 + l)"
    using False by (simp add: escape_char_def x_def hl)
  with hi d show ?thesis
    by (simp add: parse_chars_unicode split: option.split)
qed

lemma parse_chars_quoted:
  "valid_str s \<Longrightarrow> parse_chars (concat (map escape_char s) @ 34 # r) = Some (s, r)"
proof (induction s)
  case Nil
  show ?case by (simp add: parse_chars.simps(2))
next
  case (Cons c s)
  then show ?case by (simp add: valid_str_def parse_chars_escape)
qed

section \<open>Numbers\<close>

lemma nat_digits_set: "d \<in> set (nat_digits n) \<Longrightarrow> is_digit d"
  by (induction n rule: nat_digits.induct)
    (subst (asm) (2) nat_digits.simps, auto simp: is_digit_def split: if_splits)

lemma nat_digits_nonempty [simp]: "nat_digits n \<noteq> []"
  by (subst nat_digits.simps) simp

lemma nat_digits_hd_digit: "is_digit (hd (nat_digits n))"
  by (rule nat_digits_set, rule hd_in_set) simp

lemma digits_val_snoc: "digits_val (ds @ [d]) = digits_val ds * 10 + (d - 48)"
  by (simp add: digits_val_def)

lemma digits_val_nat_digits [simp]: "digits_val (nat_digits n) = n"
proof (induction n rule: nat_digits.induct)
  case (1 n)
  show ?case
  proof (cases "n < 10")
    case True
    then show ?thesis by (subst nat_digits.simps) (simp add: digits_val_def)
  next
    case False
    with 1 have "digits_val (nat_digits (n div 10)) = n div 10" by simp
    with False show ?thesis by (subst nat_digits.simps) (simp add: digits_val_snoc)
  qed
qed

lemma nat_digits_hd: "0 < n \<Longrightarrow> hd (nat_digits n) \<noteq> 48"
proof (induction n rule: nat_digits.induct)
  case (1 n)
  then show ?case by (subst nat_digits.simps) (auto simp: hd_append)
qed

definition num_stop :: "pystr \<Rightarrow> bool" where
  "num_stop r \<longleftrightarrow> (case r of [] \<Rightarrow> True | c # _ \<Rightarrow> \<not> is_digit c \<and> c \<noteq> 46 \<and> c \<noteq> 101 \<and> c \<noteq> 69)"

lemma take_int_digits_nat:
  assumes "num_stop r"
  shows "take_int_digits (nat_digits n @ r) = (nat_digits n, r)"
proof (cases "n = 0")
  case True
  then show ?thesis by (simp add: nat_digits.simps take_int_digits_def)
next
  case False
  then have "hd (nat_digits n) \<noteq> 48" by (simp add: nat_digits_hd)
  moreover have "takeWhile is_digit (nat_digits n @ r) = nat_digits n"
    "dropWhile is_digit (nat_digits n @ r) = r"
    using assms nat_digits_set [of _ n]
    by (cases r; simp add: num_stop_def takeWhile_append2 dropWhile_append2)+
  ultimately show ?thesis
    by (cases "nat_digits n") (simp_all add: take_int_digits_def)
qed

lemma take_frac_stop: "num_stop r \<Longrightarrow> take_frac r = ([], r)"
  by (cases r) (auto simp: num_stop_def take_frac_def)

lemma take_exp_stop: "num_stop r \<Longrightarrow> take_exp r = ([], r)"
  by (cases r) (auto simp: num_stop_def take_exp_def)

lemmas stops = take_int_digits_nat take_frac_stop take_exp_stop

lemma parse_number_int:
  assumes "length (nat_digits (nat \<bar>i\<bar>)) \<le> 4300" "num_stop r"
  shows "parse_number (int_repr i @ r) = Some (JInt i, r)"
proof (cases "i < 0")
  case True
  with assms show ?thesis
    by (simp add: int_repr_def parse_number_def stops)
next
  case False
  have "hd (nat_digits (nat i)) \<noteq> 45"
    using nat_digits_hd_digit [of "nat i"] by (auto simp: is_digit_def)
  then have "(case nat_digits (nat i) @ r of c # t \<Rightarrow> if c = 45 then ([c], t) else ([], nat_digits (nat i) @ r)
       | [] \<Rightarrow> ([], [])) = ([], nat_digits (nat i) @ r)"
    by (cases "nat_digits (nat i)") simp_all
  with False assms show ?thesis
    by (simp add: int_repr_def parse_number_def stops)
qed

lemma int_repr_hd:
  obtains c s where "int_repr i = c # s" "c = 45 \<or> is_digit c"
proof (cases "i < 0")
  case True
  then show ?thesis using that by (simp add: int_repr_def)
next
  case False
  then show ?thesis
    using that nat_digits_hd_digit [of "nat i"]
    by (cases "nat_digits (nat i)") (auto simp: int_repr_def)
qed

lemma parse_word_int:
  assumes "length (nat_digits (nat \<bar>i\<bar>)) \<le> 4300" "num_stop r"
  shows "parse_word (int_repr i @ r) = Some (JInt i, r)"
proof -
  obtain c s where c: "int_repr i = c # s" "c = 45 \<or> is_digit c" by (rule int_repr_hd)
  then have "c \<noteq> 110" "c \<noteq> 116" "c \<noteq> 102" by (auto simp: is_digit_def)
  with c parse_number_int [OF assms] show ?thesis
    by (simp add: parse_word_def)
qed

section \<open>Values\<close>

text \<open>The values the round trip covers.\<close>

fun json_ok :: "json \<Rightarrow> bool" where
  "json_ok (JInt i) \<longleftrightarrow> length (nat_digits (nat \<bar>i\<bar>)) \<le> 4300"
| "json_ok (JFloat _) \<longleftrightarrow> False"
| "json_ok JNan \<longleftrightarrow> False"
| "json_ok (JStr s) \<longleftrightarrow> valid_str s"
| "json_ok (JList vs) \<longleftrightarrow> (\<forall>v \<in> set vs. json_ok v)"
| "json_ok (JDict ms) \<longleftrightarrow> distinct (map fst ms) \<and> (\<forall>p \<in> set ms. valid_str (fst p) \<and> json_ok (snd p))"
| "json_ok _ \<longleftrightarrow> True"

lemma skip_ws_stop: "\<not> is_ws c \<Longrightarrow> skip_ws (c # s) = c # s"
  by (simp add: skip_ws_def)

lemma skip_ws_append: "\<forall>c \<in> set sp. is_ws c \<Longrightarrow> skip_ws (sp @ s) = skip_ws s"
  by (simp add: skip_ws_def dropWhile_append)

lemma not_ws_punct [simp]: "\<not> is_ws 34" "\<not> is_ws 44" "\<not> is_ws 58" "\<not> is_ws 91" "\<not> is_ws 93"
  "\<not> is_ws 123" "\<not> is_ws 125"
  by (simp_all add: is_ws_def)

lemma num_stop_punct [simp]: "num_stop (44 # s)" "num_stop (93 # s)" "num_stop (125 # s)" "num_stop []"
  by (simp_all add: num_stop_def is_digit_def)

lemma json_dumps_hd:
  assumes "json_ok v"
  obtains c s where "json_dumps sp v = c # s" "\<not> is_ws c" "c \<noteq> 93" "c \<noteq> 125"
proof (cases v)
  case (JInt i)
  obtain c s where "int_repr i = c # s" "c = 45 \<or> is_digit c" by (rule int_repr_hd)
  then show ?thesis using that JInt by (auto simp: is_ws_def is_digit_def)
next
  case (JBool b)
  then show ?thesis using that by (cases b) (auto simp: is_ws_def)
qed (use assms that in \<open>auto simp: is_ws_def quote_str_def split: if_splits\<close>)

lemma skip_ws_dumps: "json_ok v \<Longrightarrow> skip_ws (json_dumps sp v @ s) = json_dumps sp v @ s"
  by (metis append_Cons json_dumps_hd skip_ws_stop)

lemma dict_of_distinct:
  assumes "distinct (map fst ms)"
  shows "dict_of ms = ms"
proof -
  have upd: "k \<notin> fst ` set d \<Longrightarrow> AList.update k v d = d @ [(k, v)]" for k and v :: json and d
    by (induction d) auto
  have "distinct (map fst (d @ ms)) \<Longrightarrow> foldl (\<lambda>d (k, v). AList.update k v d) d ms = d @ ms" for d
  proof (induction ms arbitrary: d)
    case Nil
    then show ?case by simp
  next
    case (Cons m ms)
    obtain k v where m: "m = (k, v)" by (cases m)
    with Cons.prems have "k \<notin> fst ` set d" by force
    with m Cons.IH [of "d @ [(k, v)]"] Cons.prems show ?case by (simp add: upd)
  qed
  from this [of "[]"] assms show ?thesis by (simp add: dict_of_def)
qed

lemma dump_items_Cons:
  "dump_items sp (v # vs) = json_dumps sp v @ (if vs = [] then [93] else 44 # sp @ dump_items sp vs)"
  by (cases vs) simp_all

lemma dump_members_Cons:
  "dump_members sp ((k, v) # ms) = quote_str k @ 58 # sp @ json_dumps sp v @
     (if ms = [] then [125] else 44 # sp @ dump_members sp ms)"
  by (cases ms) simp_all

lemma parse_scalar:
  assumes "json_ok v" "num_stop r" "0 < n" "\<And>vs. v \<noteq> JList vs" "\<And>ms. v \<noteq> JDict ms"
  shows "parse_value n (json_dumps sp v @ r) = Some (v, r)"
proof -
  obtain m where n: "n = Suc m" using assms(3) by (cases n) auto
  show ?thesis
  proof (cases v)
    case (JInt i)
    obtain c s where c: "int_repr i = c # s" "c = 45 \<or> is_digit c" by (rule int_repr_hd)
    then have "c \<noteq> 34" "c \<noteq> 123" "c \<noteq> 91" by (auto simp: is_digit_def)
    with c n JInt assms parse_word_int [of i r] show ?thesis by simp
  next
    case (JStr s)
    with n assms parse_chars_quoted [of s r] show ?thesis by (simp add: quote_str_def)
  qed (use n assms in \<open>simp_all add: parse_word_def\<close>)
qed

lemma parse_dumps:
  "\<forall>c \<in> set sp. is_ws c \<Longrightarrow> json_ok v \<Longrightarrow> num_stop r \<Longrightarrow> 2 * length (json_dumps sp v) < n \<Longrightarrow>
     parse_value n (json_dumps sp v @ r) = Some (v, r)"
  "\<forall>c \<in> set sp. is_ws c \<Longrightarrow> \<forall>v \<in> set vs. json_ok v \<Longrightarrow> vs \<noteq> [] \<Longrightarrow> 2 * length (dump_items sp vs) \<le> n \<Longrightarrow>
     parse_items n (dump_items sp vs @ r) = Some (vs, r)"
  "\<forall>c \<in> set sp. is_ws c \<Longrightarrow> \<forall>p \<in> set ms. valid_str (fst p) \<and> json_ok (snd p) \<Longrightarrow> ms \<noteq> [] \<Longrightarrow>
     2 * length (dump_members sp ms) \<le> n \<Longrightarrow> parse_members n (dump_members sp ms @ r) = Some (ms, r)"
proof (induction sp v and sp vs and sp ms arbitrary: n r and n r and n r
    rule: json_dumps_dump_items_dump_members.induct)
  case (7 sp vs)
  then obtain m where n: "n = Suc m" by (cases n) auto
  show ?case
  proof (cases vs)
    case Nil
    with n show ?thesis by (simp add: skip_ws_stop)
  next
    case (Cons w ws)
    with "7.prems" have "skip_ws (dump_items sp vs @ r) = dump_items sp vs @ r"
      by (simp add: dump_items_Cons skip_ws_dumps)
    moreover obtain c s where "json_dumps sp w = c # s" "c \<noteq> 93"
      using Cons "7.prems" by (auto intro: json_dumps_hd)
    moreover have "parse_items m (dump_items sp vs @ r) = Some (vs, r)"
      using 7 n Cons by simp
    ultimately show ?thesis
      using n Cons by (simp add: dump_items_Cons)
  qed
next
  case (8 sp ms)
  then obtain m where n: "n = Suc m" by (cases n) auto
  show ?case
  proof (cases ms)
    case Nil
    with n show ?thesis by (simp add: skip_ws_stop)
  next
    case (Cons p ps)
    then obtain s where s: "dump_members sp ms = 34 # s"
      by (cases p) (auto simp: dump_members_Cons quote_str_def)
    have "parse_members m (dump_members sp ms @ r) = Some (ms, r)"
      using 8 n Cons by simp
    with n Cons s "8.prems" show ?thesis
      by (simp add: skip_ws_stop dict_of_distinct)
  qed
next
  case (10 sp v)
  then obtain m where n: "n = Suc m" by (cases n) auto
  with 10 have "parse_value m (json_dumps sp v @ 93 # r) = Some (v, 93 # r)" by simp
  with n show ?case by (simp add: skip_ws_stop)
next
  case (11 sp v w vs)
  then obtain m where n: "n = Suc m" by (cases n) auto
  with 11 have "parse_value m (json_dumps sp v @ 44 # sp @ dump_items sp (w # vs) @ r)
      = Some (v, 44 # sp @ dump_items sp (w # vs) @ r)"
    by simp
  moreover have "parse_items m (dump_items sp (w # vs) @ r) = Some (w # vs, r)"
    using 11 n by simp
  moreover have "skip_ws (sp @ dump_items sp (w # vs) @ r) = dump_items sp (w # vs) @ r"
    using "11.prems" by (simp add: skip_ws_append dump_items_Cons skip_ws_dumps)
  ultimately show ?case
    using n by (simp add: skip_ws_stop)
next
  case (13 sp k v)
  then obtain m where n: "n = Suc m" by (cases n) auto
  with 13 have "parse_value m (json_dumps sp v @ 125 # r) = Some (v, 125 # r)" by (simp add: quote_str_def)
  moreover have "parse_chars (concat (map escape_char k) @ 34 # 58 # sp @ json_dumps sp v @ 125 # r)
      = Some (k, 58 # sp @ json_dumps sp v @ 125 # r)"
    using "13.prems" by (simp add: parse_chars_quoted)
  ultimately show ?case
    using n "13.prems" by (simp add: quote_str_def skip_ws_stop skip_ws_append skip_ws_dumps)
next
  case (14 sp k v p ms)
  then obtain m where n: "n = Suc m" by (cases n) auto
  let ?rest = "dump_members sp (p # ms) @ r"
  have "parse_value m (json_dumps sp v @ 44 # sp @ ?rest) = Some (v, 44 # sp @ ?rest)"
    using 14 n by (simp add: quote_str_def)
  moreover have "parse_chars (concat (map escape_char k) @ 34 # 58 # sp @ json_dumps sp v @ 44 # sp @ ?rest)
      = Some (k, 58 # sp @ json_dumps sp v @ 44 # sp @ ?rest)"
    using "14.prems" by (simp add: parse_chars_quoted)
  moreover have "parse_members m ?rest = Some (p # ms, r)"
    using 14 n by (simp add: quote_str_def)
  moreover have "skip_ws (sp @ ?rest) = ?rest"
    using "14.prems" by (cases p) (simp add: skip_ws_append dump_members_Cons quote_str_def skip_ws_stop)
  ultimately show ?case
    using n "14.prems" by (simp add: quote_str_def skip_ws_stop skip_ws_append skip_ws_dumps)
qed (simp_all add: parse_scalar del: json_dumps.simps json_ok.simps)

theorem json_loads_dumps:
  assumes "\<forall>c \<in> set sp. is_ws c" "json_ok v"
  shows "json_loads (json_dumps sp v) = Inr v"
proof -
  have "skip_ws (json_dumps sp v) = json_dumps sp v"
    using skip_ws_dumps [OF assms(2), of sp "[]"] by simp
  with parse_dumps(1) [OF assms, of "[]"] show ?thesis
    by (simp add: json_loads_def skip_ws_def)
qed

interpretation json_compact: codec json_ok "json_dumps []" json_loads
  by unfold_locales (simp add: json_loads_dumps)

interpretation json_spaced: codec json_ok "json_dumps [32]" json_loads
  by unfold_locales (simp add: json_loads_dumps is_ws_def)

section \<open>The written text is ASCII\<close>

lemma hex_digit_ascii: "d < 16 \<Longrightarrow> hex_digit d < 128"
  by (simp add: hex_digit_def)

lemma escape_char_ascii: "is_ascii (escape_char c)"
  by (simp add: escape_char_def unicode_escape_def hex_digit_ascii)

lemma quote_str_ascii: "is_ascii (quote_str s)"
  by (induction s) (auto simp: quote_str_def escape_char_ascii)

lemma int_repr_ascii: "is_ascii (int_repr i)"
  using nat_digits_set by (fastforce simp: is_ascii_def int_repr_def is_digit_def)

lemma json_dumps_ascii:
  "json_ok v \<Longrightarrow> is_ascii sp \<Longrightarrow> is_ascii (json_dumps sp v)"
  "\<forall>v \<in> set vs. json_ok v \<Longrightarrow> is_ascii sp \<Longrightarrow> is_ascii (dump_items sp vs)"
  "\<forall>p \<in> set ms. json_ok (snd p) \<Longrightarrow> is_ascii sp \<Longrightarrow> is_ascii (dump_members sp ms)"
  by (induction sp v and sp vs and sp ms rule: json_dumps_dump_items_dump_members.induct)
    (simp_all add: quote_str_ascii int_repr_ascii)

lemma nat_digits_length: "n < 10 ^ k \<Longrightarrow> 0 < k \<Longrightarrow> length (nat_digits n) \<le> k"
proof (induction k arbitrary: n)
  case (Suc k)
  show ?case
  proof (cases "n < 10")
    case True
    then show ?thesis by (simp add: nat_digits.simps)
  next
    case False
    with Suc.prems have "n div 10 < 10 ^ k" by (simp add: less_mult_imp_div_less)
    moreover have "0 < k" using False Suc.prems(1) by (cases k) auto
    ultimately have "length (nat_digits (n div 10)) \<le> k" using Suc.IH by simp
    with False show ?thesis by (simp add: nat_digits.simps [of n])
  qed
qed simp

end
