(* ===== verification/Messages.thy ===== *)
theory Messages
  imports Base64 Json_Roundtrip
begin

text \<open>
  The wire format of the two protocol messages (\<^verbatim>\<open>protocol/messages.py\<close>): a message becomes a compact
  JSON object whose binary fields are Base64, and is read back with a type and version check.
  Every failure of the reader is a \<^verbatim>\<open>MessageFormatError\<close>, as the \<^verbatim>\<open>except Exception\<close> clauses make it.

  The reader stores \<^verbatim>\<open>payload["sid"]\<close> without checking that it is text, so the server field of a
  second message holds an arbitrary JSON value.
\<close>

definition PROTOCOL_VERSION :: int where
  "PROTOCOL_VERSION = 1"

record message1 =
  m1_pid :: bytes
  m1_gcm_nonce :: bytes
  m1_ciphertext :: bytes
  m1_tag :: bytes

record message2 =
  m2_server_id :: json
  m2_gcm_nonce :: bytes
  m2_ciphertext :: bytes
  m2_tag :: bytes

section \<open>Writing\<close>

definition message1_payload :: "message1 \<Rightarrow> json" where
  "message1_payload m = JDict
     [(lit ''v'', JInt PROTOCOL_VERSION), (lit ''type'', JStr (lit ''M1'')),
      (lit ''pid'', JStr (b64 (m1_pid m))), (lit ''nonce'', JStr (b64 (m1_gcm_nonce m))),
      (lit ''ct'', JStr (b64 (m1_ciphertext m))), (lit ''tag'', JStr (b64 (m1_tag m)))]"

definition message2_payload :: "message2 \<Rightarrow> json" where
  "message2_payload m = JDict
     [(lit ''v'', JInt PROTOCOL_VERSION), (lit ''type'', JStr (lit ''M2'')),
      (lit ''sid'', m2_server_id m), (lit ''nonce'', JStr (b64 (m2_gcm_nonce m))),
      (lit ''ct'', JStr (b64 (m2_ciphertext m))), (lit ''tag'', JStr (b64 (m2_tag m)))]"

text \<open>\<^verbatim>\<open>json.dumps(payload, separators=(",", ":")).encode("utf-8")\<close>\<close>

definition encode_payload :: "json \<Rightarrow> exn + bytes" where
  "encode_payload j = utf8_encode (json_dumps [] j)"

definition message1_to_bytes :: "message1 \<Rightarrow> exn + bytes" where
  "message1_to_bytes m = encode_payload (message1_payload m)"

definition message2_to_bytes :: "message2 \<Rightarrow> exn + bytes" where
  "message2_to_bytes m = encode_payload (message2_payload m)"

section \<open>Reading\<close>

text \<open>
  Python's \<^verbatim>\<open>==\<close> between a parsed value and the integer 1: \<^verbatim>\<open>True\<close> equals 1, and so does a float whose
  decimal literal rounds to the double 1.0, which are the reals from \<open>1 - 2\<^bsup>-54\<^esup>\<close> to \<open>1 + 2\<^bsup>-53\<^esup>\<close>.
\<close>

definition float_literal_value :: "pystr \<Rightarrow> rat" where
  "float_literal_value l =
     (let (sg, s0) = (case l of c # r \<Rightarrow> if c = 45 then (-1, r) else (1, l) | [] \<Rightarrow> (1, []));
          ds = takeWhile is_digit s0; s1 = dropWhile is_digit s0;
          fr = (case s1 of c # r \<Rightarrow> if c = 46 then takeWhile is_digit r else [] | [] \<Rightarrow> []);
          s2 = dropWhile (\<lambda>c. is_digit c \<or> c = 46) s1;
          ex = (case s2 of
                  c # d # r \<Rightarrow> if d = 45 then - int (digits_val r)
                               else if d = 43 then int (digits_val r) else int (digits_val (d # r))
                | _ \<Rightarrow> 0);
          m = sg * rat_of_nat (digits_val (ds @ fr)); e = ex - int (length fr)
      in if 0 \<le> e then m * 10 ^ nat e else m / 10 ^ nat (- e))"

definition equals_version :: "json \<Rightarrow> bool" where
  "equals_version v = (case v of
      JInt i \<Rightarrow> i = PROTOCOL_VERSION
    | JBool b \<Rightarrow> (if b then 1 else 0) = PROTOCOL_VERSION
    | JFloat l \<Rightarrow> (let q = float_literal_value l in 1 - 1 / 2 ^ 54 \<le> q \<and> q \<le> 1 + 1 / 2 ^ 53)
    | _ \<Rightarrow> False)"

text \<open>\<^verbatim>\<open>_unb64(payload[k])\<close>: the key must be there and its value must be text.\<close>

definition binary_field :: "(pystr \<times> json) list \<Rightarrow> string \<Rightarrow> exn + bytes" where
  "binary_field d k = (case map_of d (lit k) of
      None \<Rightarrow> Inl KeyError
    | Some (JStr s) \<Rightarrow> unb64 s
    | Some _ \<Rightarrow> Inl AttributeError)"

text \<open>The checks the two readers share: a JSON object with the right type and version.\<close>

definition open_payload :: "string \<Rightarrow> bytes \<Rightarrow> exn + (pystr \<times> json) list" where
  "open_payload ty data =
     (case utf8_decode data of
        Inl e \<Rightarrow> Inl MessageFormatError
      | Inr s \<Rightarrow> (case json_loads s of
          Inl e \<Rightarrow> Inl MessageFormatError
        | Inr (JDict d) \<Rightarrow>
            (if map_of d (lit ''type'') \<noteq> Some (JStr (lit ty)) then Inl MessageFormatError
             else case map_of d (lit ''v'') of
                    None \<Rightarrow> Inl MessageFormatError
                  | Some v \<Rightarrow> if \<not> equals_version v then Inl MessageFormatError else Inr d)
        | Inr _ \<Rightarrow> Inl MessageFormatError))"

definition message1_from_bytes :: "bytes \<Rightarrow> exn + message1" where
  "message1_from_bytes data =
     (case open_payload ''M1'' data of
        Inl e \<Rightarrow> Inl e
      | Inr d \<Rightarrow>
          (case (binary_field d ''pid'', binary_field d ''nonce'', binary_field d ''ct'', binary_field d ''tag'') of
             (Inr p, Inr n, Inr c, Inr t) \<Rightarrow>
               Inr \<lparr>m1_pid = p, m1_gcm_nonce = n, m1_ciphertext = c, m1_tag = t\<rparr>
           | _ \<Rightarrow> Inl MessageFormatError))"

definition message2_from_bytes :: "bytes \<Rightarrow> exn + message2" where
  "message2_from_bytes data =
     (case open_payload ''M2'' data of
        Inl e \<Rightarrow> Inl e
      | Inr d \<Rightarrow>
          (case (map_of d (lit ''sid''), binary_field d ''nonce'', binary_field d ''ct'', binary_field d ''tag'') of
             (Some i, Inr n, Inr c, Inr t) \<Rightarrow>
               Inr \<lparr>m2_server_id = i, m2_gcm_nonce = n, m2_ciphertext = c, m2_tag = t\<rparr>
           | _ \<Rightarrow> Inl MessageFormatError))"

text \<open>
  The text of the \<^verbatim>\<open>MessageFormatError\<close> that reading a first message raises.  It shows what came as the type
  or the version, or the exception that was wrapped.  \<open>py_repr\<close> is \<^verbatim>\<open>repr\<close> of a parsed value, \<open>raised\<close> the text of
  an exception of the library.
\<close>

definition dict_get :: "(pystr \<times> json) list \<Rightarrow> string \<Rightarrow> json" where
  "dict_get d k = (case map_of d (lit k) of None \<Rightarrow> JNull | Some v \<Rightarrow> v)"

definition message1_error_text :: "(json \<Rightarrow> pystr) \<Rightarrow> (exn \<Rightarrow> pystr) \<Rightarrow> bytes \<Rightarrow> pystr" where
  "message1_error_text py_repr raised data =
     (let malformed = (\<lambda>x. lit ''malformed M1 payload: '' @ raised x)
      in case utf8_decode data of
           Inl x \<Rightarrow> malformed x
         | Inr s \<Rightarrow>
             (case json_loads s of
                Inl x \<Rightarrow> malformed x
              | Inr (JDict d) \<Rightarrow>
                  (if dict_get d ''type'' \<noteq> JStr (lit ''M1'')
                   then lit ''expected type M1, got '' @ py_repr (dict_get d ''type'')
                   else if \<not> equals_version (dict_get d ''v'')
                   then lit ''unsupported protocol version '' @ py_repr (dict_get d ''v'')
                   else case map_raise (binary_field d) [''pid'', ''nonce'', ''ct'', ''tag''] of
                          Inl x \<Rightarrow> malformed x
                        | Inr _ \<Rightarrow> [])
              | Inr _ \<Rightarrow> malformed AttributeError))"

section \<open>Round trips\<close>

lemma encode_payload_ok:
  "json_ok j \<Longrightarrow> encode_payload j = Inr (map word_of_nat (json_dumps [] j))"
  by (simp add: encode_payload_def utf8_encode_ascii json_dumps_ascii)

lemma loads_of_encoded:
  assumes "json_ok j" "encode_payload j = Inr b"
  shows "\<exists>s. utf8_decode b = Inr s \<and> json_loads s = Inr j"
proof -
  have a: "is_ascii (json_dumps [] j)" by (simp add: json_dumps_ascii assms(1))
  have "utf8_encode (json_dumps [] j) = Inr b" using assms(2) by (simp add: encode_payload_def)
  then have "utf8_decode b = Inr (json_dumps [] j)"
    by (auto simp: utf8_encode_def utf8_decode_chars split: if_splits)
  with assms(1) show ?thesis by (auto intro: json_compact.dec_enc)
qed

lemma b64_valid [simp]: "valid_str (b64 x)"
  by (simp add: b64_def is_ascii_valid b64encode_ascii)

lemma version_digits [simp]: "length (nat_digits (nat \<bar>PROTOCOL_VERSION\<bar>)) \<le> 4300"
  by (simp add: PROTOCOL_VERSION_def nat_digits.simps)

lemma equals_version_1 [simp]: "equals_version (JInt PROTOCOL_VERSION)"
  by (simp add: equals_version_def)

lemma message1_payload_ok [simp]: "json_ok (message1_payload m)"
  by (simp add: message1_payload_def)

lemma message2_payload_ok [simp]: "json_ok (m2_server_id m) \<Longrightarrow> json_ok (message2_payload m)"
  by (simp add: message2_payload_def)

lemma message1_to_bytes_total: "\<exists>b. message1_to_bytes m = Inr b"
  by (simp add: message1_to_bytes_def encode_payload_ok)

lemma message1_from_to_bytes:
  assumes "message1_to_bytes m = Inr b"
  shows "message1_from_bytes b = Inr m"
proof -
  from assms obtain s where "utf8_decode b = Inr s" "json_loads s = Inr (message1_payload m)"
    using loads_of_encoded [OF message1_payload_ok] by (auto simp: message1_to_bytes_def)
  then show ?thesis
    by (simp add: message1_from_bytes_def open_payload_def message1_payload_def binary_field_def)
qed

lemma message2_from_to_bytes:
  assumes "json_ok (m2_server_id m)" "message2_to_bytes m = Inr b"
  shows "message2_from_bytes b = Inr m"
proof -
  from assms obtain s where "utf8_decode b = Inr s" "json_loads s = Inr (message2_payload m)"
    using loads_of_encoded [OF message2_payload_ok] by (auto simp: message2_to_bytes_def)
  then show ?thesis
    by (simp add: message2_from_bytes_def open_payload_def message2_payload_def binary_field_def)
qed

lemma message2_to_bytes_total: "json_ok (m2_server_id m) \<Longrightarrow> \<exists>b. message2_to_bytes m = Inr b"
  by (simp add: message2_to_bytes_def encode_payload_ok)

lemma message1_from_bytes_error: "message1_from_bytes b = Inl e \<Longrightarrow> e = MessageFormatError"
  by (auto simp: message1_from_bytes_def open_payload_def split: sum.splits json.splits option.splits if_splits)

lemma message2_from_bytes_error: "message2_from_bytes b = Inl e \<Longrightarrow> e = MessageFormatError"
  by (auto simp: message2_from_bytes_def open_payload_def split: sum.splits json.splits option.splits if_splits)

lemma message_kinds_disjoint: "message1_from_bytes b = Inr m \<Longrightarrow> message2_from_bytes b = Inl MessageFormatError"
  by (auto simp: message1_from_bytes_def message2_from_bytes_def open_payload_def
      split: sum.splits json.splits option.splits if_splits)

interpretation m1_wire: codec "\<lambda>_. True" "\<lambda>m. map word_of_nat (json_dumps [] (message1_payload m))"
    message1_from_bytes
  by unfold_locales (rule message1_from_to_bytes, simp add: message1_to_bytes_def encode_payload_ok)

interpretation m2_wire: codec "\<lambda>m. json_ok (m2_server_id m)"
    "\<lambda>m. map word_of_nat (json_dumps [] (message2_payload m))" message2_from_bytes
  by unfold_locales (rule message2_from_to_bytes, simp_all add: message2_to_bytes_def encode_payload_ok)

end
