(* ===== verification/SessionLog.thy ===== *)
theory SessionLog
  imports Errors
begin

text \<open>
  \<^verbatim>\<open>storage/session_log.py\<close>: the replay window and the block-list that a device and a server each keep.
  The three dictionaries are maps, the block-list is a set.  A subscribed callback is a number, and
  the calls the log makes are the list \<open>notified\<close>, oldest first; what a callback does with the
  notice is outside the log.
\<close>

record session_log =
  max_attempts :: int
  forward_tolerance :: int
  replay_lookback :: int
  last_accepted_epoch :: "pystr \<rightharpoonup> int"
  failed_attempts :: "pystr \<rightharpoonup> int"
  blocked :: "pystr set"
  block_listeners :: "nat list"
  notified :: "(nat \<times> pystr) list"

definition DEFAULT_MAX_ATTEMPTS :: int where
  "DEFAULT_MAX_ATTEMPTS = 3"

definition DEFAULT_FORWARD_TOLERANCE :: int where
  "DEFAULT_FORWARD_TOLERANCE = 8"

definition DEFAULT_REPLAY_LOOKBACK :: int where
  "DEFAULT_REPLAY_LOOKBACK = 16"

definition new_session_log :: "int \<Rightarrow> int \<Rightarrow> int \<Rightarrow> session_log" where
  "new_session_log m f l =
     \<lparr>max_attempts = m, forward_tolerance = f, replay_lookback = l, last_accepted_epoch = Map.empty,
      failed_attempts = Map.empty, blocked = {}, block_listeners = [], notified = []\<rparr>"

section \<open>Replay window\<close>

text \<open>\<^verbatim>\<open>self._last_accepted_epoch.get(peer, -1)\<close>\<close>

definition last_epoch :: "session_log \<Rightarrow> pystr \<Rightarrow> int" where
  "last_epoch sl peer = (case last_accepted_epoch sl peer of None \<Rightarrow> -1 | Some e \<Rightarrow> e)"

definition epoch_search_window :: "session_log \<Rightarrow> pystr \<Rightarrow> int list" where
  "epoch_search_window sl peer =
     (let last = last_epoch sl peer; lo = max 0 (last - replay_lookback sl);
          hi = last + forward_tolerance sl
      in [lo .. hi])"

definition is_stale_epoch :: "session_log \<Rightarrow> pystr \<Rightarrow> int \<Rightarrow> bool" where
  "is_stale_epoch sl peer epoch \<longleftrightarrow> epoch \<le> last_epoch sl peer"

definition accept_epoch :: "session_log \<Rightarrow> pystr \<Rightarrow> int \<Rightarrow> session_log" where
  "accept_epoch sl peer epoch =
     (if last_epoch sl peer < epoch
      then sl\<lparr>last_accepted_epoch := (last_accepted_epoch sl)(peer \<mapsto> epoch)\<rparr> else sl)"

section \<open>Block-list\<close>

definition is_blocked :: "session_log \<Rightarrow> pystr \<Rightarrow> bool" where
  "is_blocked sl peer \<longleftrightarrow> peer \<in> blocked sl"

definition block_peer :: "session_log \<Rightarrow> pystr \<Rightarrow> session_log" where
  "block_peer sl peer =
     (let newly = peer \<notin> blocked sl; sl' = sl\<lparr>blocked := insert peer (blocked sl)\<rparr>
      in if newly then sl'\<lparr>notified := notified sl' @ map (\<lambda>l. (l, peer)) (block_listeners sl')\<rparr>
         else sl')"

definition record_failure :: "session_log \<Rightarrow> pystr \<Rightarrow> bool \<times> session_log" where
  "record_failure sl peer =
     (if peer \<in> blocked sl then (True, sl)
      else let count = (case failed_attempts sl peer of None \<Rightarrow> 0 | Some c \<Rightarrow> c) + 1;
               sl' = sl\<lparr>failed_attempts := (failed_attempts sl)(peer \<mapsto> count)\<rparr>
           in if max_attempts sl \<le> count then (True, block_peer sl' peer) else (False, sl'))"

definition record_success :: "session_log \<Rightarrow> pystr \<Rightarrow> session_log" where
  "record_success sl peer = sl\<lparr>failed_attempts := (failed_attempts sl)(peer := None)\<rparr>"

definition subscribe_block :: "session_log \<Rightarrow> nat \<Rightarrow> session_log" where
  "subscribe_block sl callback = sl\<lparr>block_listeners := block_listeners sl @ [callback]\<rparr>"

section \<open>How each operation acts on each field\<close>

abbreviation fail :: "session_log \<Rightarrow> pystr \<Rightarrow> session_log" where
  "fail sl peer \<equiv> snd (record_failure sl peer)"

lemma block_peer_fields [simp, log_simps]:
  "max_attempts (block_peer sl p) = max_attempts sl"
  "forward_tolerance (block_peer sl p) = forward_tolerance sl"
  "replay_lookback (block_peer sl p) = replay_lookback sl"
  "last_accepted_epoch (block_peer sl p) = last_accepted_epoch sl"
  "failed_attempts (block_peer sl p) = failed_attempts sl"
  "blocked (block_peer sl p) = insert p (blocked sl)"
  "block_listeners (block_peer sl p) = block_listeners sl"
  by (simp_all add: block_peer_def Let_def)

lemma fail_fields [simp, log_simps]:
  "max_attempts (fail sl p) = max_attempts sl"
  "forward_tolerance (fail sl p) = forward_tolerance sl"
  "replay_lookback (fail sl p) = replay_lookback sl"
  "last_accepted_epoch (fail sl p) = last_accepted_epoch sl"
  "block_listeners (fail sl p) = block_listeners sl"
  by (simp_all add: record_failure_def Let_def)

lemma record_success_fields [simp, log_simps]:
  "max_attempts (record_success sl p) = max_attempts sl"
  "forward_tolerance (record_success sl p) = forward_tolerance sl"
  "replay_lookback (record_success sl p) = replay_lookback sl"
  "last_accepted_epoch (record_success sl p) = last_accepted_epoch sl"
  "failed_attempts (record_success sl p) = (failed_attempts sl)(p := None)"
  "blocked (record_success sl p) = blocked sl"
  "block_listeners (record_success sl p) = block_listeners sl"
  "notified (record_success sl p) = notified sl"
  by (simp_all add: record_success_def)

lemma accept_epoch_fields [simp, log_simps]:
  "max_attempts (accept_epoch sl p e) = max_attempts sl"
  "forward_tolerance (accept_epoch sl p e) = forward_tolerance sl"
  "replay_lookback (accept_epoch sl p e) = replay_lookback sl"
  "failed_attempts (accept_epoch sl p e) = failed_attempts sl"
  "blocked (accept_epoch sl p e) = blocked sl"
  "block_listeners (accept_epoch sl p e) = block_listeners sl"
  "notified (accept_epoch sl p e) = notified sl"
  by (simp_all add: accept_epoch_def)

lemma last_epoch_cong: "last_accepted_epoch a = last_accepted_epoch b \<Longrightarrow> last_epoch a = last_epoch b"
  by (rule ext) (simp add: last_epoch_def)

lemma last_epoch_ops [simp, log_simps]:
  "last_epoch (fail sl q) = last_epoch sl"
  "last_epoch (record_success sl q) = last_epoch sl"
  "last_epoch (block_peer sl q) = last_epoch sl"
  "last_epoch (subscribe_block sl l) = last_epoch sl"
  by (auto intro!: last_epoch_cong simp: subscribe_block_def)

lemma last_epoch_accept [simp, log_simps]:
  "last_epoch (accept_epoch sl p e) q = (if q = p then max e (last_epoch sl p) else last_epoch sl q)"
  by (auto simp: accept_epoch_def last_epoch_def)

lemma blocked_fail: "blocked sl \<subseteq> blocked (fail sl p)"
  by (auto simp: record_failure_def Let_def)

lemma fail_blocked: "p \<in> blocked sl \<Longrightarrow> fail sl p = sl"
  by (simp add: record_failure_def)

lemma window_mem:
  "e \<in> set (epoch_search_window sl p) \<longleftrightarrow>
     max 0 (last_epoch sl p - replay_lookback sl) \<le> e \<and> e \<le> last_epoch sl p + forward_tolerance sl"
  by (simp add: epoch_search_window_def Let_def)

lemma window_length:
  "length (epoch_search_window sl p) =
     nat (last_epoch sl p + forward_tolerance sl + 1 - max 0 (last_epoch sl p - replay_lookback sl))"
  by (simp add: epoch_search_window_def Let_def)

section \<open>Histories\<close>

text \<open>
  The abstract view: a log is the list of the calls made on it.  A peer is blocked when at some
  point it was blocked directly or its failures since its last success reached the limit; the
  last accepted epoch is the largest one accepted, and \<open>-1\<close> before the first.
\<close>

datatype log_event = Fail pystr | Success pystr | Accept pystr int | Block pystr | Subscribe nat

fun log_step :: "session_log \<Rightarrow> log_event \<Rightarrow> session_log" where
  "log_step sl (Fail p) = fail sl p"
| "log_step sl (Success p) = record_success sl p"
| "log_step sl (Accept p e) = accept_epoch sl p e"
| "log_step sl (Block p) = block_peer sl p"
| "log_step sl (Subscribe l) = subscribe_block sl l"

definition log_run :: "session_log \<Rightarrow> log_event list \<Rightarrow> session_log" where
  "log_run sl evs = foldl log_step sl evs"

definition streak :: "pystr \<Rightarrow> log_event list \<Rightarrow> nat" where
  "streak p evs = length (filter (\<lambda>e. e = Fail p) (takeWhile (\<lambda>e. e \<noteq> Success p) (rev evs)))"

definition history_blocks :: "int \<Rightarrow> pystr \<Rightarrow> log_event list \<Rightarrow> bool" where
  "history_blocks m p evs \<longleftrightarrow>
     (\<exists>k < length evs. evs ! k = Block p \<or> evs ! k = Fail p \<and> m \<le> int (streak p (take (Suc k) evs)))"

definition history_last :: "pystr \<Rightarrow> log_event list \<Rightarrow> int" where
  "history_last p evs = foldl (\<lambda>a ev. case ev of Accept q e \<Rightarrow> if q = p then max a e else a | _ \<Rightarrow> a) (-1) evs"

lemma log_run_snoc: "log_run sl (evs @ [ev]) = log_step (log_run sl evs) ev"
  by (simp add: log_run_def)

lemma streak_simps [simp]:
  "streak p [] = 0"
  "streak p (evs @ [Fail q]) = (if q = p then Suc (streak p evs) else streak p evs)"
  "streak p (evs @ [Success q]) = (if q = p then 0 else streak p evs)"
  "streak p (evs @ [Accept q e]) = streak p evs"
  "streak p (evs @ [Block q]) = streak p evs"
  "streak p (evs @ [Subscribe l]) = streak p evs"
  by (simp_all add: streak_def)

lemma history_blocks_snoc:
  "history_blocks m p (evs @ [ev]) \<longleftrightarrow>
     history_blocks m p evs \<or> ev = Block p \<or> ev = Fail p \<and> m \<le> int (streak p (evs @ [ev]))"
  by (auto simp: history_blocks_def Ex_less_Suc nth_append)

lemma history_last_snoc:
  "history_last p (evs @ [ev]) =
     (case ev of Accept q e \<Rightarrow> if q = p then max (history_last p evs) e else history_last p evs
      | _ \<Rightarrow> history_last p evs)"
  by (cases ev) (simp_all add: history_last_def)

lemma log_run_params [simp]:
  "max_attempts (log_run sl evs) = max_attempts sl"
  "forward_tolerance (log_run sl evs) = forward_tolerance sl"
  "replay_lookback (log_run sl evs) = replay_lookback sl"
proof -
  have "max_attempts (log_run sl evs) = max_attempts sl \<and>
      forward_tolerance (log_run sl evs) = forward_tolerance sl \<and>
      replay_lookback (log_run sl evs) = replay_lookback sl"
  proof (induction evs rule: rev_induct)
    case Nil
    then show ?case by (simp add: log_run_def)
  next
    case (snoc ev evs)
    then show ?case by (cases ev) (simp_all add: log_run_snoc subscribe_block_def)
  qed
  then show "max_attempts (log_run sl evs) = max_attempts sl"
    "forward_tolerance (log_run sl evs) = forward_tolerance sl"
    "replay_lookback (log_run sl evs) = replay_lookback sl"
    by blast+
qed

lemma failed_attempts_fail:
  "failed_attempts (fail sl p) =
     (if p \<in> blocked sl then failed_attempts sl
      else (failed_attempts sl)(p \<mapsto> (case failed_attempts sl p of None \<Rightarrow> 0 | Some c \<Rightarrow> c) + 1))"
  by (simp add: record_failure_def Let_def)

lemma blocked_fail_eq:
  "blocked (fail sl p) =
     (if p \<in> blocked sl \<or> (case failed_attempts sl p of None \<Rightarrow> 0 | Some c \<Rightarrow> c) + 1 < max_attempts sl
      then blocked sl else insert p (blocked sl))"
  by (auto simp: record_failure_def Let_def)

lemma log_run_counts:
  "p \<notin> blocked (log_run (new_session_log m f l) evs) \<Longrightarrow>
     (case failed_attempts (log_run (new_session_log m f l) evs) p of None \<Rightarrow> 0 | Some c \<Rightarrow> c) = int (streak p evs)"
proof (induction evs rule: rev_induct)
  case Nil
  then show ?case by (simp add: log_run_def new_session_log_def)
next
  case (snoc ev evs)
  then show ?case
    by (cases ev)
      (auto simp: log_run_snoc failed_attempts_fail blocked_fail_eq subscribe_block_def split: if_splits)
qed

lemma log_run_blocked:
  "p \<in> blocked (log_run (new_session_log m f l) evs) \<longleftrightarrow> history_blocks m p evs"
proof (induction evs rule: rev_induct)
  case Nil
  then show ?case by (simp add: log_run_def new_session_log_def history_blocks_def)
next
  case (snoc ev evs)
  let ?s = "log_run (new_session_log m f l) evs"
  have "max_attempts ?s = m" by (simp add: new_session_log_def)
  with snoc log_run_counts [of p m f l evs] show ?case
    by (cases ev)
      (auto simp: log_run_snoc history_blocks_snoc blocked_fail_eq subscribe_block_def)
qed

lemma log_run_last: "last_epoch (log_run (new_session_log m f l) evs) p = history_last p evs"
proof (induction evs rule: rev_induct)
  case Nil
  then show ?case by (simp add: log_run_def new_session_log_def history_last_def last_epoch_def)
next
  case (snoc ev evs)
  then show ?case by (cases ev) (simp_all add: log_run_snoc history_last_snoc max.commute)
qed

end
