(* ===== verification/Device.thy ===== *)
theory Device
  imports Entity Messages SessionLog
begin

text \<open>
  The device (\<^verbatim>\<open>protocol/device.py\<close>): an entity with a session log, an epoch counter per peer and the
  sessions it has asked for.  \<open>dev_epoch_clock\<close> says whether an epoch clock is installed; what the
  clock returns, what \<^verbatim>\<open>time.monotonic()\<close> returns and the two draws of randomness of a call are the
  record \<open>device_env\<close>.  Times are rationals.
\<close>

definition DEFAULT_SESSION_TIMEOUT_SECONDS :: rat where
  "DEFAULT_SESSION_TIMEOUT_SECONDS = 5"

record pending_session =
  pend_peer_identity :: pystr
  pend_epoch :: int
  pend_pid :: bytes
  pend_n_i :: bytes
  pend_k_star :: bytes
  pend_created_at :: rat

record device = entity +
  dev_nonce_bits :: int
  dev_session_timeout :: rat
  dev_log :: session_log
  dev_epoch :: "pystr \<rightharpoonup> int"
  dev_epoch_clock :: bool
  dev_pending :: "(pystr \<times> pending_session) list"

record device_env =
  env_epoch_clock :: int
  env_monotonic :: rat
  env_dev_nonce :: urandom
  env_dev_gcm :: urandom

definition new_device ::
  "credential \<Rightarrow> (pystr \<Rightarrow> bool) option \<Rightarrow> int \<Rightarrow> rat \<Rightarrow> int \<Rightarrow> bool \<Rightarrow> exn + device" where
  "new_device cred cov nonce_bits timeout m clock =
     (if cred_role cred \<noteq> lit ''device'' then Inl ValueError
      else Inr \<lparr>ent_credential = cred, ent_coverage_predicate = coverage_or_default cov, ent_root_cache = Map.empty,
        dev_nonce_bits = nonce_bits, dev_session_timeout = timeout,
        dev_log = new_session_log m DEFAULT_FORWARD_TOLERANCE DEFAULT_REPLAY_LOOKBACK,
        dev_epoch = Map.empty, dev_epoch_clock = clock, dev_pending = []\<rparr>)"

text \<open>\<^verbatim>\<open>self.epoch_clock() if self.epoch_clock is not None else self._epoch.get(peer_id, 0)\<close>\<close>

definition device_epoch :: "device_env \<Rightarrow> device \<Rightarrow> pystr \<Rightarrow> int" where
  "device_epoch env d peer_id =
     (if dev_epoch_clock d then env_epoch_clock env
      else case dev_epoch d peer_id of None \<Rightarrow> 0 | Some e \<Rightarrow> e)"

definition current_pseudonym :: "prims \<Rightarrow> device_env \<Rightarrow> device \<Rightarrow> pystr \<Rightarrow> int option \<Rightarrow> exn + bytes" where
  "current_pseudonym P env d peer_id epoch =
     h2_pseudonym P (cred_lam (ent_credential d)) (case epoch of None \<Rightarrow> device_epoch env d peer_id | Some e \<Rightarrow> e)"

definition build_auth_request :: "prims \<Rightarrow> device_env \<Rightarrow> pystr \<Rightarrow> device \<Rightarrow> (exn + bytes) \<times> device" where
  "build_auth_request P env peer_id d =
     (if is_blocked (dev_log d) peer_id then (Inl (BlockedEntity peer_id), d)
      else if \<not> coverage_ok d peer_id then (Inl (CoverageError peer_id), d)
      else case get_pairwise_root P peer_id d of
        (Inl x, d1) \<Rightarrow> (Inl x, d1)
      | (Inr k_star, d1) \<Rightarrow>
          let epoch = device_epoch env d1 peer_id
          in case current_pseudonym P env d1 peer_id (Some epoch) of
               Inl x \<Rightarrow> (Inl x, d1)
             | Inr pid \<Rightarrow>
               (case generate_nonce (env_dev_nonce env) (dev_nonce_bits d1) of
                  Inl x \<Rightarrow> (Inl x, d1)
                | Inr n_i \<Rightarrow>
                  (case int_to_bytes 8 epoch of
                     Inl x \<Rightarrow> (Inl x, d1)
                   | Inr epoch_bytes \<Rightarrow>
                     (case aead_encrypt P (env_dev_gcm env) k_star (pid @ n_i @ epoch_bytes) [] of
                        Inl x \<Rightarrow> (Inl x, d1)
                      | Inr (gcm_nonce, ciphertext, tag) \<Rightarrow>
                          let pending = \<lparr>pend_peer_identity = peer_id, pend_epoch = epoch, pend_pid = pid,
                                pend_n_i = n_i, pend_k_star = k_star, pend_created_at = env_monotonic env\<rparr>;
                              d2 = d1\<lparr>dev_pending := AList.update peer_id pending (dev_pending d1)\<rparr>;
                              d3 = (if dev_epoch_clock d2 then d2
                                    else d2\<lparr>dev_epoch := (dev_epoch d2)(peer_id \<mapsto> epoch + 1)\<rparr>)
                          in (message1_to_bytes \<lparr>m1_pid = pid, m1_gcm_nonce = gcm_nonce,
                                m1_ciphertext = ciphertext, m1_tag = tag\<rparr>, d3)))))"

text \<open>
  \<^verbatim>\<open>self._pending.pop(msg2.server_id, None)\<close> for the JSON value that came as the server field.  An
  unhashable key raises, except in an empty dictionary, which is not searched; a hashable value that
  is not text equals no key.
\<close>

definition pop_pending :: "json \<Rightarrow> device \<Rightarrow> (exn + pending_session option) \<times> device" where
  "pop_pending sid d =
     (if dev_pending d = [] then (Inr None, d)
      else case sid of
        JStr p \<Rightarrow> (Inr (map_of (dev_pending d) p), d\<lparr>dev_pending := AList.delete p (dev_pending d)\<rparr>)
      | JList _ \<Rightarrow> (Inl TypeError, d)
      | JDict _ \<Rightarrow> (Inl TypeError, d)
      | _ \<Rightarrow> (Inr None, d))"

definition device_failure :: "device \<Rightarrow> pystr \<Rightarrow> device" where
  "device_failure d peer = d\<lparr>dev_log := fail (dev_log d) peer\<rparr>"

definition complete_auth :: "prims \<Rightarrow> device_env \<Rightarrow> bytes \<Rightarrow> device \<Rightarrow> (exn + bytes) \<times> device" where
  "complete_auth P env msg2_bytes d =
     (case message2_from_bytes msg2_bytes of
        Inl x \<Rightarrow> (Inl x, d)
      | Inr msg2 \<Rightarrow>
          (case pop_pending (m2_server_id msg2) d of
             (Inl x, d1) \<Rightarrow> (Inl x, d1)
           | (Inr None, d1) \<Rightarrow> (Inl UnknownPeerError, d1)
           | (Inr (Some pending), d1) \<Rightarrow>
               if dev_session_timeout d1 < env_monotonic env - pend_created_at pending
               then (Inl (SessionTimeoutError (pend_peer_identity pending)), device_failure d1 (pend_peer_identity pending))
               else case aead_decrypt P (pend_k_star pending) (m2_gcm_nonce msg2) (m2_ciphertext msg2) (m2_tag msg2)
                           (pend_pid pending @ pend_n_i pending) of
                   Inl x \<Rightarrow> if x = InvalidTag
                            then (Inl (IntegrityError (lit ''failed to verify server response (sigma_2/tag mismatch)'')),
                                  device_failure d1 (pend_peer_identity pending)) else (Inl x, d1)
                 | Inr plaintext \<Rightarrow>
                     let epoch_bytes = last_n 8 plaintext; n_j = but_last_n 8 plaintext;
                         epoch = int_from_bytes epoch_bytes
                     in if epoch \<noteq> pend_epoch pending
                        then (Inl (IntegrityError (lit ''server response epoch does not match the outstanding request'')),
                              device_failure d1 (pend_peer_identity pending))
                        else (derive_session_key P (pend_k_star pending) (pend_n_i pending) n_j (pend_epoch pending),
                              d1\<lparr>dev_log := record_success (dev_log d1) (pend_peer_identity pending)\<rparr>)))"

section \<open>The device's invariant\<close>

text \<open>
  Every outstanding session is filed under its own peer, with the root, the pseudonym and an epoch
  the device can have sent; with counter epochs that epoch is below the peer's counter.
\<close>

definition pending_ok :: "prims \<Rightarrow> device \<Rightarrow> pystr \<times> pending_session \<Rightarrow> bool" where
  "pending_ok P d = (\<lambda>(p, ps). pend_peer_identity ps = p \<and> root_of P (ent_credential d) p = Inr (pend_k_star ps) \<and>
     h2_pseudonym P (cred_lam (ent_credential d)) (pend_epoch ps) = Inr (pend_pid ps) \<and>
     (\<not> dev_epoch_clock d \<longrightarrow> (\<exists>c. dev_epoch d p = Some c \<and> pend_epoch ps < c)))"

definition device_wf :: "prims \<Rightarrow> device \<Rightarrow> bool" where
  "device_wf P d \<longleftrightarrow> cache_ok P d \<and> distinct (map fst (dev_pending d)) \<and> (\<forall>x \<in> set (dev_pending d). pending_ok P d x)"

text \<open>What a successful request is, and what it leaves behind.\<close>

definition requested :: "prims \<Rightarrow> device_env \<Rightarrow> pystr \<Rightarrow> device \<Rightarrow> bytes \<Rightarrow> bytes \<Rightarrow> bytes \<Rightarrow> bytes \<Rightarrow> message1 \<Rightarrow> bool" where
  "requested P env p d msg k pid n_i m \<longleftrightarrow>
     root_of P (ent_credential d) p = Inr k \<and>
     h2_pseudonym P (cred_lam (ent_credential d)) (device_epoch env d p) = Inr pid \<and>
     generate_nonce (env_dev_nonce env) (dev_nonce_bits d) = Inr n_i \<and>
     m1_pid m = pid \<and> message1_to_bytes m = Inr msg \<and>
     aead_encrypt P (env_dev_gcm env) k (pid @ n_i @ be_bytes 8 (nat (device_epoch env d p))) [] =
       Inr (m1_gcm_nonce m, m1_ciphertext m, m1_tag m)"

definition after_request :: "device_env \<Rightarrow> pystr \<Rightarrow> device \<Rightarrow> bytes \<Rightarrow> bytes \<Rightarrow> bytes \<Rightarrow> device" where
  "after_request env p d k pid n_i = d\<lparr>
     ent_root_cache := (ent_root_cache d)(p \<mapsto> k),
     dev_pending := AList.update p \<lparr>pend_peer_identity = p, pend_epoch = device_epoch env d p, pend_pid = pid,
       pend_n_i = n_i, pend_k_star = k, pend_created_at = env_monotonic env\<rparr> (dev_pending d),
     dev_epoch := (if dev_epoch_clock d then dev_epoch d else (dev_epoch d)(p \<mapsto> device_epoch env d p + 1))\<rparr>"

lemma get_root_exact:
  assumes "cache_ok P ent" "root_of P (ent_credential ent) p = Inr k"
  shows "get_pairwise_root P p ent = (Inr k, ent\<lparr>ent_root_cache := (ent_root_cache ent)(p \<mapsto> k)\<rparr>)"
proof (cases "ent_root_cache ent p")
  case (Some c)
  with assms have "c = k" by (simp add: cache_ok_def)
  with Some have "(ent_root_cache ent)(p \<mapsto> k) = ent_root_cache ent" by (auto simp: fun_upd_idem)
  with Some \<open>c = k\<close> show ?thesis by (simp add: get_pairwise_root_def)
next
  case None
  with assms(2) show ?thesis
    by (auto simp: get_pairwise_root_def root_of_def split: option.splits sum.splits if_splits)
qed

lemma build_succeeds:
  assumes "cache_ok P d" "\<not> is_blocked (dev_log d) p" "coverage_ok d p" "requested P env p d msg k pid n_i m"
  shows "build_auth_request P env p d = (Inr msg, after_request env p d k pid n_i)"
proof -
  have r: "get_pairwise_root P p d = (Inr k, d\<lparr>ent_root_cache := (ent_root_cache d)(p \<mapsto> k)\<rparr>)"
    using assms(1,4) by (intro get_root_exact) (simp_all add: requested_def)
  from assms(4) have "valid_epoch (device_epoch env d p)" by (auto simp: requested_def h2_pseudonym_Inr)
  then have "int_to_bytes 8 (device_epoch env d p) = Inr (be_bytes 8 (nat (device_epoch env d p)))"
    by (simp add: int_to_bytes_def valid_epoch_def)
  moreover have "device_epoch env (d\<lparr>ent_root_cache := x\<rparr>) p = device_epoch env d p" for x
    by (simp add: device_epoch_def)
  moreover obtain pid' gn c t where "m = \<lparr>m1_pid = pid', m1_gcm_nonce = gn, m1_ciphertext = c, m1_tag = t\<rparr>"
    by (cases m) auto
  ultimately show ?thesis
    using assms(2-4) r
    by (auto simp: build_auth_request_def requested_def current_pseudonym_def after_request_def Let_def)
qed

lemma build_result:
  assumes wf: "cache_ok P d" and call: "build_auth_request P env p d = (res, d')"
  shows "(\<exists>x. res = Inl x \<and> (d' = d \<or> (\<exists>k. root_of P (ent_credential d) p = Inr k \<and>
            d' = d\<lparr>ent_root_cache := (ent_root_cache d)(p \<mapsto> k)\<rparr>))) \<or>
    (\<exists>msg k pid n_i m. res = Inr msg \<and> \<not> is_blocked (dev_log d) p \<and> coverage_ok d p \<and>
        requested P env p d msg k pid n_i m \<and> d' = after_request env p d k pid n_i)"
proof (cases "is_blocked (dev_log d) p \<or> \<not> coverage_ok d p")
  case True
  with call show ?thesis by (auto simp: build_auth_request_def split: if_splits)
next
  case nb: False
  show ?thesis
  proof (cases "root_of P (ent_credential d) p")
    case (Inl x)
    obtain r d1 where r: "get_pairwise_root P p d = (r, d1)" by fastforce
    have "r = Inl x" using get_pairwise_root_eq [OF wf, of p] r Inl by simp
    moreover from this r Inl have "d1 = d" using get_pairwise_root_state [of P p d] by auto
    ultimately show ?thesis using call nb r by (auto simp: build_auth_request_def)
  next
    case k: (Inr k)
    let ?d1 = "d\<lparr>ent_root_cache := (ent_root_cache d)(p \<mapsto> k)\<rparr>"
    have r: "get_pairwise_root P p d = (Inr k, ?d1)" by (rule get_root_exact [OF wf k])
    have de: "device_epoch env ?d1 p = device_epoch env d p" by (simp add: device_epoch_def)
    show ?thesis
    proof (cases "\<exists>msg pid n_i m. requested P env p d msg k pid n_i m")
      case True
      then obtain msg pid n_i m where rq: "requested P env p d msg k pid n_i m" by blast
      then have "build_auth_request P env p d = (Inr msg, after_request env p d k pid n_i)"
        using build_succeeds [OF wf] nb by blast
      with call have "res = Inr msg" "d' = after_request env p d k pid n_i" by simp_all
      with rq nb show ?thesis by blast
    next
      case no: False
      have "d' = ?d1 \<and> (\<exists>x. res = Inl x)"
      proof (cases "h2_pseudonym P (cred_lam (ent_credential d)) (device_epoch env d p)")
        case (Inl x)
        show ?thesis
          using call nb r by (auto simp: build_auth_request_def current_pseudonym_def Let_def de Inl)
      next
        case pid: (Inr pid)
        have eb: "int_to_bytes 8 (device_epoch env d p) = Inr (be_bytes 8 (nat (device_epoch env d p)))"
          using pid by (simp add: h2_pseudonym_Inr valid_epoch_def int_to_bytes_def)
        note unfolded = build_auth_request_def current_pseudonym_def Let_def de pid eb
        show ?thesis
        proof (cases "generate_nonce (env_dev_nonce env) (dev_nonce_bits d)")
          case (Inl x)
          show ?thesis using call nb r by (auto simp: unfolded Inl)
        next
          case n: (Inr n_i)
          show ?thesis
          proof (cases "aead_encrypt P (env_dev_gcm env) k (pid @ n_i @ be_bytes 8 (nat (device_epoch env d p))) []")
            case (Inl x)
            show ?thesis using call nb r by (auto simp: unfolded n Inl)
          next
            case (Inr t)
            obtain gn c tg where t: "t = (gn, c, tg)" by (cases t)
            obtain b where b: "message1_to_bytes \<lparr>m1_pid = pid, m1_gcm_nonce = gn, m1_ciphertext = c, m1_tag = tg\<rparr> = Inr b"
              using message1_to_bytes_total by blast
            have "requested P env p d b k pid n_i \<lparr>m1_pid = pid, m1_gcm_nonce = gn, m1_ciphertext = c, m1_tag = tg\<rparr>"
              using k pid n Inr t b by (simp add: requested_def)
            with no show ?thesis by blast
          qed
        qed
      qed
      with k show ?thesis by blast
    qed
  qed
qed


section \<open>The invariant is kept\<close>

lemma device_wf_new: "new_device cred cov nb to m clock = Inr d \<Longrightarrow> device_wf P d"
  by (auto simp: new_device_def device_wf_def cache_ok_def split: if_splits)

lemma pending_ok_cong:
  "ent_credential d' = ent_credential d \<Longrightarrow> dev_epoch_clock d' = dev_epoch_clock d \<Longrightarrow> dev_epoch d' = dev_epoch d \<Longrightarrow>
     pending_ok P d' x = pending_ok P d x"
  by (cases x) (simp add: pending_ok_def)

lemma after_request_wf:
  assumes wf: "device_wf P d" and rq: "requested P env p d msg k pid n_i m"
  shows "device_wf P (after_request env p d k pid n_i)"
proof -
  let ?d = "after_request env p d k pid n_i"
  let ?new = "\<lparr>pend_peer_identity = p, pend_epoch = device_epoch env d p, pend_pid = pid,
       pend_n_i = n_i, pend_k_star = k, pend_created_at = env_monotonic env\<rparr>"
  have "cache_ok P ?d"
    using wf rq by (auto simp: device_wf_def cache_ok_def after_request_def requested_def split: if_splits)
  moreover have "pending_ok P ?d (p, ?new)"
    using rq by (simp add: pending_ok_def after_request_def requested_def)
  moreover have "pending_ok P ?d x" if x: "x \<in> set (dev_pending d)" for x
  proof -
    obtain q ps where qx: "x = (q, ps)" by (cases x)
    have "pending_ok P d (q, ps)" using wf x qx by (simp add: device_wf_def)
    then show ?thesis
      unfolding qx by (auto simp: pending_ok_def after_request_def device_epoch_def split: option.splits)
  qed
  moreover have "set (dev_pending ?d) \<subseteq> insert (p, ?new) (set (dev_pending d))"
    by (simp add: after_request_def set_alist_update)
  moreover have "distinct (map fst (dev_pending ?d))"
    using wf by (simp add: after_request_def device_wf_def distinct_update)
  ultimately show ?thesis by (auto simp: device_wf_def)
qed

lemma build_wf:
  assumes "device_wf P d" "build_auth_request P env p d = (res, d')"
  shows "device_wf P d'" "ent_credential d' = ent_credential d" "dev_log d' = dev_log d"
proof -
  have c: "cache_ok P d" using assms(1) by (simp add: device_wf_def)
  have "device_wf P d' \<and> ent_credential d' = ent_credential d \<and> dev_log d' = dev_log d"
    using build_result [OF c assms(2)]
  proof (elim disjE exE conjE)
    fix x k assume k: "root_of P (ent_credential d) p = Inr k"
      and d': "d' = d\<lparr>ent_root_cache := (ent_root_cache d)(p \<mapsto> k)\<rparr>"
    have "pending_ok P d' x = pending_ok P d x" for x by (rule pending_ok_cong) (simp_all add: d')
    with assms(1) k show ?thesis by (auto simp: device_wf_def cache_ok_def d' split: if_splits)
  next
    fix msg k pid n_i m assume "requested P env p d msg k pid n_i m" "d' = after_request env p d k pid n_i"
    with after_request_wf [OF assms(1)] show ?thesis by (auto simp: after_request_def)
  qed (use assms(1) in simp_all)
  then show "device_wf P d'" "ent_credential d' = ent_credential d" "dev_log d' = dev_log d" by blast+
qed

text \<open>Taking a session out.\<close>

definition popped :: "device \<Rightarrow> pystr \<Rightarrow> device" where
  "popped d p = d\<lparr>dev_pending := AList.delete p (dev_pending d)\<rparr>"

lemma pop_pending_cases:
  assumes "pop_pending sid d = (res, d')"
  shows "(\<exists>p. sid = JStr p \<and> res = Inr (map_of (dev_pending d) p) \<and> d' = popped d p) \<or>
    d' = d \<and> (res = Inl TypeError \<or> res = Inr None)"
  using assms by (cases sid) (auto simp: pop_pending_def popped_def split: if_splits)

lemma popped_wf: "device_wf P d \<Longrightarrow> device_wf P (popped d p)"
proof -
  assume a: "device_wf P d"
  have "pending_ok P (popped d p) x = pending_ok P d x" for x
    by (rule pending_ok_cong) (simp_all add: popped_def)
  with a show ?thesis
    by (auto simp: device_wf_def popped_def cache_ok_def distinct_fst_filter AList.delete_eq)
qed

lemma log_update_wf: "device_wf P d \<Longrightarrow> device_wf P (d\<lparr>dev_log := sl\<rparr>)"
proof -
  assume a: "device_wf P d"
  have "pending_ok P (d\<lparr>dev_log := sl\<rparr>) x = pending_ok P d x" for x by (rule pending_ok_cong) simp_all
  with a show ?thesis by (simp add: device_wf_def cache_ok_def)
qed

text \<open>
  Every outcome of \<^verbatim>\<open>complete_auth\<close>.  A response that names an outstanding session uses it up, whatever
  it carries; one that does not leaves the device as it was.
\<close>

definition response_ok :: "prims \<Rightarrow> device_env \<Rightarrow> device \<Rightarrow> pending_session \<Rightarrow> message2 \<Rightarrow> bytes \<Rightarrow> bool" where
  "response_ok P env d ps m n_j \<longleftrightarrow> \<not> dev_session_timeout d < env_monotonic env - pend_created_at ps \<and>
     (\<exists>plaintext. aead_decrypt P (pend_k_star ps) (m2_gcm_nonce m) (m2_ciphertext m) (m2_tag m)
          (pend_pid ps @ pend_n_i ps) = Inr plaintext \<and>
        int_from_bytes (last_n 8 plaintext) = pend_epoch ps \<and> but_last_n 8 plaintext = n_j)"

lemma complete_cases:
  assumes "complete_auth P env msg d = (res, d')"
  shows "(\<exists>x. res = Inl x \<and> d' = d \<and> (x = MessageFormatError \<or> x = TypeError \<or> x = UnknownPeerError)) \<or>
    (\<exists>m p. message2_from_bytes msg = Inr m \<and> m2_server_id m = JStr p \<and>
       (map_of (dev_pending d) p = None \<and> res = Inl UnknownPeerError \<and> d' = popped d p \<or>
        (\<exists>ps. map_of (dev_pending d) p = Some ps \<and>
           ((\<exists>n_j. response_ok P env d ps m n_j \<and>
               res = derive_session_key P (pend_k_star ps) (pend_n_i ps) n_j (pend_epoch ps) \<and>
               d' = (popped d p)\<lparr>dev_log := record_success (dev_log d) (pend_peer_identity ps)\<rparr>) \<or>
            (\<exists>x. res = Inl x \<and> (\<forall>n_j. \<not> response_ok P env d ps m n_j) \<and>
               (d' = popped d p \<or> d' = device_failure (popped d p) (pend_peer_identity ps)))))))"
proof (cases "message2_from_bytes msg")
  case (Inl x)
  with assms message2_from_bytes_error [OF Inl] show ?thesis by (auto simp: complete_auth_def)
next
  case m: (Inr m)
  obtain r d1 where r: "pop_pending (m2_server_id m) d = (r, d1)" by fastforce
  show ?thesis
  proof (cases "\<exists>ps. r = Inr (Some ps)")
    case False
    then show ?thesis
      using assms m r pop_pending_cases [OF r]
      by (auto simp: complete_auth_def split: sum.splits option.splits)
  next
    case True
    then obtain ps where ps: "r = Inr (Some ps)" by blast
    with pop_pending_cases [OF r] obtain p where p: "m2_server_id m = JStr p" "map_of (dev_pending d) p = Some ps"
      "d1 = popped d p" by auto
    have fields: "dev_session_timeout (popped d p) = dev_session_timeout d" "dev_log (popped d p) = dev_log d"
      by (simp_all add: popped_def)
    have "(\<exists>n_j. response_ok P env d ps m n_j \<and>
               res = derive_session_key P (pend_k_star ps) (pend_n_i ps) n_j (pend_epoch ps) \<and>
               d' = (popped d p)\<lparr>dev_log := record_success (dev_log d) (pend_peer_identity ps)\<rparr>) \<or>
            (\<exists>x. res = Inl x \<and> (\<forall>n_j. \<not> response_ok P env d ps m n_j) \<and>
               (d' = popped d p \<or> d' = device_failure (popped d p) (pend_peer_identity ps)))"
    proof (cases "aead_decrypt P (pend_k_star ps) (m2_gcm_nonce m) (m2_ciphertext m) (m2_tag m) (pend_pid ps @ pend_n_i ps)")
      case (Inl x)
      then have "\<forall>n_j. \<not> response_ok P env d ps m n_j" by (simp add: response_ok_def)
      then show ?thesis
        using assms m r ps p fields by (auto simp: complete_auth_def Inl split: if_splits)
    next
      case (Inr pt)
      then show ?thesis
        using assms m r ps p fields by (auto simp: complete_auth_def response_ok_def Let_def split: if_splits)
    qed
    with m p show ?thesis by blast
  qed
qed

lemma complete_wf:
  assumes "device_wf P d" "complete_auth P env msg d = (res, d')"
  shows "device_wf P d'" "ent_credential d' = ent_credential d"
proof -
  have "device_wf P d' \<and> ent_credential d' = ent_credential d"
    using complete_cases [OF assms(2)]
    by (elim disjE exE conjE)
      (auto simp: assms(1) popped_wf log_update_wf device_failure_def, auto simp: popped_def)
  then show "device_wf P d'" "ent_credential d' = ent_credential d" by blast+
qed

lemma complete_succeeds:
  assumes "message2_from_bytes msg = Inr m" "m2_server_id m = JStr p" "map_of (dev_pending d) p = Some ps"
    and "response_ok P env d ps m n_j" "valid_epoch (pend_epoch ps)"
  shows "complete_auth P env msg d =
    (Inr (session_key P (pend_k_star ps) (pend_n_i ps) n_j (pend_epoch ps)),
     (popped d p)\<lparr>dev_log := record_success (dev_log d) (pend_peer_identity ps)\<rparr>)"
proof -
  have "dev_pending d \<noteq> []" using assms(3) by auto
  with assms have "pop_pending (m2_server_id m) d = (Inr (Some ps), popped d p)"
    by (simp add: pop_pending_def popped_def)
  with assms show ?thesis
    by (auto simp: complete_auth_def response_ok_def popped_def Let_def derive_session_key_valid)
qed

end
