(* ===== verification/Resolver.thy ===== *)
theory Resolver
  imports Crypto SessionLog
begin

text \<open>
  The interface of pseudonym resolution (class \<^verbatim>\<open>Resolver\<close> of \<^verbatim>\<open>protocol/resolution.py\<close>) and its
  contract.  A strategy is a state, extending the two probe counters by record extension as the
  subclasses extend the class, and a table of methods \<open>resolver_ops\<close>; the server calls the methods
  of whatever table it was given.  The peer secrets and the session log are objects the resolver
  shares with the server, so every method receives their current value.  A reading of the clock is
  an argument of the methods that may read it.
\<close>

type_synonym peers = "(pystr \<times> int) list"

record resolver =
  probes :: int
  precompute_probes :: int

definition new_resolver :: resolver where
  "new_resolver = \<lparr>probes = 0, precompute_probes = 0\<rparr>"

definition h2_counted ::
  "prims \<Rightarrow> int \<Rightarrow> int \<Rightarrow> bool \<Rightarrow> 'a resolver_scheme \<Rightarrow> (exn + bytes) \<times> 'a resolver_scheme" where
  "h2_counted P lam epoch precompute r =
     (h2_pseudonym P lam epoch,
      if precompute then r\<lparr>precompute_probes := precompute_probes r + 1\<rparr> else r\<lparr>probes := probes r + 1\<rparr>)"

definition reset_counters :: "'a resolver_scheme \<Rightarrow> 'a resolver_scheme" where
  "reset_counters r = r\<lparr>probes := 0, precompute_probes := 0\<rparr>"

record 'r resolver_ops =
  ro_attach :: "prims \<Rightarrow> rat \<Rightarrow> peers \<Rightarrow> session_log \<Rightarrow> 'r \<Rightarrow> (exn + unit) \<times> 'r"
  ro_resolve :: "prims \<Rightarrow> rat \<Rightarrow> peers \<Rightarrow> session_log \<Rightarrow> bytes \<Rightarrow> 'r \<Rightarrow> (exn + pystr \<times> int) \<times> 'r"
  ro_accept :: "prims \<Rightarrow> rat \<Rightarrow> peers \<Rightarrow> session_log \<Rightarrow> pystr \<Rightarrow> int \<Rightarrow> bytes \<Rightarrow> 'r
                \<Rightarrow> (exn + unit) \<times> 'r \<times> session_log"
  ro_storage_bytes :: "peers \<Rightarrow> 'r \<Rightarrow> int"

text \<open>The methods a strategy inherits when it does not override them.\<close>

definition base_attach :: "prims \<Rightarrow> rat \<Rightarrow> peers \<Rightarrow> session_log \<Rightarrow> 'r \<Rightarrow> (exn + unit) \<times> 'r" where
  "base_attach P now ps sl r = (Inr (), r)"

definition base_accept ::
  "prims \<Rightarrow> rat \<Rightarrow> peers \<Rightarrow> session_log \<Rightarrow> pystr \<Rightarrow> int \<Rightarrow> bytes \<Rightarrow> 'r \<Rightarrow> (exn + unit) \<times> 'r \<times> session_log" where
  "base_accept P now ps sl peer epoch n_i r = (Inr (), r, accept_epoch sl peer epoch)"

definition base_storage_bytes :: "peers \<Rightarrow> 'r \<Rightarrow> int" where
  "base_storage_bytes ps r = 0"

definition TABLE_ENTRY_BYTES :: int where
  "TABLE_ENTRY_BYTES = 40"

definition COUNTER_BYTES :: int where
  "COUNTER_BYTES = 8"

definition CHAIN_RECORD_BYTES :: int where
  "CHAIN_RECORD_BYTES = 8"

definition NONCE_CACHE_ENTRY_BYTES :: int where
  "NONCE_CACHE_ENTRY_BYTES = 24"

section \<open>Probing a list of epochs for one peer\<close>

text \<open>The inner loop of both scanning strategies: the first epoch whose pseudonym is the one received.\<close>

fun probe_epochs ::
  "prims \<Rightarrow> int \<Rightarrow> bytes \<Rightarrow> int list \<Rightarrow> 'a resolver_scheme \<Rightarrow> (exn + int option) \<times> 'a resolver_scheme" where
  "probe_epochs P lam pid [] r = (Inr None, r)"
| "probe_epochs P lam pid (e # es) r =
     (case h2_counted P lam e False r of
        (Inl x, r') \<Rightarrow> (Inl x, r')
      | (Inr h, r') \<Rightarrow> if h = pid then (Inr (Some e), r') else probe_epochs P lam pid es r')"

definition add_probes :: "int \<Rightarrow> 'a resolver_scheme \<Rightarrow> 'a resolver_scheme" where
  "add_probes n r = r\<lparr>probes := probes r + n\<rparr>"

definition add_precompute :: "int \<Rightarrow> 'a resolver_scheme \<Rightarrow> 'a resolver_scheme" where
  "add_precompute n r = r\<lparr>precompute_probes := precompute_probes r + n\<rparr>"

lemma add_probes_simps [simp, probe_simps]:
  "add_probes 0 r = r"
  "add_probes m (add_probes n r) = add_probes (n + m) r"
  "probes (add_probes n r) = probes r + n"
  "precompute_probes (add_probes n r) = precompute_probes r"
  "add_precompute 0 r = r"
  "add_precompute m (add_precompute n r) = add_precompute (n + m) r"
  "probes (add_precompute n r) = probes r"
  "precompute_probes (add_precompute n r) = precompute_probes r + n"
  by (simp_all add: add_probes_def add_precompute_def add.assoc)

lemma h2_counted_eq [probe_simps]:
  "h2_counted P lam e pre r = (h2_pseudonym P lam e, if pre then add_precompute 1 r else add_probes 1 r)"
  by (simp add: h2_counted_def add_probes_def add_precompute_def)

definition valid_peers :: "peers \<Rightarrow> bool" where
  "valid_peers ps \<longleftrightarrow> distinct (map fst ps) \<and> (\<forall>p \<in> set ps. valid_lam (snd p))"

lemma valid_peers_Nil [simp]: "valid_peers []"
  by (simp add: valid_peers_def)

lemma valid_peers_Cons [simp]:
  "valid_peers ((p, lam) # ps) \<longleftrightarrow> p \<notin> fst ` set ps \<and> valid_lam lam \<and> valid_peers ps"
  by (auto simp: valid_peers_def)

text \<open>The cost of a search: every candidate up to and including the first match.\<close>

definition search_cost :: "('a \<Rightarrow> bool) \<Rightarrow> 'a list \<Rightarrow> int" where
  "search_cost Q xs = int (min (length xs) (Suc (length (takeWhile (\<lambda>x. \<not> Q x) xs))))"

lemma search_cost_simps [simp]:
  "search_cost Q [] = 0"
  "search_cost Q (x # xs) = (if Q x then 1 else 1 + search_cost Q xs)"
  by (simp_all add: search_cost_def)

lemma search_cost_none: "\<forall>x \<in> set xs. \<not> Q x \<Longrightarrow> search_cost Q xs = int (length xs)"
  by (induction xs) auto

lemma search_cost_le: "search_cost Q xs \<le> int (length xs)"
  by (simp add: search_cost_def)

lemma probe_epochs_eq:
  assumes "valid_lam lam" "\<forall>e \<in> set es. valid_epoch e"
  shows "probe_epochs P lam pid es r =
    (Inr (List.find (\<lambda>e. pseudonym P lam e = pid) es),
     add_probes (search_cost (\<lambda>e. pseudonym P lam e = pid) es) r)"
  using assms(2)
  by (induction es arbitrary: r)
    (auto simp: h2_counted_eq h2_pseudonym_valid [OF assms(1)] add.commute)

lemma probe_epochs_Some:
  "probe_epochs P lam pid es r = (Inr (Some e), r') \<Longrightarrow> e \<in> set es \<and> h2_pseudonym P lam e = Inr pid"
  by (induction es arbitrary: r) (auto simp: h2_counted_eq split: sum.splits if_splits)

section \<open>Pseudonyms that do not collide\<close>

text \<open>
  No two pairs of an enrolled peer and an epoch below the horizon \<open>E\<close> have the same pseudonym.  The
  statement is about the finitely many hashes a server can meet before epoch \<open>E\<close>.
\<close>

definition no_collisions :: "prims \<Rightarrow> peers \<Rightarrow> int \<Rightarrow> bool" where
  "no_collisions P ps E \<longleftrightarrow> distinct (concat (map (\<lambda>(p, lam). map (pseudonym P lam) [0 .. E - 1]) ps))"

lemma no_collisions_Cons:
  "no_collisions P ((p, lam) # ps) E \<longleftrightarrow>
     distinct (map (pseudonym P lam) [0 .. E - 1]) \<and> no_collisions P ps E \<and>
     (\<forall>e \<in> {0 .. E - 1}. \<forall>(q, mu) \<in> set ps. \<forall>f \<in> {0 .. E - 1}. pseudonym P lam e \<noteq> pseudonym P mu f)"
  by (fastforce simp: no_collisions_def)

lemma no_collisionsD:
  "no_collisions P ps E \<Longrightarrow> (p, lam) \<in> set ps \<Longrightarrow> (q, mu) \<in> set ps \<Longrightarrow> 0 \<le> e \<Longrightarrow> e < E \<Longrightarrow> 0 \<le> f \<Longrightarrow> f < E \<Longrightarrow>
     pseudonym P lam e = pseudonym P mu f \<Longrightarrow> p = q \<and> lam = mu \<and> e = f"
proof (induction ps)
  case Nil
  then show ?case by simp
next
  case (Cons x ps)
  obtain r nu where x: "x = (r, nu)" by (cases x)
  have inj: "inj_on (pseudonym P nu) {0 .. E - 1}"
    using Cons.prems(1) by (simp add: x no_collisions_Cons distinct_map)
  have sep: "pseudonym P nu a \<noteq> pseudonym P mu' b"
    if "0 \<le> a" "a < E" "(q', mu') \<in> set ps" "0 \<le> b" "b < E" for a b q' mu'
    using Cons.prems(1) that by (fastforce simp: x no_collisions_Cons)
  from Cons.prems(2,3) consider "(p, lam) = x" "(q, mu) = x" | "(p, lam) = x" "(q, mu) \<in> set ps"
    | "(p, lam) \<in> set ps" "(q, mu) = x" | "(p, lam) \<in> set ps" "(q, mu) \<in> set ps" by auto
  then show ?case
  proof cases
    case 1
    with x inj Cons.prems show ?thesis by (auto simp: inj_on_def)
  next
    case 2
    with sep [of e q mu f] x Cons.prems show ?thesis by auto
  next
    case 3
    with sep [of f p lam e] x Cons.prems show ?thesis by auto
  next
    case 4
    with Cons x show ?thesis by (auto simp: no_collisions_Cons)
  qed
qed

text \<open>The epochs a server with forward tolerance \<open>F\<close> can look at all lie below the horizon.\<close>

definition below_horizon :: "session_log \<Rightarrow> peers \<Rightarrow> int \<Rightarrow> int \<Rightarrow> bool" where
  "below_horizon sl ps F E \<longleftrightarrow> E \<le> 256 ^ 8 \<and>
     (\<forall>p \<in> set ps. -1 \<le> last_epoch sl (fst p) \<and> last_epoch sl (fst p) + F < E)"

lemma below_horizonD:
  assumes "below_horizon sl ps F E" "(p, lam) \<in> set ps"
  shows "-1 \<le> last_epoch sl p" "last_epoch sl p + F < E" "E \<le> 256 ^ 8"
  using assms by (force simp: below_horizon_def)+

section \<open>The contract\<close>

text \<open>
  What the server relies on.  A resolver only ever names an enrolled peer and an epoch whose
  pseudonym is the one received; resolving leaves the log alone; accepting does to the log what
  \<^verbatim>\<open>accept_epoch\<close> does; and the resolver's own invariant survives both, also when a call raises.
\<close>

locale resolver_contract =
  fixes ops :: "'r resolver_ops"
    and wf :: "prims \<Rightarrow> peers \<Rightarrow> session_log \<Rightarrow> 'r \<Rightarrow> bool"
  assumes resolve_wf: "wf P ps sl r \<Longrightarrow> ro_resolve ops P now ps sl pid r = (res, r') \<Longrightarrow> wf P ps sl r'"
    and resolve_sound: "wf P ps sl r \<Longrightarrow> ro_resolve ops P now ps sl pid r = (Inr (p, e), r') \<Longrightarrow>
        \<exists>lam. map_of ps p = Some lam \<and> h2_pseudonym P lam e = Inr pid"
    and accept_log: "ro_accept ops P now ps sl p e n r = (Inr (), r', sl') \<Longrightarrow> sl' = accept_epoch sl p e"
    and accept_log_raise: "ro_accept ops P now ps sl p e n r = (Inl x, r', sl') \<Longrightarrow>
        sl' = sl \<or> sl' = accept_epoch sl p e"
    and accept_wf: "wf P ps sl r \<Longrightarrow> ro_accept ops P now ps sl p e n r = (ares, r', sl') \<Longrightarrow> wf P ps sl' r'"
    and attach_wf: "distinct (map fst ps) \<Longrightarrow> ro_attach ops P now ps sl r = (Inr (), r') \<Longrightarrow> wf P ps sl r'"
    and wf_last: "wf P ps sl r \<Longrightarrow> last_epoch sl' = last_epoch sl \<Longrightarrow> wf P ps sl' r"
begin

lemma accept_log_cases:
  assumes "ro_accept ops P now ps sl p e n r = (res, r', sl')"
  shows "sl' = accept_epoch sl p e \<or> sl' = sl \<and> (\<exists>x. res = Inl x)"
proof (cases res)
  case (Inl x)
  with assms accept_log_raise [of P now ps sl p e n r x r' sl'] show ?thesis by auto
next
  case (Inr u)
  with assms accept_log [of P now ps sl p e n r r' sl'] show ?thesis by simp
qed

lemma accept_keeps_blocked:
  assumes "ro_accept ops P now ps sl p e n r = (res, r', sl')"
  shows "blocked sl' = blocked sl \<and> failed_attempts sl' = failed_attempts sl \<and> max_attempts sl' = max_attempts sl"
  using accept_log_cases [OF assms] by auto

lemma accept_last_mono:
  assumes "ro_accept ops P now ps sl p e n r = (res, r', sl')"
  shows "last_epoch sl q \<le> last_epoch sl' q"
  using accept_log_cases [OF assms] by auto

lemma resolved_enrolled:
  assumes "wf P ps sl r" "ro_resolve ops P now ps sl pid r = (Inr (p, e), r')"
  shows "p \<in> fst ` set ps" "valid_epoch e"
  using resolve_sound [OF assms] by (auto simp: h2_pseudonym_Inr dest: map_of_SomeD intro: rev_image_eqI)

end

text \<open>A strategy with counter epochs moreover only resolves to an epoch above the last accepted one.\<close>

locale fresh_resolver = resolver_contract +
  assumes resolve_fresh: "wf P ps sl r \<Longrightarrow> ro_resolve ops P now ps sl pid r = (Inr (p, e), r') \<Longrightarrow>
        last_epoch sl p < e"
begin

lemma accept_advances:
  assumes "wf P ps sl r" "ro_resolve ops P now ps sl pid r = (Inr (p, e), r')"
    and "ro_accept ops P now2 ps sl p e n r2 = (Inr (), r'', sl')"
  shows "last_epoch sl' p = e" "last_epoch sl p < last_epoch sl' p"
  using resolve_fresh [OF assms(1,2)] accept_log [OF assms(3)] by simp_all

lemma not_resolved_again:
  assumes "wf P ps sl r" "ro_resolve ops P now ps sl pid r = (Inr (p, e'), r')" "e \<le> last_epoch sl p"
  shows "e' \<noteq> e"
  using resolve_fresh [OF assms(1,2)] assms(3) by simp

end

end
