(* ===== verification/LinearScan.thy ===== *)
theory LinearScan
  imports Resolver
begin

text \<open>
  Strategy O1 (class \<^verbatim>\<open>LinearScan\<close>): for every enrolled peer, in insertion order, probe every epoch of
  that peer's search window.
\<close>

fun linear_scan_peers ::
  "prims \<Rightarrow> session_log \<Rightarrow> bytes \<Rightarrow> peers \<Rightarrow> 'a resolver_scheme \<Rightarrow> (exn + pystr \<times> int) \<times> 'a resolver_scheme" where
  "linear_scan_peers P sl pid [] r = (Inl UnknownPeerError, r)"
| "linear_scan_peers P sl pid ((peer, lam) # ps) r =
     (case probe_epochs P lam pid (epoch_search_window sl peer) r of
        (Inl x, r') \<Rightarrow> (Inl x, r')
      | (Inr None, r') \<Rightarrow> linear_scan_peers P sl pid ps r'
      | (Inr (Some epoch), r') \<Rightarrow>
          (if is_stale_epoch sl peer epoch then (Inl (ReplayDetected peer epoch), r')
           else (Inr (peer, epoch), r')))"

definition linear_resolve ::
  "prims \<Rightarrow> rat \<Rightarrow> peers \<Rightarrow> session_log \<Rightarrow> bytes \<Rightarrow> resolver \<Rightarrow> (exn + pystr \<times> int) \<times> resolver" where
  "linear_resolve P now ps sl pid r = linear_scan_peers P sl pid ps r"

definition linear_storage_bytes :: "peers \<Rightarrow> resolver \<Rightarrow> int" where
  "linear_storage_bytes ps r = COUNTER_BYTES * int (length ps)"

definition linear_scan_ops :: "resolver resolver_ops" where
  "linear_scan_ops = \<lparr>ro_attach = base_attach, ro_resolve = linear_resolve, ro_accept = base_accept,
     ro_storage_bytes = linear_storage_bytes\<rparr>"

section \<open>The contract holds\<close>

definition linear_wf :: "prims \<Rightarrow> peers \<Rightarrow> session_log \<Rightarrow> resolver \<Rightarrow> bool" where
  "linear_wf P ps sl r \<longleftrightarrow> distinct (map fst ps)"

lemma linear_scan_peers_sound:
  "linear_scan_peers P sl pid ps r = (Inr (p, e), r') \<Longrightarrow>
     (\<exists>lam. (p, lam) \<in> set ps \<and> h2_pseudonym P lam e = Inr pid) \<and> \<not> is_stale_epoch sl p e
     \<and> e \<in> set (epoch_search_window sl p)"
proof (induction ps arbitrary: r)
  case Nil
  then show ?case by simp
next
  case (Cons x ps)
  obtain q lam where x: "x = (q, lam)" by (cases x)
  from Cons.prems x show ?case
    by (auto split: sum.splits option.splits if_splits prod.splits dest!: probe_epochs_Some dest: Cons.IH)
qed

interpretation linear: fresh_resolver linear_scan_ops linear_wf
proof (unfold_locales, goal_cases)
  case (2 P ps sl r now pid p e r')
  then show ?case
    by (auto simp: linear_scan_ops_def linear_resolve_def linear_wf_def dest!: linear_scan_peers_sound)
qed (auto simp: linear_scan_ops_def linear_resolve_def linear_wf_def base_accept_def base_attach_def is_stale_epoch_def
      dest!: linear_scan_peers_sound)

section \<open>Completeness and exact cost\<close>

text \<open>The candidates of a search, in the order in which it probes them.\<close>

definition candidates :: "session_log \<Rightarrow> peers \<Rightarrow> (pystr \<times> int \<times> int) list" where
  "candidates sl ps = concat (map (\<lambda>(p, lam). map (\<lambda>e. (p, lam, e)) (epoch_search_window sl p)) ps)"

definition epochs_valid :: "session_log \<Rightarrow> peers \<Rightarrow> bool" where
  "epochs_valid sl ps \<longleftrightarrow> (\<forall>p \<in> set ps. \<forall>e \<in> set (epoch_search_window sl (fst p)). valid_epoch e)"

lemma epochs_valid_Cons [simp]:
  "epochs_valid sl ((p, lam) # ps) \<longleftrightarrow>
     (\<forall>e \<in> set (epoch_search_window sl p). valid_epoch e) \<and> epochs_valid sl ps"
  by (simp add: epochs_valid_def)

lemma candidates_simps [simp]:
  "candidates sl [] = []"
  "candidates sl ((p, lam) # ps) = map (\<lambda>e. (p, lam, e)) (epoch_search_window sl p) @ candidates sl ps"
  by (simp_all add: candidates_def)

lemma find_append: "List.find Q (xs @ ys) = (case List.find Q xs of None \<Rightarrow> List.find Q ys | Some x \<Rightarrow> Some x)"
  by (induction xs) auto

lemma find_map: "List.find Q (map f xs) = map_option f (List.find (\<lambda>x. Q (f x)) xs)"
  by (induction xs) auto

lemma search_cost_append:
  "search_cost Q (xs @ ys) = (if \<exists>x \<in> set xs. Q x then search_cost Q xs else int (length xs) + search_cost Q ys)"
  by (induction xs) auto

lemma search_cost_map: "search_cost Q (map f xs) = search_cost (\<lambda>x. Q (f x)) xs"
  by (induction xs) auto

text \<open>The scan as a specification: the first candidate with the received pseudonym decides.\<close>

definition scan_spec :: "session_log \<Rightarrow> (pystr \<times> int \<times> int) option \<Rightarrow> exn + pystr \<times> int" where
  "scan_spec sl hit = (case hit of
      None \<Rightarrow> Inl UnknownPeerError
    | Some (p, _, e) \<Rightarrow> if is_stale_epoch sl p e then Inl (ReplayDetected p e) else Inr (p, e))"

abbreviation matches :: "prims \<Rightarrow> bytes \<Rightarrow> pystr \<times> int \<times> int \<Rightarrow> bool" where
  "matches P pid \<equiv> \<lambda>(p, lam, e). pseudonym P lam e = pid"

lemma linear_scan_peers_eq:
  "valid_peers ps \<Longrightarrow> epochs_valid sl ps \<Longrightarrow>
     linear_scan_peers P sl pid ps r =
       (scan_spec sl (List.find (matches P pid) (candidates sl ps)),
        add_probes (search_cost (matches P pid) (candidates sl ps)) r)"
proof (induction ps arbitrary: r)
  case Nil
  then show ?case by (simp add: scan_spec_def)
next
  case (Cons x ps)
  obtain p lam where x: "x = (p, lam)" by (cases x)
  let ?w = "epoch_search_window sl p" and ?Q = "\<lambda>e. pseudonym P lam e = pid"
  have pe: "probe_epochs P lam pid ?w r = (Inr (List.find ?Q ?w), add_probes (search_cost ?Q ?w) r)"
    using Cons.prems x by (intro probe_epochs_eq) auto
  show ?case
  proof (cases "List.find ?Q ?w")
    case None
    then have "\<forall>e \<in> set ?w. \<not> ?Q e" by (simp add: find_None_iff)
    then show ?thesis
      using None Cons x pe
      by (simp add: find_append find_map search_cost_append search_cost_map search_cost_none)
  next
    case (Some e)
    then have "\<exists>e \<in> set ?w. ?Q e" by (auto simp: find_Some_iff)
    then show ?thesis
      using Some x pe
      by (simp add: find_append find_map search_cost_append search_cost_map scan_spec_def)
  qed
qed

lemma below_horizon_valid:
  assumes "below_horizon sl ps (forward_tolerance sl) E"
  shows "epochs_valid sl ps"
proof -
  have "valid_epoch e" if "(p, lam) \<in> set ps" "e \<in> set (epoch_search_window sl p)" for p lam e
    using below_horizonD [OF assms that(1)] that(2) by (simp add: window_mem valid_epoch_def)
  then show ?thesis by (auto simp: epochs_valid_def)
qed

lemma candidates_mem:
  "(p, lam, e) \<in> set (candidates sl ps) \<longleftrightarrow> (p, lam) \<in> set ps \<and> e \<in> set (epoch_search_window sl p)"
  by (auto simp: candidates_def)

lemma search_cost_split:
  assumes "\<forall>y \<in> set xs. \<not> Q y" "Q x"
  shows "search_cost Q (xs @ x # ys) = int (length xs) + 1"
  using assms by (induction xs) auto

lemma window_split:
  assumes "e \<in> set (epoch_search_window sl p)"
  shows "epoch_search_window sl p =
     [max 0 (last_epoch sl p - replay_lookback sl) .. e - 1] @ e # [e + 1 .. last_epoch sl p + forward_tolerance sl]"
proof -
  let ?lo = "max 0 (last_epoch sl p - replay_lookback sl)" and ?hi = "last_epoch sl p + forward_tolerance sl"
  from assms have "?lo \<le> e" "e \<le> ?hi" by (simp_all add: window_mem)
  then have "[?lo .. ?hi] = [?lo .. e - 1] @ [e .. ?hi]"
    by (intro upto_split1) auto
  moreover have "[e .. ?hi] = e # [e + 1 .. ?hi]"
    using \<open>e \<le> ?hi\<close> by (rule upto_rec1)
  ultimately show ?thesis by (simp add: epoch_search_window_def Let_def)
qed

lemma linear_resolve_match:
  assumes v: "valid_peers ps" and nc: "no_collisions P ps E"
    and hz: "below_horizon sl ps (forward_tolerance sl) E"
    and ps: "ps = before @ (p, lam) # after" and e: "e \<in> set (epoch_search_window sl p)"
  shows "linear_resolve P now ps sl (pseudonym P lam e) r =
    (if is_stale_epoch sl p e then Inl (ReplayDetected p e) else Inr (p, e),
     add_probes (int (length (candidates sl before)) + (e - max 0 (last_epoch sl p - replay_lookback sl)) + 1) r)"
proof -
  let ?Q = "matches P (pseudonym P lam e)" and ?lo = "max 0 (last_epoch sl p - replay_lookback sl)"
  have rng: "0 \<le> f \<and> f < E" if "(q, mu) \<in> set ps" "f \<in> set (epoch_search_window sl q)" for q mu f
    using below_horizonD [OF hz that(1)] that(2) by (simp add: window_mem)
  have uniq: "(q, mu, f) = (p, lam, e)" if "(q, mu, f) \<in> set (candidates sl ps)" "?Q (q, mu, f)" for q mu f
  proof -
    from that have m: "(q, mu) \<in> set ps" "f \<in> set (epoch_search_window sl q)"
      "pseudonym P mu f = pseudonym P lam e" by (simp_all add: candidates_mem)
    have pe: "(p, lam) \<in> set ps" by (simp add: ps)
    show ?thesis
      using no_collisionsD [OF nc m(1) pe _ _ _ _ m(3)] rng [OF m(1,2)] rng [OF pe e] by simp
  qed
  have nb: "(p, lam) \<notin> set before"
  proof
    assume "(p, lam) \<in> set before"
    then have "p \<in> fst ` set before" by (rule rev_image_eqI) simp
    with v ps show False by (simp add: valid_peers_def)
  qed
  have hit: "List.find ?Q (candidates sl ps) = Some (p, lam, e)"
  proof (rule find_unique)
    show "(p, lam, e) \<in> set (candidates sl ps)" using e by (simp add: candidates_mem ps)
    show "\<forall>y \<in> set (candidates sl ps). ?Q y \<longrightarrow> y = (p, lam, e)" using uniq by blast
  qed simp
  have split: "candidates sl ps = (candidates sl before @ map (\<lambda>f. (p, lam, f)) [?lo .. e - 1])
      @ (p, lam, e) # (map (\<lambda>f. (p, lam, f)) [e + 1 .. last_epoch sl p + forward_tolerance sl] @ candidates sl after)"
    by (simp add: ps candidates_def window_split [OF e])
  have none: "\<forall>y \<in> set (candidates sl before @ map (\<lambda>f. (p, lam, f)) [?lo .. e - 1]). \<not> ?Q y"
  proof
    fix y assume y: "y \<in> set (candidates sl before @ map (\<lambda>f. (p, lam, f)) [?lo .. e - 1])"
    then have "y \<noteq> (p, lam, e)" using nb by (auto simp: candidates_mem)
    moreover have "y \<in> set (candidates sl ps)"
      using y by (auto simp: ps candidates_def window_split [OF e])
    ultimately show "\<not> ?Q y" using uniq by (cases y) blast
  qed
  have "search_cost ?Q (candidates sl ps) = int (length (candidates sl before) + nat (e - ?lo)) + 1"
    unfolding split by (subst search_cost_split [OF none]) simp_all
  moreover have "?lo \<le> e" using e by (simp add: window_mem)
  ultimately have "search_cost ?Q (candidates sl ps) = int (length (candidates sl before)) + (e - ?lo) + 1"
    by simp
  with hit show ?thesis
    by (simp add: linear_resolve_def linear_scan_peers_eq [OF v below_horizon_valid [OF hz]] scan_spec_def)
qed

lemma linear_resolve_unknown:
  assumes "valid_peers ps" "below_horizon sl ps (forward_tolerance sl) E"
    and "\<forall>(p, lam) \<in> set ps. \<forall>e \<in> set (epoch_search_window sl p). pseudonym P lam e \<noteq> pid"
  shows "linear_resolve P now ps sl pid r =
    (Inl UnknownPeerError, add_probes (int (length (candidates sl ps))) r)"
proof -
  have "\<forall>c \<in> set (candidates sl ps). \<not> matches P pid c"
    using assms(3) by (fastforce simp: candidates_def)
  moreover from this have "List.find (matches P pid) (candidates sl ps) = None"
    unfolding find_None_iff by blast
  ultimately show ?thesis
    unfolding linear_resolve_def linear_scan_peers_eq [OF assms(1) below_horizon_valid [OF assms(2)]]
    by (simp only: scan_spec_def search_cost_none option.case)
qed

text \<open>Counter-epoch resolution as a specification, shared with the table strategy.\<close>

definition counter_spec :: "prims \<Rightarrow> int \<Rightarrow> peers \<Rightarrow> session_log \<Rightarrow> bytes \<Rightarrow> pystr \<Rightarrow> int \<Rightarrow> bool" where
  "counter_spec P F ps sl pid p e \<longleftrightarrow>
     (\<exists>lam. (p, lam) \<in> set ps \<and> last_epoch sl p < e \<and> e \<le> last_epoch sl p + F \<and> pseudonym P lam e = pid)"

lemma linear_resolve_iff:
  assumes "valid_peers ps" "no_collisions P ps E" "below_horizon sl ps (forward_tolerance sl) E"
    and "0 \<le> replay_lookback sl"
  shows "fst (linear_resolve P now ps sl pid r) = Inr (p, e) \<longleftrightarrow>
     counter_spec P (forward_tolerance sl) ps sl pid p e"
proof
  assume "fst (linear_resolve P now ps sl pid r) = Inr (p, e)"
  then obtain r' where "linear_scan_peers P sl pid ps r = (Inr (p, e), r')"
    by (cases "linear_scan_peers P sl pid ps r") (simp add: linear_resolve_def)
  from linear_scan_peers_sound [OF this]
  show "counter_spec P (forward_tolerance sl) ps sl pid p e"
    by (auto simp: counter_spec_def is_stale_epoch_def window_mem h2_pseudonym_Inr)
next
  assume "counter_spec P (forward_tolerance sl) ps sl pid p e"
  then obtain lam where l: "(p, lam) \<in> set ps" "last_epoch sl p < e" "e \<le> last_epoch sl p + forward_tolerance sl"
    "pseudonym P lam e = pid" by (auto simp: counter_spec_def)
  moreover from l(1) obtain before after where "ps = before @ (p, lam) # after" by (meson split_list)
  moreover have "-1 \<le> last_epoch sl p" using assms(3) l(1) by (fastforce simp: below_horizon_def)
  ultimately show "fst (linear_resolve P now ps sl pid r) = Inr (p, e)"
    using linear_resolve_match [OF assms(1-3), of before p lam after e now r] assms(4)
    by (simp add: window_mem is_stale_epoch_def)
qed

end
