(* ===== verification/CounterTable.thy ===== *)
theory CounterTable
  imports LinearScan
begin

text \<open>
  Strategy O2 (class \<^verbatim>\<open>CounterTable\<close>): a dictionary from every acceptable future pseudonym to its peer
  and epoch.  The window of a peer slides when one of its epochs is accepted.
\<close>

record counter_table = resolver +
  ct_forward :: "int option"
  ct_table :: "(bytes \<times> pystr \<times> int) list"
  ct_hi :: "pystr \<rightharpoonup> int"

definition new_counter_table :: "int option \<Rightarrow> counter_table" where
  "new_counter_table f = \<lparr>probes = 0, precompute_probes = 0, ct_forward = f, ct_table = [], ct_hi = Map.empty\<rparr>"

definition forward :: "session_log \<Rightarrow> counter_table \<Rightarrow> int" where
  "forward sl r = (case ct_forward r of Some f \<Rightarrow> f | None \<Rightarrow> forward_tolerance sl)"

fun fill_epochs ::
  "prims \<Rightarrow> pystr \<Rightarrow> int \<Rightarrow> bool \<Rightarrow> int list \<Rightarrow> counter_table \<Rightarrow> (exn + unit) \<times> counter_table" where
  "fill_epochs P peer lam precompute [] r = (Inr (), r)"
| "fill_epochs P peer lam precompute (epoch # es) r =
     (case h2_counted P lam epoch precompute r of
        (Inl x, r') \<Rightarrow> (Inl x, r')
      | (Inr h, r') \<Rightarrow>
          fill_epochs P peer lam precompute es (r'\<lparr>ct_table := AList.update h (peer, epoch) (ct_table r')\<rparr>))"

definition counter_fill ::
  "prims \<Rightarrow> peers \<Rightarrow> session_log \<Rightarrow> pystr \<Rightarrow> bool \<Rightarrow> counter_table \<Rightarrow> (exn + unit) \<times> counter_table" where
  "counter_fill P ps sl peer precompute r =
     (let last = last_epoch sl peer;
          start = max (case ct_hi r peer of None \<Rightarrow> last | Some h \<Rightarrow> h) last + 1
      in case map_of ps peer of
           None \<Rightarrow> (Inl KeyError, r)
         | Some lam \<Rightarrow>
             (case fill_epochs P peer lam precompute [start .. last + forward sl r] r of
                (Inl x, r') \<Rightarrow> (Inl x, r')
              | (Inr _, r') \<Rightarrow> (Inr (), r'\<lparr>ct_hi := (ct_hi r')(peer \<mapsto> last + forward sl r')\<rparr>)))"

fun fill_peers ::
  "prims \<Rightarrow> peers \<Rightarrow> session_log \<Rightarrow> pystr list \<Rightarrow> counter_table \<Rightarrow> (exn + unit) \<times> counter_table" where
  "fill_peers P ps sl [] r = (Inr (), r)"
| "fill_peers P ps sl (peer # qs) r =
     (case counter_fill P ps sl peer True r of
        (Inl x, r') \<Rightarrow> (Inl x, r')
      | (Inr _, r') \<Rightarrow> fill_peers P ps sl qs r')"

definition counter_attach ::
  "prims \<Rightarrow> rat \<Rightarrow> peers \<Rightarrow> session_log \<Rightarrow> counter_table \<Rightarrow> (exn + unit) \<times> counter_table" where
  "counter_attach P now ps sl r = fill_peers P ps sl (map fst ps) (r\<lparr>ct_table := [], ct_hi := Map.empty\<rparr>)"

definition counter_resolve ::
  "prims \<Rightarrow> rat \<Rightarrow> peers \<Rightarrow> session_log \<Rightarrow> bytes \<Rightarrow> counter_table \<Rightarrow> (exn + pystr \<times> int) \<times> counter_table" where
  "counter_resolve P now ps sl pid r =
     (case map_of (ct_table r) pid of None \<Rightarrow> (Inl UnknownPeerError, r) | Some hit \<Rightarrow> (Inr hit, r))"

definition drop_upto :: "pystr \<Rightarrow> int \<Rightarrow> (bytes \<times> pystr \<times> int) list \<Rightarrow> (bytes \<times> pystr \<times> int) list" where
  "drop_upto peer bound tab = filter (\<lambda>(k, p, e). \<not> (p = peer \<and> e \<le> bound)) tab"

definition counter_accept ::
  "prims \<Rightarrow> rat \<Rightarrow> peers \<Rightarrow> session_log \<Rightarrow> pystr \<Rightarrow> int \<Rightarrow> bytes \<Rightarrow> counter_table
     \<Rightarrow> (exn + unit) \<times> counter_table \<times> session_log" where
  "counter_accept P now ps sl peer epoch n_i r =
     (let sl' = accept_epoch sl peer epoch;
          r' = r\<lparr>ct_table := drop_upto peer (last_epoch sl' peer) (ct_table r)\<rparr>;
          (res, r'') = counter_fill P ps sl' peer False r'
      in (res, r'', sl'))"

definition counter_storage_bytes :: "peers \<Rightarrow> counter_table \<Rightarrow> int" where
  "counter_storage_bytes ps r = TABLE_ENTRY_BYTES * int (length (ct_table r)) + COUNTER_BYTES * int (length ps)"

definition counter_table_ops :: "counter_table resolver_ops" where
  "counter_table_ops = \<lparr>ro_attach = counter_attach, ro_resolve = counter_resolve, ro_accept = counter_accept,
     ro_storage_bytes = counter_storage_bytes\<rparr>"

section \<open>The contract holds\<close>

text \<open>
  The invariant: no pseudonym is tabled twice, and every entry belongs to an enrolled peer, is that
  peer's pseudonym for its epoch, and lies above the last accepted epoch.
\<close>

definition entry_ok :: "prims \<Rightarrow> peers \<Rightarrow> session_log \<Rightarrow> bytes \<times> pystr \<times> int \<Rightarrow> bool" where
  "entry_ok P ps sl = (\<lambda>(k, p, e). (\<exists>lam. map_of ps p = Some lam \<and> h2_pseudonym P lam e = Inr k) \<and> last_epoch sl p < e)"

definition counter_wf :: "prims \<Rightarrow> peers \<Rightarrow> session_log \<Rightarrow> counter_table \<Rightarrow> bool" where
  "counter_wf P ps sl r \<longleftrightarrow> distinct (map fst (ct_table r)) \<and> (\<forall>x \<in> set (ct_table r). entry_ok P ps sl x)"

lemma add_probes_ct [simp]:
  "ct_table (add_probes n r) = ct_table r" "ct_hi (add_probes n r) = ct_hi r"
  "ct_forward (add_probes n r) = ct_forward r"
  "ct_table (add_precompute n r) = ct_table r" "ct_hi (add_precompute n r) = ct_hi r"
  "ct_forward (add_precompute n r) = ct_forward r"
  by (simp_all add: add_probes_def add_precompute_def)

lemma fill_epochs_wf:
  assumes "counter_wf P ps sl r" "map_of ps peer = Some lam" "\<forall>e \<in> set es. last_epoch sl peer < e"
  shows "counter_wf P ps sl (snd (fill_epochs P peer lam pre es r))"
  using assms(1,3)
proof (induction es arbitrary: r)
  case Nil
  then show ?case by simp
next
  case (Cons e es)
  show ?case
  proof (cases "h2_pseudonym P lam e")
    case (Inl x)
    then show ?thesis using Cons.prems by (simp add: h2_counted_eq counter_wf_def)
  next
    case (Inr h)
    define r1 where "r1 = (if pre then add_precompute 1 r else add_probes 1 r)"
    have "counter_wf P ps sl (r1\<lparr>ct_table := AList.update h (peer, e) (ct_table r1)\<rparr>)"
      using Cons.prems Inr assms(2) set_alist_update [of h "(peer, e)" "ct_table r"]
      by (auto simp: counter_wf_def r1_def entry_ok_def distinct_update)
    then show ?thesis
      using Inr Cons by (simp add: h2_counted_eq r1_def)
  qed
qed

lemma counter_fill_wf:
  assumes "counter_wf P ps sl r"
  shows "counter_wf P ps sl (snd (counter_fill P ps sl peer pre r))"
proof (cases "map_of ps peer")
  case None
  with assms show ?thesis by (simp add: counter_fill_def Let_def)
next
  case (Some lam)
  let ?last = "last_epoch sl peer"
  let ?es = "[max (case ct_hi r peer of None \<Rightarrow> ?last | Some h \<Rightarrow> h) ?last + 1 .. ?last + forward sl r]"
  have "counter_wf P ps sl (snd (fill_epochs P peer lam pre ?es r))"
    by (rule fill_epochs_wf [OF assms Some]) (auto simp: max_def split: if_splits)
  with Some show ?thesis
    by (auto simp: counter_fill_def Let_def counter_wf_def split: prod.split sum.split)
qed

lemma fill_peers_wf: "counter_wf P ps sl r \<Longrightarrow> counter_wf P ps sl (snd (fill_peers P ps sl qs r))"
proof (induction qs arbitrary: r)
  case Nil
  then show ?case by simp
next
  case (Cons q qs)
  from counter_fill_wf [OF Cons.prems, of q True] show ?case
    by (auto split: prod.split sum.split dest: Cons.IH)
qed

lemma drop_upto_wf:
  assumes "counter_wf P ps sl r"
  shows "counter_wf P ps (accept_epoch sl peer e)
     (r\<lparr>ct_table := drop_upto peer (last_epoch (accept_epoch sl peer e) peer) (ct_table r)\<rparr>)"
  using assms by (auto simp: counter_wf_def drop_upto_def entry_ok_def intro: distinct_fst_filter)

interpretation counter: fresh_resolver counter_table_ops counter_wf
proof (unfold_locales, goal_cases)
  case (1 P ps sl r now pid res r')
  then show ?case by (auto simp: counter_table_ops_def counter_resolve_def split: option.splits)
next
  case (2 P ps sl r now pid p e r')
  then show ?case
    by (fastforce simp: counter_table_ops_def counter_resolve_def counter_wf_def entry_ok_def
        split: option.splits dest: map_of_SomeD)
next
  case (3 P now ps sl p e n r r' sl')
  then show ?case by (auto simp: counter_table_ops_def counter_accept_def Let_def split: prod.splits)
next
  case (4 P now ps sl p e n r x r' sl')
  then show ?case by (auto simp: counter_table_ops_def counter_accept_def Let_def split: prod.splits)
next
  case (5 P ps sl r now p e n ares r' sl')
  from counter_fill_wf [OF drop_upto_wf [OF 5(1), of p e], of p False] 5(2) show ?case
    by (auto simp: counter_table_ops_def counter_accept_def Let_def split: prod.splits)
next
  case (6 ps P now sl r r')
  have "counter_wf P ps sl (r\<lparr>ct_table := [], ct_hi := Map.empty\<rparr>)" by (simp add: counter_wf_def)
  from fill_peers_wf [OF this, of "map fst ps"] 6(2) show ?case
    by (simp add: counter_table_ops_def counter_attach_def)
next
  case (7 P ps sl r sl')
  then show ?case by (simp add: counter_wf_def entry_ok_def)
next
  case (8 P ps sl r now pid p e r')
  then show ?case
    by (fastforce simp: counter_table_ops_def counter_resolve_def counter_wf_def entry_ok_def
        split: option.splits dest: map_of_SomeD)
qed

end
