(* ===== verification/CounterTable_Complete.thy ===== *)
theory CounterTable_Complete
  imports CounterTable
begin

text \<open>
  What the table of strategy O2 contains, what keeping it costs, and that it accepts exactly the
  pseudonyms strategy O1 accepts.  All of it rests on \<open>no_collisions\<close>: two pairs with one pseudonym
  would overwrite each other in the dictionary.
\<close>

definition count_hashes :: "bool \<Rightarrow> int \<Rightarrow> 'a resolver_scheme \<Rightarrow> 'a resolver_scheme" where
  "count_hashes pre n r = (if pre then add_precompute n r else add_probes n r)"

lemma count_hashes_simps [simp, probe_simps]:
  "count_hashes pre 0 r = r"
  "count_hashes pre m (count_hashes pre n r) = count_hashes pre (n + m) r"
  "probes (count_hashes pre n r) = (if pre then probes r else probes r + n)"
  "precompute_probes (count_hashes pre n r) = (if pre then precompute_probes r + n else precompute_probes r)"
  by (simp_all add: count_hashes_def)

lemma count_hashes_ct [simp]:
  "ct_table (count_hashes pre n r) = ct_table r" "ct_hi (count_hashes pre n r) = ct_hi r"
  "ct_forward (count_hashes pre n r) = ct_forward r"
  "(count_hashes pre n r)\<lparr>ct_table := t\<rparr> = count_hashes pre n (r\<lparr>ct_table := t\<rparr>)"
  "(count_hashes pre n r)\<lparr>ct_hi := h\<rparr> = count_hashes pre n (r\<lparr>ct_hi := h\<rparr>)"
  by (simp_all add: count_hashes_def add_probes_def add_precompute_def)

lemma forward_cong:
  "ct_forward r' = ct_forward r \<Longrightarrow> forward_tolerance sl' = forward_tolerance sl \<Longrightarrow> forward sl' r' = forward sl r"
  by (simp add: forward_def split: option.split)

lemma forward_updates [simp]:
  "forward sl (r\<lparr>ct_table := t\<rparr>) = forward sl r" "forward sl (r\<lparr>ct_hi := h\<rparr>) = forward sl r"
  "forward sl (count_hashes pre n r) = forward sl r" "forward (accept_epoch sl p e) r = forward sl r"
  by (simp_all add: forward_def count_hashes_def add_probes_def add_precompute_def split: option.split)

section \<open>Filling\<close>

definition entries :: "prims \<Rightarrow> pystr \<Rightarrow> int \<Rightarrow> int list \<Rightarrow> (bytes \<times> pystr \<times> int) list" where
  "entries P p lam es = map (\<lambda>e. (pseudonym P lam e, p, e)) es"

definition table_entries :: "prims \<Rightarrow> session_log \<Rightarrow> int \<Rightarrow> peers \<Rightarrow> (bytes \<times> pystr \<times> int) list" where
  "table_entries P sl F ps =
     concat (map (\<lambda>(p, lam). entries P p lam [last_epoch sl p + 1 .. last_epoch sl p + F]) ps)"

lemma table_entries_simps [simp]:
  "table_entries P sl F [] = []"
  "table_entries P sl F ((p, lam) # ps) =
     entries P p lam [last_epoch sl p + 1 .. last_epoch sl p + F] @ table_entries P sl F ps"
  by (simp_all add: table_entries_def)

lemma table_entries_append [simp]:
  "table_entries P sl F (qs @ rs) = table_entries P sl F qs @ table_entries P sl F rs"
  by (simp add: table_entries_def)

lemma entries_mem: "(k, q, e) \<in> set (entries P p lam es) \<longleftrightarrow> q = p \<and> e \<in> set es \<and> k = pseudonym P lam e"
  by (auto simp: entries_def)

lemma fst_entries [simp]: "fst ` set (entries P p lam es) = pseudonym P lam ` set es"
  by (force simp: entries_def)

lemma table_entries_mem:
  "(k, p, e) \<in> set (table_entries P sl F ps) \<longleftrightarrow>
     (\<exists>lam. (p, lam) \<in> set ps \<and> last_epoch sl p < e \<and> e \<le> last_epoch sl p + F \<and> k = pseudonym P lam e)"
  by (fastforce simp: table_entries_def entries_mem)

lemma table_entries_spec:
  "(pid, p, e) \<in> set (table_entries P sl F ps) \<longleftrightarrow> counter_spec P F ps sl pid p e"
  by (auto simp: table_entries_mem counter_spec_def)

lemma length_table_entries: "0 \<le> F \<Longrightarrow> int (length (table_entries P sl F ps)) = F * int (length ps)"
  by (induction ps) (auto simp: entries_def algebra_simps)

lemma fill_epochs_eq:
  assumes "valid_lam lam" "\<forall>e \<in> set es. valid_epoch e" "distinct (map (pseudonym P lam) es)"
    and "\<forall>e \<in> set es. pseudonym P lam e \<notin> fst ` set (ct_table r)"
  shows "fill_epochs P peer lam pre es r =
    (Inr (), count_hashes pre (int (length es)) (r\<lparr>ct_table := ct_table r @ entries P peer lam es\<rparr>))"
  using assms(2-4)
proof (induction es arbitrary: r)
  case Nil
  then show ?case by (simp add: entries_def)
next
  case (Cons e es)
  let ?r = "count_hashes pre 1 (r\<lparr>ct_table := ct_table r @ [(pseudonym P lam e, peer, e)]\<rparr>)"
  have "fill_epochs P peer lam pre (e # es) r = fill_epochs P peer lam pre es ?r"
    using Cons.prems
    by (simp add: h2_counted_eq h2_pseudonym_valid [OF assms(1)] alist_update_fresh
        count_hashes_def [symmetric])
  also have "\<dots> = (Inr (), count_hashes pre (int (length es)) (?r\<lparr>ct_table := ct_table ?r @ entries P peer lam es\<rparr>))"
  proof (rule Cons.IH)
    show "\<forall>f \<in> set es. pseudonym P lam f \<notin> fst ` set (ct_table ?r)"
      using Cons.prems by (auto simp: image_iff)
  qed (use Cons.prems in auto)
  finally show ?case by (simp add: entries_def)
qed

lemma distinct_pseudonyms:
  assumes "no_collisions P ps E" "(p, lam) \<in> set ps" "distinct es" "\<forall>e \<in> set es. 0 \<le> e \<and> e < E"
  shows "distinct (map (pseudonym P lam) es)"
  using assms by (auto simp: distinct_map inj_on_def dest: no_collisionsD)

lemma table_entries_distinct:
  assumes "no_collisions P ps E" "below_horizon sl ps F E"
  shows "distinct (map fst (table_entries P sl F ps))"
  using assms
proof (induction ps)
  case Nil
  then show ?case by simp
next
  case (Cons x ps)
  obtain p lam where x: "x = (p, lam)" by (cases x)
  note hz = below_horizonD [OF Cons.prems(2)]
  have 1: "distinct (map fst (entries P p lam [last_epoch sl p + 1 .. last_epoch sl p + F]))"
    using distinct_pseudonyms [OF Cons.prems(1), of p lam] hz [of p lam] x
    by (fastforce simp: entries_def comp_def)
  have 2: "distinct (map fst (table_entries P sl F ps))"
    using Cons by (auto simp: x no_collisions_Cons below_horizon_def)
  have 3: False if "(k, a) \<in> set (entries P p lam [last_epoch sl p + 1 .. last_epoch sl p + F])"
    "(k, q, f) \<in> set (table_entries P sl F ps)" for k a q f
  proof -
    from that(2) obtain mu where mu: "(q, mu) \<in> set ps" "last_epoch sl q < f" "f \<le> last_epoch sl q + F"
      "k = pseudonym P mu f" by (auto simp: table_entries_mem)
    obtain b e where "a = (b, e)" by (cases a)
    with that(1) have "last_epoch sl p < e" "e \<le> last_epoch sl p + F" "k = pseudonym P lam e"
      by (simp_all add: entries_mem)
    with mu have e: "last_epoch sl p < e" "e \<le> last_epoch sl p + F"
      "(q, mu) \<in> set ps" "last_epoch sl q < f" "f \<le> last_epoch sl q + F" "pseudonym P lam e = pseudonym P mu f"
      by simp_all
    have "e \<in> {0 .. E - 1}" "f \<in> {0 .. E - 1}"
      using e hz [of p lam] hz [of q mu] x by auto
    with e Cons.prems(1) show False by (fastforce simp: x no_collisions_Cons)
  qed
  then have "fst ` set (entries P p lam [last_epoch sl p + 1 .. last_epoch sl p + F])
      \<inter> fst ` set (table_entries P sl F ps) = {}"
    by (force simp del: fst_entries)
  with 1 2 show ?case by (simp add: x del: fst_entries)
qed

lemma counter_fill_eq:
  assumes ps: "map_of ps peer = Some lam" "valid_lam lam"
    and start: "start = max (case ct_hi r peer of None \<Rightarrow> last_epoch sl peer | Some h \<Rightarrow> h) (last_epoch sl peer) + 1"
    and stop: "stop = last_epoch sl peer + forward sl r"
    and ok: "\<forall>e \<in> {start .. stop}. valid_epoch e" "distinct (map (pseudonym P lam) [start .. stop])"
    and new: "\<forall>e \<in> {start .. stop}. pseudonym P lam e \<notin> fst ` set (ct_table r)"
  shows "counter_fill P ps sl peer pre r =
    (Inr (), count_hashes pre (int (length [start .. stop]))
       (r\<lparr>ct_table := ct_table r @ entries P peer lam [start .. stop], ct_hi := (ct_hi r)(peer \<mapsto> stop)\<rparr>))"
proof -
  have "fill_epochs P peer lam pre [start .. stop] r =
    (Inr (), count_hashes pre (int (length [start .. stop])) (r\<lparr>ct_table := ct_table r @ entries P peer lam [start .. stop]\<rparr>))"
    using ps ok new by (intro fill_epochs_eq) auto
  then show ?thesis
    using ps(1) by (simp add: counter_fill_def Let_def start [symmetric] stop [symmetric] del: length_upto)
qed


section \<open>What the table holds\<close>

text \<open>
  The table is exact: the pseudonyms of the next \<open>F\<close> epochs of every enrolled peer, nothing else, and
  the recorded upper end of every window is right.
\<close>

definition counter_full :: "prims \<Rightarrow> int \<Rightarrow> peers \<Rightarrow> session_log \<Rightarrow> counter_table \<Rightarrow> bool" where
  "counter_full P F ps sl r \<longleftrightarrow> forward sl r = F \<and> distinct (map fst (ct_table r)) \<and>
     set (ct_table r) = set (table_entries P sl F ps) \<and>
     (\<forall>p \<in> set ps. ct_hi r (fst p) = Some (last_epoch sl (fst p) + F))"

lemma fill_peers_eq:
  assumes "no_collisions P ps E" "below_horizon sl ps F E" "valid_peers ps" "0 \<le> F"
    and "ps = qs @ rs" "forward sl r = F" "ct_table r = table_entries P sl F qs"
    and "\<forall>p \<in> fst ` set rs. ct_hi r p = None" "\<forall>p \<in> set qs. ct_hi r (fst p) = Some (last_epoch sl (fst p) + F)"
  shows "\<exists>r'. fill_peers P ps sl (map fst rs) r = (Inr (), r') \<and> counter_full P F ps sl r' \<and>
     probes r' = probes r \<and> precompute_probes r' = precompute_probes r + F * int (length rs)"
  using assms(5-9)
proof (induction rs arbitrary: qs r)
  case Nil
  then show ?case
    using table_entries_distinct [OF assms(1,2)] by (simp add: counter_full_def)
next
  case (Cons x rs)
  obtain p lam where x: "x = (p, lam)" by (cases x)
  let ?es = "[last_epoch sl p + 1 .. last_epoch sl p + F]"
  let ?r = "count_hashes True (int (length ?es))
    (r\<lparr>ct_table := ct_table r @ entries P p lam ?es, ct_hi := (ct_hi r)(p \<mapsto> last_epoch sl p + F)\<rparr>)"
  have inps: "(p, lam) \<in> set ps" using Cons.prems(1) x by simp
  note hz = below_horizonD [OF assms(2) inps]
  have lam: "valid_lam lam" using assms(3) inps by (auto simp: valid_peers_def)
  have "distinct (map fst ps)" using assms(3) by (simp add: valid_peers_def)
  then have mo: "map_of ps p = Some lam" using inps by simp
  have "counter_fill P ps sl p True r = (Inr (), ?r)"
  proof (rule counter_fill_eq [OF mo lam])
    show "last_epoch sl p + 1 = max (case ct_hi r p of None \<Rightarrow> last_epoch sl p | Some h \<Rightarrow> h) (last_epoch sl p) + 1"
      using Cons.prems(4) x by simp
    show "last_epoch sl p + F = last_epoch sl p + forward sl r" using Cons.prems(2) by simp
    show "\<forall>e \<in> {last_epoch sl p + 1 .. last_epoch sl p + F}. valid_epoch e"
      using hz by (auto simp: valid_epoch_def)
    show "distinct (map (pseudonym P lam) ?es)"
      using hz by (intro distinct_pseudonyms [OF assms(1) inps]) auto
    have "distinct (map fst (table_entries P sl F (qs @ x # rs)))"
      using table_entries_distinct [OF assms(1,2)] Cons.prems(1) by simp
    then show "\<forall>e \<in> {last_epoch sl p + 1 .. last_epoch sl p + F}. pseudonym P lam e \<notin> fst ` set (ct_table r)"
      by (simp add: Cons.prems(3) x) blast
  qed
  then have step: "fill_peers P ps sl (map fst (x # rs)) r = fill_peers P ps sl (map fst rs) ?r"
    by (simp add: x del: length_upto)
  have "p \<notin> fst ` set rs" using assms(3) Cons.prems(1) x by (auto simp: valid_peers_def)
  then have "\<exists>r'. fill_peers P ps sl (map fst rs) ?r = (Inr (), r') \<and> counter_full P F ps sl r' \<and>
     probes r' = probes ?r \<and> precompute_probes r' = precompute_probes ?r + F * int (length rs)"
    using Cons.prems assms(3) x
    by (intro Cons.IH [of "qs @ [x]"]) (auto simp: table_entries_def valid_peers_def image_iff)
  then show ?case
    unfolding step using assms(4) by (simp add: algebra_simps)
qed

lemma counter_attach_full:
  assumes "no_collisions P ps E" "below_horizon sl ps F E" "valid_peers ps" "0 \<le> F" "forward sl r = F"
  shows "\<exists>r'. counter_attach P now ps sl r = (Inr (), r') \<and> counter_full P F ps sl r' \<and>
     probes r' = probes r \<and> precompute_probes r' = precompute_probes r + F * int (length ps)"
  using fill_peers_eq [OF assms(1-4), of "[]" ps "r\<lparr>ct_table := [], ct_hi := Map.empty\<rparr>"] assms(5)
  by (simp add: counter_attach_def)

lemma counter_resolve_iff:
  assumes "counter_full P F ps sl r"
  shows "fst (counter_resolve P now ps sl pid r) = Inr (p, e) \<longleftrightarrow> counter_spec P F ps sl pid p e"
    and "snd (counter_resolve P now ps sl pid r) = r"
    and "(\<forall>p e. \<not> counter_spec P F ps sl pid p e) \<Longrightarrow> fst (counter_resolve P now ps sl pid r) = Inl UnknownPeerError"
proof -
  from assms have d: "distinct (map fst (ct_table r))" and s: "set (ct_table r) = set (table_entries P sl F ps)"
    by (simp_all add: counter_full_def)
  have m: "map_of (ct_table r) pid = Some (q, f) \<longleftrightarrow> counter_spec P F ps sl pid q f" for q f
    by (simp add: table_entries_spec [symmetric] s [symmetric] map_of_eq_Some_iff [OF d])
  show "fst (counter_resolve P now ps sl pid r) = Inr (p, e) \<longleftrightarrow> counter_spec P F ps sl pid p e"
    using m [of p e] by (auto simp: counter_resolve_def split: option.split)
  show "snd (counter_resolve P now ps sl pid r) = r" by (simp add: counter_resolve_def split: option.split)
  assume "\<forall>p e. \<not> counter_spec P F ps sl pid p e"
  with m have "map_of (ct_table r) pid = None" by (cases "map_of (ct_table r) pid") auto
  then show "fst (counter_resolve P now ps sl pid r) = Inl UnknownPeerError" by (simp add: counter_resolve_def)
qed

lemma counter_full_storage:
  assumes "counter_full P F ps sl r" "no_collisions P ps E" "below_horizon sl ps F E" "0 \<le> F"
  shows "counter_storage_bytes ps r = (TABLE_ENTRY_BYTES * F + COUNTER_BYTES) * int (length ps)"
proof -
  from assms(1) have "distinct (ct_table r)" "set (ct_table r) = set (table_entries P sl F ps)"
    by (auto simp: counter_full_def distinct_map)
  moreover have "distinct (table_entries P sl F ps)"
    using table_entries_distinct [OF assms(2,3)] by (simp add: distinct_map)
  ultimately have "length (ct_table r) = length (table_entries P sl F ps)"
    by (metis distinct_card)
  then show ?thesis
    using length_table_entries [OF assms(4), of P sl ps] by (simp add: counter_storage_bytes_def algebra_simps)
qed


section \<open>Sliding a window\<close>

lemma drop_upto_mem:
  "(k, q, f) \<in> set (drop_upto p b tab) \<longleftrightarrow> (k, q, f) \<in> set tab \<and> \<not> (q = p \<and> f \<le> b)"
  by (auto simp: drop_upto_def)

lemma counter_accept_full:
  assumes full: "counter_full P F ps sl r" and v: "valid_peers ps" and nc: "no_collisions P ps E"
    and hz0: "below_horizon sl ps F E" and hz1: "below_horizon (accept_epoch sl p e) ps F E"
    and p: "(p, lam) \<in> set ps" and e: "last_epoch sl p < e" "e \<le> last_epoch sl p + F"
  shows "\<exists>r'. counter_accept P now ps sl p e n r = (Inr (), r', accept_epoch sl p e) \<and>
     counter_full P F ps (accept_epoch sl p e) r' \<and>
     probes r' = probes r + (e - last_epoch sl p) \<and> precompute_probes r' = precompute_probes r"
proof -
  let ?sl = "accept_epoch sl p e" and ?l = "last_epoch sl p"
  let ?r0 = "r\<lparr>ct_table := drop_upto p e (ct_table r)\<rparr>"
  let ?es = "[?l + F + 1 .. e + F]"
  let ?r1 = "count_hashes False (int (length ?es))
     (?r0\<lparr>ct_table := ct_table ?r0 @ entries P p lam ?es, ct_hi := (ct_hi ?r0)(p \<mapsto> e + F)\<rparr>)"
  have fw: "forward sl r = F" and hi: "ct_hi r p = Some (?l + F)" and d: "distinct (map fst (ct_table r))"
    and tab: "set (ct_table r) = set (table_entries P sl F ps)"
    using full p by (force simp: counter_full_def)+
  have last1: "last_epoch ?sl p = e" using e by simp
  note h0 = below_horizonD [OF hz0 p] and h1 = below_horizonD [OF hz1 p, unfolded last1]
  have lam: "valid_lam lam" using v p by (auto simp: valid_peers_def)
  have "distinct (map fst ps)" using v by (simp add: valid_peers_def)
  then have mo: "map_of ps p = Some lam" and only: "\<And>mu. (p, mu) \<in> set ps \<longleftrightarrow> mu = lam"
    using p by (auto dest: eq_key_imp_eq_value)
  have new: "pseudonym P lam f \<notin> fst ` set (ct_table r)" if "f \<in> set ?es" for f
  proof
    assume "pseudonym P lam f \<in> fst ` set (ct_table r)"
    then obtain q g where "(pseudonym P lam f, q, g) \<in> set (table_entries P sl F ps)" by (auto simp: tab)
    then obtain mu where m: "(q, mu) \<in> set ps" "last_epoch sl q < g" "g \<le> last_epoch sl q + F"
      "pseudonym P lam f = pseudonym P mu g" by (auto simp: table_entries_mem)
    from that h0 h1 have "p = q \<and> lam = mu \<and> f = g"
      using m(2,3) below_horizonD [OF hz0 m(1)] by (intro no_collisionsD [OF nc p m(1) _ _ _ _ m(4)]) auto
    with that m e show False by auto
  qed
  have dist: "distinct (map (pseudonym P lam) ?es)"
    using h0 h1 e by (intro distinct_pseudonyms [OF nc p]) auto
  have "counter_fill P ps ?sl p False ?r0 = (Inr (), ?r1)"
  proof (rule counter_fill_eq [OF mo lam])
    show "?l + F + 1 = max (case ct_hi ?r0 p of None \<Rightarrow> last_epoch ?sl p | Some h \<Rightarrow> h) (last_epoch ?sl p) + 1"
      using e by (simp add: hi)
    show "e + F = last_epoch ?sl p + forward ?sl ?r0" using e by (simp add: fw)
    show "\<forall>f \<in> {?l + F + 1 .. e + F}. valid_epoch f" using h0 h1 e by (auto simp: valid_epoch_def)
    show "\<forall>f \<in> {?l + F + 1 .. e + F}. pseudonym P lam f \<notin> fst ` set (ct_table ?r0)"
      using new by (force simp: drop_upto_def)
  qed (rule dist)
  then have acc: "counter_accept P now ps sl p e n r = (Inr (), ?r1, ?sl)"
    using e by (simp add: counter_accept_def Let_def max_absorb1 del: length_upto)
  have "set (ct_table ?r1) = set (table_entries P ?sl F ps)"
  proof (rule set_eqI)
    fix x show "x \<in> set (ct_table ?r1) \<longleftrightarrow> x \<in> set (table_entries P ?sl F ps)"
      using e by (cases x) (auto simp: drop_upto_mem tab table_entries_mem entries_mem only)
  qed
  moreover have "distinct (map fst (ct_table ?r1))"
  proof -
    have A: "fst ` set (drop_upto p e (ct_table r)) \<subseteq> fst ` set (ct_table r)" by (auto simp: drop_upto_def)
    have B: "x \<notin> fst ` set (ct_table r)" if "x \<in> pseudonym P lam ` set ?es" for x
      using that new by (elim imageE) (simp only: not_False_eq_True)
    have "fst ` set (drop_upto p e (ct_table r)) \<inter> pseudonym P lam ` set ?es = {}"
      by (meson A B disjoint_iff subsetD)
    moreover have "distinct (map fst (drop_upto p e (ct_table r)))"
      by (simp add: drop_upto_def distinct_fst_filter [OF d])
    moreover have "map fst (entries P p lam ?es) = map (pseudonym P lam) ?es" by (simp add: entries_def)
    ultimately show ?thesis using dist by simp
  qed
  moreover have "\<forall>q \<in> set ps. ct_hi ?r1 (fst q) = Some (last_epoch ?sl (fst q) + F)"
    using full e by (auto simp: counter_full_def)
  ultimately have "counter_full P F ps ?sl ?r1" using fw by (simp add: counter_full_def)
  moreover have "probes ?r1 = probes r + (e - ?l)" using e by simp
  ultimately show ?thesis using acc by (intro exI [of _ ?r1]) simp
qed

end
