(* ===== verification/CounterStrategy.thy ===== *)
theory CounterStrategy
  imports CounterTable_Complete
begin

text \<open>
  What the two strategies with counter epochs have in common beyond the resolver contract.  They
  decide every pseudonym as \<open>counter_spec\<close> says: accepted exactly when it belongs to an enrolled peer
  and an epoch within the forward tolerance \<open>F\<close> above the last accepted one.  \<open>good\<close> is the state in
  which a strategy does so; it survives every operation.
\<close>

text \<open>A pseudonym of no epoch the strategy may still look at.\<close>

definition out_of_reach :: "prims \<Rightarrow> int \<Rightarrow> peers \<Rightarrow> session_log \<Rightarrow> bytes \<Rightarrow> bool" where
  "out_of_reach P F ps sl pid \<longleftrightarrow>
     (\<forall>(p, lam) \<in> set ps. \<forall>e \<in> {0 .. last_epoch sl p + F}. pseudonym P lam e \<noteq> pid)"

lemma out_of_reach_spec:
  assumes "out_of_reach P F ps sl pid" "below_horizon sl ps F E"
  shows "\<not> counter_spec P F ps sl pid p e"
proof
  assume "counter_spec P F ps sl pid p e"
  then obtain lam where l: "(p, lam) \<in> set ps" "last_epoch sl p < e" "e \<le> last_epoch sl p + F"
    "pseudonym P lam e = pid" by (auto simp: counter_spec_def)
  with below_horizonD(1) [OF assms(2) l(1)] have "e \<in> {0 .. last_epoch sl p + F}" by auto
  with assms(1) l(1,4) show False by (fastforce simp: out_of_reach_def)
qed

locale counter_strategy = fresh_resolver ops wf
  for ops :: "'r resolver_ops" and wf :: "prims \<Rightarrow> peers \<Rightarrow> session_log \<Rightarrow> 'r \<Rightarrow> bool" +
  fixes good :: "prims \<Rightarrow> int \<Rightarrow> int \<Rightarrow> peers \<Rightarrow> session_log \<Rightarrow> 'r \<Rightarrow> bool"
  assumes good_basic: "good P F E ps sl r \<Longrightarrow> valid_peers ps \<and> no_collisions P ps E"
    and good_wf: "good P F E ps sl r \<Longrightarrow> below_horizon sl ps F E \<Longrightarrow> wf P ps sl r"
    and good_resolve: "good P F E ps sl r \<Longrightarrow> below_horizon sl ps F E \<Longrightarrow> counter_spec P F ps sl pid p e \<Longrightarrow>
        \<exists>r'. ro_resolve ops P now ps sl pid r = (Inr (p, e), r') \<and> good P F E ps sl r'"
    and good_reject: "good P F E ps sl r \<Longrightarrow> below_horizon sl ps F E \<Longrightarrow> \<forall>p e. \<not> counter_spec P F ps sl pid p e \<Longrightarrow>
        \<exists>x r'. ro_resolve ops P now ps sl pid r = (Inl x, r') \<and> good P F E ps sl r' \<and>
          (out_of_reach P F ps sl pid \<longrightarrow> x = UnknownPeerError)"
    and good_accept: "good P F E ps sl r \<Longrightarrow> below_horizon sl ps F E \<Longrightarrow>
        below_horizon (accept_epoch sl p e) ps F E \<Longrightarrow> (p, lam) \<in> set ps \<Longrightarrow>
        last_epoch sl p < e \<Longrightarrow> e \<le> last_epoch sl p + F \<Longrightarrow>
        \<exists>r'. ro_accept ops P now ps sl p e n r = (Inr (), r', accept_epoch sl p e) \<and>
             good P F E ps (accept_epoch sl p e) r'"
    and good_log: "good P F E ps sl r \<Longrightarrow> last_epoch sl' = last_epoch sl \<Longrightarrow>
        forward_tolerance sl' = forward_tolerance sl \<Longrightarrow> replay_lookback sl' = replay_lookback sl \<Longrightarrow>
        good P F E ps sl' r"
begin

text \<open>The decision of the strategy, as the specification states it.\<close>

lemma decides:
  assumes "good P F E ps sl r" "below_horizon sl ps F E"
  shows "fst (ro_resolve ops P now ps sl pid r) = Inr (p, e) \<longleftrightarrow> counter_spec P F ps sl pid p e"
proof
  assume "counter_spec P F ps sl pid p e"
  from good_resolve [OF assms this, of now] show "fst (ro_resolve ops P now ps sl pid r) = Inr (p, e)" by auto
next
  assume a: "fst (ro_resolve ops P now ps sl pid r) = Inr (p, e)"
  show "counter_spec P F ps sl pid p e"
  proof (cases "\<exists>q f. counter_spec P F ps sl pid q f")
    case True
    then obtain q f where q: "counter_spec P F ps sl pid q f" by blast
    from good_resolve [OF assms q, of now] a show ?thesis using q by auto
  next
    case False
    then have "\<forall>q f. \<not> counter_spec P F ps sl pid q f" by blast
    from good_reject [OF assms this, of now] a show ?thesis by auto
  qed
qed

end

section \<open>Strategy O1\<close>

definition linear_good :: "prims \<Rightarrow> int \<Rightarrow> int \<Rightarrow> peers \<Rightarrow> session_log \<Rightarrow> resolver \<Rightarrow> bool" where
  "linear_good P F E ps sl r \<longleftrightarrow> valid_peers ps \<and> no_collisions P ps E \<and> F = forward_tolerance sl \<and>
     0 \<le> replay_lookback sl"

lemma linear_good_reject:
  assumes "linear_good P F E ps sl r" "below_horizon sl ps F E" "\<forall>p e. \<not> counter_spec P F ps sl pid p e"
  shows "\<exists>x r'. linear_resolve P now ps sl pid r = (Inl x, r') \<and> (out_of_reach P F ps sl pid \<longrightarrow> x = UnknownPeerError)"
proof -
  from assms(1) have g: "valid_peers ps" "no_collisions P ps E" "F = forward_tolerance sl" "0 \<le> replay_lookback sl"
    by (simp_all add: linear_good_def)
  have hz: "below_horizon sl ps (forward_tolerance sl) E" using assms(2) g(3) by simp
  obtain res r' where c: "linear_resolve P now ps sl pid r = (res, r')" by fastforce
  have no: "res \<noteq> Inr (p, e)" for p e
    using linear_resolve_iff [OF g(1,2) hz g(4), of now pid r p e] assms(3) c g(3) by auto
  show ?thesis
  proof (cases "out_of_reach P F ps sl pid")
    case True
    have "\<forall>(p, lam) \<in> set ps. \<forall>e \<in> set (epoch_search_window sl p). pseudonym P lam e \<noteq> pid"
      using True by (fastforce simp: out_of_reach_def window_mem g(3))
    from linear_resolve_unknown [OF g(1) hz this] show ?thesis by blast
  next
    case False
    with no c show ?thesis by (cases res) (auto simp: split_paired_all)
  qed
qed

interpretation linear_cs: counter_strategy linear_scan_ops linear_wf linear_good
proof (unfold_locales, goal_cases)
  case (1 P F E ps sl r)
  then show ?case by (simp add: linear_good_def)
next
  case (2 P F E ps sl r)
  then show ?case by (simp add: linear_good_def linear_wf_def valid_peers_def)
next
  case (3 P F E ps sl r pid p e now)
  then have "fst (linear_resolve P now ps sl pid r) = Inr (p, e)"
    by (subst linear_resolve_iff [of ps P E]) (simp_all add: linear_good_def)
  with 3 show ?case
    by (cases "linear_resolve P now ps sl pid r") (simp add: linear_scan_ops_def linear_good_def)
next
  case (4 P F E ps sl r pid now)
  from linear_good_reject [OF 4, of now] 4(1) show ?case by (auto simp: linear_scan_ops_def linear_good_def)
next
  case (5 P F E ps sl r p e lam now n)
  then show ?case by (simp add: linear_scan_ops_def base_accept_def linear_good_def)
next
  case (6 P F E ps sl r sl')
  then show ?case by (simp add: linear_good_def)
qed

section \<open>Strategy O2\<close>

definition table_good :: "prims \<Rightarrow> int \<Rightarrow> int \<Rightarrow> peers \<Rightarrow> session_log \<Rightarrow> counter_table \<Rightarrow> bool" where
  "table_good P F E ps sl r \<longleftrightarrow> valid_peers ps \<and> no_collisions P ps E \<and> counter_full P F ps sl r"

lemma counter_full_log:
  assumes "counter_full P F ps sl r" "last_epoch sl' = last_epoch sl" "forward_tolerance sl' = forward_tolerance sl"
  shows "counter_full P F ps sl' r"
proof -
  have "table_entries P sl' F ps = table_entries P sl F ps" by (simp add: table_entries_def assms(2))
  with assms show ?thesis by (simp add: counter_full_def forward_def cong: option.case_cong)
qed

lemma counter_full_wf: "counter_full P F ps sl r \<Longrightarrow> valid_peers ps \<Longrightarrow> below_horizon sl ps F E \<Longrightarrow> counter_wf P ps sl r"
proof -
  assume a: "counter_full P F ps sl r" "valid_peers ps" "below_horizon sl ps F E"
  have "entry_ok P ps sl x" if x: "x \<in> set (ct_table r)" for x
  proof -
    obtain k p e where kpe: "x = (k, p, e)" by (cases x)
    with x a(1) have "(k, p, e) \<in> set (table_entries P sl F ps)" by (simp add: counter_full_def)
    then obtain lam where l: "(p, lam) \<in> set ps" "last_epoch sl p < e" "e \<le> last_epoch sl p + F" "k = pseudonym P lam e"
      by (auto simp: table_entries_mem)
    with below_horizonD [OF a(3) l(1)] a(2) have "valid_epoch e" "valid_lam lam" "map_of ps p = Some lam"
      by (auto simp: valid_epoch_def valid_peers_def)
    with l show ?thesis by (auto simp: entry_ok_def kpe h2_pseudonym_valid)
  qed
  with a(1) show ?thesis by (simp add: counter_wf_def counter_full_def)
qed

interpretation table_cs: counter_strategy counter_table_ops counter_wf table_good
proof (unfold_locales, goal_cases)
  case (1 P F E ps sl r)
  then show ?case by (simp add: table_good_def)
next
  case (2 P F E ps sl r)
  then show ?case using counter_full_wf by (auto simp: table_good_def)
next
  case (3 P F E ps sl r pid p e now)
  then have "counter_full P F ps sl r" by (simp add: table_good_def)
  from counter_resolve_iff(1,2) [OF this, of now pid] 3 show ?case
    by (cases "counter_resolve P now ps sl pid r") (auto simp: counter_table_ops_def)
next
  case (4 P F E ps sl r pid now)
  then have "counter_full P F ps sl r" by (simp add: table_good_def)
  from counter_resolve_iff(2) [OF this, of now pid] counter_resolve_iff(3) [OF this, of pid now] 4 show ?case
    by (cases "counter_resolve P now ps sl pid r") (auto simp: counter_table_ops_def)
next
  case (5 P F E ps sl r p e lam now n)
  then have "counter_full P F ps sl r" "valid_peers ps" "no_collisions P ps E" by (simp_all add: table_good_def)
  from counter_accept_full [OF this 5(2-6), of now n] 5(1) show ?case
    by (auto simp: counter_table_ops_def table_good_def)
next
  case (6 P F E ps sl r sl')
  then show ?case using counter_full_log by (auto simp: table_good_def)
qed

lemma strategies_agree:
  assumes "linear_good P F E ps sl r" "table_good P F E ps sl t" "below_horizon sl ps F E"
  shows "fst (linear_resolve P now ps sl pid r) = Inr (p, e) \<longleftrightarrow> fst (counter_resolve P now' ps sl pid t) = Inr (p, e)"
  using linear_cs.decides [OF assms(1,3), of now pid p e] table_cs.decides [OF assms(2,3), of now' pid p e]
  by (simp add: linear_scan_ops_def counter_table_ops_def)

end
