(* ===== verification/ClockResolver.thy ===== *)
theory ClockResolver
  imports LinearScan
begin

text \<open>
  Clock epochs (classes \<^verbatim>\<open>_ClockResolver\<close>, \<^verbatim>\<open>ClockScan\<close> and \<^verbatim>\<open>ClockTable\<close>; strategies O3 and O4).  A
  reading of the clock is a rational, and each use of the clock in a method is one reading.  The
  cached nonces are a dictionary from epochs to sets, kept as lists in insertion order.  The state
  of the base class is extended by the two strategies, so its methods are polymorphic in the rest.
\<close>

record clock_resolver = resolver +
  ck_epoch_seconds :: rat
  ck_drift :: int
  ck_nonces :: "(int \<times> bytes list) list"

definition new_clock_resolver :: "rat \<Rightarrow> int \<Rightarrow> clock_resolver" where
  "new_clock_resolver epoch_seconds drift =
     \<lparr>probes = 0, precompute_probes = 0, ck_epoch_seconds = epoch_seconds, ck_drift = drift, ck_nonces = []\<rparr>"

definition current_epoch :: "rat \<Rightarrow> 'a clock_resolver_scheme \<Rightarrow> exn + int" where
  "current_epoch now r =
     (if ck_epoch_seconds r = 0 then Inl ZeroDivisionError else Inr \<lfloor>now / ck_epoch_seconds r\<rfloor>)"

definition window_of :: "int \<Rightarrow> int \<Rightarrow> int list" where
  "window_of drift cur =
     cur # concat (map (\<lambda>k. filter (\<lambda>e. 0 \<le> e) (map (\<lambda>d. cur + d) [- k, k])) [1 .. drift])"

definition clock_window :: "rat \<Rightarrow> 'a clock_resolver_scheme \<Rightarrow> exn + int list" where
  "clock_window now r =
     (case current_epoch now r of Inl x \<Rightarrow> Inl x | Inr cur \<Rightarrow> Inr (window_of (ck_drift r) cur))"

definition setdefault :: "int \<Rightarrow> (int \<times> bytes list) list \<Rightarrow> (int \<times> bytes list) list" where
  "setdefault epoch ns = (if map_of ns epoch = None then AList.update epoch [] ns else ns)"

definition clock_accept ::
  "prims \<Rightarrow> rat \<Rightarrow> peers \<Rightarrow> session_log \<Rightarrow> pystr \<Rightarrow> int \<Rightarrow> bytes \<Rightarrow> 'a clock_resolver_scheme
     \<Rightarrow> (exn + unit) \<times> 'a clock_resolver_scheme \<times> session_log" where
  "clock_accept P now ps sl peer epoch n_i r =
     (case current_epoch now r of
        Inl x \<Rightarrow> (Inl x, r, sl)
      | Inr cur \<Rightarrow>
          let lo = cur - ck_drift r;
              ns = setdefault epoch (filter (\<lambda>(old, _). \<not> old < lo) (ck_nonces r));
              r1 = r\<lparr>ck_nonces := ns\<rparr>
          in case utf8_encode peer of
               Inl x \<Rightarrow> (Inl x, r1, sl)
             | Inr name \<Rightarrow>
                 let seen = (case map_of ns epoch of None \<Rightarrow> [] | Some l \<Rightarrow> l); tag = name @ [0] @ n_i
                 in if tag \<in> set seen then (Inl (ReplayDetected peer epoch), r1, sl)
                    else (Inr (), r1\<lparr>ck_nonces := AList.update epoch (seen @ [tag]) ns\<rparr>,
                          accept_epoch sl peer epoch))"

definition nonce_cache_entries :: "'a clock_resolver_scheme \<Rightarrow> int" where
  "nonce_cache_entries r = (\<Sum>(_, s) \<leftarrow> ck_nonces r. int (length s))"

definition clock_storage_bytes :: "peers \<Rightarrow> 'a clock_resolver_scheme \<Rightarrow> int" where
  "clock_storage_bytes ps r = NONCE_CACHE_ENTRY_BYTES * nonce_cache_entries r"

section \<open>Strategy O3\<close>

fun clock_scan_peers ::
  "prims \<Rightarrow> bytes \<Rightarrow> int list \<Rightarrow> peers \<Rightarrow> 'a resolver_scheme \<Rightarrow> (exn + pystr \<times> int) \<times> 'a resolver_scheme" where
  "clock_scan_peers P pid window [] r = (Inl UnknownPeerError, r)"
| "clock_scan_peers P pid window ((peer, lam) # ps) r =
     (case probe_epochs P lam pid window r of
        (Inl x, r') \<Rightarrow> (Inl x, r')
      | (Inr None, r') \<Rightarrow> clock_scan_peers P pid window ps r'
      | (Inr (Some epoch), r') \<Rightarrow> (Inr (peer, epoch), r'))"

definition clock_scan_resolve ::
  "prims \<Rightarrow> rat \<Rightarrow> peers \<Rightarrow> session_log \<Rightarrow> bytes \<Rightarrow> clock_resolver \<Rightarrow> (exn + pystr \<times> int) \<times> clock_resolver" where
  "clock_scan_resolve P now ps sl pid r =
     (case clock_window now r of Inl x \<Rightarrow> (Inl x, r) | Inr window \<Rightarrow> clock_scan_peers P pid window ps r)"

definition clock_scan_ops :: "clock_resolver resolver_ops" where
  "clock_scan_ops = \<lparr>ro_attach = base_attach, ro_resolve = clock_scan_resolve, ro_accept = clock_accept,
     ro_storage_bytes = clock_storage_bytes\<rparr>"

section \<open>Strategy O4\<close>

record clock_table = clock_resolver +
  ckt_table :: "(bytes \<times> pystr \<times> int) list"
  ckt_tabled :: "int list"

definition new_clock_table :: "rat \<Rightarrow> int \<Rightarrow> clock_table" where
  "new_clock_table epoch_seconds drift =
     \<lparr>probes = 0, precompute_probes = 0, ck_epoch_seconds = epoch_seconds, ck_drift = drift, ck_nonces = [],
      ckt_table = [], ckt_tabled = []\<rparr>"

fun table_peers :: "prims \<Rightarrow> int \<Rightarrow> peers \<Rightarrow> clock_table \<Rightarrow> (exn + unit) \<times> clock_table" where
  "table_peers P epoch [] r = (Inr (), r)"
| "table_peers P epoch ((peer, lam) # ps) r =
     (case h2_counted P lam epoch True r of
        (Inl x, r') \<Rightarrow> (Inl x, r')
      | (Inr h, r') \<Rightarrow> table_peers P epoch ps (r'\<lparr>ckt_table := AList.update h (peer, epoch) (ckt_table r')\<rparr>))"

fun table_epochs :: "prims \<Rightarrow> peers \<Rightarrow> int list \<Rightarrow> clock_table \<Rightarrow> (exn + unit) \<times> clock_table" where
  "table_epochs P ps [] r = (Inr (), r)"
| "table_epochs P ps (epoch # es) r =
     (case table_peers P epoch ps r of
        (Inl x, r') \<Rightarrow> (Inl x, r')
      | (Inr _, r') \<Rightarrow> table_epochs P ps es r')"

definition clock_advance :: "prims \<Rightarrow> rat \<Rightarrow> peers \<Rightarrow> clock_table \<Rightarrow> (exn + unit) \<times> clock_table" where
  "clock_advance P now ps r =
     (case clock_window now r of
        Inl x \<Rightarrow> (Inl x, r)
      | Inr window \<Rightarrow>
          let want = remdups window; tabled = ckt_tabled r
          in case table_epochs P ps (sort (filter (\<lambda>e. e \<notin> set tabled) want)) r of
               (Inl x, r') \<Rightarrow> (Inl x, r')
             | (Inr _, r') \<Rightarrow>
                 let gone = filter (\<lambda>e. e \<notin> set want) tabled
                 in (Inr (), r'\<lparr>ckt_table := filter (\<lambda>(k, p, e). e \<notin> set gone) (ckt_table r'), ckt_tabled := want\<rparr>))"

definition clock_table_attach ::
  "prims \<Rightarrow> rat \<Rightarrow> peers \<Rightarrow> session_log \<Rightarrow> clock_table \<Rightarrow> (exn + unit) \<times> clock_table" where
  "clock_table_attach P now ps sl r = clock_advance P now ps (r\<lparr>ckt_table := [], ckt_tabled := []\<rparr>)"

definition clock_table_resolve ::
  "prims \<Rightarrow> rat \<Rightarrow> peers \<Rightarrow> session_log \<Rightarrow> bytes \<Rightarrow> clock_table \<Rightarrow> (exn + pystr \<times> int) \<times> clock_table" where
  "clock_table_resolve P now ps sl pid r =
     (case clock_advance P now ps r of
        (Inl x, r') \<Rightarrow> (Inl x, r')
      | (Inr _, r') \<Rightarrow> (case map_of (ckt_table r') pid of None \<Rightarrow> (Inl UnknownPeerError, r') | Some hit \<Rightarrow> (Inr hit, r')))"

definition clock_table_storage_bytes :: "peers \<Rightarrow> clock_table \<Rightarrow> int" where
  "clock_table_storage_bytes ps r = TABLE_ENTRY_BYTES * int (length (ckt_table r)) + clock_storage_bytes ps r"

definition clock_table_ops :: "clock_table resolver_ops" where
  "clock_table_ops = \<lparr>ro_attach = clock_table_attach, ro_resolve = clock_table_resolve, ro_accept = clock_accept,
     ro_storage_bytes = clock_table_storage_bytes\<rparr>"

section \<open>The contract holds\<close>

lemma clock_accept_log:
  "clock_accept P now ps sl p e n r = (Inr (), r', sl') \<Longrightarrow> sl' = accept_epoch sl p e"
  "clock_accept P now ps sl p e n r = (Inl x, r', sl') \<Longrightarrow> sl' = sl"
  by (auto simp: clock_accept_def Let_def split: sum.splits if_splits)

lemma clock_accept_only_nonces:
  "clock_accept P now ps sl p e n r = (res, r', sl') \<Longrightarrow> \<exists>ns. r' = r\<lparr>ck_nonces := ns\<rparr>"
  by (auto simp: clock_accept_def Let_def split: sum.splits if_splits) (metis (no_types) clock_resolver.surjective clock_resolver.update_convs(3))+

lemma clock_scan_peers_sound:
  "clock_scan_peers P pid w ps r = (Inr (p, e), r') \<Longrightarrow>
     (\<exists>lam. (p, lam) \<in> set ps \<and> h2_pseudonym P lam e = Inr pid) \<and> e \<in> set w"
proof (induction ps arbitrary: r)
  case Nil
  then show ?case by simp
next
  case (Cons x ps)
  then show ?case
    by (cases x) (auto split: sum.splits option.splits prod.splits dest!: probe_epochs_Some dest: Cons.IH)
qed

definition clock_scan_wf :: "prims \<Rightarrow> peers \<Rightarrow> session_log \<Rightarrow> clock_resolver \<Rightarrow> bool" where
  "clock_scan_wf P ps sl r \<longleftrightarrow> distinct (map fst ps)"

interpretation clock_scan: resolver_contract clock_scan_ops clock_scan_wf
proof (unfold_locales, goal_cases)
  case (2 P ps sl r now pid p e r')
  then show ?case
    by (auto simp: clock_scan_ops_def clock_scan_resolve_def clock_scan_wf_def dest!: clock_scan_peers_sound split: sum.splits)
qed (auto simp: clock_scan_ops_def clock_scan_wf_def dest: clock_accept_log)

definition clock_entry :: "prims \<Rightarrow> peers \<Rightarrow> bytes \<times> pystr \<times> int \<Rightarrow> bool" where
  "clock_entry P ps = (\<lambda>(k, p, e). \<exists>lam. map_of ps p = Some lam \<and> h2_pseudonym P lam e = Inr k)"

definition clock_table_wf :: "prims \<Rightarrow> peers \<Rightarrow> session_log \<Rightarrow> clock_table \<Rightarrow> bool" where
  "clock_table_wf P ps sl r \<longleftrightarrow> distinct (map fst ps) \<and>
     (\<forall>x \<in> set (ckt_table r). clock_entry P ps x)"

lemma add_precompute_ckt [simp]:
  "ckt_table (add_precompute n r) = ckt_table r" "ckt_tabled (add_precompute n r) = ckt_tabled r"
  by (simp_all add: add_precompute_def)

lemma table_peers_wf:
  "clock_table_wf P ps sl r \<Longrightarrow> set qs \<subseteq> set ps \<Longrightarrow> clock_table_wf P ps sl (snd (table_peers P e qs r))"
proof (induction qs arbitrary: r)
  case Nil
  then show ?case by simp
next
  case (Cons x qs)
  obtain p lam where x: "x = (p, lam)" by (cases x)
  show ?case
  proof (cases "h2_pseudonym P lam e")
    case (Inl y)
    with Cons.prems show ?thesis by (auto simp: x h2_counted_eq clock_table_wf_def)
  next
    case (Inr h)
    let ?r = "(add_precompute 1 r)\<lparr>ckt_table := AList.update h (p, e) (ckt_table r)\<rparr>"
    have "map_of ps p = Some lam" using Cons.prems x by (auto simp: clock_table_wf_def)
    then have "clock_entry P ps (h, p, e)" using Inr by (simp add: clock_entry_def)
    then have "clock_table_wf P ps sl ?r"
      using Cons.prems(1) Inr set_alist_update [of h "(p, e)" "ckt_table r"] by (auto simp: clock_table_wf_def)
    with Cons Inr show ?thesis by (simp add: x h2_counted_eq)
  qed
qed

lemma table_epochs_wf: "clock_table_wf P ps sl r \<Longrightarrow> clock_table_wf P ps sl (snd (table_epochs P ps es r))"
proof (induction es arbitrary: r)
  case Nil
  then show ?case by simp
next
  case (Cons e es)
  from table_peers_wf [OF Cons.prems subset_refl, of e] Cons.IH show ?case
    by (auto split: prod.split sum.split)
qed

lemma clock_advance_wf:
  assumes "clock_table_wf P ps sl r"
  shows "clock_table_wf P ps sl (snd (clock_advance P now ps r))"
proof (cases "clock_window now r")
  case (Inl x)
  with assms show ?thesis by (simp add: clock_advance_def)
next
  case (Inr w)
  from table_epochs_wf [OF assms, of "sort (filter (\<lambda>e. e \<notin> set (ckt_tabled r)) (remdups w))"] show ?thesis
    by (auto simp: clock_advance_def Inr Let_def clock_table_wf_def split: prod.splits sum.splits)
qed

interpretation clock_tab: resolver_contract clock_table_ops clock_table_wf
proof (unfold_locales, goal_cases)
  case (1 P ps sl r now pid res r')
  from clock_advance_wf [OF 1(1), of now] 1(2) show ?case
    by (auto simp: clock_table_ops_def clock_table_resolve_def split: prod.splits sum.splits option.splits)
next
  case (2 P ps sl r now pid p e r')
  from clock_advance_wf [OF 2(1), of now] 2(2) show ?case
    by (fastforce simp: clock_table_ops_def clock_table_resolve_def clock_table_wf_def clock_entry_def
        split: prod.splits sum.splits option.splits dest: map_of_SomeD)
next
  case (3 P now ps sl p e n r r' sl')
  then show ?case by (auto simp: clock_table_ops_def dest: clock_accept_log)
next
  case (4 P now ps sl p e n r x r' sl')
  then show ?case by (auto simp: clock_table_ops_def dest: clock_accept_log)
next
  case (5 P ps sl r now p e n ares r' sl')
  then have "\<exists>ns. r' = r\<lparr>ck_nonces := ns\<rparr>"
    by (auto simp: clock_table_ops_def intro: clock_accept_only_nonces)
  with 5(1) show ?case by (auto simp: clock_table_wf_def)
next
  case (6 ps P now sl r r')
  have "clock_table_wf P ps sl (r\<lparr>ckt_table := [], ckt_tabled := []\<rparr>)" using 6(1) by (simp add: clock_table_wf_def)
  from clock_advance_wf [OF this, of now] 6(2) show ?case
    by (simp add: clock_table_ops_def clock_table_attach_def)
next
  case (7 P ps sl r sl')
  then show ?case by (simp add: clock_table_wf_def)
qed

end
