(* ===== verification/ClockComplete.thy ===== *)
theory ClockComplete
  imports ClockResolver
begin

text \<open>
  What the two clock strategies decide, what a new epoch costs the table, and what the nonce cache
  guarantees.
\<close>

section \<open>The window\<close>

lemma window_mem_of: "e \<in> set (window_of drift cur) \<longleftrightarrow> e = cur \<or> 0 \<le> e \<and> cur - drift \<le> e \<and> e \<le> cur + drift \<and> 1 \<le> drift"
proof
  assume "e \<in> set (window_of drift cur)"
  then show "e = cur \<or> 0 \<le> e \<and> cur - drift \<le> e \<and> e \<le> cur + drift \<and> 1 \<le> drift"
    by (auto simp: window_of_def)
next
  assume r: "e = cur \<or> 0 \<le> e \<and> cur - drift \<le> e \<and> e \<le> cur + drift \<and> 1 \<le> drift"
  show "e \<in> set (window_of drift cur)"
  proof (cases "e = cur")
    case True
    then show ?thesis by (simp add: window_of_def)
  next
    case False
    with r have "\<bar>e - cur\<bar> \<in> set [1 .. drift]" "e = cur + \<bar>e - cur\<bar> \<or> e = cur + (- \<bar>e - cur\<bar>)" "0 \<le> e" by auto
    then show ?thesis by (auto simp: window_of_def intro!: bexI [of _ "\<bar>e - cur\<bar>"])
  qed
qed

lemma window_set:
  assumes "0 \<le> cur" "0 \<le> drift"
  shows "set (window_of drift cur) = {max 0 (cur - drift) .. cur + drift}"
  using assms by (auto simp: window_mem_of)

lemma window_probes_current_first: "hd (window_of drift cur) = cur"
  by (simp add: window_of_def)

section \<open>One specification for both strategies\<close>

definition clock_spec :: "prims \<Rightarrow> int list \<Rightarrow> peers \<Rightarrow> bytes \<Rightarrow> pystr \<Rightarrow> int \<Rightarrow> bool" where
  "clock_spec P W ps pid p e \<longleftrightarrow> (\<exists>lam. (p, lam) \<in> set ps \<and> e \<in> set W \<and> pseudonym P lam e = pid)"

lemma clock_scan_peers_None:
  assumes "valid_peers ps" "\<forall>e \<in> set W. valid_epoch e" "\<forall>p e. \<not> clock_spec P W ps pid p e"
  shows "clock_scan_peers P pid W ps r = (Inl UnknownPeerError, add_probes (int (length ps * length W)) r)"
  using assms(1,3)
proof (induction ps arbitrary: r)
  case Nil
  then show ?case by simp
next
  case (Cons x ps)
  obtain p lam where x: "x = (p, lam)" by (cases x)
  have no: "\<forall>e \<in> set W. pseudonym P lam e \<noteq> pid" using Cons.prems(2) x by (auto simp: clock_spec_def)
  then have "List.find (\<lambda>e. pseudonym P lam e = pid) W = None" by (simp add: find_None_iff)
  moreover have "search_cost (\<lambda>e. pseudonym P lam e = pid) W = int (length W)"
    using no by (intro search_cost_none) simp
  moreover have "clock_scan_peers P pid W ps (add_probes (int (length W)) r) =
      (Inl UnknownPeerError, add_probes (int (length ps * length W)) (add_probes (int (length W)) r))"
  proof (rule Cons.IH)
    show "valid_peers ps" using Cons.prems(1) x by simp
    show "\<forall>p e. \<not> clock_spec P W ps pid p e" using Cons.prems(2) by (auto simp: clock_spec_def)
  qed
  ultimately show ?case
    using Cons.prems(1) probe_epochs_eq [of lam W P pid r] assms(2) by (simp add: x algebra_simps)
qed

lemma clock_scan_peers_Some:
  assumes "valid_peers ps" "\<forall>e \<in> set W. 0 \<le> e \<and> e < E" "E \<le> 256 ^ 8" "no_collisions P ps E" "clock_spec P W ps pid p e"
  shows "\<exists>n. clock_scan_peers P pid W ps r = (Inr (p, e), add_probes n r) \<and> n \<le> int (length ps * length W)"
proof -
  have ve: "\<forall>f \<in> set W. valid_epoch f" using assms(2,3) by (auto simp: valid_epoch_def)
  have uniq: "q = p \<and> f = e" if "clock_spec P W ps pid q f" for q f
  proof -
    from that obtain mu where m: "(q, mu) \<in> set ps" "f \<in> set W" "pseudonym P mu f = pid" by (auto simp: clock_spec_def)
    from assms(5) obtain lam where l: "(p, lam) \<in> set ps" "e \<in> set W" "pseudonym P lam e = pid"
      by (auto simp: clock_spec_def)
    have "pseudonym P mu f = pseudonym P lam e" using m(3) l(3) by simp
    then show ?thesis using no_collisionsD [OF assms(4) m(1) l(1)] assms(2) m(2) l(2) by blast
  qed
  have "\<exists>n. clock_scan_peers P pid W qs r = (Inr (p, e), add_probes n r) \<and> n \<le> int (length qs * length W)"
    if "set qs \<subseteq> set ps" "\<exists>lam. (p, lam) \<in> set qs \<and> e \<in> set W \<and> pseudonym P lam e = pid" for qs
    using that
  proof (induction qs arbitrary: r)
    case Nil
    then show ?case by simp
  next
    case (Cons x qs)
    obtain q mu where x: "x = (q, mu)" by (cases x)
    have vl: "valid_lam mu" using Cons.prems(1) assms(1) x by (auto simp: valid_peers_def)
    let ?Q = "\<lambda>f. pseudonym P mu f = pid"
    have pe: "probe_epochs P mu pid W r = (Inr (List.find ?Q W), add_probes (search_cost ?Q W) r)"
      by (rule probe_epochs_eq [OF vl ve])
    note cost = search_cost_le [of ?Q W]
    show ?case
    proof (cases "List.find ?Q W")
      case None
      then have "\<forall>f \<in> set W. \<not> ?Q f" by (simp add: find_None_iff)
      then have "\<exists>lam. (p, lam) \<in> set qs \<and> e \<in> set W \<and> pseudonym P lam e = pid" using Cons.prems(2) x by auto
      with Cons.IH [of "add_probes (search_cost ?Q W) r"] Cons.prems(1) obtain n where
        "clock_scan_peers P pid W qs (add_probes (search_cost ?Q W) r) = (Inr (p, e), add_probes n (add_probes (search_cost ?Q W) r))"
        "n \<le> int (length qs * length W)" by auto
      with pe None cost show ?thesis by (auto simp: x algebra_simps intro!: exI [of _ "search_cost ?Q W + n"])
    next
      case (Some f)
      then have "f \<in> set W" "?Q f" by (auto simp: find_Some_iff)
      with Cons.prems(1) x have "clock_spec P W ps pid q f" by (auto simp: clock_spec_def)
      from uniq [OF this] pe Some have
        "clock_scan_peers P pid W (x # qs) r = (Inr (p, e), add_probes (search_cost ?Q W) r)" by (simp add: x)
      moreover have "search_cost ?Q W \<le> int (length (x # qs) * length W)"
        using cost by (simp add: add_increasing2)
      ultimately show ?thesis by blast
    qed
  qed
  from this [OF subset_refl] assms(5) show ?thesis by (simp add: clock_spec_def)
qed

section \<open>The table is exact\<close>

text \<open>\<open>holds P ps T r\<close>: the table holds the pseudonyms of every peer for the epochs in \<open>T\<close>, and nothing else.\<close>

definition holds :: "prims \<Rightarrow> peers \<Rightarrow> int set \<Rightarrow> clock_table \<Rightarrow> bool" where
  "holds P ps T r \<longleftrightarrow> distinct (map fst (ckt_table r)) \<and>
     (\<forall>k p e. (k, p, e) \<in> set (ckt_table r) \<longleftrightarrow> e \<in> T \<and> (\<exists>lam. (p, lam) \<in> set ps \<and> k = pseudonym P lam e))"

definition epoch_entries :: "prims \<Rightarrow> int \<Rightarrow> peers \<Rightarrow> (bytes \<times> pystr \<times> int) list" where
  "epoch_entries P e ps = map (\<lambda>(p, lam). (pseudonym P lam e, p, e)) ps"

lemma epoch_entries_simps [simp]:
  "epoch_entries P e [] = []"
  "epoch_entries P e ((p, lam) # ps) = (pseudonym P lam e, p, e) # epoch_entries P e ps"
  by (simp_all add: epoch_entries_def)

lemma epoch_entries_mem:
  "(k, p, f) \<in> set (epoch_entries P e ps) \<longleftrightarrow> f = e \<and> (\<exists>lam. (p, lam) \<in> set ps \<and> k = pseudonym P lam e)"
  by (auto simp: epoch_entries_def)

lemma add_precompute_tab: "(add_precompute n r)\<lparr>ckt_table := t\<rparr> = add_precompute n (r\<lparr>ckt_table := t\<rparr>)"
  by (simp add: add_precompute_def)

lemma table_peers_eq:
  assumes "valid_epoch e" "\<forall>(p, lam) \<in> set qs. valid_lam lam"
    and "distinct (map fst (ckt_table r @ epoch_entries P e qs))"
  shows "table_peers P e qs r =
    (Inr (), add_precompute (int (length qs)) (r\<lparr>ckt_table := ckt_table r @ epoch_entries P e qs\<rparr>))"
  using assms(2,3)
proof (induction qs arbitrary: r)
  case Nil
  then show ?case by simp
next
  case (Cons x qs)
  obtain p lam where x: "x = (p, lam)" by (cases x)
  let ?k = "pseudonym P lam e"
  let ?r = "add_precompute 1 (r\<lparr>ckt_table := ckt_table r @ [(?k, p, e)]\<rparr>)"
  have "?k \<notin> fst ` set (ckt_table r)" using Cons.prems(2) x by auto
  moreover have "valid_lam lam" using Cons.prems(1) x by simp
  ultimately have "table_peers P e (x # qs) r = table_peers P e qs ?r"
    using assms(1) by (simp add: x h2_counted_eq h2_pseudonym_valid alist_update_fresh add_precompute_tab)
  also have "\<dots> = (Inr (), add_precompute (int (length qs)) (?r\<lparr>ckt_table := ckt_table ?r @ epoch_entries P e qs\<rparr>))"
    using Cons.prems x by (intro Cons.IH) auto
  finally show ?case by (simp add: x add_precompute_def)
qed

lemma epoch_entries_distinct:
  assumes "no_collisions P ps E" "0 \<le> e" "e < E" "valid_peers ps"
  shows "distinct (map fst (epoch_entries P e ps))"
  using assms
proof (induction ps)
  case Nil
  then show ?case by simp
next
  case (Cons x ps)
  obtain p lam where x: "x = (p, lam)" by (cases x)
  have "pseudonym P lam e \<noteq> pseudonym P mu e" if "(q, mu) \<in> set ps" for q mu
    using Cons.prems(1-3) that by (fastforce simp: x no_collisions_Cons)
  then have "pseudonym P lam e \<notin> fst ` set (epoch_entries P e ps)"
    unfolding epoch_entries_def by fastforce
  with Cons show ?case by (simp add: x no_collisions_Cons)
qed

lemma table_epochs_eq:
  assumes nc: "no_collisions P ps E" "E \<le> 256 ^ 8" and v: "valid_peers ps"
    and "holds P ps T r" "T \<subseteq> {0 ..< E}" "distinct es" "set es \<subseteq> {0 ..< E}" "set es \<inter> T = {}"
  shows "\<exists>tab. table_epochs P ps es r =
      (Inr (), add_precompute (int (length ps * length es)) (r\<lparr>ckt_table := tab\<rparr>)) \<and>
    holds P ps (T \<union> set es) (r\<lparr>ckt_table := tab\<rparr>)"
  using assms(4-8)
proof (induction es arbitrary: T r)
  case Nil
  then show ?case by (intro exI [of _ "ckt_table r"]) simp
next
  case (Cons e es)
  let ?tab = "ckt_table r @ epoch_entries P e ps"
  let ?r = "add_precompute (int (length ps)) (r\<lparr>ckt_table := ?tab\<rparr>)"
  have e: "0 \<le> e" "e < E" "valid_epoch e" "e \<notin> T" using Cons.prems nc(2) by (auto simp: valid_epoch_def)
  have sep: "fst ` set (ckt_table r) \<inter> fst ` set (epoch_entries P e ps) = {}"
  proof -
    have False if "(k, p, f) \<in> set (ckt_table r)" "(k, q, g) \<in> set (epoch_entries P e ps)" for k p f q g
    proof -
      from that Cons.prems(1) obtain lam mu where l: "(p, lam) \<in> set ps" "f \<in> T" "(q, mu) \<in> set ps"
        "pseudonym P lam f = pseudonym P mu e" by (auto simp: holds_def epoch_entries_mem)
      have "0 \<le> f" "f < E" using l(2) Cons.prems(2) by auto
      with no_collisionsD [OF nc(1) l(1,3) _ _ e(1,2) l(4)] l(2) e(4) show False by simp
    qed
    then show ?thesis by force
  qed
  have dist: "distinct (map fst ?tab)"
    using Cons.prems(1) sep epoch_entries_distinct [OF nc(1) e(1,2) v] by (simp add: holds_def)
  have lams: "\<forall>(p, lam) \<in> set ps. valid_lam lam" using v by (auto simp: valid_peers_def)
  have step: "table_epochs P ps (e # es) r = table_epochs P ps es ?r"
    by (simp add: table_peers_eq [OF e(3) lams dist])
  have "holds P ps (insert e T) (r\<lparr>ckt_table := ?tab\<rparr>)"
    using Cons.prems(1) dist by (auto simp: holds_def epoch_entries_mem)
  then have "holds P ps (insert e T) ?r" by (simp add: holds_def)
  from Cons.IH [OF this] Cons.prems e obtain tab where
    tab: "table_epochs P ps es ?r = (Inr (), add_precompute (int (length ps * length es)) (?r\<lparr>ckt_table := tab\<rparr>))"
    "holds P ps (insert e T \<union> set es) (?r\<lparr>ckt_table := tab\<rparr>)" by auto
  have "add_precompute (int (length ps * length es)) (?r\<lparr>ckt_table := tab\<rparr>) =
      add_precompute (int (length ps * length (e # es))) (r\<lparr>ckt_table := tab\<rparr>)"
    by (simp add: add_precompute_def algebra_simps)
  moreover have "holds P ps (T \<union> set (e # es)) (r\<lparr>ckt_table := tab\<rparr>)"
    using tab(2) by (simp add: holds_def)
  ultimately show ?case using tab(1) unfolding step by metis
qed

text \<open>Entering a new epoch: every missing epoch of the window is hashed once per peer, and the table is exact again.\<close>

lemma clock_advance_exact:
  assumes nc: "no_collisions P ps E" "E \<le> 256 ^ 8" and v: "valid_peers ps"
    and h: "holds P ps (set (ckt_tabled r)) r" "set (ckt_tabled r) \<subseteq> {0 ..< E}"
    and w: "clock_window now r = Inr W" "set W \<subseteq> {0 ..< E}"
  shows "\<exists>r'. clock_advance P now ps r = (Inr (), r') \<and> holds P ps (set W) r' \<and> set (ckt_tabled r') = set W \<and>
    probes r' = probes r \<and>
    precompute_probes r' = precompute_probes r + int (length ps) * int (card (set W - set (ckt_tabled r))) \<and>
    ck_epoch_seconds r' = ck_epoch_seconds r \<and> ck_drift r' = ck_drift r \<and> ck_nonces r' = ck_nonces r"
proof -
  let ?T = "set (ckt_tabled r)"
  let ?es = "sort (filter (\<lambda>e. e \<notin> ?T) (remdups W))"
  have es: "distinct ?es" "set ?es = set W - ?T" by auto
  then have len: "length ?es = card (set W - ?T)" using distinct_card [OF es(1)] by simp
  from table_epochs_eq [OF nc v h es(1)] es(2) w(2) obtain tab where
    tab: "table_epochs P ps ?es r = (Inr (), add_precompute (int (length ps * length ?es)) (r\<lparr>ckt_table := tab\<rparr>))"
    "holds P ps (?T \<union> set ?es) (r\<lparr>ckt_table := tab\<rparr>)" by auto
  let ?gone = "filter (\<lambda>e. e \<notin> set (remdups W)) (ckt_tabled r)"
  let ?tab = "filter (\<lambda>(k, p, e). e \<notin> set ?gone) tab"
  let ?r' = "(add_precompute (int (length ps * length ?es)) (r\<lparr>ckt_table := tab\<rparr>))\<lparr>ckt_table := ?tab, ckt_tabled := remdups W\<rparr>"
  have "clock_advance P now ps r = (Inr (), ?r')"
    using tab(1) by (simp add: clock_advance_def w(1) Let_def)
  moreover have "holds P ps (set W) ?r'"
    using tab(2) es(2) by (auto simp: holds_def distinct_fst_filter)
  ultimately show ?thesis using len by (intro exI [of _ ?r']) (simp add: add_precompute_def)
qed

lemma holds_lookup:
  assumes "holds P ps T r"
  shows "map_of (ckt_table r) pid = Some (p, e) \<longleftrightarrow> e \<in> T \<and> (\<exists>lam. (p, lam) \<in> set ps \<and> pseudonym P lam e = pid)"
  using assms by (auto simp: holds_def)

lemma clock_table_resolve_iff:
  assumes "no_collisions P ps E" "E \<le> 256 ^ 8" "valid_peers ps" "holds P ps (set (ckt_tabled r)) r"
    and "set (ckt_tabled r) \<subseteq> {0 ..< E}" "clock_window now r = Inr W" "set W \<subseteq> {0 ..< E}"
  shows "fst (clock_table_resolve P now ps sl pid r) = Inr (p, e) \<longleftrightarrow> clock_spec P W ps pid p e"
    and "probes (snd (clock_table_resolve P now ps sl pid r)) = probes r"
proof -
  from clock_advance_exact [OF assms] obtain r' where a: "clock_advance P now ps r = (Inr (), r')"
    "holds P ps (set W) r'" "probes r' = probes r" by blast
  show "fst (clock_table_resolve P now ps sl pid r) = Inr (p, e) \<longleftrightarrow> clock_spec P W ps pid p e"
    using holds_lookup [OF a(2), of pid p e] a(1)
    by (auto simp: clock_table_resolve_def clock_spec_def split: option.split)
  show "probes (snd (clock_table_resolve P now ps sl pid r)) = probes r"
    using a(1,3) by (simp add: clock_table_resolve_def split: option.split)
qed

lemma clock_scan_resolve_iff:
  assumes "no_collisions P ps E" "E \<le> 256 ^ 8" "valid_peers ps" "clock_window now r = Inr W" "set W \<subseteq> {0 ..< E}"
  shows "fst (clock_scan_resolve P now ps sl pid r) = Inr (p, e) \<longleftrightarrow> clock_spec P W ps pid p e"
proof
  assume "fst (clock_scan_resolve P now ps sl pid r) = Inr (p, e)"
  then obtain r' where "clock_scan_peers P pid W ps r = (Inr (p, e), r')"
    by (cases "clock_scan_peers P pid W ps r") (simp add: clock_scan_resolve_def assms(4))
  from clock_scan_peers_sound [OF this] show "clock_spec P W ps pid p e"
    by (auto simp: clock_spec_def h2_pseudonym_Inr)
next
  assume c: "clock_spec P W ps pid p e"
  have "\<forall>e \<in> set W. 0 \<le> e \<and> e < E" using assms(5) by auto
  from clock_scan_peers_Some [OF assms(3) this assms(2,1) c, of r]
  show "fst (clock_scan_resolve P now ps sl pid r) = Inr (p, e)" by (auto simp: clock_scan_resolve_def assms(4))
qed

section \<open>The nonce cache\<close>

text \<open>
  The contract of a strategy whose epochs do not tell a replay from a second session.  \<open>remembers\<close>: the
  nonce of an accepted message is in the cache.  \<open>live\<close>: at this reading of the clock the epoch has not
  been purged.  \<open>steady\<close>: the clock has epochs of positive length.
\<close>

locale nonce_resolver = resolver_contract ops wf
  for ops :: "'r resolver_ops" and wf :: "prims \<Rightarrow> peers \<Rightarrow> session_log \<Rightarrow> 'r \<Rightarrow> bool" +
  fixes remembers :: "pystr \<Rightarrow> int \<Rightarrow> bytes \<Rightarrow> 'r \<Rightarrow> bool"
    and live :: "'r \<Rightarrow> rat \<Rightarrow> int \<Rightarrow> bool"
    and steady :: "'r \<Rightarrow> bool"
  assumes accept_remembers: "ro_accept ops P now ps sl p e n r = (Inr (), r', sl') \<Longrightarrow> remembers p e n r'"
    and accept_keeps: "remembers p e n r \<Longrightarrow> live r now e \<Longrightarrow> ro_accept ops P now ps sl q f m r = (ares, r', sl') \<Longrightarrow>
        remembers p e n r'"
    and accept_detects: "remembers p e n r \<Longrightarrow> live r now e \<Longrightarrow>
        ro_accept ops P now ps sl p e n r = (ares, r', sl') \<Longrightarrow> ares = Inl (ReplayDetected p e)"
    and accept_clock: "ro_accept ops P now ps sl q f m r = (ares, r', sl') \<Longrightarrow> live r' = live r \<and> steady r' = steady r"
    and resolve_keeps: "ro_resolve ops P now ps sl pid r = (rres, r') \<Longrightarrow>
        remembers p e n r' = remembers p e n r \<and> live r' = live r \<and> steady r' = steady r"
    and resolve_live: "ro_resolve ops P now ps sl pid r = (Inr (p, e), r') \<Longrightarrow> wf P ps sl r \<Longrightarrow> steady r \<Longrightarrow> live r now e"
    and live_antimono: "steady r \<Longrightarrow> live r now e \<Longrightarrow> now' \<le> now \<Longrightarrow> live r now' e"

definition ck_remembers :: "pystr \<Rightarrow> int \<Rightarrow> bytes \<Rightarrow> 'a clock_resolver_scheme \<Rightarrow> bool" where
  "ck_remembers p e n r \<longleftrightarrow> (\<exists>name l. utf8_encode p = Inr name \<and> map_of (ck_nonces r) e = Some l \<and> name @ [0] @ n \<in> set l)"

definition ck_live :: "'a clock_resolver_scheme \<Rightarrow> rat \<Rightarrow> int \<Rightarrow> bool" where
  "ck_live r now e \<longleftrightarrow> (\<exists>cur. current_epoch now r = Inr cur \<and> cur - ck_drift r \<le> e)"

definition ck_steady :: "'a clock_resolver_scheme \<Rightarrow> bool" where
  "ck_steady r \<longleftrightarrow> 0 < ck_epoch_seconds r \<and> 0 \<le> ck_drift r"

lemma map_of_filter_key: "map_of (filter (\<lambda>(k, _). Q k) al) k = (if Q k then map_of al k else None)"
  by (induction al) auto

lemma map_of_setdefault: "map_of (setdefault e ns) f = (if f = e \<and> map_of ns e = None then Some [] else map_of ns f)"
  by (auto simp: setdefault_def)

lemma ck_update_simps [simp]:
  "current_epoch now (r\<lparr>ck_nonces := ns\<rparr>) = current_epoch now r"
  "ck_live (r\<lparr>ck_nonces := ns\<rparr>) = ck_live r" "ck_steady (r\<lparr>ck_nonces := ns\<rparr>) = ck_steady r"
  by (auto simp: current_epoch_def ck_live_def ck_steady_def fun_eq_iff)

text \<open>Every outcome of \<^verbatim>\<open>accept\<close>, as one step on the cache.\<close>

definition purged :: "int \<Rightarrow> int \<Rightarrow> 'a clock_resolver_scheme \<Rightarrow> (int \<times> bytes list) list" where
  "purged cur e r = setdefault e (filter (\<lambda>(old, _). \<not> old < cur - ck_drift r) (ck_nonces r))"

definition seen_nonces :: "int \<Rightarrow> int \<Rightarrow> 'a clock_resolver_scheme \<Rightarrow> bytes list" where
  "seen_nonces cur e r = (case map_of (purged cur e r) e of None \<Rightarrow> [] | Some l \<Rightarrow> l)"

lemma clock_accept_eq:
  assumes "current_epoch now r = Inr cur" "utf8_encode p = Inr name"
  shows "clock_accept P now ps sl p e n r =
    (if name @ [0] @ n \<in> set (seen_nonces cur e r) then (Inl (ReplayDetected p e), r\<lparr>ck_nonces := purged cur e r\<rparr>, sl)
     else (Inr (), r\<lparr>ck_nonces := AList.update e (seen_nonces cur e r @ [name @ [0] @ n]) (purged cur e r)\<rparr>,
           accept_epoch sl p e))"
  using assms by (simp add: clock_accept_def Let_def purged_def seen_nonces_def)

lemma clock_accept_raises:
  "current_epoch now r = Inl x \<Longrightarrow> clock_accept P now ps sl p e n r = (Inl x, r, sl)"
  "current_epoch now r = Inr cur \<Longrightarrow> utf8_encode p = Inl y \<Longrightarrow>
     clock_accept P now ps sl p e n r = (Inl y, r\<lparr>ck_nonces := purged cur e r\<rparr>, sl)"
  by (simp_all add: clock_accept_def Let_def purged_def)

lemma map_of_purged:
  "map_of (purged cur f r) e =
    (if cur - ck_drift r \<le> e \<and> map_of (ck_nonces r) e \<noteq> None then map_of (ck_nonces r) e
     else if e = f then Some [] else None)"
  by (auto simp: purged_def map_of_setdefault map_of_filter_key not_less)

lemma ck_accept_keeps:
  assumes "ck_remembers p e n r" "ck_live r now e" "clock_accept P now ps sl q f m r = (res, r', sl')"
  shows "ck_remembers p e n r'"
proof -
  from assms(2) obtain cur where cur: "current_epoch now r = Inr cur" "cur - ck_drift r \<le> e" by (auto simp: ck_live_def)
  from assms(1) obtain name l where l: "utf8_encode p = Inr name" "map_of (ck_nonces r) e = Some l" "name @ [0] @ n \<in> set l"
    by (auto simp: ck_remembers_def)
  have pe: "map_of (purged cur f r) e = Some l" using cur l by (simp add: map_of_purged)
  show ?thesis
  proof (cases "utf8_encode q")
    case (Inl y)
    with assms(3) clock_accept_raises(2) [OF cur(1) Inl] pe l show ?thesis by (auto simp: ck_remembers_def)
  next
    case (Inr qn)
    have "f = e \<Longrightarrow> seen_nonces cur f r = l" using pe by (simp add: seen_nonces_def)
    with assms(3) clock_accept_eq [OF cur(1) Inr] pe l show ?thesis
      by (auto simp: ck_remembers_def split: if_splits)
  qed
qed

lemma ck_accept_detects:
  assumes "ck_remembers p e n r" "ck_live r now e"
  shows "fst (clock_accept P now ps sl p e n r) = Inl (ReplayDetected p e)"
proof -
  from assms(2) obtain cur where cur: "current_epoch now r = Inr cur" "cur - ck_drift r \<le> e" by (auto simp: ck_live_def)
  from assms(1) obtain name l where l: "utf8_encode p = Inr name" "map_of (ck_nonces r) e = Some l" "name @ [0] @ n \<in> set l"
    by (auto simp: ck_remembers_def)
  have "seen_nonces cur e r = l" using cur l by (simp add: seen_nonces_def map_of_purged)
  with l clock_accept_eq [OF cur(1) l(1)] show ?thesis by simp
qed

lemma ck_accept_remembers:
  assumes "clock_accept P now ps sl p e n r = (Inr (), r', sl')"
  shows "ck_remembers p e n r'"
proof -
  obtain cur where cur: "current_epoch now r = Inr cur"
    using assms by (cases "current_epoch now r") (auto simp: clock_accept_raises)
  obtain name where name: "utf8_encode p = Inr name"
    using assms clock_accept_raises(2) [OF cur] by (cases "utf8_encode p") auto
  from assms clock_accept_eq [OF cur name] name show ?thesis
    by (auto simp: ck_remembers_def split: if_splits)
qed

lemma ck_live_antimono: "ck_steady r \<Longrightarrow> ck_live r now e \<Longrightarrow> now' \<le> now \<Longrightarrow> ck_live r now' e"
proof -
  assume a: "ck_steady r" "ck_live r now e" "now' \<le> now"
  then have "now' / ck_epoch_seconds r \<le> now / ck_epoch_seconds r"
    by (simp add: ck_steady_def divide_right_mono)
  then have "\<lfloor>now' / ck_epoch_seconds r\<rfloor> \<le> \<lfloor>now / ck_epoch_seconds r\<rfloor>" by (rule floor_mono)
  with a show ?thesis by (auto simp: ck_live_def current_epoch_def split: if_splits)
qed

text \<open>An epoch that has left the window when the acceptance reads the clock is always accepted.\<close>

lemma late_accept_succeeds:
  assumes "current_epoch now r = Inr cur" "e < cur - ck_drift r" "utf8_encode p = Inr name"
  shows "fst (clock_accept P now ps sl p e n r) = Inr ()"
proof -
  have "seen_nonces cur e r = []" using assms(2) by (simp add: seen_nonces_def map_of_purged)
  with clock_accept_eq [OF assms(1,3)] show ?thesis by simp
qed

lemma ck_window_live:
  assumes "clock_window now r = Inr W" "e \<in> set W" "ck_steady r"
  shows "ck_live r now e"
  using assms by (auto simp: clock_window_def ck_live_def ck_steady_def window_mem_of split: sum.splits)

lemma add_probes_clock [simp]:
  "ck_remembers p e n (add_probes k r) = ck_remembers p e n r" "ck_live (add_probes k r) = ck_live r"
  "ck_steady (add_probes k r) = ck_steady r"
  by (auto simp: add_probes_def ck_remembers_def ck_live_def ck_steady_def current_epoch_def fun_eq_iff)

lemma probe_epochs_state: "\<exists>n. snd (probe_epochs P lam pid es r) = add_probes n r"
proof (induction es arbitrary: r)
  case Nil
  show ?case by (intro exI [of _ 0]) simp
next
  case (Cons e es)
  from Cons.IH [of "add_probes 1 r"] show ?case
    by (auto simp: h2_counted_eq split: sum.split)
qed

lemma clock_scan_state: "\<exists>n. snd (clock_scan_peers P pid W ps r) = add_probes n r"
proof (induction ps arbitrary: r)
  case Nil
  show ?case by (intro exI [of _ 0]) simp
next
  case (Cons x ps)
  obtain p lam where x: "x = (p, lam)" by (cases x)
  obtain res r1 where pe: "probe_epochs P lam pid W r = (res, r1)" by fastforce
  with probe_epochs_state [of P lam pid W r] obtain n where "r1 = add_probes n r" by auto
  with Cons.IH [of r1] pe show ?case by (auto simp: x split: sum.split option.split)
qed

definition same_clock :: "'a clock_resolver_scheme \<Rightarrow> 'b clock_resolver_scheme \<Rightarrow> bool" where
  "same_clock r r' \<longleftrightarrow> ck_epoch_seconds r' = ck_epoch_seconds r \<and> ck_drift r' = ck_drift r \<and> ck_nonces r' = ck_nonces r"

lemma same_clockD:
  "same_clock r r' \<Longrightarrow> ck_remembers p e n r' = ck_remembers p e n r \<and> ck_live r' = ck_live r \<and> ck_steady r' = ck_steady r"
  by (auto simp: same_clock_def ck_remembers_def ck_live_def ck_steady_def current_epoch_def fun_eq_iff)

lemma table_peers_clock: "same_clock r (snd (table_peers P e qs r))"
  by (induction qs arbitrary: r)
    (auto simp: same_clock_def h2_counted_def split: sum.split prod.split)

lemma table_epochs_clock: "same_clock r (snd (table_epochs P ps es r))"
proof (induction es arbitrary: r)
  case Nil
  show ?case by (simp add: same_clock_def)
next
  case (Cons e es)
  from table_peers_clock [of r P e ps] Cons.IH show ?case
    by (fastforce simp: same_clock_def split: sum.split prod.split)
qed

lemma clock_advance_clock: "same_clock r (snd (clock_advance P now ps r))"
proof (cases "clock_window now r")
  case (Inl x)
  then show ?thesis by (simp add: clock_advance_def same_clock_def)
next
  case (Inr W)
  from table_epochs_clock [of r P ps "sort (filter (\<lambda>e. e \<notin> set (ckt_tabled r)) (remdups W))"] show ?thesis
    by (auto simp: clock_advance_def Inr Let_def same_clock_def split: sum.split prod.split)
qed

interpretation clock_scan_nonce: nonce_resolver clock_scan_ops clock_scan_wf ck_remembers ck_live ck_steady
proof (unfold_locales, goal_cases)
  case (1 P now ps sl p e n r r' sl')
  then show ?case using ck_accept_remembers by (auto simp: clock_scan_ops_def)
next
  case (2 p e n r now P ps sl q f m ares r' sl')
  then show ?case using ck_accept_keeps by (auto simp: clock_scan_ops_def)
next
  case (3 p e n r now P ps sl ares r' sl')
  then show ?case using ck_accept_detects [OF 3(1,2), of P ps sl] by (simp add: clock_scan_ops_def)
next
  case (4 P now ps sl q f m r ares r' sl')
  then show ?case using clock_accept_only_nonces by (fastforce simp: clock_scan_ops_def)
next
  case (5 P now ps sl pid r rres r' p e n)
  then show ?case using clock_scan_state [of P pid _ ps r]
    by (auto simp: clock_scan_ops_def clock_scan_resolve_def split: sum.splits) (metis add_probes_clock snd_conv)+
next
  case (6 P now ps sl pid r p e r')
  then obtain W where "clock_window now r = Inr W" "clock_scan_peers P pid W ps r = (Inr (p, e), r')"
    by (auto simp: clock_scan_ops_def clock_scan_resolve_def split: sum.splits)
  moreover from this have "e \<in> set W" using clock_scan_peers_sound by blast
  ultimately show ?case using ck_window_live 6(3) by blast
next
  case (7 r now e now')
  then show ?case by (rule ck_live_antimono)
qed

end
