(* ===== verification/Server.thy ===== *)
theory Server
  imports Entity Messages CounterStrategy ClockComplete
begin

text \<open>
  The server (\<^verbatim>\<open>protocol/server.py\<close>): an entity with a session log and a resolution strategy.  The
  strategy is its state and its method table, so one model serves all strategies, and what is proved
  from the resolver contract holds for each of them.  What a call reads from outside, the clock at
  its two uses and the two draws of randomness, is the record \<open>server_env\<close>.

  \<^verbatim>\<open>handle_auth_request\<close> is the composition of \<open>verify_request\<close>, up to the comparison of the decrypted
  header, and \<open>answer_request\<close>, from the acceptance of the epoch to the response.
\<close>

record auth_result =
  res_response_bytes :: bytes
  res_session_key :: bytes
  res_peer_identity :: pystr

record 'r server = entity +
  srv_nonce_bits :: int
  srv_log :: session_log
  srv_resolver :: 'r

record server_env =
  env_now_resolve :: rat
  env_now_accept :: rat
  env_nonce :: urandom
  env_gcm :: urandom

definition new_server ::
  "prims \<Rightarrow> 'r resolver_ops \<Rightarrow> rat \<Rightarrow> credential \<Rightarrow> (pystr \<Rightarrow> bool) option \<Rightarrow> int \<Rightarrow> int \<Rightarrow> int \<Rightarrow> int \<Rightarrow> 'r
     \<Rightarrow> exn + 'r server" where
  "new_server P ops now cred cov nonce_bits m f l r =
     (if cred_role cred \<noteq> lit ''server'' then Inl ValueError
      else let sl = new_session_log m f l
           in case ro_attach ops P now (cred_peer_secrets cred) sl r of
                (Inl x, r') \<Rightarrow> Inl x
              | (Inr _, r') \<Rightarrow> Inr \<lparr>ent_credential = cred, ent_coverage_predicate = coverage_or_default cov,
                  ent_root_cache = Map.empty, srv_nonce_bits = nonce_bits, srv_log = sl, srv_resolver = r'\<rparr>)"

definition srv_peers :: "'r server \<Rightarrow> peers" where
  "srv_peers s = cred_peer_secrets (ent_credential s)"

definition resolve_pseudonym ::
  "prims \<Rightarrow> 'r resolver_ops \<Rightarrow> rat \<Rightarrow> bytes \<Rightarrow> 'r server \<Rightarrow> (exn + pystr \<times> int) \<times> 'r server" where
  "resolve_pseudonym P ops now pid s =
     (let (res, r') = ro_resolve ops P now (srv_peers s) (srv_log s) pid (srv_resolver s)
      in (res, s\<lparr>srv_resolver := r'\<rparr>))"

definition server_failure :: "'r server \<Rightarrow> pystr \<Rightarrow> 'r server" where
  "server_failure s peer = s\<lparr>srv_log := fail (srv_log s) peer\<rparr>"

text \<open>The two texts of \<^verbatim>\<open>IntegrityError\<close>.\<close>

definition unopened_text :: "pystr \<Rightarrow> pystr" where
  "unopened_text peer_identity = lit ''mu_1 verification failed for '' @ peer_identity"

definition mismatch_text :: "pystr \<Rightarrow> pystr" where
  "mismatch_text peer_identity = lit ''decrypted PID/epoch does not match message header for '' @ peer_identity"

definition verify_request ::
  "prims \<Rightarrow> 'r resolver_ops \<Rightarrow> server_env \<Rightarrow> bytes \<Rightarrow> 'r server
     \<Rightarrow> (exn + message1 \<times> pystr \<times> int \<times> bytes \<times> bytes) \<times> 'r server" where
  "verify_request P ops env msg1_bytes s =
     (case message1_from_bytes msg1_bytes of
        Inl x \<Rightarrow> (Inl x, s)
      | Inr msg1 \<Rightarrow>
          (case resolve_pseudonym P ops (env_now_resolve env) (m1_pid msg1) s of
             (Inl x, s1) \<Rightarrow> (Inl x, s1)
           | (Inr (peer, epoch), s1) \<Rightarrow>
               if is_blocked (srv_log s1) peer then (Inl (BlockedEntity peer), s1)
               else if \<not> coverage_ok s1 peer then (Inl (CoverageError peer), server_failure s1 peer)
               else case get_pairwise_root P peer s1 of
                   (Inl x, s2) \<Rightarrow> (Inl x, s2)
                 | (Inr k_star, s2) \<Rightarrow>
                     (case aead_decrypt P k_star (m1_gcm_nonce msg1) (m1_ciphertext msg1) (m1_tag msg1) [] of
                        Inl x \<Rightarrow> if x = InvalidTag then (Inl (IntegrityError (unopened_text peer)), server_failure s2 peer) else (Inl x, s2)
                      | Inr plaintext \<Rightarrow>
                          let epoch_bytes = last_n 8 plaintext;
                              pid_in_plaintext = take 32 plaintext;
                              n_i = drop 32 (but_last_n 8 plaintext);
                              epoch_in_plaintext = int_from_bytes epoch_bytes
                          in if pid_in_plaintext \<noteq> m1_pid msg1 \<or> epoch_in_plaintext \<noteq> epoch
                             then (Inl (IntegrityError (mismatch_text peer)), server_failure s2 peer)
                             else (Inr (msg1, peer, epoch, k_star, n_i), s2))))"

definition answer_request ::
  "prims \<Rightarrow> 'r resolver_ops \<Rightarrow> server_env \<Rightarrow> message1 \<Rightarrow> pystr \<Rightarrow> int \<Rightarrow> bytes \<Rightarrow> bytes \<Rightarrow> 'r server
     \<Rightarrow> (exn + auth_result) \<times> 'r server" where
  "answer_request P ops env msg1 peer epoch k_star n_i s =
     (case ro_accept ops P (env_now_accept env) (srv_peers s) (srv_log s) peer epoch n_i (srv_resolver s) of
        (Inl x, r', sl') \<Rightarrow> (Inl x, s\<lparr>srv_log := sl', srv_resolver := r'\<rparr>)
      | (Inr _, r', sl') \<Rightarrow>
          let s' = s\<lparr>srv_log := record_success sl' peer, srv_resolver := r'\<rparr>
          in case generate_nonce (env_nonce env) (srv_nonce_bits s') of
               Inl x \<Rightarrow> (Inl x, s')
             | Inr n_j \<Rightarrow>
               (case derive_session_key P k_star n_i n_j epoch of
                  Inl x \<Rightarrow> (Inl x, s')
                | Inr key \<Rightarrow>
                  (case int_to_bytes 8 epoch of
                     Inl x \<Rightarrow> (Inl x, s')
                   | Inr epoch_bytes \<Rightarrow>
                     (case aead_encrypt P (env_gcm env) k_star (n_j @ epoch_bytes) (m1_pid msg1 @ n_i) of
                        Inl x \<Rightarrow> (Inl x, s')
                      | Inr (gcm_nonce2, ciphertext2, tag2) \<Rightarrow>
                        (case message2_to_bytes \<lparr>m2_server_id = JStr (cred_identity (ent_credential s')),
                                m2_gcm_nonce = gcm_nonce2, m2_ciphertext = ciphertext2, m2_tag = tag2\<rparr> of
                           Inl x \<Rightarrow> (Inl x, s')
                         | Inr response \<Rightarrow>
                             (Inr \<lparr>res_response_bytes = response, res_session_key = key,
                                   res_peer_identity = peer\<rparr>, s'))))))"

definition handle_auth_request ::
  "prims \<Rightarrow> 'r resolver_ops \<Rightarrow> server_env \<Rightarrow> bytes \<Rightarrow> 'r server \<Rightarrow> (exn + auth_result) \<times> 'r server" where
  "handle_auth_request P ops env msg1_bytes s =
     (case verify_request P ops env msg1_bytes s of
        (Inl x, s') \<Rightarrow> (Inl x, s')
      | (Inr (msg1, peer, epoch, k_star, n_i), s') \<Rightarrow> answer_request P ops env msg1 peer epoch k_star n_i s')"

section \<open>What a verified request is\<close>

text \<open>
  The meaning of a first message for a credential: its pseudonym is \<open>H2\<close> of the peer's secret and the
  epoch, and it opens under the pairwise root to a plaintext that repeats both.
\<close>

definition authentic :: "prims \<Rightarrow> credential \<Rightarrow> bytes \<Rightarrow> pystr \<Rightarrow> int \<Rightarrow> bytes \<Rightarrow> bytes \<Rightarrow> bytes \<Rightarrow> bool" where
  "authentic P c msg p e k pid n_i \<longleftrightarrow>
     (\<exists>m lam plaintext. message1_from_bytes msg = Inr m \<and> m1_pid m = pid \<and>
        map_of (cred_peer_secrets c) p = Some lam \<and> h2_pseudonym P lam e = Inr pid \<and> root_of P c p = Inr k \<and>
        aead_decrypt P k (m1_gcm_nonce m) (m1_ciphertext m) (m1_tag m) [] = Inr plaintext \<and>
        take 32 plaintext = pid \<and> int_from_bytes (last_n 8 plaintext) = e \<and> drop 32 (but_last_n 8 plaintext) = n_i)"

definition server_wf ::
  "(prims \<Rightarrow> peers \<Rightarrow> session_log \<Rightarrow> 'r \<Rightarrow> bool) \<Rightarrow> prims \<Rightarrow> 'r server \<Rightarrow> bool" where
  "server_wf W P s \<longleftrightarrow> W P (srv_peers s) (srv_log s) (srv_resolver s) \<and> cache_ok P s"

definition same_setup :: "'r server \<Rightarrow> 'r server \<Rightarrow> bool" where
  "same_setup s s' \<longleftrightarrow> ent_credential s' = ent_credential s \<and>
     ent_coverage_predicate s' = ent_coverage_predicate s \<and> srv_nonce_bits s' = srv_nonce_bits s"

lemma same_setupD:
  "same_setup s s' \<Longrightarrow> srv_peers s' = srv_peers s" "same_setup s s' \<Longrightarrow> ent_credential s' = ent_credential s"
  by (simp_all add: same_setup_def srv_peers_def)

lemma same_setup_updates [simp]:
  "same_setup s (s\<lparr>srv_log := sl\<rparr>)" "same_setup s (s\<lparr>srv_resolver := r\<rparr>)" "same_setup s (server_failure s p)"
  "same_setup s s"
  by (simp_all add: same_setup_def server_failure_def)

lemma same_setup_trans: "same_setup a b \<Longrightarrow> same_setup b c \<Longrightarrow> same_setup a c"
  by (simp add: same_setup_def)

lemma srv_peers_updates [simp]:
  "srv_peers (s\<lparr>srv_log := sl\<rparr>) = srv_peers s" "srv_peers (s\<lparr>srv_resolver := r\<rparr>) = srv_peers s"
  "srv_peers (s\<lparr>ent_root_cache := m\<rparr>) = srv_peers s"
  by (simp_all add: srv_peers_def)

lemma cache_ok_updates [simp]:
  "cache_ok P (s\<lparr>srv_log := sl\<rparr>) = cache_ok P s" "cache_ok P (s\<lparr>srv_resolver := r\<rparr>) = cache_ok P s"
  by (simp_all add: cache_ok_def)

lemma root_lookup:
  assumes "cache_ok P s" "get_pairwise_root P p s = (res, s')"
  shows "res = root_of P (ent_credential s) p" "cache_ok P s'" "same_setup s s'"
    "srv_log s' = srv_log s" "srv_resolver s' = srv_resolver s"
proof -
  show "res = root_of P (ent_credential s) p"
    using get_pairwise_root_eq [OF assms(1), of p] assms(2) by simp
  show "cache_ok P s'" using get_pairwise_root_cache_ok [OF assms(1), of p] assms(2) by simp
  show "same_setup s s'" "srv_log s' = srv_log s" "srv_resolver s' = srv_resolver s"
    using get_pairwise_root_state [of P p s] assms(2) by (auto simp: same_setup_def)
qed


text \<open>Everything an accepting run establishes, at the epoch \<open>e\<close> it accepted.\<close>

definition accepted ::
  "prims \<Rightarrow> 'r resolver_ops \<Rightarrow> server_env \<Rightarrow> 'r server \<Rightarrow> bytes \<Rightarrow> auth_result \<Rightarrow> 'r server \<Rightarrow> int \<Rightarrow> bool" where
  "accepted P ops env s msg a s' e \<longleftrightarrow>
     (\<exists>m k n_i n_j gn c t. message1_from_bytes msg = Inr m \<and>
        authentic P (ent_credential s) msg (res_peer_identity a) e k (m1_pid m) n_i \<and>
        \<not> is_blocked (srv_log s) (res_peer_identity a) \<and> coverage_ok s (res_peer_identity a) \<and> valid_epoch e \<and>
        (\<exists>r'. ro_resolve ops P (env_now_resolve env) (srv_peers s) (srv_log s) (m1_pid m) (srv_resolver s)
           = (Inr (res_peer_identity a, e), r')) \<and>
        srv_log s' = record_success (accept_epoch (srv_log s) (res_peer_identity a) e) (res_peer_identity a) \<and>
        generate_nonce (env_nonce env) (srv_nonce_bits s) = Inr n_j \<and>
        res_session_key a = session_key P k n_i n_j e \<and>
        aead_encrypt P (env_gcm env) k (n_j @ be_bytes 8 (nat e)) (m1_pid m @ n_i) = Inr (gn, c, t) \<and>
        message2_to_bytes \<lparr>m2_server_id = JStr (cred_identity (ent_credential s)), m2_gcm_nonce = gn,
          m2_ciphertext = c, m2_tag = t\<rparr> = Inr (res_response_bytes a))"

section \<open>Verification\<close>

text \<open>How a rejected request may change the log: not at all, or by one failure of an enrolled peer.\<close>

definition failure_logged :: "'r server \<Rightarrow> session_log \<Rightarrow> exn \<Rightarrow> bool" where
  "failure_logged s sl' x \<longleftrightarrow> (\<exists>p \<in> fst ` set (srv_peers s). \<not> is_blocked (srv_log s) p \<and>
      sl' = fail (srv_log s) p \<and> x \<in> {CoverageError p, IntegrityError (unopened_text p), IntegrityError (mismatch_text p)})"

lemma wf_update:
  assumes "W P (srv_peers s) (srv_log s) (srv_resolver s)" "cache_ok P s" "srv_log s' = sl'" "srv_resolver s' = r'"
    "same_setup s s'" "ent_root_cache s' = ent_root_cache s" "W P (srv_peers s) sl' r'"
  shows "server_wf W P s'"
  using assms by (simp add: server_wf_def same_setupD cache_ok_def)

context resolver_contract
begin

lemma server_failure_wf: "server_wf wf P s \<Longrightarrow> server_wf wf P (server_failure s p)"
  by (auto simp: server_wf_def server_failure_def intro: wf_last)

lemma resolve_step:
  assumes "server_wf wf P s" "resolve_pseudonym P ops now pid s = (res, s')"
  shows "server_wf wf P s'" "same_setup s s'" "srv_log s' = srv_log s" "ent_root_cache s' = ent_root_cache s"
    "res = Inr (p, e) \<Longrightarrow> \<exists>lam. map_of (srv_peers s) p = Some lam \<and> h2_pseudonym P lam e = Inr pid"
    "ro_resolve ops P now (srv_peers s) (srv_log s) pid (srv_resolver s) = (res, srv_resolver s')"
proof -
  let ?call = "ro_resolve ops P now (srv_peers s) (srv_log s) pid (srv_resolver s)"
  obtain r' where c: "?call = (res, r')" and s': "s' = s\<lparr>srv_resolver := r'\<rparr>"
    using assms(2) by (auto simp: resolve_pseudonym_def split: prod.splits)
  have w: "wf P (srv_peers s) (srv_log s) (srv_resolver s)" "cache_ok P s"
    using assms(1) by (simp_all add: server_wf_def)
  from resolve_wf [OF w(1) c] w(2) show "server_wf wf P s'" by (simp add: server_wf_def s')
  show "same_setup s s'" "srv_log s' = srv_log s" "ent_root_cache s' = ent_root_cache s" by (simp_all add: s')
  show "?call = (res, srv_resolver s')" using c by (simp add: s')
  show "\<exists>lam. map_of (srv_peers s) p = Some lam \<and> h2_pseudonym P lam e = Inr pid" if "res = Inr (p, e)"
    using resolve_sound [OF w(1) c [unfolded that]] .
qed

lemma verify_step:
  assumes wf: "server_wf wf P s" and call: "verify_request P ops env msg s = (res, s')"
  shows "server_wf wf P s' \<and> same_setup s s' \<and>
    (case res of
       Inl x \<Rightarrow> srv_log s' = srv_log s \<or> failure_logged s (srv_log s') x
     | Inr (m, p, e, k, n_i) \<Rightarrow> srv_log s' = srv_log s \<and> \<not> is_blocked (srv_log s) p \<and> coverage_ok s p \<and>
         message1_from_bytes msg = Inr m \<and> authentic P (ent_credential s) msg p e k (m1_pid m) n_i \<and>
         ro_resolve ops P (env_now_resolve env) (srv_peers s) (srv_log s) (m1_pid m) (srv_resolver s)
           = (Inr (p, e), srv_resolver s'))"
proof (cases "message1_from_bytes msg")
  case (Inl x)
  with wf call show ?thesis by (auto simp: verify_request_def)
next
  case m: (Inr m)
  obtain r1 s1 where r1: "resolve_pseudonym P ops (env_now_resolve env) (m1_pid m) s = (r1, s1)" by fastforce
  note st = resolve_step [OF wf r1]
  show ?thesis
  proof (cases r1)
    case (Inl x)
    with m r1 call st show ?thesis by (auto simp: verify_request_def)
  next
    case (Inr pe)
    obtain p e where pe: "pe = (p, e)" by (cases pe)
    from st(5) [of p e] Inr pe obtain lam where lam: "map_of (srv_peers s) p = Some lam"
      "h2_pseudonym P lam e = Inr (m1_pid m)" by auto
    then have enr: "p \<in> fst ` set (srv_peers s)" by (auto dest: map_of_SomeD intro: rev_image_eqI)
    have failw: "server_wf wf P (server_failure s2 p) \<and> same_setup s (server_failure s2 p)"
      if "server_wf wf P s2" "same_setup s s2" for s2
      using server_failure_wf [OF that(1)] that(2) same_setup_trans [OF that(2) same_setup_updates(3)] by simp
    note unfolded = verify_request_def m r1 Inr pe sum.case prod.case
    show ?thesis
    proof (cases "is_blocked (srv_log s) p \<or> \<not> coverage_ok s p")
      case True
      show ?thesis
      proof (cases "is_blocked (srv_log s) p")
        case True
        then show ?thesis using call st by (auto simp: unfolded)
      next
        case False
        have "s' = server_failure s1 p" "res = Inl (CoverageError p)"
          using call st False True by (auto simp: unfolded coverage_ok_def same_setup_def)
        moreover have "srv_log (server_failure s1 p) = fail (srv_log s) p"
          using st(3) by (simp add: server_failure_def)
        moreover have "failure_logged s (fail (srv_log s) p) (CoverageError p)"
          unfolding failure_logged_def using enr False by (intro bexI [of _ p]) simp_all
        ultimately show ?thesis using failw [OF st(1,2)] by simp
      qed
    next
      case nb: False
      obtain r2 s2 where r2: "get_pairwise_root P p s1 = (r2, s2)" by fastforce
      have c1: "cache_ok P s1" using st(1) by (simp add: server_wf_def)
      note rt = root_lookup [OF c1 r2]
      have root: "r2 = root_of P (ent_credential s) p" using rt(1) st(2) by (simp add: same_setup_def)
      have ss2: "same_setup s s2" by (rule same_setup_trans [OF st(2) rt(3)])
      have w2: "server_wf wf P s2"
        using st(1,2,3) rt ss2 by (simp add: server_wf_def same_setupD)
      have l2: "srv_log s2 = srv_log s" "srv_resolver s2 = srv_resolver s1" using rt st by simp_all
      have cb: "coverage_ok s1 p" "\<not> is_blocked (srv_log s1) p"
        using nb st by (auto simp: coverage_ok_def same_setup_def)
      have fl: "failure_logged s (fail (srv_log s) p) (IntegrityError (unopened_text p))"
        "failure_logged s (fail (srv_log s) p) (IntegrityError (mismatch_text p))"
        unfolding failure_logged_def using enr nb by blast+
      note unfolded2 = unfolded cb r2 if_False not_False_eq_True not_True_eq_False simp_thms
      show ?thesis
      proof (cases r2)
        case (Inl x)
        with call w2 ss2 l2 show ?thesis by (auto simp: unfolded2)
      next
        case k: (Inr k)
        show ?thesis
        proof (cases "aead_decrypt P k (m1_gcm_nonce m) (m1_ciphertext m) (m1_tag m) []")
          case (Inl x)
          then show ?thesis
            using call k w2 ss2 l2 failw [OF w2 ss2] fl
            by (auto simp: unfolded2 server_failure_def split: if_splits)
        next
          case pt: (Inr pt)
          show ?thesis
          proof (cases "take 32 pt = m1_pid m \<and> int_from_bytes (last_n 8 pt) = e")
            case False
            then show ?thesis
              using call k pt w2 ss2 l2 failw [OF w2 ss2] fl
              by (auto simp: unfolded2 Let_def server_failure_def)
          next
            case True
            have "authentic P (ent_credential s) msg p e k (m1_pid m) (drop 32 (but_last_n 8 pt))"
              using m lam root k pt True by (auto simp: authentic_def srv_peers_def)
            then show ?thesis
              using call k pt w2 ss2 l2 nb m st(6) Inr pe True
              by (auto simp: unfolded2 Let_def)
          qed
        qed
      qed
    qed
  qed
qed

lemma answer_step:
  assumes wf: "server_wf wf P s" and call: "answer_request P ops env m p e k n_i s = (res, s')"
  shows "server_wf wf P s' \<and> same_setup s s'" (is ?T1)
    and "srv_log s' \<in> {srv_log s, accept_epoch (srv_log s) p e, record_success (accept_epoch (srv_log s) p e) p}" (is ?T2)
    and "res = Inr a \<Longrightarrow> srv_log s' = record_success (accept_epoch (srv_log s) p e) p \<and>
      res_peer_identity a = p \<and> valid_epoch e \<and> (\<exists>n_j gn c t. generate_nonce (env_nonce env) (srv_nonce_bits s) = Inr n_j \<and>
        res_session_key a = session_key P k n_i n_j e \<and>
        aead_encrypt P (env_gcm env) k (n_j @ be_bytes 8 (nat e)) (m1_pid m @ n_i) = Inr (gn, c, t) \<and>
        message2_to_bytes \<lparr>m2_server_id = JStr (cred_identity (ent_credential s)), m2_gcm_nonce = gn,
          m2_ciphertext = c, m2_tag = t\<rparr> = Inr (res_response_bytes a))"
proof -
  obtain ares r' sl' where acc: "ro_accept ops P (env_now_accept env) (srv_peers s) (srv_log s) p e n_i (srv_resolver s)
      = (ares, r', sl')" by (metis prod_cases3)
  have w: "wf P (srv_peers s) (srv_log s) (srv_resolver s)" "cache_ok P s"
    using wf by (simp_all add: server_wf_def)
  have w1: "wf P (srv_peers s) sl' r'" using accept_wf [OF w(1) acc] .
  let ?s1 = "s\<lparr>srv_log := sl', srv_resolver := r'\<rparr>" and ?s2 = "s\<lparr>srv_log := record_success sl' p, srv_resolver := r'\<rparr>"
  have good: "server_wf wf P ?s1 \<and> same_setup s ?s1" "server_wf wf P ?s2 \<and> same_setup s ?s2"
    using w1 w(2) by (auto simp: server_wf_def same_setup_def intro: wf_last)
  have s': "s' = (case ares of Inl x \<Rightarrow> ?s1 | Inr _ \<Rightarrow> ?s2)"
    using call by (auto simp: answer_request_def acc Let_def split: sum.splits)
  then show ?T1 using good by (auto split: sum.split)
  show ?T2 using accept_log_cases [OF acc] s' accept_log [of P "env_now_accept env" "srv_peers s" "srv_log s" p e n_i
      "srv_resolver s" r' sl'] acc by (cases ares) auto
  show "srv_log s' = record_success (accept_epoch (srv_log s) p e) p \<and>
      res_peer_identity a = p \<and> valid_epoch e \<and> (\<exists>n_j gn c t. generate_nonce (env_nonce env) (srv_nonce_bits s) = Inr n_j \<and>
        res_session_key a = session_key P k n_i n_j e \<and>
        aead_encrypt P (env_gcm env) k (n_j @ be_bytes 8 (nat e)) (m1_pid m @ n_i) = Inr (gn, c, t) \<and>
        message2_to_bytes \<lparr>m2_server_id = JStr (cred_identity (ent_credential s)), m2_gcm_nonce = gn,
          m2_ciphertext = c, m2_tag = t\<rparr> = Inr (res_response_bytes a))" if "res = Inr a"
  proof -
    have ares: "ares = Inr ()" using call that by (cases ares) (auto simp: answer_request_def acc)
    then have sl': "sl' = accept_epoch (srv_log s) p e" using acc accept_log by blast
    have "0 \<le> e \<and> e < 256 ^ 8 \<longleftrightarrow> valid_epoch e" by (simp add: valid_epoch_def)
    with call that ares s' sl' show ?thesis
      by (auto simp: answer_request_def acc Let_def derive_session_key_Inr int_to_bytes_def split: sum.splits if_splits)
  qed
qed

lemma handle_step:
  assumes wf: "server_wf wf P s" and call: "handle_auth_request P ops env msg s = (res, s')"
  shows "server_wf wf P s' \<and> same_setup s s'" (is ?T1)
    and "srv_log s' = srv_log s \<or> (\<exists>x. res = Inl x \<and> failure_logged s (srv_log s') x) \<or>
      (\<exists>p e k pid n_i. \<not> is_blocked (srv_log s) p \<and> coverage_ok s p \<and>
         authentic P (ent_credential s) msg p e k pid n_i \<and>
         srv_log s' \<in> {accept_epoch (srv_log s) p e, record_success (accept_epoch (srv_log s) p e) p})" (is ?T2)
proof -
  obtain v s1 where v: "verify_request P ops env msg s = (v, s1)" by fastforce
  note vs = verify_step [OF wf v]
  have "?T1 \<and> ?T2"
  proof (cases v)
    case (Inl x)
    with call v vs show ?thesis by (auto simp: handle_auth_request_def)
  next
    case (Inr t)
    obtain m p e k n_i where t: "t = (m, p, e, k, n_i)" by (cases t)
    have a: "answer_request P ops env m p e k n_i s1 = (res, s')"
      using call v Inr t by (simp add: handle_auth_request_def)
    from vs Inr t have vs1: "server_wf wf P s1" "same_setup s s1" "srv_log s1 = srv_log s"
      "\<not> is_blocked (srv_log s) p" "coverage_ok s p" "authentic P (ent_credential s) msg p e k (m1_pid m) n_i"
      by simp_all
    note st = answer_step(1,2) [OF vs1(1) a]
    have ?T1 using st(1) same_setup_trans [OF vs1(2)] by simp
    moreover have "srv_log s' = srv_log s \<or>
        srv_log s' \<in> {accept_epoch (srv_log s) p e, record_success (accept_epoch (srv_log s) p e) p}"
      using st(2) vs1(3) by auto
    then have ?T2 using vs1(4-6) by blast
    ultimately show ?thesis by blast
  qed
  then show ?T1 ?T2 by blast+
qed

lemma handle_accepts:
  assumes wf: "server_wf wf P s" and call: "handle_auth_request P ops env msg s = (Inr a, s')"
  shows "\<exists>e. accepted P ops env s msg a s' e"
proof -
  obtain v s1 where v: "verify_request P ops env msg s = (v, s1)" by fastforce
  from call v obtain m p e k n_i where vr: "v = Inr (m, p, e, k, n_i)"
    by (cases v) (auto simp: handle_auth_request_def)
  have a: "answer_request P ops env m p e k n_i s1 = (Inr a, s')"
    using call v vr by (simp add: handle_auth_request_def)
  note vs = verify_step [OF wf v]
  from vs vr have vs1: "server_wf wf P s1" "same_setup s s1" "srv_log s1 = srv_log s"
    "\<not> is_blocked (srv_log s) p" "coverage_ok s p" "message1_from_bytes msg = Inr m"
    "authentic P (ent_credential s) msg p e k (m1_pid m) n_i"
    "ro_resolve ops P (env_now_resolve env) (srv_peers s) (srv_log s) (m1_pid m) (srv_resolver s) = (Inr (p, e), srv_resolver s1)"
    by simp_all
  have eq: "ent_credential s1 = ent_credential s" "srv_nonce_bits s1 = srv_nonce_bits s"
    using vs1(2) by (simp_all add: same_setup_def)
  from answer_step(3) [OF vs1(1) a refl] obtain n_j gn c t where
    *: "p = res_peer_identity a" "valid_epoch e"
      "srv_log s' = record_success (accept_epoch (srv_log s) p e) p"
      "generate_nonce (env_nonce env) (srv_nonce_bits s) = Inr n_j" "res_session_key a = session_key P k n_i n_j e"
      "aead_encrypt P (env_gcm env) k (n_j @ be_bytes 8 (nat e)) (m1_pid m @ n_i) = Inr (gn, c, t)"
      "message2_to_bytes \<lparr>m2_server_id = JStr (cred_identity (ent_credential s)), m2_gcm_nonce = gn,
        m2_ciphertext = c, m2_tag = t\<rparr> = Inr (res_response_bytes a)"
    unfolding eq vs1(3) by blast
  note facts = vs1(4-8) [unfolded *(1)] *(2-) [unfolded *(1)]
  show ?thesis
    unfolding accepted_def by (intro exI conjI) (rule facts)+
qed

end

end
