(* ===== verification/Server_Runs.thy ===== *)
theory Server_Runs
  imports Server
begin

text \<open>
  A server over time.  Between two requests its owner may install another coverage predicate, drop
  cached roots, block a peer by hand or subscribe to block notices; the requests, the clock readings
  and the random draws are arbitrary.  The lemmas hold for every strategy that meets the resolver
  contract, those at the end for every strategy with counter epochs.
\<close>

inductive server_reach :: "prims \<Rightarrow> 'r resolver_ops \<Rightarrow> 'r server \<Rightarrow> 'r server \<Rightarrow> bool" for P ops s where
  reach_start: "server_reach P ops s s"
| reach_request: "server_reach P ops s s' \<Longrightarrow> handle_auth_request P ops env msg s' = (res, s'') \<Longrightarrow>
     server_reach P ops s s''"
| reach_coverage: "server_reach P ops s s' \<Longrightarrow> server_reach P ops s (s'\<lparr>ent_coverage_predicate := cov\<rparr>)"
| reach_invalidate: "server_reach P ops s s' \<Longrightarrow> server_reach P ops s (invalidate_pairwise_root q s')"
| reach_block: "server_reach P ops s s' \<Longrightarrow> server_reach P ops s (s'\<lparr>srv_log := block_peer (srv_log s') p\<rparr>)"
| reach_subscribe: "server_reach P ops s s' \<Longrightarrow>
     server_reach P ops s (s'\<lparr>srv_log := subscribe_block (srv_log s') l\<rparr>)"

text \<open>Two different pairs of an enrolled peer and an epoch whose pseudonyms are equal.\<close>

definition collision :: "prims \<Rightarrow> peers \<Rightarrow> bool" where
  "collision P ps \<longleftrightarrow> (\<exists>p lam e q mu f pid. map_of ps p = Some lam \<and> map_of ps q = Some mu \<and> (p, e) \<noteq> (q, f) \<and>
     h2_pseudonym P lam e = Inr pid \<and> h2_pseudonym P mu f = Inr pid)"

text \<open>One message that is authentic for two pairs exhibits a collision.\<close>

lemma authentic_collision:
  assumes "authentic P c msg p e k pid n" "authentic P c msg q f k' pid' n'" "(p, e) \<noteq> (q, f)"
  shows "collision P (cred_peer_secrets c)"
proof -
  obtain m :: message1 and lam where 1: "message1_from_bytes msg = Inr m" "map_of (cred_peer_secrets c) p = Some lam"
    "h2_pseudonym P lam e = Inr (m1_pid m)" using assms(1) by (auto simp: authentic_def)
  obtain mu where 2: "map_of (cred_peer_secrets c) q = Some mu" "h2_pseudonym P mu f = Inr (m1_pid m)"
    using assms(2) 1(1) by (auto simp: authentic_def)
  from 1 2 assms(3) show ?thesis unfolding collision_def by blast
qed

lemma server_reach_trans: "server_reach P ops b c \<Longrightarrow> server_reach P ops a b \<Longrightarrow> server_reach P ops a c"
  by (induction rule: server_reach.induct) (auto intro: server_reach.intros)

lemma reach_one: "handle_auth_request P ops env msg s = (res, s') \<Longrightarrow> server_reach P ops s s'"
  by (rule reach_request [OF reach_start])

lemma subscribe_fields [simp]:
  "blocked (subscribe_block sl l) = blocked sl" "max_attempts (subscribe_block sl l) = max_attempts sl"
  by (simp_all add: subscribe_block_def)

lemma invalidate_server [simp]:
  "srv_log (invalidate_pairwise_root q s) = srv_log s" "srv_resolver (invalidate_pairwise_root q s) = srv_resolver s"
  "srv_peers (invalidate_pairwise_root q s) = srv_peers s"
  by (auto simp: invalidate_pairwise_root_def srv_peers_def split: option.split)

text \<open>The log of a server is always the result of a history of calls on it.\<close>

lemma log_run_trans: "log_run (log_run sl xs) ys = log_run sl (xs @ ys)"
  by (simp add: log_run_def)

lemma log_run_steps:
  "fail sl p = log_run sl [Fail p]" "accept_epoch sl p e = log_run sl [Accept p e]"
  "record_success (accept_epoch sl p e) p = log_run sl [Accept p e, Success p]"
  "block_peer sl p = log_run sl [Block p]" "subscribe_block sl l = log_run sl [Subscribe l]" "sl = log_run sl []"
  by (simp_all add: log_run_def)

text \<open>A history is honest about a server: it accepts only for enrolled peers.\<close>

fun event_peer :: "log_event \<Rightarrow> pystr option" where
  "event_peer (Accept p e) = Some p"
| "event_peer (Success p) = Some p"
| "event_peer (Fail p) = Some p"
| "event_peer _ = None"

context resolver_contract
begin

lemma handle_history:
  assumes wf: "server_wf wf P s" and call: "handle_auth_request P ops env msg s = (res, s')"
  shows "\<exists>evs. srv_log s' = log_run (srv_log s) evs \<and>
     (\<forall>ev \<in> set evs. \<forall>p. event_peer ev = Some p \<longrightarrow> p \<in> fst ` set (srv_peers s))"
proof -
  from handle_step(2) [OF wf call] consider "srv_log s' = srv_log s"
    | x where "failure_logged s (srv_log s') x"
    | p e k pid n_i where "authentic P (ent_credential s) msg p e k pid n_i"
        "srv_log s' \<in> {accept_epoch (srv_log s) p e, record_success (accept_epoch (srv_log s) p e) p}"
    by blast
  then show ?thesis
  proof cases
    case 1
    then show ?thesis by (intro exI [of _ "[]"]) (simp add: log_run_def)
  next
    case 2
    then obtain p where "p \<in> fst ` set (srv_peers s)" "srv_log s' = fail (srv_log s) p"
      unfolding failure_logged_def by blast
    then show ?thesis by (intro exI [of _ "[Fail p]"]) (simp add: log_run_def)
  next
    case 3
    then have "p \<in> fst ` set (srv_peers s)"
      by (auto simp: authentic_def srv_peers_def dest: map_of_SomeD intro: rev_image_eqI)
    with 3(2) show ?thesis
      by (elim insertE emptyE; intro exI [of _ "[Accept p e]"] exI [of _ "[Accept p e, Success p]"])
        (auto simp: log_run_def)
  qed
qed

lemma reach_wf:
  "server_reach P ops s s' \<Longrightarrow> server_wf wf P s \<Longrightarrow>
     server_wf wf P s' \<and> ent_credential s' = ent_credential s \<and> srv_nonce_bits s' = srv_nonce_bits s"
proof (induction rule: server_reach.induct)
  case (reach_request s' env msg res s'')
  then have "server_wf wf P s'" by simp
  from handle_step(1) [OF this reach_request.hyps(2)] reach_request show ?case by (simp add: same_setup_def)
next
  case (reach_coverage s' cov)
  then show ?case by (auto simp: server_wf_def srv_peers_def cache_ok_def)
next
  case (reach_invalidate s' q)
  then show ?case using cache_ok_invalidate [of P s' q]
    by (auto simp: server_wf_def invalidate_pairwise_root_def split: option.splits)
next
  case (reach_block s' p)
  then show ?case by (auto simp: server_wf_def intro: wf_last)
next
  case (reach_subscribe s' l)
  then show ?case by (auto simp: server_wf_def intro: wf_last)
qed simp

lemma reach_history:
  "server_reach P ops s s' \<Longrightarrow> server_wf wf P s \<Longrightarrow> \<exists>evs. srv_log s' = log_run (srv_log s) evs \<and>
     (\<forall>ev \<in> set evs. \<forall>p. event_peer ev = Some p \<longrightarrow> p \<in> fst ` set (srv_peers s))"
proof (induction rule: server_reach.induct)
  case reach_start
  then show ?case by (intro exI [of _ "[]"]) (simp add: log_run_def)
next
  case (reach_request s' env msg res s'')
  then obtain evs where evs: "srv_log s' = log_run (srv_log s) evs"
    "\<forall>ev \<in> set evs. \<forall>p. event_peer ev = Some p \<longrightarrow> p \<in> fst ` set (srv_peers s)" by blast
  note w = reach_wf [OF reach_request.hyps(1) reach_request.prems]
  from handle_history [OF _ reach_request.hyps(2)] w obtain evs' where
    "srv_log s'' = log_run (srv_log s') evs'"
    "\<forall>ev \<in> set evs'. \<forall>p. event_peer ev = Some p \<longrightarrow> p \<in> fst ` set (srv_peers s)"
    by (auto simp: srv_peers_def)
  with evs show ?case
    by (intro exI [of _ "evs @ evs'"]) (auto simp: log_run_trans)
next
  case (reach_block s' p)
  then obtain evs where "srv_log s' = log_run (srv_log s) evs"
    "\<forall>ev \<in> set evs. \<forall>p. event_peer ev = Some p \<longrightarrow> p \<in> fst ` set (srv_peers s)" by blast
  then show ?case by (intro exI [of _ "evs @ [Block p]"]) (auto simp: log_run_def)
next
  case (reach_subscribe s' l)
  then obtain evs where "srv_log s' = log_run (srv_log s) evs"
    "\<forall>ev \<in> set evs. \<forall>p. event_peer ev = Some p \<longrightarrow> p \<in> fst ` set (srv_peers s)" by blast
  then show ?case by (intro exI [of _ "evs @ [Subscribe l]"]) (auto simp: log_run_def)
qed simp_all

end

lemma log_run_mono: "last_epoch sl p \<le> last_epoch (log_run sl evs) p \<and> blocked sl \<subseteq> blocked (log_run sl evs)"
proof (induction evs rule: rev_induct)
  case Nil
  then show ?case by (simp add: log_run_def)
next
  case (snoc ev evs)
  then show ?case
    using blocked_fail [of "log_run sl evs"] by (cases ev) (auto simp: log_run_snoc)
qed

context resolver_contract
begin

lemma reach_mono:
  assumes "server_wf wf P s" "server_reach P ops s s'"
  shows "last_epoch (srv_log s) p \<le> last_epoch (srv_log s') p" "blocked (srv_log s) \<subseteq> blocked (srv_log s')"
proof -
  obtain evs where "srv_log s' = log_run (srv_log s) evs" using reach_history [OF assms(2,1)] by blast
  then show "last_epoch (srv_log s) p \<le> last_epoch (srv_log s') p" "blocked (srv_log s) \<subseteq> blocked (srv_log s')"
    using log_run_mono by simp_all
qed

lemma blocked_for_good:
  assumes "server_wf wf P s" "is_blocked (srv_log s) p" "server_reach P ops s s'"
    and "handle_auth_request P ops env msg s' = (Inr a, s'')"
  shows "res_peer_identity a \<noteq> p"
proof -
  have "server_wf wf P s'" using reach_wf [OF assms(3,1)] by blast
  from handle_accepts [OF this assms(4)] have "\<not> is_blocked (srv_log s') (res_peer_identity a)"
    by (auto simp: accepted_def)
  moreover have "is_blocked (srv_log s') p" using reach_mono(2) [OF assms(1,3)] assms(2) by (auto simp: is_blocked_def)
  ultimately show ?thesis by auto
qed

text \<open>A blocked peer costs no decryption: the request stops before the root is looked up, and changes nothing.\<close>

lemma blocked_fails_fast:
  assumes "message1_from_bytes msg = Inr m" "is_blocked (srv_log s) p"
    and "ro_resolve ops P (env_now_resolve env) (srv_peers s) (srv_log s) (m1_pid m) (srv_resolver s) = (Inr (p, e), r')"
  shows "handle_auth_request P ops env msg s = (Inl (BlockedEntity p), s\<lparr>srv_resolver := r'\<rparr>)"
  using assms by (simp add: handle_auth_request_def verify_request_def resolve_pseudonym_def)

end

context fresh_resolver
begin

lemma accepted_advances:
  assumes "server_wf wf P s" "accepted P ops env s msg a s' e"
  shows "last_epoch (srv_log s) (res_peer_identity a) < e" "last_epoch (srv_log s') (res_peer_identity a) = e"
proof -
  from assms(2) obtain m :: message1 and r' where "ro_resolve ops P (env_now_resolve env) (srv_peers s) (srv_log s) (m1_pid m)
      (srv_resolver s) = (Inr (res_peer_identity a, e), r')"
    and l: "srv_log s' = record_success (accept_epoch (srv_log s) (res_peer_identity a) e) (res_peer_identity a)"
    by (auto simp: accepted_def)
  from resolve_fresh [OF _ this(1)] assms(1) show "last_epoch (srv_log s) (res_peer_identity a) < e"
    by (simp add: server_wf_def)
  with l show "last_epoch (srv_log s') (res_peer_identity a) = e" by simp
qed

lemma epochs_increase:
  assumes "server_wf wf P s" "accepted P ops env s msg a s1 e" "server_wf wf P s1" "server_reach P ops s1 s2"
    and "accepted P ops env' s2 msg' b s3 f" "res_peer_identity b = res_peer_identity a"
  shows "e < f"
proof -
  have "e = last_epoch (srv_log s1) (res_peer_identity a)" using accepted_advances(2) [OF assms(1,2)] by simp
  also have "\<dots> \<le> last_epoch (srv_log s2) (res_peer_identity a)" by (rule reach_mono(1) [OF assms(3,4)])
  also have "\<dots> < f" using accepted_advances(1) [OF _ assms(5)] reach_wf [OF assms(4,3)] assms(6) by simp
  finally show ?thesis .
qed

text \<open>
  Accepting one message twice, at any later time, exhibits two different pairs of an enrolled peer
  and an epoch with one pseudonym.
\<close>

lemma replay_is_collision:
  assumes wf: "server_wf wf P s" and a: "handle_auth_request P ops env msg s = (Inr a, s1)"
    and r: "server_reach P ops s1 s2" and b: "handle_auth_request P ops env' msg s2 = (Inr b, s3)"
  shows "collision P (srv_peers s)"
proof -
  have w1: "server_wf wf P s1" and c1: "ent_credential s1 = ent_credential s"
    using handle_step(1) [OF wf a] by (simp_all add: same_setup_def)
  have w2: "server_wf wf P s2" and c2: "ent_credential s2 = ent_credential s"
    using reach_wf [OF r w1] c1 by simp_all
  obtain e where e: "accepted P ops env s msg a s1 e" using handle_accepts [OF wf a] by blast
  obtain f where f: "accepted P ops env' s2 msg b s3 f" using handle_accepts [OF w2 b] by blast
  from e obtain k pid n where A: "authentic P (ent_credential s) msg (res_peer_identity a) e k pid n"
    by (auto simp: accepted_def)
  from f c2 obtain k' pid' n' where B: "authentic P (ent_credential s) msg (res_peer_identity b) f k' pid' n'"
    by (auto simp: accepted_def)
  have "res_peer_identity b = res_peer_identity a \<Longrightarrow> e < f"
    by (rule epochs_increase [OF wf e w1 r f])
  then have "(res_peer_identity a, e) \<noteq> (res_peer_identity b, f)" by auto
  from authentic_collision [OF A B this] show ?thesis by (simp add: srv_peers_def)
qed

end

section \<open>Replay under clock epochs\<close>

text \<open>
  Requests whose acceptance reads the clock no later than \<open>T\<close>, among the owner's other actions.
\<close>

inductive server_until :: "prims \<Rightarrow> 'r resolver_ops \<Rightarrow> rat \<Rightarrow> 'r server \<Rightarrow> 'r server \<Rightarrow> bool" for P ops T s where
  until_start: "server_until P ops T s s"
| until_request: "server_until P ops T s s' \<Longrightarrow> env_now_accept env \<le> T \<Longrightarrow>
     handle_auth_request P ops env msg s' = (res, s'') \<Longrightarrow> server_until P ops T s s''"
| until_coverage: "server_until P ops T s s' \<Longrightarrow> server_until P ops T s (s'\<lparr>ent_coverage_predicate := cov\<rparr>)"
| until_invalidate: "server_until P ops T s s' \<Longrightarrow> server_until P ops T s (invalidate_pairwise_root q s')"
| until_block: "server_until P ops T s s' \<Longrightarrow> server_until P ops T s (s'\<lparr>srv_log := block_peer (srv_log s') p\<rparr>)"

lemma server_until_reach: "server_until P ops T s s' \<Longrightarrow> server_reach P ops s s'"
  by (induction rule: server_until.induct) (auto intro: server_reach.intros)

lemma authentic_nonce:
  "authentic P c msg p e k pid n \<Longrightarrow> authentic P c msg p e' k' pid' n' \<Longrightarrow> e = e' \<and> n = n' \<and> pid = pid'"
  by (auto simp: authentic_def)

text \<open>What a request does to the resolver: it resolves at most once, then accepts at most once.\<close>

lemma handle_resolver:
  assumes "handle_auth_request P ops env msg s = (res, s')"
  shows "(srv_resolver s' = srv_resolver s) \<or>
    (\<exists>pid rres r1. ro_resolve ops P (env_now_resolve env) (srv_peers s) (srv_log s) pid (srv_resolver s) = (rres, r1) \<and>
      (srv_resolver s' = r1 \<or> (\<exists>ps sl p e n ares sl'. ro_accept ops P (env_now_accept env) ps sl p e n r1
          = (ares, srv_resolver s', sl'))))"
proof (cases "message1_from_bytes msg")
  case (Inl x)
  with assms show ?thesis by (simp add: handle_auth_request_def verify_request_def)
next
  case m: (Inr m)
  obtain rres r1 where r1: "ro_resolve ops P (env_now_resolve env) (srv_peers s) (srv_log s) (m1_pid m) (srv_resolver s)
      = (rres, r1)" by fastforce
  obtain v s1 where v: "verify_request P ops env msg s = (v, s1)" by fastforce
  have keep: "srv_resolver (snd (get_pairwise_root P q t)) = srv_resolver t" for q and t :: "'a server"
    using get_pairwise_root_state [of P q t] by auto
  have s1: "srv_resolver s1 = r1"
    using v m r1 keep
    by (auto simp: verify_request_def resolve_pseudonym_def server_failure_def Let_def
        split: sum.splits prod.splits if_splits) (metis server.select_convs(3) server.update_convs(3) server.surjective snd_conv)+
  show ?thesis
  proof (cases v)
    case (Inl x)
    with assms v s1 r1 show ?thesis by (auto simp: handle_auth_request_def)
  next
    case (Inr t)
    obtain m' p e k n where t: "t = (m', p, e, k, n)" by (cases t)
    obtain ares r2 sl2 where acc: "ro_accept ops P (env_now_accept env) (srv_peers s1) (srv_log s1) p e n r1
        = (ares, r2, sl2)" by (metis prod_cases3)
    have "answer_request P ops env m' p e k n s1 = (res, s')"
      using assms v Inr t by (simp add: handle_auth_request_def)
    then have "srv_resolver s' = r2"
      using acc s1 by (auto simp: answer_request_def Let_def split: sum.splits)
    with acc r1 show ?thesis by blast
  qed
qed

context resolver_contract
begin

lemma handle_calls:
  assumes "server_wf wf P s" "handle_auth_request P ops env msg s = (Inr a, s')"
  shows "\<exists>e k pid n r1. authentic P (ent_credential s) msg (res_peer_identity a) e k pid n \<and>
    ro_resolve ops P (env_now_resolve env) (srv_peers s) (srv_log s) pid (srv_resolver s) = (Inr (res_peer_identity a, e), r1) \<and>
    ro_accept ops P (env_now_accept env) (srv_peers s) (srv_log s) (res_peer_identity a) e n r1
      = (Inr (), srv_resolver s', accept_epoch (srv_log s) (res_peer_identity a) e)"
proof -
  obtain v s1 where v: "verify_request P ops env msg s = (v, s1)" by fastforce
  from assms(2) v obtain m p e k n where vr: "v = Inr (m, p, e, k, n)"
    by (cases v) (auto simp: handle_auth_request_def)
  have ans: "answer_request P ops env m p e k n s1 = (Inr a, s')"
    using assms(2) v vr by (simp add: handle_auth_request_def)
  from verify_step [OF assms(1) v] vr have V: "same_setup s s1" "srv_log s1 = srv_log s"
    "authentic P (ent_credential s) msg p e k (m1_pid m) n"
    "ro_resolve ops P (env_now_resolve env) (srv_peers s) (srv_log s) (m1_pid m) (srv_resolver s) = (Inr (p, e), srv_resolver s1)"
    by simp_all
  obtain ares r' sl' where acc: "ro_accept ops P (env_now_accept env) (srv_peers s) (srv_log s) p e n (srv_resolver s1)
      = (ares, r', sl')" by (metis prod_cases3)
  from ans acc V(1,2) have "ares = Inr ()" "srv_resolver s' = r'" "res_peer_identity a = p"
    by (auto simp: answer_request_def Let_def same_setupD split: sum.splits)
  with accept_log [of P _ "srv_peers s" "srv_log s" p e n "srv_resolver s1" r' sl'] acc V(3,4) show ?thesis by blast
qed

end

context nonce_resolver
begin

lemma handle_keeps:
  assumes "handle_auth_request P ops env msg s = (res, s')"
  shows "live (srv_resolver s') = live (srv_resolver s) \<and> steady (srv_resolver s') = steady (srv_resolver s)"
    and "remembers p e n (srv_resolver s) \<Longrightarrow> live (srv_resolver s) (env_now_accept env) e \<Longrightarrow>
      remembers p e n (srv_resolver s')"
proof -
  have "(live (srv_resolver s') = live (srv_resolver s) \<and> steady (srv_resolver s') = steady (srv_resolver s)) \<and>
    (remembers p e n (srv_resolver s) \<longrightarrow> live (srv_resolver s) (env_now_accept env) e \<longrightarrow> remembers p e n (srv_resolver s'))"
    using handle_resolver [OF assms]
  proof (elim disjE exE conjE)
    fix pid rres r1
    assume res: "ro_resolve ops P (env_now_resolve env) (srv_peers s) (srv_log s) pid (srv_resolver s) = (rres, r1)"
      and same: "srv_resolver s' = r1"
    from resolve_keeps [OF res, of p e n] same show ?thesis by simp
  next
    fix pid rres r1 ps sl q f m ares sl'
    assume res: "ro_resolve ops P (env_now_resolve env) (srv_peers s) (srv_log s) pid (srv_resolver s) = (rres, r1)"
      and acc: "ro_accept ops P (env_now_accept env) ps sl q f m r1 = (ares, srv_resolver s', sl')"
    note keep = resolve_keeps [OF res, of p e n]
    have "remembers p e n r1 \<Longrightarrow> live r1 (env_now_accept env) e \<Longrightarrow> remembers p e n (srv_resolver s')"
      by (rule accept_keeps [OF _ _ acc])
    with keep accept_clock [OF acc] show ?thesis by simp
  qed simp
  then show "live (srv_resolver s') = live (srv_resolver s) \<and> steady (srv_resolver s') = steady (srv_resolver s)"
    "remembers p e n (srv_resolver s) \<Longrightarrow> live (srv_resolver s) (env_now_accept env) e \<Longrightarrow> remembers p e n (srv_resolver s')"
    by blast+
qed

lemma until_keeps:
  "server_until P ops T s s' \<Longrightarrow> steady (srv_resolver s) \<Longrightarrow>
     live (srv_resolver s') = live (srv_resolver s) \<and> steady (srv_resolver s') \<and>
     (remembers p e n (srv_resolver s) \<longrightarrow> live (srv_resolver s) T e \<longrightarrow> remembers p e n (srv_resolver s'))"
proof (induction rule: server_until.induct)
  case (until_request s' env msg res s'')
  then have IH: "live (srv_resolver s') = live (srv_resolver s)" "steady (srv_resolver s')"
    "remembers p e n (srv_resolver s) \<Longrightarrow> live (srv_resolver s) T e \<Longrightarrow> remembers p e n (srv_resolver s')" by simp_all
  have "live (srv_resolver s) T e \<Longrightarrow> live (srv_resolver s') (env_now_accept env) e"
    using live_antimono [OF until_request.prems _ until_request.hyps(2), of e] IH(1) by simp
  with IH handle_keeps(1) [OF until_request.hyps(3)] handle_keeps(2) [OF until_request.hyps(3), of p e n] show ?case by auto
qed simp_all

text \<open>
  A second acceptance of one message, at a reading \<open>T\<close> that is the same at resolution and at acceptance
  and not earlier than the acceptances before it, exhibits a collision.
\<close>

lemma nonce_replay_is_collision:
  assumes wf: "server_wf wf P s" and steady: "steady (srv_resolver s)"
    and a: "handle_auth_request P ops env msg s = (Inr a, s1)" and r: "server_until P ops T s1 s2"
    and T: "env_now_resolve env' = T" "env_now_accept env' = T"
    and b: "handle_auth_request P ops env' msg s2 = (Inr b, s3)"
  shows "collision P (srv_peers s)"
proof (rule ccontr)
  assume no: "\<not> ?thesis"
  have w1: "server_wf wf P s1" and c1: "ent_credential s1 = ent_credential s"
    using handle_step(1) [OF wf a] by (simp_all add: same_setup_def)
  have w2: "server_wf wf P s2" and c2: "ent_credential s2 = ent_credential s"
    using reach_wf [OF server_until_reach [OF r] w1] c1 by simp_all
  note keep1 = handle_keeps(1) [OF a]
  have st1: "steady (srv_resolver s1)" using keep1 steady by simp
  from handle_calls [OF wf a] obtain e k pid n r1 where A: "authentic P (ent_credential s) msg (res_peer_identity a) e k pid n"
    "ro_accept ops P (env_now_accept env) (srv_peers s) (srv_log s) (res_peer_identity a) e n r1
      = (Inr (), srv_resolver s1, accept_epoch (srv_log s) (res_peer_identity a) e)" by blast
  from handle_calls [OF w2 b] obtain f k' pid' m r2 where B: "authentic P (ent_credential s2) msg (res_peer_identity b) f k' pid' m"
    "ro_resolve ops P (env_now_resolve env') (srv_peers s2) (srv_log s2) pid' (srv_resolver s2) = (Inr (res_peer_identity b, f), r2)"
    "ro_accept ops P (env_now_accept env') (srv_peers s2) (srv_log s2) (res_peer_identity b) f m r2
      = (Inr (), srv_resolver s3, accept_epoch (srv_log s2) (res_peer_identity b) f)" by blast
  have "(res_peer_identity a, e) = (res_peer_identity b, f)"
    using no authentic_collision [OF A(1), of "res_peer_identity b" f k' pid' m] B(1) c2 by (auto simp: srv_peers_def)
  then have eq: "res_peer_identity b = res_peer_identity a" "f = e" "m = n"
    using authentic_nonce [OF A(1), of f k' pid' m] B(1) c2 by auto
  note until = until_keeps [OF r st1, of "res_peer_identity a" e n]
  have "live (srv_resolver s2) T f"
    using resolve_live [OF B(2)] w2 until T(1) by (simp add: server_wf_def)
  then have live: "live (srv_resolver s2) T e" "live (srv_resolver s1) T e" using eq until by simp_all
  then have "remembers (res_peer_identity a) e n (srv_resolver s2)"
    using until accept_remembers [OF A(2)] by simp
  with resolve_keeps [OF B(2)] live(1) have "remembers (res_peer_identity a) e n r2" "live r2 T e" by simp_all
  from accept_detects [OF this B(3) [unfolded eq T(2)]] show False by simp
qed

end

end
