(* ===== verification/Handshake.thy ===== *)
theory Handshake
  imports Device Server_Runs
begin

text \<open>
  One run of the protocol between a device and a server (\<^verbatim>\<open>_handshake\<close> of \<^verbatim>\<open>desync_check.py\<close> and of the
  test suite): the device builds the first message, the server handles it, the device completes with
  the response.  The first exception ends the run; what the objects became until then stays.
\<close>

record handshake_env =
  he_build :: device_env
  he_server :: server_env
  he_complete :: device_env

definition handshake ::
  "prims \<Rightarrow> 'r resolver_ops \<Rightarrow> handshake_env \<Rightarrow> pystr \<Rightarrow> device \<Rightarrow> 'r server
     \<Rightarrow> (exn + bytes \<times> auth_result) \<times> device \<times> 'r server" where
  "handshake P ops h server_id d s =
     (case build_auth_request P (he_build h) server_id d of
        (Inl x, d1) \<Rightarrow> (Inl x, d1, s)
      | (Inr m1, d1) \<Rightarrow>
          (case handle_auth_request P ops (he_server h) m1 s of
             (Inl x, s1) \<Rightarrow> (Inl x, d1, s1)
           | (Inr result, s1) \<Rightarrow>
               (case complete_auth P (he_complete h) (res_response_bytes result) d1 of
                  (Inl x, d2) \<Rightarrow> (Inl x, d2, s1)
                | (Inr key, d2) \<Rightarrow> (Inr (key, result), d2, s1))))"

section \<open>When a run succeeds\<close>

definition prims_ok :: "prims \<Rightarrow> bool" where
  "prims_ok P \<longleftrightarrow> sha256_ok P \<and> hkdf_ok P \<and> gcm_ok P"

text \<open>The randomness has the length asked for and the response is back before the timeout.\<close>

definition env_ok :: "handshake_env \<Rightarrow> device \<Rightarrow> bool" where
  "env_ok h d \<longleftrightarrow> urandom_ok (env_dev_nonce (he_build h)) \<and> urandom_ok (env_dev_gcm (he_build h)) \<and>
     urandom_ok (env_nonce (he_server h)) \<and> urandom_ok (env_gcm (he_server h)) \<and>
     env_monotonic (he_complete h) - env_monotonic (he_build h) \<le> dev_session_timeout d"

text \<open>Each side holds the other's secret, under the roles the authority gave them.\<close>

definition paired :: "credential \<Rightarrow> credential \<Rightarrow> bool" where
  "paired dc sc \<longleftrightarrow> cred_role dc = lit ''device'' \<and> cred_role sc = lit ''server'' \<and>
     valid_lam (cred_lam dc) \<and> valid_lam (cred_lam sc) \<and> valid_str (cred_identity sc) \<and>
     map_of (cred_peer_secrets dc) (cred_identity sc) = Some (cred_lam sc) \<and>
     map_of (cred_peer_secrets sc) (cred_identity dc) = Some (cred_lam dc)"

definition pair_root :: "prims \<Rightarrow> device \<Rightarrow> 'r server \<Rightarrow> bytes" where
  "pair_root P d s = pairwise_root P (cred_lam (ent_credential d)) (cred_lam (ent_credential s))"

text \<open>Neither side has given the other up, and both want a nonce of a supported size.\<close>

definition willing :: "device \<Rightarrow> 'r server \<Rightarrow> bool" where
  "willing d s \<longleftrightarrow> \<not> is_blocked (dev_log d) (cred_identity (ent_credential s)) \<and>
     coverage_ok d (cred_identity (ent_credential s)) \<and> dev_nonce_bits d \<in> set SUPPORTED_NONCE_BITS \<and>
     \<not> is_blocked (srv_log s) (cred_identity (ent_credential d)) \<and>
     coverage_ok s (cred_identity (ent_credential d)) \<and> srv_nonce_bits s \<in> set SUPPORTED_NONCE_BITS"

lemma paired_roots:
  assumes "paired (ent_credential d) (ent_credential s)"
  shows "root_of P (ent_credential d) (cred_identity (ent_credential s)) = Inr (pair_root P d s)"
    "root_of P (ent_credential s) (cred_identity (ent_credential d)) = Inr (pair_root P d s)"
  using assms by (simp_all add: paired_def root_of_def derive_pairwise_root_valid pair_root_def)

lemma nonce_generated:
  assumes "bits \<in> set SUPPORTED_NONCE_BITS" "urandom_ok u"
  shows "\<exists>n. generate_nonce u bits = Inr n"
  using assms by (simp add: generate_nonce_def)

text \<open>The first message of a device, as the server will see it.\<close>

lemma request_exists:
  assumes "prims_ok P" "root_of P (ent_credential d) p = Inr k" "length k = KEY_LEN"
    and "h2_pseudonym P (cred_lam (ent_credential d)) (device_epoch env d p) = Inr pid"
    and "dev_nonce_bits d \<in> set SUPPORTED_NONCE_BITS" "urandom_ok (env_dev_nonce env)" "urandom_ok (env_dev_gcm env)"
  shows "\<exists>msg n_i m. requested P env p d msg k pid n_i m \<and> message1_from_bytes msg = Inr m \<and>
    aead_decrypt P k (m1_gcm_nonce m) (m1_ciphertext m) (m1_tag m) []
      = Inr (pid @ n_i @ be_bytes 8 (nat (device_epoch env d p)))"
proof -
  obtain n_i where n: "generate_nonce (env_dev_nonce env) (dev_nonce_bits d) = Inr n_i"
    using nonce_generated [OF assms(5,6)] by blast
  let ?pt = "pid @ n_i @ be_bytes 8 (nat (device_epoch env d p))"
  obtain gn c t where e: "aead_encrypt P (env_dev_gcm env) k ?pt [] = Inr (gn, c, t)"
    using aead_encrypt_total [OF assms(3)] by blast
  let ?m = "\<lparr>m1_pid = pid, m1_gcm_nonce = gn, m1_ciphertext = c, m1_tag = t\<rparr>"
  obtain msg where b: "message1_to_bytes ?m = Inr msg" using message1_to_bytes_total by blast
  have "gcm_ok P" using assms(1) by (simp add: prims_ok_def)
  from aead_roundtrip(1) [OF this assms(7) e] message1_from_to_bytes [OF b] n e b assms(2,4)
  show ?thesis by (intro exI [of _ msg] exI [of _ n_i] exI [of _ ?m]) (simp add: requested_def)
qed

lemma plaintext_slices:
  assumes "length pid = 32"
  shows "take 32 (pid @ n @ be_bytes 8 x) = pid" "last_n 8 (pid @ n @ be_bytes 8 x) = be_bytes 8 x"
    "drop 32 (but_last_n 8 (pid @ n @ be_bytes 8 x)) = n"
  using assms last_n_append [of "be_bytes 8 x" 8 "pid @ n"] but_last_n_append [of "be_bytes 8 x" 8 "pid @ n"]
  by simp_all

lemma epoch_bytes_back: "valid_epoch e \<Longrightarrow> int_from_bytes (be_bytes 8 (nat e)) = e"
  by (subst int_from_be_bytes) (auto simp: valid_epoch_def nat_less_iff)

text \<open>The state of the server after it has verified and after it has answered.\<close>

definition after_verify :: "'r server \<Rightarrow> pystr \<Rightarrow> bytes \<Rightarrow> 'r \<Rightarrow> 'r server" where
  "after_verify s p k r = s\<lparr>srv_resolver := r, ent_root_cache := (ent_root_cache s)(p \<mapsto> k)\<rparr>"

definition after_answer :: "'r server \<Rightarrow> pystr \<Rightarrow> bytes \<Rightarrow> 'r \<Rightarrow> session_log \<Rightarrow> 'r server" where
  "after_answer s p k r sl = s\<lparr>srv_resolver := r, ent_root_cache := (ent_root_cache s)(p \<mapsto> k),
     srv_log := record_success sl p\<rparr>"

lemma verify_succeeds:
  assumes "message1_from_bytes msg = Inr m" "cache_ok P s" "root_of P (ent_credential s) p = Inr k"
    and "ro_resolve ops P (env_now_resolve env) (srv_peers s) (srv_log s) (m1_pid m) (srv_resolver s) = (Inr (p, e), r1)"
    and "\<not> is_blocked (srv_log s) p" "coverage_ok s p" "length (m1_pid m) = 32" "valid_epoch e"
    and "aead_decrypt P k (m1_gcm_nonce m) (m1_ciphertext m) (m1_tag m) [] = Inr (m1_pid m @ n_i @ be_bytes 8 (nat e))"
  shows "verify_request P ops env msg s = (Inr (m, p, e, k, n_i), after_verify s p k r1)"
proof -
  let ?s1 = "s\<lparr>srv_resolver := r1\<rparr>"
  have "cache_ok P ?s1" "root_of P (ent_credential ?s1) p = Inr k" using assms(2,3) by simp_all
  from get_root_exact [OF this] have "get_pairwise_root P p ?s1 = (Inr k, after_verify s p k r1)"
    by (simp add: after_verify_def)
  then show ?thesis
    using assms plaintext_slices [OF assms(7)] epoch_bytes_back [OF assms(8)]
    by (simp add: verify_request_def resolve_pseudonym_def coverage_ok_def Let_def)
qed

lemma answer_succeeds:
  assumes "prims_ok P" "urandom_ok (env_nonce env)" "urandom_ok (env_gcm env)" "srv_nonce_bits s \<in> set SUPPORTED_NONCE_BITS"
    and "length k = KEY_LEN" "valid_epoch e" "valid_str (cred_identity (ent_credential s))"
    and "ro_accept ops P (env_now_accept env) (srv_peers s) (srv_log s) p e n_i (srv_resolver s) = (Inr (), r2, sl2)"
  shows "\<exists>a n_j m2. answer_request P ops env m p e k n_i s
      = (Inr a, s\<lparr>srv_log := record_success sl2 p, srv_resolver := r2\<rparr>) \<and> res_peer_identity a = p \<and>
    generate_nonce (env_nonce env) (srv_nonce_bits s) = Inr n_j \<and> res_session_key a = session_key P k n_i n_j e \<and>
    message2_from_bytes (res_response_bytes a) = Inr m2 \<and> m2_server_id m2 = JStr (cred_identity (ent_credential s)) \<and>
    aead_decrypt P k (m2_gcm_nonce m2) (m2_ciphertext m2) (m2_tag m2) (m1_pid m @ n_i) = Inr (n_j @ be_bytes 8 (nat e))"
proof -
  obtain n_j where n: "generate_nonce (env_nonce env) (srv_nonce_bits s) = Inr n_j"
    using nonce_generated [OF assms(4,2)] by blast
  obtain gn c t where e: "aead_encrypt P (env_gcm env) k (n_j @ be_bytes 8 (nat e)) (m1_pid m @ n_i) = Inr (gn, c, t)"
    using aead_encrypt_total [OF assms(5)] by blast
  let ?m2 = "\<lparr>m2_server_id = JStr (cred_identity (ent_credential s)), m2_gcm_nonce = gn, m2_ciphertext = c, m2_tag = t\<rparr>"
  have ok: "json_ok (m2_server_id ?m2)" using assms(7) by simp
  obtain b where b: "message2_to_bytes ?m2 = Inr b" using message2_to_bytes_total [OF ok] by blast
  let ?a = "\<lparr>res_response_bytes = b, res_session_key = session_key P k n_i n_j e, res_peer_identity = p\<rparr>"
  have eb: "int_to_bytes 8 e = Inr (be_bytes 8 (nat e))" using assms(6) by (simp add: int_to_bytes_def valid_epoch_def)
  have "answer_request P ops env m p e k n_i s = (Inr ?a, s\<lparr>srv_log := record_success sl2 p, srv_resolver := r2\<rparr>)"
    using assms(8) n e b eb by (simp add: answer_request_def Let_def derive_session_key_valid [OF assms(6)])
  moreover have "gcm_ok P" using assms(1) by (simp add: prims_ok_def)
  from aead_roundtrip(1) [OF this assms(3) e] message2_from_to_bytes [OF ok b] n
  have "message2_from_bytes (res_response_bytes ?a) = Inr ?m2"
    "aead_decrypt P k (m2_gcm_nonce ?m2) (m2_ciphertext ?m2) (m2_tag ?m2) (m1_pid m @ n_i) = Inr (n_j @ be_bytes 8 (nat e))"
    by simp_all
  ultimately show ?thesis using n
    by (intro exI [of _ ?a] exI [of _ n_j] exI [of _ ?m2]) simp
qed


definition after_run :: "prims \<Rightarrow> handshake_env \<Rightarrow> device \<Rightarrow> 'r server \<Rightarrow> bytes \<Rightarrow> device" where
  "after_run P h d s n_i =
     (let sid = cred_identity (ent_credential s); env = he_build h;
          pid = pseudonym P (cred_lam (ent_credential d)) (device_epoch env d sid)
      in (popped (after_request env sid d (pair_root P d s) pid n_i) sid)
           \<lparr>dev_log := record_success (dev_log d) sid\<rparr>)"

text \<open>
  If the resolver finds the device at the epoch it used and accepts it, the run succeeds and both
  sides hold the session key of Eq. 16 for the two nonces and that epoch.
\<close>

lemma handshake_succeeds:
  assumes P: "prims_ok P" and env: "env_ok h d" and pair: "paired (ent_credential d) (ent_credential s)"
    and will: "willing d s" and dwf: "device_wf P d" and swf: "cache_ok P s"
    and e: "e = device_epoch (he_build h) d (cred_identity (ent_credential s))" "valid_epoch e"
    and res: "ro_resolve ops P (env_now_resolve (he_server h)) (srv_peers s) (srv_log s)
      (pseudonym P (cred_lam (ent_credential d)) e) (srv_resolver s) = (Inr (cred_identity (ent_credential d), e), r1)"
    and acc: "\<And>n_i. generate_nonce (env_dev_nonce (he_build h)) (dev_nonce_bits d) = Inr n_i \<Longrightarrow> \<exists>r2. ro_accept ops P (env_now_accept (he_server h)) (srv_peers s) (srv_log s)
      (cred_identity (ent_credential d)) e n_i r1 = (Inr (), r2, sl2) \<and> Q r2"
  shows "\<exists>a n_i n_j r2. handshake P ops h (cred_identity (ent_credential s)) d s =
      (Inr (session_key P (pair_root P d s) n_i n_j e, a), after_run P h d s n_i,
       after_answer s (cred_identity (ent_credential d)) (pair_root P d s) r2 sl2) \<and>
    res_session_key a = session_key P (pair_root P d s) n_i n_j e \<and>
    res_peer_identity a = cred_identity (ent_credential d) \<and>
    generate_nonce (env_dev_nonce (he_build h)) (dev_nonce_bits d) = Inr n_i \<and> Q r2"
proof -
  let ?did = "cred_identity (ent_credential d)" and ?sid = "cred_identity (ent_credential s)"
  let ?k = "pair_root P d s" and ?pid = "pseudonym P (cred_lam (ent_credential d)) e"
  let ?be = "he_build h" and ?se = "he_server h" and ?ce = "he_complete h"
  note roots = paired_roots [OF pair, of P]
  have klen: "length ?k = KEY_LEN"
    using P by (simp add: pair_root_def pairwise_root_length prims_ok_def)
  have lam: "valid_lam (cred_lam (ent_credential d))" using pair by (simp add: paired_def)
  have pid: "h2_pseudonym P (cred_lam (ent_credential d)) (device_epoch ?be d ?sid) = Inr ?pid"
    using h2_pseudonym_valid [OF lam e(2)] e(1) by simp
  have plen: "length ?pid = 32" using P by (simp add: pseudonym_def prims_ok_def sha256_ok_def)
  obtain msg n_i m where rq: "requested P ?be ?sid d msg ?k ?pid n_i m" "message1_from_bytes msg = Inr m"
    "aead_decrypt P ?k (m1_gcm_nonce m) (m1_ciphertext m) (m1_tag m) [] = Inr (?pid @ n_i @ be_bytes 8 (nat e))"
    using request_exists [OF P roots(1) klen pid] will env e(1) by (auto simp: willing_def env_ok_def)
  have mp: "m1_pid m = ?pid" using rq(1) by (simp add: requested_def)
  let ?d1 = "after_request ?be ?sid d ?k ?pid n_i"
  have build: "build_auth_request P ?be ?sid d = (Inr msg, ?d1)"
    using dwf will rq(1) by (intro build_succeeds) (simp_all add: device_wf_def willing_def)
  let ?s1 = "after_verify s ?did ?k r1"
  have ver: "verify_request P ops ?se msg s = (Inr (m, ?did, e, ?k, n_i), ?s1)"
    using rq roots swf will res plen e(2) by (intro verify_succeeds) (simp_all add: mp willing_def)
  obtain r2 where r2: "ro_accept ops P (env_now_accept ?se) (srv_peers s) (srv_log s) ?did e n_i r1 = (Inr (), r2, sl2)"
    "Q r2" using acc rq(1) by (auto simp: requested_def)
  have "\<exists>a n_j m2. answer_request P ops ?se m ?did e ?k n_i ?s1
      = (Inr a, ?s1\<lparr>srv_log := record_success sl2 ?did, srv_resolver := r2\<rparr>) \<and> res_peer_identity a = ?did \<and>
    generate_nonce (env_nonce ?se) (srv_nonce_bits ?s1) = Inr n_j \<and> res_session_key a = session_key P ?k n_i n_j e \<and>
    message2_from_bytes (res_response_bytes a) = Inr m2 \<and> m2_server_id m2 = JStr (cred_identity (ent_credential ?s1)) \<and>
    aead_decrypt P ?k (m2_gcm_nonce m2) (m2_ciphertext m2) (m2_tag m2) (m1_pid m @ n_i) = Inr (n_j @ be_bytes 8 (nat e))"
    using P env will klen e(2) pair r2(1)
    by (intro answer_succeeds) (simp_all add: env_ok_def willing_def paired_def after_verify_def srv_peers_def)
  then obtain a n_j m2 where ans: "answer_request P ops ?se m ?did e ?k n_i ?s1
      = (Inr a, ?s1\<lparr>srv_log := record_success sl2 ?did, srv_resolver := r2\<rparr>)" "res_peer_identity a = ?did"
    "res_session_key a = session_key P ?k n_i n_j e"
    "message2_from_bytes (res_response_bytes a) = Inr m2" "m2_server_id m2 = JStr ?sid"
    "aead_decrypt P ?k (m2_gcm_nonce m2) (m2_ciphertext m2) (m2_tag m2) (?pid @ n_i) = Inr (n_j @ be_bytes 8 (nat e))"
    by (auto simp: mp after_verify_def)
  let ?ps = "\<lparr>pend_peer_identity = ?sid, pend_epoch = e, pend_pid = ?pid, pend_n_i = n_i, pend_k_star = ?k,
    pend_created_at = env_monotonic ?be\<rparr>"
  have pend: "map_of (dev_pending ?d1) ?sid = Some ?ps" by (simp add: after_request_def e(1))
  have ok: "response_ok P ?ce ?d1 ?ps m2 n_j"
    using ans(6) env epoch_bytes_back [OF e(2)] last_n_append [of "be_bytes 8 (nat e)" 8 n_j]
      but_last_n_append [of "be_bytes 8 (nat e)" 8 n_j]
    by (simp add: response_ok_def env_ok_def after_request_def)
  have comp: "complete_auth P ?ce (res_response_bytes a) ?d1 =
      (Inr (session_key P ?k n_i n_j e), after_run P h d s n_i)"
    using complete_succeeds [OF ans(4,5) pend ok] e
    by (simp add: after_run_def Let_def after_request_def popped_def)
  have srv: "?s1\<lparr>srv_log := record_success sl2 ?did, srv_resolver := r2\<rparr> = after_answer s ?did ?k r2 sl2"
    by (simp add: after_answer_def after_verify_def)
  have "handshake P ops h ?sid d s = (Inr (session_key P ?k n_i n_j e, a), after_run P h d s n_i,
      after_answer s ?did ?k r2 sl2)"
    using build ver ans(1) comp srv by (simp add: handshake_def handle_auth_request_def)
  moreover have "generate_nonce (env_dev_nonce ?be) (dev_nonce_bits d) = Inr n_i" using rq(1) by (simp add: requested_def)
  ultimately show ?thesis using ans(2,3) r2(2) by blast
qed

text \<open>If the resolver rejects the pseudonym, the run ends with its exception and only the device has moved.\<close>

lemma handshake_rejected:
  assumes P: "prims_ok P" and env: "env_ok h d" and pair: "paired (ent_credential d) (ent_credential s)"
    and will: "willing d s" and dwf: "device_wf P d"
    and e: "e = device_epoch (he_build h) d (cred_identity (ent_credential s))" "valid_epoch e"
    and res: "ro_resolve ops P (env_now_resolve (he_server h)) (srv_peers s) (srv_log s)
      (pseudonym P (cred_lam (ent_credential d)) e) (srv_resolver s) = (Inl x, r1)"
  shows "\<exists>n_i. handshake P ops h (cred_identity (ent_credential s)) d s =
      (Inl x, after_request (he_build h) (cred_identity (ent_credential s)) d (pair_root P d s)
         (pseudonym P (cred_lam (ent_credential d)) e) n_i, s\<lparr>srv_resolver := r1\<rparr>)"
proof -
  let ?sid = "cred_identity (ent_credential s)" and ?be = "he_build h"
  let ?k = "pair_root P d s" and ?pid = "pseudonym P (cred_lam (ent_credential d)) e"
  note roots = paired_roots [OF pair, of P]
  have klen: "length ?k = KEY_LEN" using P by (simp add: pair_root_def pairwise_root_length prims_ok_def)
  have lam: "valid_lam (cred_lam (ent_credential d))" using pair by (simp add: paired_def)
  have pid: "h2_pseudonym P (cred_lam (ent_credential d)) (device_epoch ?be d ?sid) = Inr ?pid"
    using h2_pseudonym_valid [OF lam e(2)] e(1) by simp
  obtain msg n_i m where rq: "requested P ?be ?sid d msg ?k ?pid n_i m" "message1_from_bytes msg = Inr m"
    using request_exists [OF P roots(1) klen pid] will env by (auto simp: willing_def env_ok_def)
  have "build_auth_request P ?be ?sid d = (Inr msg, after_request ?be ?sid d ?k ?pid n_i)"
    using dwf will rq(1) by (intro build_succeeds) (simp_all add: device_wf_def willing_def)
  moreover have "m1_pid m = ?pid" using rq(1) by (simp add: requested_def)
  ultimately show ?thesis
    using rq(2) res by (auto simp: handshake_def handle_auth_request_def verify_request_def resolve_pseudonym_def)
qed

end
