(* ===== verification/Sync.thy ===== *)
theory Sync
  imports Handshake
begin

text \<open>
  Device and server over many runs, with counter epochs.  The device counts every first message it
  builds, delivered or not; the server moves to the epoch it accepted.  The distance between the two
  is all that decides whether the next run succeeds, which makes it the abstract state.
\<close>

definition device_next :: "device \<Rightarrow> pystr \<Rightarrow> int" where
  "device_next d p = (case dev_epoch d p of None \<Rightarrow> 0 | Some e \<Rightarrow> e)"

definition epoch_gap :: "device \<Rightarrow> 'r server \<Rightarrow> int" where
  "epoch_gap d s = device_next d (cred_identity (ent_credential s)) -
     last_epoch (srv_log s) (cred_identity (ent_credential d))"

type_synonym 'r good_state = "prims \<Rightarrow> int \<Rightarrow> int \<Rightarrow> peers \<Rightarrow> session_log \<Rightarrow> 'r \<Rightarrow> bool"

definition linked :: "'r good_state \<Rightarrow> prims \<Rightarrow> int \<Rightarrow> int \<Rightarrow> device \<Rightarrow> 'r server \<Rightarrow> bool" where
  "linked good P F E d s \<longleftrightarrow> paired (ent_credential d) (ent_credential s) \<and> willing d s \<and> device_wf P d \<and>
     cache_ok P s \<and> \<not> dev_epoch_clock d \<and> good P F E (srv_peers s) (srv_log s) (srv_resolver s) \<and>
     below_horizon (srv_log s) (srv_peers s) F E"

text \<open>What a schedule of the network does: lose a first message, or let a run through.\<close>

datatype action = Drop device_env | Run handshake_env

fun action_ok :: "rat \<Rightarrow> action \<Rightarrow> bool" where
  "action_ok to (Drop env) \<longleftrightarrow> urandom_ok (env_dev_nonce env) \<and> urandom_ok (env_dev_gcm env)"
| "action_ok to (Run h) \<longleftrightarrow> urandom_ok (env_dev_nonce (he_build h)) \<and> urandom_ok (env_dev_gcm (he_build h)) \<and>
     urandom_ok (env_nonce (he_server h)) \<and> urandom_ok (env_gcm (he_server h)) \<and>
     env_monotonic (he_complete h) - env_monotonic (he_build h) \<le> to"

fun exec ::
  "prims \<Rightarrow> 'r resolver_ops \<Rightarrow> pystr \<Rightarrow> action list \<Rightarrow> device \<Rightarrow> 'r server
     \<Rightarrow> (exn + bytes \<times> auth_result) list \<times> device \<times> 'r server" where
  "exec P ops sid [] d s = ([], d, s)"
| "exec P ops sid (Drop env # as) d s = exec P ops sid as (snd (build_auth_request P env sid d)) s"
| "exec P ops sid (Run h # as) d s =
     (let (r, d', s') = handshake P ops h sid d s; (rs, d'', s'') = exec P ops sid as d' s' in (r # rs, d'', s''))"

text \<open>The abstract system: the gap alone.  A run within the tolerance closes it, one beyond it widens it.\<close>

fun gap_run :: "int \<Rightarrow> int \<Rightarrow> action list \<Rightarrow> bool list" where
  "gap_run F g [] = []"
| "gap_run F g (Drop _ # as) = gap_run F (g + 1) as"
| "gap_run F g (Run _ # as) = (if g \<le> F then True # gap_run F 1 as else False # gap_run F (g + 1) as)"

lemma gap_run_lost: "F < g \<Longrightarrow> gap_run F g as = map (\<lambda>_. False) (filter (\<lambda>a. case a of Run _ \<Rightarrow> True | _ \<Rightarrow> False) as)"
  by (induction F g as rule: gap_run.induct) auto

definition outcome_matches :: "exn + bytes \<times> auth_result \<Rightarrow> bool \<Rightarrow> bool" where
  "outcome_matches r ok \<longleftrightarrow> (if ok then \<exists>k a. r = Inr (k, a) \<and> res_session_key a = k else r = Inl UnknownPeerError)"

text \<open>What the joint state looks like after a run.\<close>

lemma after_run_simps [simp]:
  "ent_credential (after_run P h d s n) = ent_credential d"
  "ent_coverage_predicate (after_run P h d s n) = ent_coverage_predicate d"
  "dev_nonce_bits (after_run P h d s n) = dev_nonce_bits d"
  "dev_session_timeout (after_run P h d s n) = dev_session_timeout d"
  "dev_epoch_clock (after_run P h d s n) = dev_epoch_clock d"
  "dev_log (after_run P h d s n) = record_success (dev_log d) (cred_identity (ent_credential s))"
  by (simp_all add: after_run_def Let_def popped_def after_request_def)

lemma after_request_simps [simp]:
  "ent_credential (after_request env p d k pid n) = ent_credential d"
  "ent_coverage_predicate (after_request env p d k pid n) = ent_coverage_predicate d"
  "dev_nonce_bits (after_request env p d k pid n) = dev_nonce_bits d"
  "dev_session_timeout (after_request env p d k pid n) = dev_session_timeout d"
  "dev_epoch_clock (after_request env p d k pid n) = dev_epoch_clock d"
  "dev_log (after_request env p d k pid n) = dev_log d"
  by (simp_all add: after_request_def)

lemma after_answer_simps [simp]:
  "ent_credential (after_answer s p k r sl) = ent_credential s"
  "ent_coverage_predicate (after_answer s p k r sl) = ent_coverage_predicate s"
  "srv_nonce_bits (after_answer s p k r sl) = srv_nonce_bits s"
  "srv_log (after_answer s p k r sl) = record_success sl p" "srv_resolver (after_answer s p k r sl) = r"
  "srv_peers (after_answer s p k r sl) = srv_peers s"
  by (simp_all add: after_answer_def srv_peers_def)

lemma device_next_counter: "\<not> dev_epoch_clock d \<Longrightarrow> device_epoch env d p = device_next d p"
  by (simp add: device_epoch_def device_next_def)

lemma device_next_after [simp]:
  "\<not> dev_epoch_clock d \<Longrightarrow> device_next (after_request env p d k pid n) p = device_next d p + 1"
  "\<not> dev_epoch_clock d \<Longrightarrow> device_next (after_run P h d s n) (cred_identity (ent_credential s)) =
     device_next d (cred_identity (ent_credential s)) + 1"
  by (simp_all add: after_request_def after_run_def Let_def popped_def device_next_def device_epoch_def)

text \<open>The request a paired device builds, lost or not.\<close>

lemma request_of_paired:
  assumes "prims_ok P" "paired (ent_credential d) (ent_credential s)" "willing d s" "valid_epoch e"
    and "e = device_epoch env d (cred_identity (ent_credential s))"
    and "urandom_ok (env_dev_nonce env)" "urandom_ok (env_dev_gcm env)"
  shows "\<exists>msg n_i m. requested P env (cred_identity (ent_credential s)) d msg (pair_root P d s)
     (pseudonym P (cred_lam (ent_credential d)) e) n_i m"
proof -
  have k: "length (pair_root P d s) = KEY_LEN"
    using assms(1) by (simp add: pair_root_def pairwise_root_length prims_ok_def)
  have "h2_pseudonym P (cred_lam (ent_credential d)) e = Inr (pseudonym P (cred_lam (ent_credential d)) e)"
    using assms(2,4) by (simp add: h2_pseudonym_valid paired_def)
  then have pid: "h2_pseudonym P (cred_lam (ent_credential d)) (device_epoch env d (cred_identity (ent_credential s)))
      = Inr (pseudonym P (cred_lam (ent_credential d)) e)" using assms(5) by simp
  from assms(3) have "dev_nonce_bits d \<in> set SUPPORTED_NONCE_BITS" by (simp add: willing_def)
  from request_exists [OF assms(1) paired_roots(1) [OF assms(2)] k pid this assms(6,7)] show ?thesis by blast
qed

lemma build_of_paired:
  assumes "prims_ok P" "linked good P F E d s" "valid_epoch (device_next d (cred_identity (ent_credential s)))"
    and "urandom_ok (env_dev_nonce env)" "urandom_ok (env_dev_gcm env)"
  shows "\<exists>msg d'. build_auth_request P env (cred_identity (ent_credential s)) d = (Inr msg, d') \<and> linked good P F E d' s \<and>
    device_next d' (cred_identity (ent_credential s)) = device_next d (cred_identity (ent_credential s)) + 1 \<and>
    ent_credential d' = ent_credential d \<and> dev_session_timeout d' = dev_session_timeout d"
proof -
  let ?sid = "cred_identity (ent_credential s)"
  from assms(2) have l: "paired (ent_credential d) (ent_credential s)" "willing d s" "device_wf P d"
    "\<not> dev_epoch_clock d" by (simp_all add: linked_def)
  have e: "device_next d ?sid = device_epoch env d ?sid" using device_next_counter [OF l(4)] by simp
  obtain msg n_i m where rq: "requested P env ?sid d msg (pair_root P d s)
     (pseudonym P (cred_lam (ent_credential d)) (device_next d ?sid)) n_i m"
    using request_of_paired [OF assms(1) l(1,2) assms(3) e assms(4,5)] by blast
  let ?d = "after_request env ?sid d (pair_root P d s) (pseudonym P (cred_lam (ent_credential d)) (device_next d ?sid)) n_i"
  have "build_auth_request P env ?sid d = (Inr msg, ?d)"
    using l rq by (intro build_succeeds) (auto simp: device_wf_def willing_def)
  moreover have "linked good P F E ?d s"
    using assms(2) after_request_wf [OF l(3) rq] by (simp add: linked_def willing_def coverage_ok_def)
  ultimately show ?thesis using l(4) by simp
qed

lemma handshake_device_wf:
  assumes "handshake P ops h sid d s = (r, d', s')" "device_wf P d"
  shows "device_wf P d'"
proof -
  obtain b d1 where b: "build_auth_request P (he_build h) sid d = (b, d1)" by fastforce
  from build_wf(1) [OF assms(2) b] have w1: "device_wf P d1" .
  show ?thesis
    using assms(1) b w1 complete_wf(1) [OF w1]
    by (auto simp: handshake_def split: sum.splits prod.splits)
qed

context resolver_contract
begin

lemma handshake_server_wf:
  assumes "handshake P ops h sid d s = (r, d', s')" "server_wf wf P s"
  shows "server_wf wf P s'"
  using assms handle_step(1) [OF assms(2)]
  by (auto simp: handshake_def split: sum.splits prod.splits)

end

context counter_strategy
begin

lemma run_in_window:
  assumes P: "prims_ok P" and l: "linked good P F E d s" and h: "action_ok (dev_session_timeout d) (Run h)"
    and g: "1 \<le> epoch_gap d s" "epoch_gap d s \<le> F"
    and hz: "device_next d (cred_identity (ent_credential s)) + F < E"
  shows "\<exists>a n_i n_j d' s'. handshake P ops h (cred_identity (ent_credential s)) d s =
      (Inr (session_key P (pair_root P d s) n_i n_j (device_next d (cred_identity (ent_credential s))), a), d', s') \<and>
    res_session_key a = session_key P (pair_root P d s) n_i n_j (device_next d (cred_identity (ent_credential s))) \<and>
    res_peer_identity a = cred_identity (ent_credential d) \<and> linked good P F E d' s' \<and> epoch_gap d' s' = 1 \<and>
    ent_credential d' = ent_credential d \<and> ent_credential s' = ent_credential s \<and>
    dev_session_timeout d' = dev_session_timeout d \<and>
    device_next d' (cred_identity (ent_credential s)) = device_next d (cred_identity (ent_credential s)) + 1"
proof -
  let ?did = "cred_identity (ent_credential d)" and ?sid = "cred_identity (ent_credential s)"
  let ?e = "device_next d ?sid" and ?lam = "cred_lam (ent_credential d)"
  from l have pw: "paired (ent_credential d) (ent_credential s)" "willing d s" "device_wf P d" "cache_ok P s"
    "\<not> dev_epoch_clock d" "good P F E (srv_peers s) (srv_log s) (srv_resolver s)"
    "below_horizon (srv_log s) (srv_peers s) F E" by (simp_all add: linked_def)
  have mem: "(?did, ?lam) \<in> set (srv_peers s)"
    using pw(1) by (auto simp: paired_def srv_peers_def dest: map_of_SomeD)
  note b = below_horizonD [OF pw(7) mem]
  have le: "last_epoch (srv_log s) ?did < ?e" "?e \<le> last_epoch (srv_log s) ?did + F"
    using g by (simp_all add: epoch_gap_def)
  have ve: "valid_epoch ?e" using le b by (simp add: valid_epoch_def)
  have e: "?e = device_epoch (he_build h) d ?sid" using device_next_counter [OF pw(5)] by simp
  have spec: "counter_spec P F (srv_peers s) (srv_log s) (pseudonym P ?lam ?e) ?did ?e"
    using mem le by (auto simp: counter_spec_def)
  obtain r1 where r1: "ro_resolve ops P (env_now_resolve (he_server h)) (srv_peers s) (srv_log s) (pseudonym P ?lam ?e)
      (srv_resolver s) = (Inr (?did, ?e), r1)" "good P F E (srv_peers s) (srv_log s) r1"
    using good_resolve [OF pw(6,7) spec] by blast
  let ?sl = "accept_epoch (srv_log s) ?did ?e"
  have hz': "below_horizon ?sl (srv_peers s) F E"
    using pw(7) hz b(1) le(1) by (auto simp: below_horizon_def)
  let ?Q = "\<lambda>r. good P F E (srv_peers s) ?sl r"
  have acc: "\<exists>r2. ro_accept ops P (env_now_accept (he_server h)) (srv_peers s) (srv_log s) ?did ?e n_i r1
      = (Inr (), r2, ?sl) \<and> ?Q r2" for n_i
    by (rule good_accept [OF r1(2) pw(7) hz' mem le])
  have env: "env_ok h d" using h by (simp add: env_ok_def)
  from handshake_succeeds [OF P env pw(1-4) e ve r1(1) acc] obtain a n_i n_j r2 where
    run: "handshake P ops h ?sid d s = (Inr (session_key P (pair_root P d s) n_i n_j ?e, a), after_run P h d s n_i,
       after_answer s ?did (pair_root P d s) r2 ?sl)" "res_session_key a = session_key P (pair_root P d s) n_i n_j ?e"
      "res_peer_identity a = ?did" "?Q r2" by blast
  let ?d' = "after_run P h d s n_i" and ?s' = "after_answer s ?did (pair_root P d s) r2 ?sl"
  have "device_wf P ?d'" by (rule handshake_device_wf [OF run(1) pw(3)])
  moreover have "cache_ok P ?s'"
    using handshake_server_wf [OF run(1)] pw(4) good_wf [OF pw(6,7)] by (simp add: server_wf_def)
  moreover have "good P F E (srv_peers s) (srv_log ?s') r2"
    by (rule good_log [OF run(4)]) simp_all
  moreover have "below_horizon (srv_log ?s') (srv_peers s) F E" using hz' by (simp add: below_horizon_def)
  moreover have "willing ?d' ?s'" using pw(2) by (simp add: willing_def is_blocked_def coverage_ok_def)
  ultimately have "linked good P F E ?d' ?s'" using pw(1,5) by (simp add: linked_def)
  moreover have "epoch_gap ?d' ?s' = 1" using le(1) pw(5) by (simp add: epoch_gap_def)
  ultimately show ?thesis using run(1-3) pw(5) by (auto intro!: exI)
qed

lemma run_out_of_window:
  assumes P: "prims_ok P" and l: "linked good P F E d s" and h: "action_ok (dev_session_timeout d) (Run h)"
    and g: "F < epoch_gap d s" "1 \<le> epoch_gap d s"
    and hz: "device_next d (cred_identity (ent_credential s)) < E"
  shows "\<exists>d' s'. handshake P ops h (cred_identity (ent_credential s)) d s = (Inl UnknownPeerError, d', s') \<and>
    linked good P F E d' s' \<and> epoch_gap d' s' = epoch_gap d s + 1 \<and> srv_log s' = srv_log s \<and>
    ent_credential d' = ent_credential d \<and> ent_credential s' = ent_credential s \<and>
    dev_session_timeout d' = dev_session_timeout d \<and>
    device_next d' (cred_identity (ent_credential s)) = device_next d (cred_identity (ent_credential s)) + 1"
proof -
  let ?did = "cred_identity (ent_credential d)" and ?sid = "cred_identity (ent_credential s)"
  let ?e = "device_next d ?sid" and ?lam = "cred_lam (ent_credential d)"
  from l have pw: "paired (ent_credential d) (ent_credential s)" "willing d s" "device_wf P d" "cache_ok P s"
    "\<not> dev_epoch_clock d" "good P F E (srv_peers s) (srv_log s) (srv_resolver s)"
    "below_horizon (srv_log s) (srv_peers s) F E" by (simp_all add: linked_def)
  have mem: "(?did, ?lam) \<in> set (srv_peers s)"
    using pw(1) by (auto simp: paired_def srv_peers_def dest: map_of_SomeD)
  note b = below_horizonD [OF pw(7) mem]
  have far: "last_epoch (srv_log s) ?did + F < ?e" "0 \<le> ?e" using g b(1) by (simp_all add: epoch_gap_def)
  have ve: "valid_epoch ?e" using far hz b(3) by (simp add: valid_epoch_def)
  have e: "?e = device_epoch (he_build h) d ?sid" using device_next_counter [OF pw(5)] by simp
  have out: "out_of_reach P F (srv_peers s) (srv_log s) (pseudonym P ?lam ?e)"
  proof -
    have "pseudonym P mu f \<noteq> pseudonym P ?lam ?e"
      if "(q, mu) \<in> set (srv_peers s)" "0 \<le> f" "f \<le> last_epoch (srv_log s) q + F" for q mu f
    proof
      assume eq: "pseudonym P mu f = pseudonym P ?lam ?e"
      have "f < E" using that(3) below_horizonD(2) [OF pw(7) that(1)] by simp
      with no_collisionsD [OF _ that(1) mem that(2) _ far(2) hz eq] good_basic [OF pw(6)]
      have "q = ?did" "f = ?e" by simp_all
      with that(3) far show False by simp
    qed
    then show ?thesis by (auto simp: out_of_reach_def)
  qed
  from out_of_reach_spec [OF out pw(7)]
  have "\<forall>p e. \<not> counter_spec P F (srv_peers s) (srv_log s) (pseudonym P ?lam ?e) p e" by blast
  from good_reject [OF pw(6,7) this] out obtain r1 where
    r1: "ro_resolve ops P (env_now_resolve (he_server h)) (srv_peers s) (srv_log s) (pseudonym P ?lam ?e)
      (srv_resolver s) = (Inl UnknownPeerError, r1)" "good P F E (srv_peers s) (srv_log s) r1" by blast
  have env: "env_ok h d" using h by (simp add: env_ok_def)
  from handshake_rejected [OF P env pw(1-3) e ve r1(1)] obtain n_i where
    run: "handshake P ops h ?sid d s = (Inl UnknownPeerError, after_request (he_build h) ?sid d (pair_root P d s)
         (pseudonym P ?lam ?e) n_i, s\<lparr>srv_resolver := r1\<rparr>)" by blast
  let ?d' = "after_request (he_build h) ?sid d (pair_root P d s) (pseudonym P ?lam ?e) n_i"
  have "device_wf P ?d'" by (rule handshake_device_wf [OF run pw(3)])
  then have "linked good P F E ?d' (s\<lparr>srv_resolver := r1\<rparr>)"
    using pw r1(2) by (simp add: linked_def willing_def coverage_ok_def)
  moreover have "epoch_gap ?d' (s\<lparr>srv_resolver := r1\<rparr>) = epoch_gap d s + 1"
    using pw(5) by (simp add: epoch_gap_def)
  ultimately show ?thesis using run pw(5) by auto
qed

text \<open>The simulation: the outcomes of a schedule are those of the abstract system.\<close>

lemma exec_simulates:
  assumes "prims_ok P" "linked good P F E d s" "1 \<le> epoch_gap d s"
    and "\<forall>a \<in> set acts. action_ok (dev_session_timeout d) a"
    and "device_next d (cred_identity (ent_credential s)) + int (length acts) + F < E" "0 \<le> F"
  shows "list_all2 outcome_matches (fst (exec P ops (cred_identity (ent_credential s)) acts d s))
     (gap_run F (epoch_gap d s) acts)"
  using assms(2-5)
proof (induction acts arbitrary: d s)
  case Nil
  then show ?case by simp
next
  case (Cons a acts)
  let ?sid = "cred_identity (ent_credential s)"
  have step: "list_all2 outcome_matches (fst (exec P ops ?sid acts d' s')) (gap_run F (epoch_gap d' s') acts)"
    if "linked good P F E d' s'" "1 \<le> epoch_gap d' s'" "ent_credential s' = ent_credential s"
      "dev_session_timeout d' = dev_session_timeout d" "device_next d' ?sid = device_next d ?sid + 1" for d' s'
    using Cons.IH [of d' s'] Cons.prems(3,4) that by simp
  have mem: "(cred_identity (ent_credential d), cred_lam (ent_credential d)) \<in> set (srv_peers s)"
    using Cons.prems(1) by (auto simp: linked_def paired_def srv_peers_def dest: map_of_SomeD)
  have hz: "below_horizon (srv_log s) (srv_peers s) F E" using Cons.prems(1) by (simp add: linked_def)
  show ?case
  proof (cases a)
    case (Drop env)
    have "0 \<le> device_next d ?sid"
      using Cons.prems(2) below_horizonD(1) [OF hz mem] by (simp add: epoch_gap_def)
    then have "valid_epoch (device_next d ?sid)"
      using Cons.prems(4) below_horizonD(3) [OF hz mem] assms(6) by (simp add: valid_epoch_def)
    from build_of_paired [OF assms(1) Cons.prems(1) this, of env] Cons.prems(3) Drop obtain msg d' where
      d': "build_auth_request P env ?sid d = (Inr msg, d')" "linked good P F E d' s"
        "device_next d' ?sid = device_next d ?sid + 1" "ent_credential d' = ent_credential d"
        "dev_session_timeout d' = dev_session_timeout d" by auto
    then have "epoch_gap d' s = epoch_gap d s + 1" by (simp add: epoch_gap_def)
    with step [OF d'(2)] d' Cons.prems(2) Drop show ?thesis by simp
  next
    case (Run h)
    have ok: "action_ok (dev_session_timeout d) (Run h)" using Cons.prems(3) Run by simp
    show ?thesis
    proof (cases "epoch_gap d s \<le> F")
      case True
      from run_in_window [OF assms(1) Cons.prems(1) ok Cons.prems(2) True] Cons.prems(4) obtain k r d' s' where
        r: "handshake P ops h ?sid d s = (Inr (k, r), d', s')" "res_session_key r = k" "linked good P F E d' s'"
          "epoch_gap d' s' = 1" "ent_credential s' = ent_credential s"
          "dev_session_timeout d' = dev_session_timeout d" "device_next d' ?sid = device_next d ?sid + 1" by auto
      from step [OF r(3) _ r(5-7)] r(4) have
        "list_all2 outcome_matches (fst (exec P ops ?sid acts d' s')) (gap_run F 1 acts)" by simp
      moreover have "outcome_matches (Inr (k, r)) True" using r(2) by (simp add: outcome_matches_def)
      ultimately show ?thesis using r(1) Run True by (auto split: prod.split)
    next
      case False
      from run_out_of_window [OF assms(1) Cons.prems(1) ok] False Cons.prems(2,4) assms(6) obtain d' s' where
        r: "handshake P ops h ?sid d s = (Inl UnknownPeerError, d', s')" "linked good P F E d' s'"
          "epoch_gap d' s' = epoch_gap d s + 1" "ent_credential s' = ent_credential s"
          "dev_session_timeout d' = dev_session_timeout d" "device_next d' ?sid = device_next d ?sid + 1" by auto
      from step [OF r(2) _ r(4-6)] r(3) Cons.prems(2) have
        "list_all2 outcome_matches (fst (exec P ops ?sid acts d' s')) (gap_run F (epoch_gap d s + 1) acts)" by simp
      moreover have "outcome_matches (Inl UnknownPeerError) False" by (simp add: outcome_matches_def)
      ultimately show ?thesis using r(1) Run False by (auto split: prod.split)
    qed
  qed
qed

end

end
