(* ===== verification/Transport.thy ===== *)
theory Transport
  imports Json_Roundtrip
begin

text \<open>
  Framing over a byte stream (\<^verbatim>\<open>demo/_transport.py\<close>).  A socket is what is still to arrive, what has been
  sent, and how many bytes each call of \<^verbatim>\<open>recv\<close> will hand over: a stream socket may return fewer bytes
  than asked for, and returns none only when the peer has closed.
\<close>

record socket =
  sock_in :: bytes
  sock_sizes :: "nat list"
  sock_out :: bytes

definition MAX_FRAME_BYTES :: nat where
  "MAX_FRAME_BYTES = 2 ^ 20"

definition LENGTH_PREFIX_SIZE :: nat where
  "LENGTH_PREFIX_SIZE = 4"

text \<open>\<^verbatim>\<open>sock.recv(n)\<close> for positive \<open>n\<close>: at least one byte if any is left, at most what this call may deliver.\<close>

definition sock_recv :: "nat \<Rightarrow> socket \<Rightarrow> bytes \<times> socket" where
  "sock_recv n s =
     (let k = (case sock_sizes s of [] \<Rightarrow> n | c # _ \<Rightarrow> min n (max 1 c))
      in (take k (sock_in s), s\<lparr>sock_in := drop k (sock_in s), sock_sizes := drop 1 (sock_sizes s)\<rparr>))"

definition send_frame :: "socket \<Rightarrow> bytes \<Rightarrow> (exn + unit) \<times> socket" where
  "send_frame s payload =
     (if MAX_FRAME_BYTES < length payload then (Inl ValueError, s)
      else case struct_pack LENGTH_PREFIX_SIZE (int (length payload)) of
             Inl x \<Rightarrow> (Inl x, s)
           | Inr prefix \<Rightarrow> (Inr (), s\<lparr>sock_out := sock_out s @ prefix @ payload\<rparr>))"

function recv_exact :: "socket \<Rightarrow> nat \<Rightarrow> bytes list \<Rightarrow> (exn + bytes) \<times> socket" where
  "recv_exact s remaining chunks =
     (if remaining = 0 then (Inr (concat chunks), s)
      else let (chunk, s') = sock_recv remaining s
           in if chunk = [] then (Inl ConnectionError, s')
              else recv_exact s' (remaining - length chunk) (chunks @ [chunk]))"
  by pat_completeness auto
termination
  by (relation "measure (\<lambda>(s, remaining, chunks). remaining)") auto

declare recv_exact.simps [simp del]

definition recv_frame :: "socket \<Rightarrow> (exn + bytes) \<times> socket" where
  "recv_frame s =
     (case recv_exact s LENGTH_PREFIX_SIZE [] of
        (Inl x, s') \<Rightarrow> (Inl x, s')
      | (Inr prefix, s') \<Rightarrow>
          let len = nat (int_from_bytes prefix)
          in if MAX_FRAME_BYTES < len then (Inl ValueError, s') else recv_exact s' len [])"

section \<open>Envelopes\<close>

definition build_ok_envelope :: "bytes \<Rightarrow> exn + bytes" where
  "build_ok_envelope payload_bytes =
     (case ascii_decode payload_bytes of
        Inl x \<Rightarrow> Inl x
      | Inr payload \<Rightarrow> ascii_encode (json_dumps [32] (JDict [(lit ''ok'', JBool True), (lit ''payload'', JStr payload)])))"

definition build_error_envelope :: "pystr \<Rightarrow> pystr \<Rightarrow> exn + bytes" where
  "build_error_envelope error_type message =
     ascii_encode (json_dumps [32] (JDict [(lit ''ok'', JBool False), (lit ''error_type'', JStr error_type),
       (lit ''message'', JStr message)]))"

definition parse_envelope :: "bytes \<Rightarrow> exn + json" where
  "parse_envelope data = (case ascii_decode data of Inl x \<Rightarrow> Inl x | Inr s \<Rightarrow> json_loads s)"

section \<open>Reassembly\<close>

lemma sock_recv_takes:
  assumes "sock_recv n s = (chunk, s')" "0 < n" "sock_in s \<noteq> []"
  shows "chunk \<noteq> [] \<and> length chunk \<le> n \<and> chunk = take (length chunk) (sock_in s) \<and>
    sock_in s' = drop (length chunk) (sock_in s) \<and> sock_out s' = sock_out s"
proof -
  let ?k = "case sock_sizes s of [] \<Rightarrow> n | c # _ \<Rightarrow> min n (max 1 c)"
  have k: "0 < ?k" "?k \<le> n" using assms(2) by (auto split: list.split)
  have "chunk = take ?k (sock_in s)" "sock_in s' = drop ?k (sock_in s)" "sock_out s' = sock_out s"
    using assms(1) by (auto simp: sock_recv_def Let_def)
  with k assms(3) show ?thesis by (cases "?k \<le> length (sock_in s)") auto
qed

text \<open>However the stream is cut into chunks, \<open>n\<close> bytes arrive if they are there, and an early close raises.\<close>

lemma recv_exact_enough:
  "n \<le> length (sock_in s) \<Longrightarrow> \<exists>s'. recv_exact s n chunks = (Inr (concat chunks @ take n (sock_in s)), s') \<and>
     sock_in s' = drop n (sock_in s) \<and> sock_out s' = sock_out s"
proof (induction s n chunks rule: recv_exact.induct)
  case (1 s n chunks)
  show ?case
  proof (cases "n = 0")
    case True
    then show ?thesis by (simp add: recv_exact.simps)
  next
    case False
    obtain chunk s1 where c: "sock_recv n s = (chunk, s1)" by fastforce
    have "sock_in s \<noteq> []" using False "1.prems" by auto
    from sock_recv_takes [OF c _ this] False have t: "chunk \<noteq> []" "length chunk \<le> n"
      "chunk = take (length chunk) (sock_in s)" "sock_in s1 = drop (length chunk) (sock_in s)" "sock_out s1 = sock_out s"
      by simp_all
    have "n - length chunk \<le> length (sock_in s1)" using "1.prems" t(4) by simp
    from "1.IH" [OF False c [symmetric] refl t(1) this] obtain s' where
      IH: "recv_exact s1 (n - length chunk) (chunks @ [chunk]) =
        (Inr (concat (chunks @ [chunk]) @ take (n - length chunk) (sock_in s1)), s')"
      "sock_in s' = drop (n - length chunk) (sock_in s1)" "sock_out s' = sock_out s1" by blast
    have "chunk @ take (n - length chunk) (sock_in s1) = take n (sock_in s)"
    proof -
      have "take n (sock_in s) = take (length chunk + (n - length chunk)) (sock_in s)" using t(2) by simp
      also have "\<dots> = take (length chunk) (sock_in s) @ take (n - length chunk) (sock_in s1)"
        unfolding take_add t(4) ..
      finally show ?thesis using t(3) by simp
    qed
    moreover have "drop (n - length chunk) (sock_in s1) = drop n (sock_in s)" using t(2,4) by simp
    moreover have "recv_exact s n chunks = recv_exact s1 (n - length chunk) (chunks @ [chunk])"
      using False c t(1) by (subst recv_exact.simps) simp
    ultimately show ?thesis using IH t(5) by simp
  qed
qed

lemma recv_exact_closed:
  "length (sock_in s) < n \<Longrightarrow> fst (recv_exact s n chunks) = Inl ConnectionError"
proof (induction s n chunks rule: recv_exact.induct)
  case (1 s n chunks)
  obtain chunk s1 where c: "sock_recv n s = (chunk, s1)" by fastforce
  have n: "n \<noteq> 0" using "1.prems" by simp
  show ?case
  proof (cases "chunk = []")
    case True
    with n c show ?thesis by (subst recv_exact.simps) simp
  next
    case False
    then have "sock_in s \<noteq> []" using c by (auto simp: sock_recv_def Let_def)
    from sock_recv_takes [OF c _ this] n have t: "length chunk \<le> n" "chunk = take (length chunk) (sock_in s)"
      "sock_in s1 = drop (length chunk) (sock_in s)" by simp_all
    from t(2) have "length chunk \<le> length (sock_in s)" by (metis length_take min.cobounded1)
    with "1.prems" t have "length (sock_in s1) < n - length chunk" by simp
    from "1.IH" [OF n c [symmetric] refl False this] n c False show ?thesis by (subst recv_exact.simps) simp
  qed
qed

text \<open>A frame as bytes, and as an encoding.\<close>

definition frame :: "bytes \<Rightarrow> bytes" where
  "frame payload = be_bytes LENGTH_PREFIX_SIZE (length payload) @ payload"

lemma send_frame_eq:
  "length payload \<le> MAX_FRAME_BYTES \<Longrightarrow> send_frame s payload = (Inr (), s\<lparr>sock_out := sock_out s @ frame payload\<rparr>)"
  by (simp add: send_frame_def struct_pack_def frame_def LENGTH_PREFIX_SIZE_def MAX_FRAME_BYTES_def)

lemma send_frame_too_long: "MAX_FRAME_BYTES < length payload \<Longrightarrow> send_frame s payload = (Inl ValueError, s)"
  by (simp add: send_frame_def)

lemma recv_frame_eq:
  assumes "length payload \<le> MAX_FRAME_BYTES" "sock_in s = frame payload @ rest"
  shows "\<exists>s'. recv_frame s = (Inr payload, s') \<and> sock_in s' = rest \<and> sock_out s' = sock_out s"
proof -
  have "LENGTH_PREFIX_SIZE \<le> length (sock_in s)" by (simp add: assms(2) frame_def)
  from recv_exact_enough [OF this, of "[]"] obtain s1 where s1:
    "recv_exact s LENGTH_PREFIX_SIZE [] = (Inr (be_bytes LENGTH_PREFIX_SIZE (length payload)), s1)"
    "sock_in s1 = payload @ rest" "sock_out s1 = sock_out s" by (auto simp: assms(2) frame_def)
  have len: "nat (int_from_bytes (be_bytes LENGTH_PREFIX_SIZE (length payload))) = length payload"
    using assms(1) by (subst int_from_be_bytes) (simp_all add: LENGTH_PREFIX_SIZE_def MAX_FRAME_BYTES_def)
  have "length payload \<le> length (sock_in s1)" by (simp add: s1(2))
  from recv_exact_enough [OF this, of "[]"] obtain s2 where
    "recv_exact s1 (length payload) [] = (Inr payload, s2)" "sock_in s2 = rest" "sock_out s2 = sock_out s1"
    by (auto simp: s1(2))
  with s1 len assms(1) show ?thesis by (simp add: recv_frame_def)
qed

interpretation frame_wire: codec "\<lambda>p. length p \<le> MAX_FRAME_BYTES" frame
    "\<lambda>b. fst (recv_frame \<lparr>sock_in = b, sock_sizes = [], sock_out = []\<rparr>)"
proof (unfold_locales, goal_cases)
  case (1 p)
  from recv_frame_eq [OF 1, of "\<lparr>sock_in = frame p, sock_sizes = [], sock_out = []\<rparr>" "[]"] show ?case by auto
qed

text \<open>A receiver reads back the frames that were sent, in order, under any fragmentation.\<close>

fun recv_frames :: "nat \<Rightarrow> socket \<Rightarrow> (exn + bytes) list" where
  "recv_frames 0 s = []"
| "recv_frames (Suc n) s = (let (r, s') = recv_frame s in r # recv_frames n s')"

lemma recv_frames_eq:
  "\<forall>p \<in> set ps. length p \<le> MAX_FRAME_BYTES \<Longrightarrow> sock_in s = concat (map frame ps) @ rest \<Longrightarrow>
     recv_frames (length ps) s = map Inr ps"
proof (induction ps arbitrary: s)
  case Nil
  then show ?case by simp
next
  case (Cons p ps)
  have "sock_in s = frame p @ (concat (map frame ps) @ rest)" using Cons.prems(2) by simp
  from recv_frame_eq [OF _ this] Cons.prems(1) obtain s' where
    "recv_frame s = (Inr p, s')" "sock_in s' = concat (map frame ps) @ rest" by auto
  with Cons show ?case by simp
qed

section \<open>Envelopes read back\<close>

lemma ascii_roundtrip: "is_ascii s \<Longrightarrow> ascii_encode s = Inr b \<Longrightarrow> ascii_decode b = Inr s"
  by (auto simp: ascii_encode_def ascii_decode_encode split: if_splits)

lemma parse_of_dumps:
  assumes "json_ok j"
  shows "\<exists>b. ascii_encode (json_dumps [32] j) = Inr b \<and> parse_envelope b = Inr j"
proof -
  have a: "is_ascii (json_dumps [32] j)" using assms by (simp add: json_dumps_ascii)
  then obtain b where "ascii_encode (json_dumps [32] j) = Inr b" by (simp add: ascii_encode_def)
  with ascii_roundtrip [OF a this] json_spaced.dec_enc [OF assms] show ?thesis by (simp add: parse_envelope_def)
qed

lemma ok_envelope_back:
  assumes "ascii_decode payload = Inr s"
  shows "\<exists>b. build_ok_envelope payload = Inr b \<and>
    parse_envelope b = Inr (JDict [(lit ''ok'', JBool True), (lit ''payload'', JStr s)])"
proof -
  have "is_ascii s" using assms by (auto simp: ascii_decode_def is_ascii_def split: if_splits)
  then have "json_ok (JDict [(lit ''ok'', JBool True), (lit ''payload'', JStr s)])"
    by (simp add: is_ascii_valid)
  from parse_of_dumps [OF this] assms show ?thesis by (simp add: build_ok_envelope_def)
qed

lemma error_envelope_back:
  assumes "valid_str ty" "valid_str msg"
  shows "\<exists>b. build_error_envelope ty msg = Inr b \<and>
    parse_envelope b = Inr (JDict [(lit ''ok'', JBool False), (lit ''error_type'', JStr ty), (lit ''message'', JStr msg)])"
proof -
  have "json_ok (JDict [(lit ''ok'', JBool False), (lit ''error_type'', JStr ty), (lit ''message'', JStr msg)])"
    using assms by simp
  from parse_of_dumps [OF this] show ?thesis by (simp add: build_error_envelope_def)
qed

end
