(* ===== verification/KeyStore.thy ===== *)
theory KeyStore
  imports TrustedAuthority Json_Roundtrip
begin

text \<open>
  Credentials as JSON (\<^verbatim>\<open>Credential.to_dict\<close>, \<^verbatim>\<open>from_dict\<close>) and the file they are kept in
  (\<^verbatim>\<open>storage/keystore.py\<close>).  A file is its content and its permission bits; a missing file is \<open>None\<close>.

  \<^verbatim>\<open>from_dict\<close> takes any JSON document.  The readers below return \<open>None\<close> for documents outside the model:
  text that is not ASCII, or a field of a type the program never writes.  On every other document they
  return what Python returns or raises.
\<close>

section \<open>Hexadecimal text\<close>

definition hex :: "bytes \<Rightarrow> pystr" where
  "hex bs = concat (map (\<lambda>b. [hex_digit (unat b div 16), hex_digit (unat b mod 16)]) bs)"

definition is_space :: "nat \<Rightarrow> bool" where
  "is_space c \<longleftrightarrow> c = 32 \<or> 9 \<le> c \<and> c \<le> 13"

text \<open>\<^verbatim>\<open>bytes.fromhex\<close>: white space may stand between two bytes, not inside one.\<close>

fun fromhex :: "pystr \<Rightarrow> exn + bytes" where
  "fromhex [] = Inr []"
| "fromhex (c # cs) =
     (if is_space c then fromhex cs
      else case cs of
        [] \<Rightarrow> Inl ValueError
      | d # ds \<Rightarrow>
          (case (hex_val c, hex_val d) of
             (Some h, Some l) \<Rightarrow> (case fromhex ds of Inl x \<Rightarrow> Inl x | Inr bs \<Rightarrow> Inr (word_of_nat (16 * h + l) # bs))
           | _ \<Rightarrow> Inl ValueError))"

section \<open>Credentials as dictionaries\<close>

definition cred_to_dict :: "credential \<Rightarrow> json" where
  "cred_to_dict c = JDict
     [(lit ''identity'', JStr (cred_identity c)), (lit ''role'', JStr (cred_role c)), (lit ''lam'', JInt (cred_lam c)),
      (lit ''public_point'', case cred_public_point c of Some p \<Rightarrow> JStr (hex p) | None \<Rightarrow> JNull),
      (lit ''peer_secrets'', JDict (map (\<lambda>(k, v). (k, JInt v)) (cred_peer_secrets c)))]"

definition json_truthy :: "json \<Rightarrow> bool option" where
  "json_truthy j = (case j of
      JNull \<Rightarrow> Some False | JBool b \<Rightarrow> Some b | JInt i \<Rightarrow> Some (i \<noteq> 0) | JStr s \<Rightarrow> Some (s \<noteq> [])
    | JList l \<Rightarrow> Some (l \<noteq> []) | JDict d \<Rightarrow> Some (d \<noteq> []) | _ \<Rightarrow> None)"

fun int_members :: "(pystr \<times> json) list \<Rightarrow> (pystr \<times> int) list option" where
  "int_members [] = Some []"
| "int_members ((k, JInt i) # ms) = map_option (\<lambda>r. (k, i) # r) (int_members ms)"
| "int_members _ = None"

definition cred_from_dict :: "json \<Rightarrow> (exn + credential) option" where
  "cred_from_dict j =
     (case j of JDict d \<Rightarrow>
        (case map_of d (lit ''identity'') of
           None \<Rightarrow> Some (Inl KeyError)
         | Some (JStr identity) \<Rightarrow>
             (case map_of d (lit ''role'') of
                None \<Rightarrow> Some (Inl KeyError)
              | Some (JStr role) \<Rightarrow>
                  (case map_of d (lit ''lam'') of
                     None \<Rightarrow> Some (Inl KeyError)
                   | Some (JInt lam) \<Rightarrow>
                       (let pp = (case map_of d (lit ''public_point'') of None \<Rightarrow> JNull | Some v \<Rightarrow> v)
                        in case json_truthy pp of
                             None \<Rightarrow> None
                           | Some t \<Rightarrow>
                               (case (if \<not> t then Inr None
                                      else case pp of JStr s \<Rightarrow> (case fromhex s of Inl x \<Rightarrow> Inl x | Inr b \<Rightarrow> Inr (Some b))
                                           | _ \<Rightarrow> Inl TypeError) of
                                  Inl x \<Rightarrow> Some (Inl x)
                                | Inr public_point \<Rightarrow>
                                    (case (case map_of d (lit ''peer_secrets'') of None \<Rightarrow> JDict [] | Some v \<Rightarrow> v) of
                                       JDict ms \<Rightarrow> map_option (\<lambda>peers. Inr \<lparr>cred_identity = identity, cred_role = role,
                                           cred_lam = lam, cred_public_point = public_point,
                                           cred_peer_secrets = peers\<rparr>) (int_members ms)
                                     | _ \<Rightarrow> None)))
                   | Some _ \<Rightarrow> None)
              | Some _ \<Rightarrow> None)
         | Some _ \<Rightarrow> None)
      | _ \<Rightarrow> None)"

section \<open>The file\<close>

record key_file =
  kf_content :: bytes
  kf_mode :: "32 word"

definition PRIVATE_FILE_MODE :: "32 word" where
  "PRIVATE_FILE_MODE = 0x180"

definition GROUP_OTHER_BITS :: "32 word" where
  "GROUP_OTHER_BITS = 0x3F"

unbundle bit_operations_syntax

definition keystore_save :: "credential \<Rightarrow> key_file option \<Rightarrow> exn + key_file" where
  "keystore_save c old =
     (case utf8_encode (json_dumps [32] (cred_to_dict c)) of
        Inl x \<Rightarrow> Inl x
      | Inr payload \<Rightarrow> Inr \<lparr>kf_content = payload, kf_mode = PRIVATE_FILE_MODE\<rparr>)"

definition keystore_load :: "key_file option \<Rightarrow> (exn + credential) option \<times> key_file option" where
  "keystore_load file =
     (case file of
        None \<Rightarrow> (Some (Inl OSError), None)
      | Some f \<Rightarrow>
          let f' = (if kf_mode f AND GROUP_OTHER_BITS \<noteq> 0 then f\<lparr>kf_mode := PRIVATE_FILE_MODE\<rparr> else f)
          in (case ascii_decode (kf_content f') of
                Inl _ \<Rightarrow> None
              | Inr text \<Rightarrow> (case json_loads text of Inl x \<Rightarrow> Some (Inl x) | Inr j \<Rightarrow> cred_from_dict j),
              Some f'))"

definition keystore_exists :: "key_file option \<Rightarrow> bool" where
  "keystore_exists file \<longleftrightarrow> file \<noteq> None"

section \<open>Round trip\<close>

lemma hex_digit_no_space: "d < 16 \<Longrightarrow> \<not> is_space (hex_digit d)"
  by (auto simp: hex_digit_def is_space_def)

lemma fromhex_hex: "fromhex (hex bs) = Inr bs"
proof (induction bs)
  case Nil
  then show ?case by (simp add: hex_def)
next
  case (Cons b bs)
  have n: "unat b < 256" using unsigned_less [of b, where ?'a = nat] by simp
  then have "unat b div 16 < 16" "unat b mod 16 < 16" by simp_all
  moreover have "(word_of_nat (16 * (unat b div 16) + unat b mod 16) :: byte) = b" by simp
  ultimately show ?case using Cons
    by (simp add: hex_def hex_val_digit hex_digit_no_space del: of_nat_add of_nat_mult)
qed

lemma hex_ascii: "is_ascii (hex bs)"
proof -
  have "is_ascii [hex_digit (unat b div 16), hex_digit (unat b mod 16)]" for b :: byte
    using unsigned_less [of b, where ?'a = nat] by (simp add: hex_digit_ascii less_mult_imp_div_less)
  then show ?thesis by (induction bs) (simp_all add: hex_def)
qed

lemma hex_nonempty: "bs \<noteq> [] \<Longrightarrow> hex bs \<noteq> []"
  by (cases bs) (simp_all add: hex_def)

lemma int_members_back: "int_members (map (\<lambda>(k, v). (k, JInt v)) ps) = Some ps"
  by (induction ps) auto

lemma cred_dict_roundtrip:
  assumes "cred_public_point c \<noteq> Some []"
  shows "cred_from_dict (cred_to_dict c) = Some (Inr c)"
proof (cases "cred_public_point c")
  case None
  then show ?thesis
    by (simp add: cred_from_dict_def cred_to_dict_def json_truthy_def int_members_back)
next
  case (Some p)
  with assms have "p \<noteq> []" by simp
  with Some show ?thesis
    by (simp add: cred_from_dict_def cred_to_dict_def json_truthy_def int_members_back fromhex_hex hex_nonempty)
qed

text \<open>An empty public point is written as the empty text and read back as none.\<close>

lemma cred_dict_empty_point:
  assumes "cred_public_point c = Some []"
  shows "cred_from_dict (cred_to_dict c) = Some (Inr (c\<lparr>cred_public_point := None\<rparr>))"
  using assms
  by (simp add: cred_from_dict_def cred_to_dict_def json_truthy_def int_members_back hex_def)

definition cred_storable :: "credential \<Rightarrow> bool" where
  "cred_storable c \<longleftrightarrow> valid_str (cred_identity c) \<and> valid_str (cred_role c) \<and> cred_public_point c \<noteq> Some [] \<and>
     length (nat_digits (nat \<bar>cred_lam c\<bar>)) \<le> 4300 \<and> distinct (map fst (cred_peer_secrets c)) \<and>
     (\<forall>(k, v) \<in> set (cred_peer_secrets c). valid_str k \<and> length (nat_digits (nat \<bar>v\<bar>)) \<le> 4300)"

lemma cred_dict_ok:
  assumes "cred_storable c"
  shows "json_ok (cred_to_dict c)"
proof -
  have "json_ok (JDict (map (\<lambda>(k, v). (k, JInt v)) (cred_peer_secrets c)))"
    using assms by (auto simp: cred_storable_def split_def comp_def)
  moreover have "json_ok (case cred_public_point c of Some p \<Rightarrow> JStr (hex p) | None \<Rightarrow> JNull)"
    by (simp add: is_ascii_valid hex_ascii split: option.split)
  ultimately show ?thesis using assms by (simp add: cred_to_dict_def cred_storable_def)
qed

lemma keystore_roundtrip:
  assumes "cred_storable c"
  shows "\<exists>f. keystore_save c old = Inr f \<and> kf_mode f = PRIVATE_FILE_MODE \<and>
    keystore_load (Some f) = (Some (Inr c), Some f)"
proof -
  let ?s = "json_dumps [32] (cred_to_dict c)"
  have a: "is_ascii ?s" using cred_dict_ok [OF assms] by (simp add: json_dumps_ascii)
  let ?f = "\<lparr>kf_content = map word_of_nat ?s, kf_mode = PRIVATE_FILE_MODE\<rparr>"
  have "keystore_save c old = Inr ?f" by (simp add: keystore_save_def utf8_encode_ascii [OF a])
  moreover have "PRIVATE_FILE_MODE AND GROUP_OTHER_BITS = 0"
    by (simp add: PRIVATE_FILE_MODE_def GROUP_OTHER_BITS_def)
  moreover have "cred_from_dict (cred_to_dict c) = Some (Inr c)"
    using assms by (intro cred_dict_roundtrip) (simp add: cred_storable_def)
  ultimately show ?thesis
    using ascii_decode_encode [OF a] json_spaced.dec_enc [OF cred_dict_ok [OF assms]]
    by (simp add: keystore_load_def Let_def)
qed

lemma keystore_load_private:
  assumes "keystore_load (Some f) = (r, Some f')"
  shows "kf_mode f' AND GROUP_OTHER_BITS = 0" "kf_content f' = kf_content f"
  using assms
  by (auto simp: keystore_load_def Let_def PRIVATE_FILE_MODE_def GROUP_OTHER_BITS_def split: if_splits)

end
