(* ===== verification/Files.thy ===== *)
theory Files
  imports KeyStore
begin

text \<open>
  Paths and directories as \<^verbatim>\<open>pathlib\<close> and POSIX have them, for the commands that write files under a
  directory of the user's choice (\<^verbatim>\<open>demo/ta_cli.py\<close>, \<^verbatim>\<open>KeyStore.save\<close>).  A file system is a map from the
  names that lead from the root to a directory or a file.  Symbolic links, permissions of directories
  and full disks are not modelled; the limits on names and paths are.
\<close>

section \<open>Paths\<close>

text \<open>\<^verbatim>\<open>pathlib.PurePosixPath\<close>: a root (\<open>''''\<close> for a relative path) and the parts, without \<open>''.''\<close> and empty ones.\<close>

record py_path =
  pa_root :: pystr
  pa_parts :: "pystr list"

definition path_root :: "pystr \<Rightarrow> pystr" where
  "path_root s =
     (let slashes = takeWhile (\<lambda>c. c = 47) s
      in if length slashes = 2 then slashes else take 1 slashes)"

definition to_path :: "pystr \<Rightarrow> py_path" where
  "to_path s = \<lparr>pa_root = path_root s, pa_parts = filter (\<lambda>p. p \<noteq> [] \<and> p \<noteq> lit ''.'') (split_on 47 s)\<rparr>"

text \<open>\<^verbatim>\<open>path / name\<close>: an absolute name replaces the path.\<close>

definition path_join :: "py_path \<Rightarrow> pystr \<Rightarrow> py_path" where
  "path_join path name =
     (let p = to_path name
      in if pa_root p \<noteq> [] then p else path\<lparr>pa_parts := pa_parts path @ pa_parts p\<rparr>)"

definition path_parent :: "py_path \<Rightarrow> py_path" where
  "path_parent path = path\<lparr>pa_parts := butlast (pa_parts path)\<rparr>"

fun join_slash :: "pystr list \<Rightarrow> pystr" where
  "join_slash [] = []"
| "join_slash [p] = p"
| "join_slash (p # ps) = p @ 47 # join_slash ps"

text \<open>\<^verbatim>\<open>str(path)\<close>\<close>

definition path_str :: "py_path \<Rightarrow> pystr" where
  "path_str path =
     (if pa_root path = [] \<and> pa_parts path = [] then lit ''.'' else pa_root path @ join_slash (pa_parts path))"

definition utf8_size :: "pystr \<Rightarrow> nat" where
  "utf8_size s = length (concat (map utf8_char s))"

section \<open>Directories and files\<close>

datatype fs_node = FsDir | FsFile key_file

type_synonym fs = "(pystr list \<times> fs_node) list"

datatype os_error = NoEntry | FileExists | NotADir | NameTooLong | NullByte

definition exn_of_os :: "os_error \<Rightarrow> exn" where
  "exn_of_os e = (if e = NullByte then ValueError else OSError)"

definition NAME_MAX :: nat where
  "NAME_MAX = 255"

definition PATH_MAX :: nat where
  "PATH_MAX = 4096"

definition node_at :: "fs \<Rightarrow> pystr list \<Rightarrow> fs_node option" where
  "node_at fs q = (if q = [] then Some FsDir else map_of fs q)"

definition entry :: "pystr list \<Rightarrow> pystr \<Rightarrow> pystr list" where
  "entry d name = (if name = lit ''..'' then butlast d else d @ [name])"

text \<open>Following the names of a path from a directory, all of them directories.\<close>

fun walk_dir :: "fs \<Rightarrow> pystr list \<Rightarrow> pystr list \<Rightarrow> os_error + pystr list" where
  "walk_dir fs d [] = Inr d"
| "walk_dir fs d (name # names) =
     (if NAME_MAX < utf8_size name then Inl NameTooLong
      else case node_at fs (entry d name) of
        None \<Rightarrow> Inl NoEntry
      | Some (FsFile _) \<Rightarrow> Inl NotADir
      | Some FsDir \<Rightarrow> walk_dir fs (entry d name) names)"

text \<open>The place a path stands for: its directory must be there, its last entry may be missing.\<close>

definition find_slot :: "fs \<Rightarrow> pystr list \<Rightarrow> py_path \<Rightarrow> os_error + pystr list" where
  "find_slot fs cwd path =
     (let start = (if pa_root path = [] then cwd else []); parts = pa_parts path
      in if 0 \<in> set (path_str path) then Inl NullByte
         else if PATH_MAX \<le> utf8_size (path_str path) then Inl NameTooLong
         else if parts = [] then Inr start
         else case walk_dir fs start (butlast parts) of
           Inl e \<Rightarrow> Inl e
         | Inr d \<Rightarrow> if NAME_MAX < utf8_size (last parts) then Inl NameTooLong else Inr (entry d (last parts)))"

definition find_node :: "fs \<Rightarrow> pystr list \<Rightarrow> py_path \<Rightarrow> os_error + pystr list \<times> fs_node" where
  "find_node fs cwd path =
     (case find_slot fs cwd path of
        Inl e \<Rightarrow> Inl e
      | Inr q \<Rightarrow> (case node_at fs q of None \<Rightarrow> Inl NoEntry | Some n \<Rightarrow> Inr (q, n)))"

definition path_is_dir :: "fs \<Rightarrow> pystr list \<Rightarrow> py_path \<Rightarrow> bool" where
  "path_is_dir fs cwd path = (case find_node fs cwd path of Inr (_, FsDir) \<Rightarrow> True | _ \<Rightarrow> False)"

definition path_exists :: "fs \<Rightarrow> pystr list \<Rightarrow> py_path \<Rightarrow> exn + bool" where
  "path_exists fs cwd path =
     (case find_node fs cwd path of
        Inr _ \<Rightarrow> Inr True
      | Inl NameTooLong \<Rightarrow> Inl OSError
      | Inl _ \<Rightarrow> Inr False)"

definition file_at :: "fs \<Rightarrow> pystr list \<Rightarrow> py_path \<Rightarrow> key_file option" where
  "file_at fs cwd path = (case find_node fs cwd path of Inr (_, FsFile f) \<Rightarrow> Some f | _ \<Rightarrow> None)"

text \<open>Creating or truncating a file, and setting its mode.\<close>

definition put_file :: "fs \<Rightarrow> pystr list \<Rightarrow> py_path \<Rightarrow> key_file \<Rightarrow> (exn + unit) \<times> fs" where
  "put_file fs cwd path f =
     (case find_slot fs cwd path of
        Inl e \<Rightarrow> (Inl (exn_of_os e), fs)
      | Inr q \<Rightarrow> if node_at fs q = Some FsDir then (Inl OSError, fs) else (Inr (), AList.update q (FsFile f) fs))"

definition os_mkdir :: "fs \<Rightarrow> pystr list \<Rightarrow> py_path \<Rightarrow> (os_error + unit) \<times> fs" where
  "os_mkdir fs cwd path =
     (case find_slot fs cwd path of
        Inl e \<Rightarrow> (Inl e, fs)
      | Inr q \<Rightarrow> if node_at fs q \<noteq> None then (Inl FileExists, fs) else (Inr (), (q, FsDir) # fs))"

text \<open>\<^verbatim>\<open>Path.mkdir(exist_ok=True)\<close>, without and with \<^verbatim>\<open>parents=True\<close>\<close>

definition mkdir_exist_ok :: "fs \<Rightarrow> pystr list \<Rightarrow> py_path \<Rightarrow> (exn + unit) \<times> fs" where
  "mkdir_exist_ok fs cwd path =
     (case os_mkdir fs cwd path of
        (Inr u, fs1) \<Rightarrow> (Inr u, fs1)
      | (Inl e, _) \<Rightarrow>
          if e \<noteq> NullByte \<and> e \<noteq> NoEntry \<and> path_is_dir fs cwd path then (Inr (), fs) else (Inl (exn_of_os e), fs))"

function make_dirs :: "fs \<Rightarrow> pystr list \<Rightarrow> py_path \<Rightarrow> (exn + unit) \<times> fs" where
  "make_dirs fs cwd path =
     (if fst (os_mkdir fs cwd path) = Inl NoEntry \<and> pa_parts path \<noteq> []
      then (case make_dirs fs cwd (path_parent path) of
              (Inl x, fs1) \<Rightarrow> (Inl x, fs1)
            | (Inr _, fs1) \<Rightarrow> mkdir_exist_ok fs1 cwd path)
      else mkdir_exist_ok fs cwd path)"
  by pat_completeness auto

termination
  by (relation "measure (\<lambda>(fs, cwd, path). length (pa_parts path))") (auto simp: path_parent_def)

declare make_dirs.simps [simp del]

text \<open>\<^verbatim>\<open>KeyStore(path).save(credential)\<close>\<close>

definition save_at :: "fs \<Rightarrow> pystr list \<Rightarrow> py_path \<Rightarrow> credential \<Rightarrow> (exn + unit) \<times> fs" where
  "save_at fs cwd path c =
     (case make_dirs fs cwd (path_parent path) of
        (Inl x, fs1) \<Rightarrow> (Inl x, fs1)
      | (Inr _, fs1) \<Rightarrow>
          (case keystore_save c (file_at fs1 cwd path) of
             Inl x \<Rightarrow> (Inl x, fs1)
           | Inr f \<Rightarrow> put_file fs1 cwd path f))"

text \<open>\<^verbatim>\<open>KeyStore(path).load()\<close>, without the change of the mode it may make\<close>

definition load_at :: "fs \<Rightarrow> pystr list \<Rightarrow> py_path \<Rightarrow> (exn + credential) option" where
  "load_at fs cwd path = fst (keystore_load (file_at fs cwd path))"

section \<open>What a change of the file system leaves alone\<close>

lemma walk_keep:
  assumes "walk_dir fs d names = Inr d'" "\<And>q. node_at fs q = Some FsDir \<Longrightarrow> node_at fs' q = Some FsDir"
  shows "walk_dir fs' d names = Inr d'"
  using assms(1)
proof (induction names arbitrary: d)
  case Nil
  then show ?case by simp
next
  case (Cons name names)
  from Cons.prems have "node_at fs (entry d name) = Some FsDir"
    by (auto split: if_splits option.splits fs_node.splits)
  with Cons assms(2) show ?case by (auto split: if_splits)
qed

lemma find_slot_keep:
  assumes "find_slot fs cwd path = Inr q" "\<And>q. node_at fs q = Some FsDir \<Longrightarrow> node_at fs' q = Some FsDir"
  shows "find_slot fs' cwd path = Inr q"
proof -
  have "walk_dir fs' d names = Inr d'" if "walk_dir fs d names = Inr d'" for d names d'
    by (rule walk_keep [OF that assms(2)])
  then show ?thesis using assms(1) by (simp add: find_slot_def Let_def split: if_splits sum.splits)
qed

lemma node_at_new_dir:
  assumes "node_at fs q = None"
  shows "node_at ((q, FsDir) # fs) p = (if p = q then Some FsDir else node_at fs p)"
  using assms by (auto simp: node_at_def)

lemma node_at_put:
  assumes "node_at fs q \<noteq> Some FsDir"
  shows "node_at (AList.update q (FsFile f) fs) p = (if p = q then Some (FsFile f) else node_at fs p)"
  using assms by (cases "q = []") (simp_all add: node_at_def update_conv')

lemma walk_snoc:
  assumes "walk_dir fs d names = Inr d'" "utf8_size name \<le> NAME_MAX" "node_at fs (entry d' name) = Some FsDir"
  shows "walk_dir fs d (names @ [name]) = Inr (entry d' name)"
  using assms(1)
proof (induction names arbitrary: d)
  case Nil
  with assms show ?case by simp
next
  case (Cons n names)
  then show ?case by (auto split: if_splits option.splits fs_node.splits)
qed

text \<open>A directory that has been found can be walked.\<close>

lemma find_dir_walk:
  assumes "find_node fs cwd path = Inr (D, FsDir)"
  shows "walk_dir fs (if pa_root path = [] then cwd else []) (pa_parts path) = Inr D"
proof (cases "pa_parts path = []")
  case True
  with assms show ?thesis by (auto simp: find_node_def find_slot_def split: if_splits option.splits)
next
  case False
  let ?start = "if pa_root path = [] then cwd else []"
  from assms False obtain d where d: "walk_dir fs ?start (butlast (pa_parts path)) = Inr d"
    "utf8_size (last (pa_parts path)) \<le> NAME_MAX" "D = entry d (last (pa_parts path))" "node_at fs D = Some FsDir"
    by (auto simp: find_node_def find_slot_def Let_def split: if_splits option.splits sum.splits)
  from walk_snoc [OF d(1,2)] d(3,4) False show ?thesis by simp
qed

lemma mkdir_made:
  assumes "mkdir_exist_ok fs cwd path = (Inr (), fs')"
  shows "\<exists>D. find_node fs' cwd path = Inr (D, FsDir)"
proof (cases "os_mkdir fs cwd path")
  case (Pair r fs1)
  show ?thesis
  proof (cases r)
    case (Inl e)
    with assms Pair have "fs' = fs" "path_is_dir fs cwd path" by (auto simp: mkdir_exist_ok_def split: if_splits)
    then show ?thesis by (auto simp: path_is_dir_def split: sum.splits prod.splits fs_node.splits)
  next
    case (Inr u)
    with assms Pair have "fs1 = fs'" by (simp add: mkdir_exist_ok_def)
    with Pair Inr obtain q where q: "find_slot fs cwd path = Inr q" "node_at fs q = None" "fs' = (q, FsDir) # fs"
      by (auto simp: os_mkdir_def split: sum.splits if_splits)
    note new = node_at_new_dir [OF q(2)]
    have "find_slot fs' cwd path = Inr q" by (rule find_slot_keep [OF q(1)]) (simp add: q(3) new)
    then show ?thesis by (simp add: find_node_def q(3) new)
  qed
qed

lemma dirs_made:
  assumes "make_dirs fs cwd path = (Inr (), fs')"
  shows "\<exists>D. find_node fs' cwd path = Inr (D, FsDir)"
proof (cases "fst (os_mkdir fs cwd path) = Inl NoEntry \<and> pa_parts path \<noteq> []")
  case True
  obtain r fs1 where m: "make_dirs fs cwd (path_parent path) = (r, fs1)" by (metis surj_pair)
  with assms True have "mkdir_exist_ok fs1 cwd path = (Inr (), fs')"
    by (simp add: make_dirs.simps [of fs cwd path] split: sum.splits)
  then show ?thesis by (rule mkdir_made)
next
  case False
  with assms have "mkdir_exist_ok fs cwd path = (Inr (), fs')" by (simp add: make_dirs.simps [of fs cwd path])
  then show ?thesis by (rule mkdir_made)
qed

lemma dirs_there:
  assumes "find_node fs cwd path = Inr (D, FsDir)"
  shows "make_dirs fs cwd path = (Inr (), fs)"
proof -
  have "os_mkdir fs cwd path = (Inl FileExists, fs)"
    using assms by (auto simp: find_node_def os_mkdir_def split: sum.splits option.splits)
  moreover have "path_is_dir fs cwd path" using assms by (simp add: path_is_dir_def)
  ultimately show ?thesis by (simp add: make_dirs.simps mkdir_exist_ok_def)
qed

section \<open>A file of a plain name in a directory\<close>

definition plain_name :: "pystr \<Rightarrow> bool" where
  "plain_name s \<longleftrightarrow> 0 \<notin> set s \<and> 47 \<notin> set s \<and> utf8_size s \<le> NAME_MAX \<and> s \<notin> {[], lit ''.'', lit ''..''}"

lemma join_one:
  assumes "47 \<notin> set s" "s \<notin> {[], lit ''.''}"
  shows "path_join path s = path\<lparr>pa_parts := pa_parts path @ [s]\<rparr>"
proof -
  have "takeWhile (\<lambda>c. c = 47) s = []" using assms(1) by (cases s) auto
  then have "to_path s = \<lparr>pa_root = [], pa_parts = [s]\<rparr>"
    using assms by (simp add: to_path_def path_root_def split_on_plain)
  then show ?thesis by (simp add: path_join_def Let_def)
qed

lemma join_plain:
  assumes "plain_name s"
  shows "path_join path s = path\<lparr>pa_parts := pa_parts path @ [s]\<rparr>"
  using assms by (intro join_one) (simp_all add: plain_name_def)

lemma parent_plain:
  assumes "plain_name s"
  shows "path_parent (path_join path s) = path"
  using assms by (simp add: join_plain path_parent_def)

lemma join_slash_snoc: "join_slash (ps @ [p]) = (if ps = [] then p else join_slash ps @ 47 # p)"
  by (induction ps rule: join_slash.induct) auto

lemma slot_plain:
  assumes "find_node fs cwd path = Inr (D, FsDir)" "plain_name s" "utf8_size (path_str (path_join path s)) < PATH_MAX"
  shows "find_slot fs cwd (path_join path s) = Inr (D @ [s])"
proof -
  have "0 \<notin> set (path_str path)" using assms(1) by (auto simp: find_node_def find_slot_def Let_def split: if_splits)
  then have "0 \<notin> set (path_str (path_join path s))"
    using assms(2) by (auto simp: join_plain path_str_def join_slash_snoc plain_name_def split: if_splits)
  with assms find_dir_walk [OF assms(1)] show ?thesis
    by (auto simp: find_slot_def Let_def join_plain plain_name_def entry_def split: if_splits)
qed

lemma save_plain:
  assumes dir: "find_node fs cwd path = Inr (D, FsDir)" and s: "plain_name s" "utf8_size (path_str (path_join path s)) < PATH_MAX"
    and free: "\<not> path_is_dir fs cwd (path_join path s)" and c: "cred_storable c"
  shows "\<exists>f fs'. save_at fs cwd (path_join path s) c = (Inr (), fs') \<and> kf_mode f = PRIVATE_FILE_MODE \<and>
    keystore_load (Some f) = (Some (Inr c), Some f) \<and> node_at fs (D @ [s]) \<noteq> Some FsDir \<and>
    (\<forall>q. node_at fs' q = (if q = D @ [s] then Some (FsFile f) else node_at fs q))"
proof -
  have slot: "find_slot fs cwd (path_join path s) = Inr (D @ [s])" by (rule slot_plain [OF dir s])
  with free have no: "node_at fs (D @ [s]) \<noteq> Some FsDir" by (auto simp: path_is_dir_def find_node_def)
  from keystore_roundtrip [OF c] obtain f where f: "keystore_save c (file_at fs cwd (path_join path s)) = Inr f"
    "kf_mode f = PRIVATE_FILE_MODE" "keystore_load (Some f) = (Some (Inr c), Some f)" by blast
  have "save_at fs cwd (path_join path s) c = (Inr (), AList.update (D @ [s]) (FsFile f) fs)"
    using f(1) slot no by (simp add: save_at_def parent_plain [OF s(1)] dirs_there [OF dir] put_file_def)
  with f no show ?thesis by (intro exI [of _ f] exI [of _ "AList.update (D @ [s]) (FsFile f) fs"]) (simp add: node_at_put)
qed

lemma find_node_keep:
  assumes "find_node fs cwd path = Inr (D, FsDir)" "\<And>q. node_at fs q = Some FsDir \<Longrightarrow> node_at fs' q = Some FsDir"
  shows "find_node fs' cwd path = Inr (D, FsDir)"
proof -
  have "find_slot fs cwd path = Inr D" "node_at fs D = Some FsDir"
    using assms(1) by (auto simp: find_node_def split: sum.splits option.splits)
  with find_slot_keep [OF this(1), of fs'] assms(2) show ?thesis by (simp add: find_node_def)
qed

end
