(* ===== verification/Nodes.thy ===== *)
theory Nodes
  imports Sync Transport Files
begin

text \<open>
  The demo processes: the server node (\<^verbatim>\<open>demo/server_node.py\<close>), the device node
  (\<^verbatim>\<open>demo/device_node.py\<close>) and the provisioning command (\<^verbatim>\<open>demo/ta_cli.py\<close>).  Sockets are those of the
  transport, files are values, and what is printed is an outcome.  Latencies are left out.
\<close>

section \<open>The server node\<close>

datatype node_event =
    TransportFailed exn
  | Rejected exn
  | Accepted pystr
  | ResponseSendFailed exn

definition is_os_error :: "exn \<Rightarrow> bool" where
  "is_os_error x = (x = OSError \<or> x = ConnectionError)"

text \<open>\<^verbatim>\<open>type(exc).__name__\<close>\<close>

definition exn_name :: "exn \<Rightarrow> pystr" where
  "exn_name x = lit (case x of
      IntegrityError _ \<Rightarrow> ''IntegrityError'' | ReplayDetected _ _ \<Rightarrow> ''ReplayDetected''
    | UnknownPeerError \<Rightarrow> ''UnknownPeerError'' | BlockedEntity _ \<Rightarrow> ''BlockedEntity''
    | CoverageError _ \<Rightarrow> ''CoverageError'' | SessionTimeoutError _ \<Rightarrow> ''SessionTimeoutError''
    | OfflinePhaseViolation \<Rightarrow> ''OfflinePhaseViolation'' | MessageFormatError \<Rightarrow> ''MessageFormatError''
    | ValueError \<Rightarrow> ''ValueError'' | KeyError \<Rightarrow> ''KeyError'' | IndexError \<Rightarrow> ''IndexError'' | TypeError \<Rightarrow> ''TypeError''
    | AttributeError \<Rightarrow> ''AttributeError'' | OverflowError \<Rightarrow> ''OverflowError''
    | ZeroDivisionError \<Rightarrow> ''ZeroDivisionError'' | StructError \<Rightarrow> ''error'' | UnicodeError \<Rightarrow> ''UnicodeError''
    | InvalidTag \<Rightarrow> ''InvalidTag'' | ConnectionError \<Rightarrow> ''ConnectionError'' | OSError \<Rightarrow> ''OSError''
    | NotImplementedError \<Rightarrow> ''NotImplementedError'' | AssertionError \<Rightarrow> ''AssertionError''
    | ArgumentTypeError \<Rightarrow> ''ArgumentTypeError'')"

text \<open>
  \<open>node_text\<close> is \<^verbatim>\<open>str(exc)\<close> of the exception a request raised, for the strategy the node runs, the linear scan, with the texts of \<^verbatim>\<open>protocol/server.py\<close>,
  \<^verbatim>\<open>resolution.py\<close> and \<^verbatim>\<open>messages.py\<close>.  \<^verbatim>\<open>repr\<close> and the texts of the library's own exceptions are parameters.
\<close>

record py_texts =
  pt_repr :: "json \<Rightarrow> pystr"
  pt_raised :: "bytes \<Rightarrow> exn \<Rightarrow> pystr"

definition replay_text :: "py_texts \<Rightarrow> pystr \<Rightarrow> int \<Rightarrow> pystr" where
  "replay_text T peer_identity epoch =
     lit ''pseudonym for '' @ pt_repr T (JStr peer_identity) @ lit '' reuses stale epoch '' @ int_repr epoch"

definition unknown_text :: pystr where
  "unknown_text = lit ''pseudonym did not resolve to any known, in-window peer''"

definition blocked_text :: "pystr \<Rightarrow> pystr" where
  "blocked_text peer_identity = peer_identity @ lit '' is block-listed after repeated failed attempts''"

definition coverage_text :: "pystr \<Rightarrow> pystr" where
  "coverage_text peer_identity = peer_identity @ lit '' is out of coverage range (cov_ij(t) = False)''"

definition node_text :: "py_texts \<Rightarrow> bytes \<Rightarrow> exn \<Rightarrow> pystr" where
  "node_text T request x = (case x of
      MessageFormatError \<Rightarrow> message1_error_text (pt_repr T) (pt_raised T request) request
    | IntegrityError t \<Rightarrow> t
    | ReplayDetected p e \<Rightarrow> replay_text T p e
    | UnknownPeerError \<Rightarrow> unknown_text
    | BlockedEntity p \<Rightarrow> blocked_text p
    | CoverageError p \<Rightarrow> coverage_text p
    | _ \<Rightarrow> pt_raised T request x)"

lemmas node_texts = node_text_def replay_text_def unknown_text_def blocked_text_def coverage_text_def

text \<open>
  A connection as the node sees it: the socket, and whether sending on it fails.  \<open>str_of\<close> is
  \<^verbatim>\<open>str(exc)\<close>, the text of the exception that a request raised, which may show parts of the request, as
  \<open>node_text\<close> does.
\<close>

record connection =
  conn_socket :: socket
  conn_broken :: bool

definition conn_send :: "connection \<Rightarrow> socket \<Rightarrow> bytes \<Rightarrow> (exn + unit) \<times> socket" where
  "conn_send conn s payload =
     (if length payload \<le> MAX_FRAME_BYTES \<and> conn_broken conn then (Inl OSError, s) else send_frame s payload)"

definition send_envelope :: "connection \<Rightarrow> socket \<Rightarrow> exn + bytes \<Rightarrow> (exn + unit) \<times> socket" where
  "send_envelope conn s envelope = (case envelope of Inl x \<Rightarrow> (Inl x, s) | Inr b \<Rightarrow> conn_send conn s b)"

definition handle_connection ::
  "prims \<Rightarrow> 'r resolver_ops \<Rightarrow> server_env \<Rightarrow> (bytes \<Rightarrow> exn \<Rightarrow> pystr) \<Rightarrow> connection \<Rightarrow> 'r server
     \<Rightarrow> (exn + unit) \<times> 'r server \<times> socket \<times> node_event list" where
  "handle_connection P ops env str_of conn s =
     (case recv_frame (conn_socket conn) of
        (Inl x, sock) \<Rightarrow>
          if x = ConnectionError \<or> x = ValueError then (Inr (), s, sock, [TransportFailed x]) else (Inl x, s, sock, [])
      | (Inr request_bytes, sock) \<Rightarrow>
          (case handle_auth_request P ops env request_bytes s of
             (Inl x, s') \<Rightarrow>
               if is_authentication_error x \<or> x = MessageFormatError then
                 (case send_envelope conn sock (build_error_envelope (exn_name x) (str_of request_bytes x)) of
                    (Inl y, sock') \<Rightarrow> if is_os_error y then (Inr (), s', sock', [Rejected x])
                                      else (Inl y, s', sock', [Rejected x])
                  | (Inr _, sock') \<Rightarrow> (Inr (), s', sock', [Rejected x]))
               else (Inl x, s', sock, [])
           | (Inr result, s') \<Rightarrow>
               (case send_envelope conn sock (build_ok_envelope (res_response_bytes result)) of
                  (Inl y, sock') \<Rightarrow>
                    if is_os_error y then (Inr (), s', sock', [Accepted (res_peer_identity result), ResponseSendFailed y])
                    else (Inl y, s', sock', [Accepted (res_peer_identity result)])
                | (Inr _, sock') \<Rightarrow> (Inr (), s', sock', [Accepted (res_peer_identity result)]))))"

text \<open>
  \<^verbatim>\<open>while True: conn, addr = listener.accept(); _handle_connection(conn, addr, server)\<close>, for the
  connections that come before the interrupt: an exception that escapes ends the process.
\<close>

fun serve ::
  "prims \<Rightarrow> 'r resolver_ops \<Rightarrow> (bytes \<Rightarrow> exn \<Rightarrow> pystr) \<Rightarrow> (server_env \<times> connection) list \<Rightarrow> 'r server
     \<Rightarrow> (exn + unit) \<times> 'r server \<times> node_event list" where
  "serve P ops str_of [] s = (Inr (), s, [])"
| "serve P ops str_of ((env, conn) # cs) s =
     (case handle_connection P ops env str_of conn s of
        (Inl x, s', sock, evs) \<Rightarrow> (Inl x, s', evs)
      | (Inr _, s', sock, evs) \<Rightarrow> (let (r, s'', evs') = serve P ops str_of cs s' in (r, s'', evs @ evs')))"

text \<open>
  The start command: exit code 2 for a credential of the wrong role, 0 after an interrupt.  The outcome
  is \<open>None\<close> when the credential file lies outside the model of the key store.
\<close>

definition start_server ::
  "prims \<Rightarrow> 'r resolver_ops \<Rightarrow> (bytes \<Rightarrow> exn \<Rightarrow> pystr) \<Rightarrow> rat \<Rightarrow> 'r \<Rightarrow> credential \<Rightarrow> (server_env \<times> connection) list
     \<Rightarrow> exn + int" where
  "start_server P ops str_of now r credential cs =
     (if cred_role credential \<noteq> lit ''server'' then Inr 2
      else case new_server P ops now credential None DEFAULT_NONCE_BITS 3 8 16 r of
             Inl x \<Rightarrow> Inl x
           | Inr s \<Rightarrow> (case serve P ops str_of cs s of (Inl x, _) \<Rightarrow> Inl x | (Inr _, _) \<Rightarrow> Inr 0))"

definition cmd_start ::
  "prims \<Rightarrow> 'r resolver_ops \<Rightarrow> (bytes \<Rightarrow> exn \<Rightarrow> pystr) \<Rightarrow> rat \<Rightarrow> 'r \<Rightarrow> key_file option \<Rightarrow> (server_env \<times> connection) list
     \<Rightarrow> (exn + int) option" where
  "cmd_start P ops str_of now r file cs =
     (case fst (keystore_load file) of
        None \<Rightarrow> None
      | Some (Inl x) \<Rightarrow> Some (Inl x)
      | Some (Inr credential) \<Rightarrow> Some (start_server P ops str_of now r credential cs))"

section \<open>The device node\<close>

text \<open>\<^verbatim>\<open>value.rpartition(sep)\<close> for a separator of one character\<close>

definition rpartition :: "nat \<Rightarrow> pystr \<Rightarrow> pystr \<times> pystr \<times> pystr" where
  "rpartition c s =
     (if c \<in> set s then (let t = takeWhile (\<lambda>x. x \<noteq> c) (rev s) in (rev (drop (Suc (length t)) (rev s)), [c], rev t))
      else ([], [], s))"

text \<open>
  \<open>_parse_server_addr\<close>.  \<^verbatim>\<open>isdigit\<close> and \<^verbatim>\<open>int\<close> know digits of other scripts, and do not agree on all of them;
  a port that is not ASCII is outside the model (\<open>None\<close>).  \<^verbatim>\<open>int\<close> refuses more than 4300 digits.
\<close>

definition parse_server_addr :: "pystr \<Rightarrow> (exn + pystr \<times> int) option" where
  "parse_server_addr value =
     (case rpartition 58 value of (host, _, port) \<Rightarrow>
        if host = [] then Some (Inl ArgumentTypeError)
        else if \<not> is_ascii port then None
        else if port = [] \<or> \<not> list_all is_digit port then Some (Inl ArgumentTypeError)
        else if 4300 < length port then Some (Inl ValueError)
        else Some (Inr (host, int (digits_val port))))"

datatype auth_outcome =
    WrongRole
  | NoCapture
  | Unreachable
  | RejectedByServer json json
  | UnexpectedAccept
  | VerificationFailed exn
  | Succeeded pystr

fun exit_code :: "auth_outcome \<Rightarrow> int" where
  "exit_code WrongRole = 2"
| "exit_code NoCapture = 2"
| "exit_code (Succeeded _) = 0"
| "exit_code _ = 1"

text \<open>\<^verbatim>\<open>bool(x)\<close> of a parsed value; a float is false exactly when its literal rounds to zero.\<close>

definition truthy :: "json \<Rightarrow> bool" where
  "truthy j = (case j of
      JNull \<Rightarrow> False | JBool b \<Rightarrow> b | JInt i \<Rightarrow> i \<noteq> 0 | JStr s \<Rightarrow> s \<noteq> [] | JList l \<Rightarrow> l \<noteq> [] | JDict d \<Rightarrow> d \<noteq> []
    | JNan \<Rightarrow> True | JFloat l \<Rightarrow> 1 / 2 ^ 1075 < \<bar>float_literal_value l\<bar>)"

definition envelope_field :: "json \<Rightarrow> string \<Rightarrow> exn + json" where
  "envelope_field j k = (case j of
      JDict d \<Rightarrow> (case map_of d (lit k) of None \<Rightarrow> Inl KeyError | Some v \<Rightarrow> Inr v)
    | _ \<Rightarrow> Inl TypeError)"

text \<open>The part after the response has arrived.\<close>

definition read_response :: "prims \<Rightarrow> device_env \<Rightarrow> bool \<Rightarrow> bytes \<Rightarrow> device \<Rightarrow> exn + auth_outcome" where
  "read_response P env built_fresh_request response_bytes d =
     (case parse_envelope response_bytes of
        Inl x \<Rightarrow> Inl x
      | Inr envelope \<Rightarrow>
          (case envelope_field envelope ''ok'' of
             Inl x \<Rightarrow> Inl x
           | Inr ok \<Rightarrow>
               if \<not> truthy ok then
                 (case envelope_field envelope ''error_type'' of
                    Inl x \<Rightarrow> Inl x
                  | Inr ty \<Rightarrow> (case envelope_field envelope ''message'' of
                        Inl x \<Rightarrow> Inl x
                      | Inr msg \<Rightarrow> Inr (RejectedByServer ty msg)))
               else if \<not> built_fresh_request then Inr UnexpectedAccept
               else (case envelope_field envelope ''payload'' of
                   Inl x \<Rightarrow> Inl x
                 | Inr (JStr p) \<Rightarrow>
                     (case ascii_encode p of
                        Inl x \<Rightarrow> Inl x
                      | Inr msg2_bytes \<Rightarrow>
                          (case fst (complete_auth P env msg2_bytes d) of
                             Inl x \<Rightarrow> if is_authentication_error x \<or> x = MessageFormatError
                                      then Inr (VerificationFailed x) else Inl x
                           | Inr key \<Rightarrow> Inr (Succeeded (take 16 (hex (p_sha256 P key))))))
                 | Inr _ \<Rightarrow> Inl AttributeError)))"

text \<open>
  \<open>addr\<close> is what \<open>_parse_server_addr\<close> gives for the argument.  \<open>network\<close> maps an address and the bytes
  that were sent to the stream that comes back, or to what \<^verbatim>\<open>create_connection\<close> raises.  The captured first
  message of an earlier run is a file, \<open>last_msg1\<close>.
\<close>

definition authenticate_once ::
  "prims \<Rightarrow> credential \<Rightarrow> exn + pystr \<times> int \<Rightarrow> pystr \<Rightarrow> bool \<Rightarrow> bytes option \<Rightarrow> device_env \<Rightarrow> device_env
     \<Rightarrow> (pystr \<times> int \<Rightarrow> bytes \<Rightarrow> exn + socket) \<Rightarrow> (exn + auth_outcome) \<times> bytes option" where
  "authenticate_once P credential addr server_id replay_last last_msg1 env env2 network =
     (if cred_role credential \<noteq> lit ''device'' then (Inr WrongRole, last_msg1)
      else case new_device credential None DEFAULT_NONCE_BITS DEFAULT_SESSION_TIMEOUT_SECONDS 3 False of
        Inl x \<Rightarrow> (Inl x, last_msg1)
      | Inr d \<Rightarrow>
          (case addr of
             Inl x \<Rightarrow> (Inl x, last_msg1)
           | Inr host_port \<Rightarrow>
               (case (if replay_last then (case last_msg1 of None \<Rightarrow> (Inr None, d) | Some m \<Rightarrow> (Inr (Some m), d))
                      else (case build_auth_request P env server_id d of
                              (Inl x, d') \<Rightarrow> (Inl x, d') | (Inr m, d') \<Rightarrow> (Inr (Some m), d'))) of
                  (Inl x, d') \<Rightarrow> (Inl x, last_msg1)
                | (Inr None, d') \<Rightarrow> (Inr NoCapture, last_msg1)
                | (Inr (Some msg1_bytes), d') \<Rightarrow>
                    (case network host_port msg1_bytes of
                       Inl x \<Rightarrow> if is_os_error x then Inr Unreachable else Inl x
                     | Inr sock \<Rightarrow>
                         (case send_frame sock msg1_bytes of
                            (Inl x, _) \<Rightarrow> Inl x
                          | (Inr _, sock') \<Rightarrow>
                              (case recv_frame sock' of
                                 (Inl x, _) \<Rightarrow> if is_os_error x then Inr Unreachable else Inl x
                               | (Inr response_bytes, _) \<Rightarrow> read_response P env2 (\<not> replay_last) response_bytes d')),
                     if replay_last then last_msg1 else Some msg1_bytes))))"

text \<open>
  The result is undefined (\<open>None\<close>) when the key file or the port is outside the model.
\<close>

definition cmd_authenticate ::
  "prims \<Rightarrow> key_file option \<Rightarrow> pystr \<Rightarrow> pystr \<Rightarrow> bool \<Rightarrow> bytes option \<Rightarrow> device_env \<Rightarrow> device_env
     \<Rightarrow> (pystr \<times> int \<Rightarrow> bytes \<Rightarrow> exn + socket) \<Rightarrow> ((exn + auth_outcome) \<times> bytes option) option" where
  "cmd_authenticate P file server_addr server_id replay_last last_msg1 env env2 network =
     (case fst (keystore_load file) of
        None \<Rightarrow> None
      | Some (Inl x) \<Rightarrow> Some (Inl x, last_msg1)
      | Some (Inr credential) \<Rightarrow>
          (case parse_server_addr server_addr of
             None \<Rightarrow> None
           | Some addr \<Rightarrow> Some (authenticate_once P credential addr server_id replay_last last_msg1 env env2 network)))"

section \<open>The provisioning command\<close>

text \<open>
  The manifest: a JSON array of objects.  Entries with values of another type than the program's own
  manifests have are outside the model (\<open>None\<close>).
\<close>

definition str_field :: "(pystr \<times> json) list \<Rightarrow> string \<Rightarrow> pystr option option" where
  "str_field d k = (case map_of d (lit k) of None \<Rightarrow> Some None | Some (JStr s) \<Rightarrow> Some (Some s) | Some _ \<Rightarrow> None)"

definition entry_of :: "json \<Rightarrow> manifest_entry option" where
  "entry_of j = (case j of
      JDict d \<Rightarrow>
        (case (str_field d ''identity'', str_field d ''role'', map_of d (lit ''export_public_point'')) of
           (Some i, Some r, None) \<Rightarrow> Some \<lparr>me_identity = i, me_role = r, me_export_public_point = None\<rparr>
         | (Some i, Some r, Some (JBool b)) \<Rightarrow> Some \<lparr>me_identity = i, me_role = r, me_export_public_point = Some b\<rparr>
         | _ \<Rightarrow> None)
    | _ \<Rightarrow> None)"

definition load_manifest :: "pystr \<Rightarrow> (exn + manifest_entry list) option" where
  "load_manifest content =
     (case json_loads content of
        Inl x \<Rightarrow> Some (Inl x)
      | Inr (JList items) \<Rightarrow>
          if \<forall>e \<in> set items. entry_of e \<noteq> None then Some (Inr (map (the \<circ> entry_of) items)) else None
      | Inr _ \<Rightarrow> Some (Inl ValueError))"

text \<open>\<^verbatim>\<open>str.strip()\<close>\<close>

definition str_space :: "nat \<Rightarrow> bool" where
  "str_space c \<longleftrightarrow> 9 \<le> c \<and> c \<le> 13 \<or> 28 \<le> c \<and> c \<le> 32 \<or> 0x2000 \<le> c \<and> c \<le> 0x200A \<or>
     c \<in> {0x85, 0xA0, 0x1680, 0x2028, 0x2029, 0x202F, 0x205F, 0x3000}"

definition strip :: "pystr \<Rightarrow> pystr" where
  "strip s = rev (dropWhile str_space (rev (dropWhile str_space s)))"

definition DEFAULT_MASTER_SECRET_FILENAME :: pystr where
  "DEFAULT_MASTER_SECRET_FILENAME = lit ''ta_master_secret.hex''"

definition resolve_master_secret ::
  "pystr list \<Rightarrow> py_path \<Rightarrow> pystr option \<Rightarrow> fs \<Rightarrow> urandom \<Rightarrow> (exn + bytes) \<times> fs" where
  "resolve_master_secret cwd out_dir master_secret_hex files fresh =
     (case master_secret_hex of
        Some (c # cs) \<Rightarrow> (fromhex (c # cs), files)
      | _ \<Rightarrow>
          let secret_path = path_join out_dir DEFAULT_MASTER_SECRET_FILENAME
          in (case path_exists files cwd secret_path of
                Inl x \<Rightarrow> (Inl x, files)
              | Inr True \<Rightarrow>
                  (case file_at files cwd secret_path of
                     None \<Rightarrow> (Inl OSError, files)
                   | Some f \<Rightarrow>
                       (case utf8_decode (kf_content f) of
                          Inl x \<Rightarrow> (Inl x, files)
                        | Inr t \<Rightarrow> (fromhex (strip t), files)))
              | Inr False \<Rightarrow>
                  (case make_dirs files cwd out_dir of
                     (Inl x, files1) \<Rightarrow> (Inl x, files1)
                   | (Inr _, files1) \<Rightarrow>
                       let secret = fresh 32
                       in (case put_file files1 cwd secret_path
                                  \<lparr>kf_content = map word_of_nat (hex secret), kf_mode = PRIVATE_FILE_MODE\<rparr> of
                             (Inl x, files2) \<Rightarrow> (Inl x, files2)
                           | (Inr _, files2) \<Rightarrow> (Inr secret, files2)))))"

definition bundle_path :: "py_path \<Rightarrow> pystr \<Rightarrow> py_path" where
  "bundle_path out_dir identity = path_join out_dir (identity @ lit ''.json'')"

fun save_all :: "pystr list \<Rightarrow> py_path \<Rightarrow> cred_store \<Rightarrow> (pystr \<times> nat) list \<Rightarrow> fs \<Rightarrow> (exn + unit) \<times> fs" where
  "save_all cwd out_dir st [] files = (Inr (), files)"
| "save_all cwd out_dir st ((identity, r) # cs) files =
     (case save_at files cwd (bundle_path out_dir identity) (st ! r) of
        (Inl x, files1) \<Rightarrow> (Inl x, files1)
      | (Inr _, files1) \<Rightarrow> save_all cwd out_dir st cs files1)"

definition enroll_manifest ::
  "prims \<Rightarrow> pystr list \<Rightarrow> py_path \<Rightarrow> manifest_entry list \<Rightarrow> pystr option \<Rightarrow> fs \<Rightarrow> urandom \<Rightarrow> (exn + int) \<times> fs" where
  "enroll_manifest P cwd out_dir manifest master_secret_hex files fresh =
     (case resolve_master_secret cwd out_dir master_secret_hex files fresh of
        (Inl x, files1) \<Rightarrow> (Inl x, files1)
      | (Inr master_secret, files1) \<Rightarrow>
          (case enroll_batch P manifest [] (new_trusted_authority (Some master_secret) fresh) [] of
             (Inl x, ta, st) \<Rightarrow>
               if x = ValueError \<or> x = KeyError \<or> x = UnicodeError then (Inr 2, files1) else (Inl x, files1)
           | (Inr creds, ta, st) \<Rightarrow>
               (case make_dirs files1 cwd out_dir of
                  (Inl x, files2) \<Rightarrow> (Inl x, files2)
                | (Inr _, files2) \<Rightarrow>
                    (case save_all cwd out_dir (share_mutual_peer_keys st (map snd creds)) creds files2 of
                       (Inl x, files3) \<Rightarrow> (Inl x, files3)
                     | (Inr _, files3) \<Rightarrow> (Inr 0, files3)))))"

definition cmd_enroll ::
  "prims \<Rightarrow> pystr list \<Rightarrow> pystr \<Rightarrow> pystr \<Rightarrow> pystr option \<Rightarrow> fs \<Rightarrow> urandom \<Rightarrow> ((exn + int) \<times> fs) option" where
  "cmd_enroll P cwd out_dir content master_secret_hex files fresh =
     (case load_manifest content of
        None \<Rightarrow> None
      | Some (Inl x) \<Rightarrow> Some (Inl x, files)
      | Some (Inr manifest) \<Rightarrow> Some (enroll_manifest P cwd (to_path out_dir) manifest master_secret_hex files fresh))"

end
