(* ===== verification/Toy.thy ===== *)
theory Toy
  imports Sync
begin

text \<open>
  A concrete instance of the primitives, for the witnesses: a digest that keeps the last 32 bytes, a
  key derivation that keeps the last bytes of its input, and a cipher that appends a tag taken from
  the key.  They have the lengths and the round trip the real ones document, and are no more secure
  than they look.
\<close>

definition keep_last :: "nat \<Rightarrow> bytes \<Rightarrow> bytes" where
  "keep_last n bs = last_n n (replicate n 0 @ bs)"

definition toy_decrypt :: "bytes \<Rightarrow> bytes \<Rightarrow> bytes \<Rightarrow> bytes \<Rightarrow> exn + bytes" where
  "toy_decrypt k n x a =
     (if \<not> (8 \<le> length n \<and> length n \<le> 128) then Inl ValueError
      else if last_n TAG_LEN x = keep_last TAG_LEN k then Inr (but_last_n TAG_LEN x) else Inl InvalidTag)"

definition toy :: prims where
  "toy = \<lparr>p_sha256 = keep_last 32, p_hkdf = (\<lambda>ikm salt info n. keep_last n ikm),
     p_gcm_encrypt = (\<lambda>k n x a. x @ keep_last TAG_LEN k), p_gcm_decrypt = toy_decrypt,
     p_ec_point = (\<lambda>v. be_bytes 65 (nat v))\<rparr>"

definition zeros :: urandom where
  "zeros n = replicate n 0"

lemma keep_last_length [simp]: "length (keep_last n bs) = n"
  by (simp add: keep_last_def)

lemma toy_sha256_ok: "sha256_ok toy"
  by (simp add: sha256_ok_def toy_def)

lemma toy_hkdf_ok: "hkdf_ok toy"
  by (simp add: hkdf_ok_def toy_def)

lemma toy_gcm_ok: "gcm_ok toy"
  by (simp add: gcm_ok_def toy_def toy_decrypt_def GCM_NONCE_LEN_def)

lemma toy_checks_iv: "gcm_checks_iv toy"
  by (simp add: gcm_checks_iv_def toy_def toy_decrypt_def)

lemma toy_ok: "prims_ok toy"
  by (simp add: prims_ok_def toy_sha256_ok toy_hkdf_ok toy_gcm_ok)

lemma zeros_ok: "urandom_ok zeros"
  by (simp add: urandom_ok_def zeros_def)

section \<open>A device and a server that know each other\<close>

abbreviation dev_id :: pystr where
  "dev_id \<equiv> lit ''device-000''"

abbreviation srv_id :: pystr where
  "srv_id \<equiv> lit ''server-A''"

definition dev_cred :: credential where
  "dev_cred = \<lparr>cred_identity = dev_id, cred_role = lit ''device'', cred_lam = 5, cred_public_point = None,
     cred_peer_secrets = [(srv_id, 7)]\<rparr>"

definition srv_cred :: credential where
  "srv_cred = \<lparr>cred_identity = srv_id, cred_role = lit ''server'', cred_lam = 7, cred_public_point = None,
     cred_peer_secrets = [(dev_id, 5)]\<rparr>"

definition toy_device :: device where
  "toy_device = \<lparr>ent_credential = dev_cred, ent_coverage_predicate = (\<lambda>_. True), ent_root_cache = Map.empty,
     dev_nonce_bits = 128, dev_session_timeout = 5, dev_log = new_session_log 3 8 16, dev_epoch = Map.empty,
     dev_epoch_clock = False, dev_pending = []\<rparr>"

definition toy_server :: "'r \<Rightarrow> 'r server" where
  "toy_server r = \<lparr>ent_credential = srv_cred, ent_coverage_predicate = (\<lambda>_. True), ent_root_cache = Map.empty,
     srv_nonce_bits = 128, srv_log = new_session_log 3 8 16, srv_resolver = r\<rparr>"

definition toy_device_env :: device_env where
  "toy_device_env = \<lparr>env_epoch_clock = 0, env_monotonic = 0, env_dev_nonce = zeros, env_dev_gcm = zeros\<rparr>"

definition toy_server_env :: server_env where
  "toy_server_env = \<lparr>env_now_resolve = 0, env_now_accept = 0, env_nonce = zeros, env_gcm = zeros\<rparr>"

definition toy_run :: handshake_env where
  "toy_run = \<lparr>he_build = toy_device_env, he_server = toy_server_env, he_complete = toy_device_env\<rparr>"

text \<open>The pseudonym of the digest is the low 24 bytes of the secret followed by the epoch.\<close>

lemma toy_pseudonym: "pseudonym toy lam t = drop 8 (be_bytes 32 (nat lam)) @ be_bytes 8 (nat t)"
  by (simp add: pseudonym_def toy_def keep_last_def last_n_def)

lemma toy_pseudonym_epoch:
  "valid_epoch e \<Longrightarrow> valid_epoch f \<Longrightarrow> pseudonym toy lam e = pseudonym toy mu f \<Longrightarrow> e = f"
proof -
  assume e: "valid_epoch e" "valid_epoch f" and eq: "pseudonym toy lam e = pseudonym toy mu f"
  from eq have "be_bytes 8 (nat e) = be_bytes 8 (nat f)" by (simp add: toy_pseudonym)
  then have "int_from_bytes (be_bytes 8 (nat e)) = int_from_bytes (be_bytes 8 (nat f))" by simp
  with e show "e = f" by (simp add: epoch_bytes_back)
qed

lemma toy_no_collisions: "E \<le> 256 ^ 8 \<Longrightarrow> no_collisions toy [(p, lam)] E"
  by (auto simp: no_collisions_def distinct_map inj_on_def valid_epoch_def intro: toy_pseudonym_epoch)

lemma toy_peers [simp]: "srv_peers (toy_server r) = [(dev_id, 5)]"
  by (simp add: toy_server_def srv_cred_def srv_peers_def)

lemma toy_names [simp]:
  "cred_identity (ent_credential toy_device) = dev_id" "cred_identity (ent_credential (toy_server r)) = srv_id"
  by (simp_all add: toy_device_def toy_server_def dev_cred_def srv_cred_def)

lemma toy_creds: "ent_credential toy_device = dev_cred" "ent_credential (toy_server r) = srv_cred"
  "cred_identity dev_cred = dev_id" "cred_identity srv_cred = srv_id"
  by (simp_all add: toy_device_def toy_server_def dev_cred_def srv_cred_def)

lemma toy_paired: "paired (ent_credential toy_device) (ent_credential (toy_server r))"
  by (simp add: paired_def toy_device_def toy_server_def dev_cred_def srv_cred_def valid_lam_def valid_str_def)

lemma toy_willing: "willing toy_device (toy_server r)"
  by (simp add: willing_def toy_device_def toy_server_def is_blocked_def coverage_ok_def new_session_log_def
      SUPPORTED_NONCE_BITS_def)

lemma toy_lam [simp]: "valid_lam 5"
  by (simp add: valid_lam_def)

lemma toy_valid_peers: "valid_peers [(dev_id, 5)]"
  by simp

lemma toy_horizon: "below_horizon (srv_log (toy_server r)) [(dev_id, 5)] 8 100"
  by (simp add: below_horizon_def toy_server_def new_session_log_def last_epoch_def)

lemma toy_linked:
  assumes "good toy 8 100 [(dev_id, 5)] (new_session_log 3 8 16) r"
  shows "linked good toy 8 100 toy_device (toy_server r)"
  using toy_paired toy_willing toy_horizon [of r] assms
  by (simp add: linked_def device_wf_def cache_ok_def)
    (simp add: toy_device_def toy_server_def)

lemma toy_linear: "linear_good toy 8 100 [(dev_id, 5)] (new_session_log 3 8 16) new_resolver"
  by (simp add: linear_good_def toy_valid_peers toy_no_collisions) (simp add: new_session_log_def)

text \<open>The table a counter table starts with, as its \<^verbatim>\<open>attach\<close> leaves it.\<close>

definition toy_table :: counter_table where
  "toy_table = snd (counter_attach toy 0 [(dev_id, 5)] (new_session_log 3 8 16) (new_counter_table None))"

lemma toy_table_good: "table_good toy 8 100 [(dev_id, 5)] (new_session_log 3 8 16) toy_table"
proof -
  have nc: "no_collisions toy [(dev_id, 5)] 100" by (rule toy_no_collisions) simp
  have hz: "below_horizon (new_session_log 3 8 16) [(dev_id, 5)] 8 100"
    using toy_horizon by (simp add: toy_server_def)
  have "forward (new_session_log 3 8 16) (new_counter_table None) = 8"
    by (simp add: forward_def new_counter_table_def new_session_log_def)
  from counter_attach_full [OF nc hz toy_valid_peers _ this, of 0] nc
  show ?thesis by (auto simp: table_good_def toy_table_def toy_valid_peers)
qed

lemma toy_gap: "epoch_gap toy_device (toy_server r) = 1"
  by (simp add: epoch_gap_def device_next_def toy_device_def toy_server_def new_session_log_def last_epoch_def)

lemma toy_next [simp]: "device_next toy_device p = 0" "dev_session_timeout toy_device = 5"
  by (simp_all add: device_next_def toy_device_def)

lemma toy_action: "action_ok 5 (Run toy_run)" "action_ok 5 (Drop toy_device_env)"
  by (simp_all add: toy_run_def toy_device_env_def toy_server_env_def zeros_ok)


section \<open>One accepted message\<close>

text \<open>The first message the device sends, and what the two servers make of it.\<close>

definition toy_msg :: bytes where
  "toy_msg = (case fst (build_auth_request toy toy_device_env srv_id toy_device) of Inr m \<Rightarrow> m | Inl _ \<Rightarrow> [])"

lemma toy_accepts:
  assumes "\<exists>k a d' s'. handshake toy ops toy_run srv_id toy_device (toy_server r) = (Inr (k, a), d', s')"
  shows "\<exists>a s1. handle_auth_request toy ops toy_server_env toy_msg (toy_server r) = (Inr a, s1)"
proof -
  obtain b d1 where b: "build_auth_request toy toy_device_env srv_id toy_device = (b, d1)" by fastforce
  with assms show ?thesis
    by (auto simp: handshake_def toy_run_def toy_msg_def split: sum.splits prod.splits)
qed

lemma toy_ready:
  "action_ok (dev_session_timeout toy_device) (Run toy_run)"
  "1 \<le> epoch_gap toy_device (toy_server r)" "epoch_gap toy_device (toy_server r) \<le> 8"
  "device_next toy_device (cred_identity (ent_credential (toy_server r))) + 8 < 100"
  using toy_action by (simp_all add: toy_gap)

lemmas toy_scan_linked = toy_linked [where good = linear_good, OF toy_linear]
lemmas toy_table_linked = toy_linked [where good = table_good, OF toy_table_good]

lemma toy_scan_run: "\<exists>k a d' s'. handshake toy linear_scan_ops toy_run srv_id toy_device (toy_server new_resolver) = (Inr (k, a), d', s')"
  using linear_cs.run_in_window [OF toy_ok toy_scan_linked toy_ready] by (auto simp del: lit_Cons)

lemma toy_table_run: "\<exists>k a d' s'. handshake toy counter_table_ops toy_run srv_id toy_device (toy_server toy_table) = (Inr (k, a), d', s')"
  using table_cs.run_in_window [OF toy_ok toy_table_linked toy_ready] by (auto simp del: lit_Cons)

lemma toy_scan_wf: "server_wf linear_wf toy (toy_server new_resolver)"
  by (simp add: server_wf_def linear_wf_def cache_ok_def) (simp add: toy_server_def)

lemma toy_table_wf: "server_wf counter_wf toy (toy_server toy_table)"
proof -
  have "counter_wf toy [(dev_id, 5)] (new_session_log 3 8 16) toy_table"
    using table_cs.good_wf [OF toy_table_good] toy_horizon by (simp add: toy_server_def)
  then show ?thesis by (simp add: server_wf_def cache_ok_def) (simp add: toy_server_def)
qed

section \<open>Two accepted messages, and a server with a blocked stranger\<close>

lemma handshake_message:
  "handshake P ops h sid d s = (Inr (k, a), d', s') \<Longrightarrow> \<exists>msg. handle_auth_request P ops (he_server h) msg s = (Inr a, s')"
  by (auto simp: handshake_def split: sum.splits prod.splits)

lemma toy_two_accepted:
  "\<exists>msg msg' a b s1 s2. handle_auth_request toy counter_table_ops toy_server_env msg (toy_server toy_table) = (Inr a, s1) \<and>
     handle_auth_request toy counter_table_ops toy_server_env msg' s1 = (Inr b, s2) \<and>
     res_peer_identity a = dev_id \<and> res_peer_identity b = dev_id"
proof -
  obtain k a d1 s1 where r1: "handshake toy counter_table_ops toy_run srv_id toy_device (toy_server toy_table) = (Inr (k, a), d1, s1)"
    "res_peer_identity a = dev_id" "linked table_good toy 8 100 d1 s1" "epoch_gap d1 s1 = 1"
    "ent_credential d1 = dev_cred" "ent_credential s1 = srv_cred" "dev_session_timeout d1 = 5" "device_next d1 srv_id = 1"
    using table_cs.run_in_window [OF toy_ok toy_table_linked toy_ready]
    by (auto simp: toy_creds simp del: lit_Cons)
  have ids: "cred_identity (ent_credential s1) = srv_id" "cred_identity (ent_credential d1) = dev_id"
    by (simp_all add: r1(5,6) srv_cred_def dev_cred_def del: lit_Cons)
  obtain k' b d2 s2 where r2: "handshake toy counter_table_ops toy_run srv_id d1 s1 = (Inr (k', b), d2, s2)"
    "res_peer_identity b = dev_id"
    using table_cs.run_in_window [OF toy_ok r1(3), of toy_run] r1(4,7,8) toy_action by (auto simp: ids simp del: lit_Cons)
  have env: "he_server toy_run = toy_server_env" by (simp add: toy_run_def)
  from handshake_message [OF r1(1)] handshake_message [OF r2(1)] r1(2) r2(2) show ?thesis
    unfolding env by blast
qed

abbreviation stranger :: pystr where
  "stranger \<equiv> lit ''mallory''"

definition toy_blocked :: "resolver server" where
  "toy_blocked = (toy_server new_resolver)\<lparr>srv_log := block_peer (new_session_log 3 8 16) stranger\<rparr>"

lemma toy_blocked_accepts:
  "is_blocked (srv_log toy_blocked) stranger" "server_wf linear_wf toy toy_blocked"
  "\<exists>msg a s1. handle_auth_request toy linear_scan_ops toy_server_env msg toy_blocked = (Inr a, s1)"
proof -
  show "is_blocked (srv_log toy_blocked) stranger" by (simp add: toy_blocked_def is_blocked_def del: lit_Cons)
  have l: "linked linear_good toy 8 100 toy_device (toy_server new_resolver)" by (rule toy_scan_linked)
  have "linked linear_good toy 8 100 toy_device toy_blocked"
    using l by (simp add: linked_def toy_blocked_def willing_def is_blocked_def coverage_ok_def cache_ok_def srv_peers_def
        linear_good_def below_horizon_def del: lit_Cons) (simp add: toy_server_def new_session_log_def)
  note lb = this
  show "server_wf linear_wf toy toy_blocked"
    using lb by (auto simp: linked_def server_wf_def intro: linear_cs.good_wf)
  have "epoch_gap toy_device toy_blocked = 1" "ent_credential toy_blocked = srv_cred"
    using toy_gap [of new_resolver] by (simp_all add: epoch_gap_def toy_blocked_def toy_server_def)
  then obtain k a d' s' where "handshake toy linear_scan_ops toy_run srv_id toy_device toy_blocked = (Inr (k, a), d', s')"
    using linear_cs.run_in_window [OF toy_ok lb, of toy_run] toy_action by (auto simp: srv_cred_def simp del: lit_Cons)
  from handshake_message [OF this]
  show "\<exists>msg a s1. handle_auth_request toy linear_scan_ops toy_server_env msg toy_blocked = (Inr a, s1)"
    by (auto simp: toy_run_def)
qed

end
