(* ===== verification/Desync.thy ===== *)
theory Desync
  imports Nodes Toy
begin

text \<open>
  The desynchronisation check (\<^verbatim>\<open>evaluation/resolution/desync_check.py\<close>): a freshly provisioned pair, a
  number of dropped first messages, three honest handshakes, and a device that lost its counter.  The
  outcomes are the texts the script prints.
\<close>

definition SERVER_ID :: pystr where
  "SERVER_ID = lit ''server-A''"

definition DEVICE_ID :: pystr where
  "DEVICE_ID = lit ''device-000''"

definition provision :: "prims \<Rightarrow> urandom \<Rightarrow> exn + credential \<times> credential" where
  "provision P u =
     (let ta = new_trusted_authority (Some (u 32)) u
      in case enroll P ta [] DEVICE_ID (lit ''device'') False of
           (Inl x, ta1, st1) \<Rightarrow> Inl x
         | (Inr device_cred, ta1, st1) \<Rightarrow>
             (case enroll P ta1 st1 SERVER_ID (lit ''server'') False of
                (Inl x, ta2, st2) \<Rightarrow> Inl x
              | (Inr server_cred, ta2, st2) \<Rightarrow>
                  let st = share_mutual_peer_keys st2 [device_cred, server_cred]
                  in Inr (st ! device_cred, st ! server_cred)))"

definition outcome_name :: "exn + 'a \<Rightarrow> pystr" where
  "outcome_name r = (case r of Inr _ \<Rightarrow> lit ''ok'' | Inl x \<Rightarrow> exn_name x)"

text \<open>\<^verbatim>\<open>Device(cred)\<close> and \<^verbatim>\<open>Server(cred)\<close> with their defaults.\<close>

definition default_device :: "credential \<Rightarrow> exn + device" where
  "default_device c = new_device c None DEFAULT_NONCE_BITS DEFAULT_SESSION_TIMEOUT_SECONDS DEFAULT_MAX_ATTEMPTS False"

definition default_server :: "prims \<Rightarrow> rat \<Rightarrow> credential \<Rightarrow> exn + resolver server" where
  "default_server P now c = new_server P linear_scan_ops now c None DEFAULT_NONCE_BITS DEFAULT_MAX_ATTEMPTS
     DEFAULT_FORWARD_TOLERANCE DEFAULT_REPLAY_LOOKBACK new_resolver"

definition fresh_pair :: "prims \<Rightarrow> urandom \<Rightarrow> rat \<Rightarrow> exn + credential \<times> device \<times> resolver server" where
  "fresh_pair P u now =
     (case provision P u of
        Inl x \<Rightarrow> Inl x
      | Inr (device_cred, server_cred) \<Rightarrow>
          (case default_device device_cred of
             Inl x \<Rightarrow> Inl x
           | Inr d \<Rightarrow> (case default_server P now server_cred of Inl x \<Rightarrow> Inl x | Inr s \<Rightarrow> Inr (device_cred, d, s))))"

text \<open>\<^verbatim>\<open>assert _handshake(device, server) == "ok"\<close>, some number of times.\<close>

fun assert_ok ::
  "prims \<Rightarrow> handshake_env list \<Rightarrow> device \<times> resolver server \<Rightarrow> exn + device \<times> resolver server" where
  "assert_ok P [] ds = Inr ds"
| "assert_ok P (h # hs) (d, s) =
     (case handshake P linear_scan_ops h SERVER_ID d s of
        (Inl x, d', s') \<Rightarrow> Inl AssertionError
      | (Inr _, d', s') \<Rightarrow> assert_ok P hs (d', s'))"

text \<open>The adversary drops the first messages: they are built and go nowhere.\<close>

fun drop_requests :: "prims \<Rightarrow> device_env list \<Rightarrow> device \<Rightarrow> exn + device" where
  "drop_requests P [] d = Inr d"
| "drop_requests P (env # envs) d =
     (case build_auth_request P env SERVER_ID d of (Inl x, d') \<Rightarrow> Inl x | (Inr _, d') \<Rightarrow> drop_requests P envs d')"

fun honest_handshakes :: "prims \<Rightarrow> handshake_env list \<Rightarrow> device \<Rightarrow> resolver server \<Rightarrow> pystr list" where
  "honest_handshakes P [] d s = []"
| "honest_handshakes P (h # hs) d s =
     (let (r, d', s') = handshake P linear_scan_ops h SERVER_ID d s in outcome_name r # honest_handshakes P hs d' s')"

definition dropped_m1 ::
  "prims \<Rightarrow> urandom \<Rightarrow> rat \<Rightarrow> device_env list \<Rightarrow> handshake_env list \<Rightarrow> handshake_env list \<Rightarrow> exn + pystr list" where
  "dropped_m1 P u now drops prior next_three =
     (case fresh_pair P u now of
        Inl x \<Rightarrow> Inl x
      | Inr (cred, d, s) \<Rightarrow>
          (case assert_ok P prior (d, s) of
             Inl x \<Rightarrow> Inl x
           | Inr (d', s') \<Rightarrow>
               (case drop_requests P drops d' of
                  Inl x \<Rightarrow> Inl x
                | Inr d'' \<Rightarrow> Inr (honest_handshakes P next_three d'' s'))))"


section \<open>The provisioned pair\<close>

definition lam_for :: "prims \<Rightarrow> urandom \<Rightarrow> pystr \<Rightarrow> int" where
  "lam_for P u i = h1_derive_secret P (map word_of_nat i) (u 32)"

lemma ids_ascii [simp]: "is_ascii DEVICE_ID" "is_ascii SERVER_ID" "DEVICE_ID \<noteq> SERVER_ID" "SERVER_ID \<noteq> DEVICE_ID"
  by (simp_all add: DEVICE_ID_def SERVER_ID_def)

lemma lam_for_valid [simp]: "valid_lam (lam_for P u i)"
  by (simp add: lam_for_def h1_valid_lam)

definition device_cred_for :: "prims \<Rightarrow> urandom \<Rightarrow> credential" where
  "device_cred_for P u = \<lparr>cred_identity = DEVICE_ID, cred_role = lit ''device'', cred_lam = lam_for P u DEVICE_ID,
     cred_public_point = None, cred_peer_secrets = [(SERVER_ID, lam_for P u SERVER_ID)]\<rparr>"

definition server_cred_for :: "prims \<Rightarrow> urandom \<Rightarrow> credential" where
  "server_cred_for P u = \<lparr>cred_identity = SERVER_ID, cred_role = lit ''server'', cred_lam = lam_for P u SERVER_ID,
     cred_public_point = None, cred_peer_secrets = [(DEVICE_ID, lam_for P u DEVICE_ID)]\<rparr>"

lemma provision_eq: "provision P u = Inr (device_cred_for P u, server_cred_for P u)"
proof -
  have d: "derive_long_term_secret P DEVICE_ID (u 32) = Inr (lam_for P u DEVICE_ID)"
    "derive_long_term_secret P SERVER_ID (u 32) = Inr (lam_for P u SERVER_ID)"
    by (simp_all add: derive_long_term_secret_def utf8_encode_ascii lam_for_def)
  have roles: "lit ''device'' \<in> set VALID_ROLES" "lit ''server'' \<in> set VALID_ROLES"
    by (simp_all add: VALID_ROLES_def del: lit_Cons)
  show ?thesis
    by (simp add: provision_def new_trusted_authority_def enroll_def roles d Let_def share_mutual_peer_keys_def
        share_peer_keys_def share_one_def device_cred_for_def server_cred_for_def del: lit_Cons)
qed

lemma provision_paired: "paired (device_cred_for P u) (server_cred_for P u)"
  by (simp add: paired_def device_cred_for_def server_cred_for_def is_ascii_valid)

definition device_for :: "prims \<Rightarrow> urandom \<Rightarrow> device" where
  "device_for P u = \<lparr>ent_credential = device_cred_for P u, ent_coverage_predicate = (\<lambda>_. True), ent_root_cache = Map.empty,
     dev_nonce_bits = DEFAULT_NONCE_BITS, dev_session_timeout = DEFAULT_SESSION_TIMEOUT_SECONDS,
     dev_log = new_session_log DEFAULT_MAX_ATTEMPTS DEFAULT_FORWARD_TOLERANCE DEFAULT_REPLAY_LOOKBACK,
     dev_epoch = Map.empty, dev_epoch_clock = False, dev_pending = []\<rparr>"

definition server_for :: "prims \<Rightarrow> urandom \<Rightarrow> resolver server" where
  "server_for P u = \<lparr>ent_credential = server_cred_for P u, ent_coverage_predicate = (\<lambda>_. True), ent_root_cache = Map.empty,
     srv_nonce_bits = DEFAULT_NONCE_BITS,
     srv_log = new_session_log DEFAULT_MAX_ATTEMPTS DEFAULT_FORWARD_TOLERANCE DEFAULT_REPLAY_LOOKBACK,
     srv_resolver = new_resolver\<rparr>"

lemma default_device_eq: "default_device (device_cred_for P u) = Inr (device_for P u)"
  by (simp add: default_device_def new_device_def device_for_def coverage_or_default_def)
    (simp add: device_cred_for_def)

lemma fresh_pair_eq: "fresh_pair P u now = Inr (device_cred_for P u, device_for P u, server_for P u)"
proof -
  have "default_server P now (server_cred_for P u) = Inr (server_for P u)"
    by (simp add: default_server_def new_server_def server_for_def coverage_or_default_def linear_scan_ops_def
        base_attach_def Let_def) (simp add: server_cred_for_def)
  then show ?thesis by (simp add: fresh_pair_def provision_eq default_device_eq)
qed

lemma fresh_fields [simp]:
  "ent_credential (device_for P u) = device_cred_for P u" "ent_credential (server_for P u) = server_cred_for P u"
  "cred_identity (device_cred_for P u) = DEVICE_ID" "cred_identity (server_cred_for P u) = SERVER_ID"
  "cred_lam (device_cred_for P u) = lam_for P u DEVICE_ID"
  "srv_peers (server_for P u) = [(DEVICE_ID, lam_for P u DEVICE_ID)]"
  "device_next (device_for P u) p = 0" "last_epoch (srv_log (server_for P u)) p = -1"
  "epoch_gap (device_for P u) (server_for P u) = 1"
  by (simp_all add: device_for_def server_for_def srv_peers_def server_cred_for_def device_cred_for_def device_next_def
      new_session_log_def last_epoch_def epoch_gap_def)

lemma fresh_linked:
  assumes "no_collisions P [(DEVICE_ID, lam_for P u DEVICE_ID)] E" "8 \<le> E" "E \<le> 256 ^ 8"
  shows "linked linear_good P 8 E (device_for P u) (server_for P u)"
proof -
  have "willing (device_for P u) (server_for P u)"
    by (simp add: willing_def coverage_ok_def is_blocked_def)
      (simp add: device_for_def server_for_def new_session_log_def DEFAULT_NONCE_BITS_def SUPPORTED_NONCE_BITS_def)
  moreover have "device_wf P (device_for P u)" using device_wf_new default_device_eq by (metis default_device_def)
  moreover have "cache_ok P (server_for P u)" "\<not> dev_epoch_clock (device_for P u)"
    by (simp_all add: cache_ok_def server_for_def device_for_def)
  moreover have "linear_good P 8 E (srv_peers (server_for P u)) (srv_log (server_for P u)) (srv_resolver (server_for P u))"
    using assms(1) by (simp add: linear_good_def)
      (simp add: server_for_def new_session_log_def DEFAULT_FORWARD_TOLERANCE_def DEFAULT_REPLAY_LOOKBACK_def)
  moreover have "below_horizon (srv_log (server_for P u)) (srv_peers (server_for P u)) 8 E"
    using assms(2,3) by (simp add: below_horizon_def)
  ultimately show ?thesis using provision_paired by (simp add: linked_def)
qed

section \<open>What the script prints\<close>

definition drop_env_ok :: "device_env \<Rightarrow> bool" where
  "drop_env_ok env \<longleftrightarrow> urandom_ok (env_dev_nonce env) \<and> urandom_ok (env_dev_gcm env)"

lemma drop_requests_gap:
  assumes "prims_ok P" "linked linear_good P F E d s" "cred_identity (ent_credential s) = SERVER_ID" "0 \<le> F"
    and "\<forall>env \<in> set envs. drop_env_ok env" "0 \<le> device_next d SERVER_ID"
    and "device_next d SERVER_ID + int (length envs) < E" "E \<le> 256 ^ 8"
  shows "\<exists>d'. drop_requests P envs d = Inr d' \<and> linked linear_good P F E d' s \<and>
    device_next d' SERVER_ID = device_next d SERVER_ID + int (length envs) \<and>
    ent_credential d' = ent_credential d \<and> dev_session_timeout d' = dev_session_timeout d"
  using assms(2,5-7)
proof (induction envs arbitrary: d)
  case Nil
  then show ?case by simp
next
  case (Cons env envs)
  have "valid_epoch (device_next d SERVER_ID)" using Cons.prems(3,4) assms(8) by (simp add: valid_epoch_def)
  then obtain msg d1 where d1: "build_auth_request P env SERVER_ID d = (Inr msg, d1)" "linked linear_good P F E d1 s"
    "device_next d1 SERVER_ID = device_next d SERVER_ID + 1" "ent_credential d1 = ent_credential d"
    "dev_session_timeout d1 = dev_session_timeout d"
    using build_of_paired [OF assms(1) Cons.prems(1), of env] Cons.prems(2) assms(3) by (auto simp: drop_env_ok_def)
  from Cons.IH [OF d1(2)] Cons.prems(2-4) d1 show ?case by auto
qed

lemma handshake_keeps_lookback:
  assumes "handshake P linear_scan_ops h sid d s = (r, d', s')" "server_wf linear_wf P s"
  shows "replay_lookback (srv_log s') = replay_lookback (srv_log s)"
proof -
  have "replay_lookback (srv_log s1) = replay_lookback (srv_log s)"
    if "handle_auth_request P linear_scan_ops env msg s = (res, s1)" for env msg res s1
    using linear.handle_history [OF assms(2) that] by auto
  with assms(1) show ?thesis by (auto simp: handshake_def split: sum.splits prod.splits)
qed

lemma linked_server_wf:
  "linked linear_good P F E d s \<Longrightarrow> server_wf linear_wf P s"
  by (auto simp: linked_def server_wf_def intro: linear_cs.good_wf)

lemma assert_ok_runs:
  assumes "prims_ok P" "linked linear_good P 8 E d s" "cred_identity (ent_credential s) = SERVER_ID" "epoch_gap d s = 1"
    and "\<forall>h \<in> set hs. action_ok (dev_session_timeout d) (Run h)" "device_next d SERVER_ID + int (length hs) + 8 < E"
  shows "\<exists>d' s'. assert_ok P hs (d, s) = Inr (d', s') \<and> linked linear_good P 8 E d' s' \<and> epoch_gap d' s' = 1 \<and>
    device_next d' SERVER_ID = device_next d SERVER_ID + int (length hs) \<and>
    ent_credential d' = ent_credential d \<and> ent_credential s' = ent_credential s \<and>
    dev_session_timeout d' = dev_session_timeout d \<and> replay_lookback (srv_log s') = replay_lookback (srv_log s)"
  using assms(2-6)
proof (induction hs arbitrary: d s)
  case Nil
  then show ?case by auto
next
  case (Cons h hs)
  have g: "1 \<le> epoch_gap d s" "epoch_gap d s \<le> 8" "action_ok (dev_session_timeout d) (Run h)"
    "device_next d (cred_identity (ent_credential s)) + 8 < E" using Cons.prems by simp_all
  obtain k a d1 s1 where r: "handshake P linear_scan_ops h SERVER_ID d s = (Inr (k, a), d1, s1)"
    "linked linear_good P 8 E d1 s1" "epoch_gap d1 s1 = 1" "ent_credential d1 = ent_credential d"
    "ent_credential s1 = ent_credential s" "dev_session_timeout d1 = dev_session_timeout d"
    "device_next d1 SERVER_ID = device_next d SERVER_ID + 1"
    using linear_cs.run_in_window [OF assms(1) Cons.prems(1) g(3,1,2,4)] Cons.prems(2) by auto
  have lb: "replay_lookback (srv_log s1) = replay_lookback (srv_log s)"
    by (rule handshake_keeps_lookback [OF r(1) linked_server_wf [OF Cons.prems(1)]])
  from Cons.IH [OF r(2) _ r(3)] Cons.prems(2,4,5) r lb show ?case by auto
qed

lemma honest_handshakes_exec:
  "honest_handshakes P hs d s = map outcome_name (fst (exec P linear_scan_ops SERVER_ID (map Run hs) d s))"
  by (induction hs arbitrary: d s) (auto split: prod.split)

lemma gap_run_runs: "1 \<le> F \<Longrightarrow> gap_run F g (map Run hs) = replicate (length hs) (g \<le> F)"
  by (induction hs arbitrary: g) auto

lemma outcomes_named:
  "list_all2 outcome_matches rs (replicate n ok) \<Longrightarrow>
     map outcome_name rs = replicate n (if ok then lit ''ok'' else lit ''UnknownPeerError'')"
proof (induction n arbitrary: rs)
  case 0
  then show ?case by simp
next
  case (Suc n)
  then obtain r rs' where rs: "rs = r # rs'" "outcome_matches r ok" "list_all2 outcome_matches rs' (replicate n ok)"
    by (auto simp: list_all2_Cons2)
  from rs(2) have "outcome_name r = (if ok then lit ''ok'' else lit ''UnknownPeerError'')"
    by (auto simp: outcome_matches_def outcome_name_def exn_name_def split: if_splits)
  with Suc.IH [OF rs(3)] rs(1) show ?case by (simp del: lit_Cons)
qed

lemma fresh_timeout [simp]: "dev_session_timeout (device_for P u) = DEFAULT_SESSION_TIMEOUT_SECONDS"
  by (simp add: device_for_def)

text \<open>
  C10: what a burst of lost messages does.  With the default windows, whether or not honest runs came
  before, a burst of at most seven dropped first messages is survived by every later handshake, and
  after a longer burst every later handshake fails with \<^verbatim>\<open>UnknownPeerError\<close>: the pair never recovers.
\<close>

theorem dropped_m1_outcomes:
  assumes "prims_ok P" "no_collisions P [(DEVICE_ID, lam_for P u DEVICE_ID)] E" "E \<le> 256 ^ 8"
    and "\<forall>env \<in> set drops. drop_env_ok env"
    and "\<forall>h \<in> set (prior @ runs). action_ok DEFAULT_SESSION_TIMEOUT_SECONDS (Run h)"
    and "int (length prior + length drops + length runs) + 8 < E"
  shows "dropped_m1 P u now drops prior runs =
    Inr (replicate (length runs) (if length drops \<le> 7 then lit ''ok'' else lit ''UnknownPeerError''))"
proof -
  have l0: "linked linear_good P 8 E (device_for P u) (server_for P u)"
    by (rule fresh_linked) (use assms in auto)
  obtain d1 s1 where a: "assert_ok P prior (device_for P u, server_for P u) = Inr (d1, s1)"
    "linked linear_good P 8 E d1 s1" "epoch_gap d1 s1 = 1" "device_next d1 SERVER_ID = int (length prior)"
    "ent_credential d1 = device_cred_for P u" "ent_credential s1 = server_cred_for P u"
    "dev_session_timeout d1 = DEFAULT_SESSION_TIMEOUT_SECONDS"
    using assert_ok_runs [OF assms(1) l0, of prior] assms(5,6) by auto
  have sid: "cred_identity (ent_credential s1) = SERVER_ID" by (simp add: a(6))
  obtain d2 where b: "drop_requests P drops d1 = Inr d2" "linked linear_good P 8 E d2 s1"
    "device_next d2 SERVER_ID = int (length prior) + int (length drops)"
    "ent_credential d2 = device_cred_for P u" "dev_session_timeout d2 = DEFAULT_SESSION_TIMEOUT_SECONDS"
    using drop_requests_gap [OF assms(1) a(2) sid _ assms(4)] a(4,5,7) assms(3,6) by auto
  have gap: "epoch_gap d2 s1 = 1 + int (length drops)"
    using a(3-5) b(3,4) sid by (simp add: epoch_gap_def)
  have "list_all2 outcome_matches (fst (exec P linear_scan_ops (cred_identity (ent_credential s1)) (map Run runs) d2 s1))
      (gap_run 8 (epoch_gap d2 s1) (map Run runs))"
    by (rule linear_cs.exec_simulates [OF assms(1) b(2)]) (use assms(5,6) b sid gap in auto)
  from outcomes_named [OF this [unfolded gap_run_runs [of 8, simplified] sid]] gap a(1) b(1) show ?thesis
    by (simp add: dropped_m1_def fresh_pair_eq honest_handshakes_exec del: lit_Cons)
qed

theorem dropped_m1_outcomes_witness:
  "dropped_m1 toy zeros 0 (replicate 8 toy_device_env) [toy_run] [toy_run, toy_run, toy_run] =
     Inr [lit ''UnknownPeerError'', lit ''UnknownPeerError'', lit ''UnknownPeerError'']"
  using dropped_m1_outcomes [OF toy_ok toy_no_collisions [of 100], of "replicate 8 toy_device_env" "[toy_run]"
      "[toy_run, toy_run, toy_run]" zeros 0] toy_action
  by (simp add: drop_env_ok_def toy_device_env_def zeros_ok DEFAULT_SESSION_TIMEOUT_SECONDS_def del: lit_Cons)




end
