(* ===== verification/TimeMemory.thy ===== *)
theory TimeMemory
  imports LinearScan
begin

text \<open>
  The time-memory trade-off strategy (class \<^verbatim>\<open>TimeMemoryTable\<close>).  A point stands for a device and an
  epoch below the lifetime; chains of points are kept by their two ends only.

  The generator \<^verbatim>\<open>random.Random(seed)\<close> is the field \<open>tm_rng\<close>: the result of its \<open>k\<close>-th call of
  \<^verbatim>\<open>sample(range(n), m)\<close>.  The default chain length, \<^verbatim>\<open>round(S ** (1 / 3))\<close> in floating point, is the
  integer nearest to the cube root; the two agree below \<open>10 ^ 9\<close> points.
\<close>

record time_memory = resolver +
  tm_lifetime :: int
  tm_n_tables :: int
  tm_chain_length_arg :: "int option"
  tm_chains_per_table_arg :: "int option"
  tm_rng :: "nat \<Rightarrow> int \<Rightarrow> int \<Rightarrow> int list"
  tm_peers :: "pystr list"
  tm_lams :: "int list"
  tm_ends :: "(int \<times> int) list list"
  tm_false_alarms :: int

definition new_time_memory ::
  "int \<Rightarrow> int \<Rightarrow> int option \<Rightarrow> int option \<Rightarrow> (nat \<Rightarrow> int \<Rightarrow> int \<Rightarrow> int list) \<Rightarrow> time_memory" where
  "new_time_memory lifetime tables chain_len per_table rng =
     \<lparr>probes = 0, precompute_probes = 0, tm_lifetime = lifetime, tm_n_tables = tables,
      tm_chain_length_arg = chain_len, tm_chains_per_table_arg = per_table, tm_rng = rng,
      tm_peers = [], tm_lams = [], tm_ends = [], tm_false_alarms = 0\<rparr>"

section \<open>Parameters\<close>

definition tm_space :: "time_memory \<Rightarrow> int" where
  "tm_space r = int (length (tm_peers r)) * tm_lifetime r"

function cube_root_from :: "nat \<Rightarrow> nat \<Rightarrow> nat" where
  "cube_root_from S r = (if (2 * r + 1) ^ 3 \<le> 8 * S then cube_root_from S (Suc r) else r)"
  by auto

lemma cube_root_step:
  assumes "(2 * r + 1) ^ 3 \<le> 8 * (S :: nat)"
  shows "r \<le> S"
proof -
  have "(2 * r + 1) ^ 3 = 1 + 6 * r + 12 * (r * r) + 8 * (r * (r * r))" by (simp add: power3_eq_cube algebra_simps)
  moreover have "r \<le> r * r" by (rule le_square)
  ultimately show ?thesis using assms by linarith
qed

lemma cube_root_decreases: "Suc (2 * r) ^ 3 \<le> 8 * S \<Longrightarrow> S - r < Suc S - r"
  using cube_root_step [of r S] by simp

termination cube_root_from
  by (relation "measure (\<lambda>(S, r). Suc S - r)") (simp_all add: cube_root_decreases)

declare cube_root_from.simps [simp del]

text \<open>Half a unit below and above: the result is the integer nearest to the cube root.\<close>

lemma cube_root_nearest:
  "r = 0 \<or> (2 * r - 1) ^ 3 \<le> 8 * S \<Longrightarrow> c = cube_root_from S r \<Longrightarrow>
     (c = 0 \<or> (2 * c - 1) ^ 3 \<le> 8 * S) \<and> 8 * S < (2 * c + 1) ^ 3"
proof (induction S r rule: cube_root_from.induct)
  case (1 S r)
  show ?case
  proof (cases "(2 * r + 1) ^ 3 \<le> 8 * S")
    case True
    then have "Suc r = 0 \<or> (2 * Suc r - 1) ^ 3 \<le> 8 * S" by simp
    moreover have "c = cube_root_from S (Suc r)" using 1(3) True by (simp add: cube_root_from.simps [of S r])
    ultimately show ?thesis by (rule 1(1) [OF True])
  next
    case False
    with 1(2,3) show ?thesis by (simp add: cube_root_from.simps [of S r])
  qed
qed

definition tm_chain_length :: "time_memory \<Rightarrow> exn + int" where
  "tm_chain_length r =
     (case tm_chain_length_arg r of
        Some c \<Rightarrow> Inr c
      | None \<Rightarrow> if tm_space r < 0 then Inl TypeError else Inr (max 1 (int (cube_root_from (nat (tm_space r)) 0))))"

definition tm_chains_per_table :: "time_memory \<Rightarrow> exn + int" where
  "tm_chains_per_table r =
     (case tm_chains_per_table_arg r of
        Some c \<Rightarrow> Inr c
      | None \<Rightarrow>
          (case tm_chain_length r of
             Inl x \<Rightarrow> Inl x
           | Inr c \<Rightarrow> if c = 0 then Inl ZeroDivisionError else Inr (max 1 (- (-2 * tm_space r div c)))))"

section \<open>Points\<close>

text \<open>\<^verbatim>\<open>l[i]\<close>, with Python's negative indices.\<close>

definition py_index :: "'a list \<Rightarrow> int \<Rightarrow> exn + 'a" where
  "py_index l i =
     (let n = int (length l); k = (if i < 0 then i + n else i)
      in if 0 \<le> k \<and> k < n then Inr (l ! nat k) else Inl IndexError)"

definition tm_f :: "prims \<Rightarrow> bool \<Rightarrow> int \<Rightarrow> time_memory \<Rightarrow> (exn + bytes) \<times> time_memory" where
  "tm_f P precompute x r =
     (if tm_lifetime r = 0 then (Inl ZeroDivisionError, r)
      else case py_index (tm_lams r) (x div tm_lifetime r) of
             Inl y \<Rightarrow> (Inl y, r)
           | Inr lam \<Rightarrow> h2_counted P lam (x mod tm_lifetime r) precompute r)"

definition tm_reduce :: "bytes \<Rightarrow> int \<Rightarrow> int \<Rightarrow> time_memory \<Rightarrow> exn + int" where
  "tm_reduce digest column table r =
     (if tm_space r = 0 then Inl ZeroDivisionError
      else Inr ((int_from_bytes (take 8 digest) + column + table * 1000003) mod tm_space r))"

text \<open>\<^verbatim>\<open>for j in columns: x = self._reduce(self._f(x), j, table)\<close>\<close>

fun tm_walk :: "prims \<Rightarrow> bool \<Rightarrow> int \<Rightarrow> int list \<Rightarrow> int \<Rightarrow> time_memory \<Rightarrow> (exn + int) \<times> time_memory" where
  "tm_walk P precompute table [] x r = (Inr x, r)"
| "tm_walk P precompute table (j # js) x r =
     (case tm_f P precompute x r of
        (Inl y, r') \<Rightarrow> (Inl y, r')
      | (Inr digest, r') \<Rightarrow>
          (case tm_reduce digest j table r' of
             Inl y \<Rightarrow> (Inl y, r')
           | Inr z \<Rightarrow> tm_walk P precompute table js z r'))"

section \<open>Building the tables\<close>

definition keep_first :: "int \<Rightarrow> int \<Rightarrow> (int \<times> int) list \<Rightarrow> (int \<times> int) list" where
  "keep_first x start ends = (if map_of ends x = None then AList.update x start ends else ends)"

fun tm_chains ::
  "prims \<Rightarrow> int \<Rightarrow> int \<Rightarrow> int list \<Rightarrow> (int \<times> int) list \<Rightarrow> time_memory \<Rightarrow> (exn + (int \<times> int) list) \<times> time_memory" where
  "tm_chains P tau table [] ends r = (Inr ends, r)"
| "tm_chains P tau table (start # ss) ends r =
     (case tm_walk P True table [0 .. tau - 1] start r of
        (Inl y, r') \<Rightarrow> (Inl y, r')
      | (Inr x, r') \<Rightarrow> tm_chains P tau table ss (keep_first x start ends) r')"

fun tm_build :: "prims \<Rightarrow> int \<Rightarrow> int list \<Rightarrow> time_memory \<Rightarrow> (exn + unit) \<times> time_memory" where
  "tm_build P tau [] r = (Inr (), r)"
| "tm_build P tau (table # ts) r =
     (case tm_chains_per_table r of
        Inl y \<Rightarrow> (Inl y, r)
      | Inr c \<Rightarrow>
          let m = min c (tm_space r)
          in if m < 0 then (Inl ValueError, r)
             else (case tm_chains P tau table (tm_rng r (nat table) (tm_space r) m) [] r of
                     (Inl y, r') \<Rightarrow> (Inl y, r')
                   | (Inr ends, r') \<Rightarrow> tm_build P tau ts (r'\<lparr>tm_ends := tm_ends r' @ [ends]\<rparr>)))"

definition tm_attach ::
  "prims \<Rightarrow> rat \<Rightarrow> peers \<Rightarrow> session_log \<Rightarrow> time_memory \<Rightarrow> (exn + unit) \<times> time_memory" where
  "tm_attach P now ps sl r =
     (let r1 = r\<lparr>tm_peers := map fst ps, tm_lams := map snd ps, tm_ends := []\<rparr>
      in case tm_chain_length r1 of
           Inl y \<Rightarrow> (Inl y, r1)
         | Inr tau \<Rightarrow> tm_build P tau [0 .. tm_n_tables r1 - 1] r1)"

section \<open>Looking a pseudonym up\<close>

definition tm_try ::
  "prims \<Rightarrow> bytes \<Rightarrow> int \<Rightarrow> int \<Rightarrow> (int \<times> int) list \<Rightarrow> int \<Rightarrow> time_memory \<Rightarrow> (exn + int option) \<times> time_memory" where
  "tm_try P pid tau table ends column r =
     (case tm_reduce pid column table r of
        Inl y \<Rightarrow> (Inl y, r)
      | Inr z0 \<Rightarrow>
          (case tm_walk P False table [column + 1 .. tau - 1] z0 r of
             (Inl y, r1) \<Rightarrow> (Inl y, r1)
           | (Inr z, r1) \<Rightarrow>
               (case map_of ends z of
                  None \<Rightarrow> (Inr None, r1)
                | Some start \<Rightarrow>
                    (case tm_walk P False table [0 .. column - 1] start r1 of
                       (Inl y, r2) \<Rightarrow> (Inl y, r2)
                     | (Inr x, r2) \<Rightarrow>
                         (case tm_f P False x r2 of
                            (Inl y, r3) \<Rightarrow> (Inl y, r3)
                          | (Inr digest, r3) \<Rightarrow>
                              if digest = pid then (Inr (Some x), r3)
                              else (Inr None, r3\<lparr>tm_false_alarms := tm_false_alarms r3 + 1\<rparr>))))))"

fun tm_columns ::
  "prims \<Rightarrow> bytes \<Rightarrow> int \<Rightarrow> int \<Rightarrow> (int \<times> int) list \<Rightarrow> int list \<Rightarrow> time_memory \<Rightarrow> (exn + int option) \<times> time_memory" where
  "tm_columns P pid tau table ends [] r = (Inr None, r)"
| "tm_columns P pid tau table ends (column # cs) r =
     (case tm_try P pid tau table ends column r of
        (Inl y, r') \<Rightarrow> (Inl y, r')
      | (Inr (Some x), r') \<Rightarrow> (Inr (Some x), r')
      | (Inr None, r') \<Rightarrow> tm_columns P pid tau table ends cs r')"

fun tm_tables ::
  "prims \<Rightarrow> bytes \<Rightarrow> int \<Rightarrow> (nat \<times> (int \<times> int) list) list \<Rightarrow> time_memory \<Rightarrow> (exn + int option) \<times> time_memory" where
  "tm_tables P pid tau [] r = (Inr None, r)"
| "tm_tables P pid tau ((table, ends) # ts) r =
     (case tm_columns P pid tau (int table) ends (rev [0 .. tau - 1]) r of
        (Inl y, r') \<Rightarrow> (Inl y, r')
      | (Inr (Some x), r') \<Rightarrow> (Inr (Some x), r')
      | (Inr None, r') \<Rightarrow> tm_tables P pid tau ts r')"

definition tm_lookup :: "prims \<Rightarrow> bytes \<Rightarrow> time_memory \<Rightarrow> (exn + int option) \<times> time_memory" where
  "tm_lookup P pid r =
     (case tm_chain_length r of
        Inl y \<Rightarrow> (Inl y, r)
      | Inr tau \<Rightarrow> tm_tables P pid tau (enumerate 0 (tm_ends r)) r)"

definition tm_resolve ::
  "prims \<Rightarrow> rat \<Rightarrow> peers \<Rightarrow> session_log \<Rightarrow> bytes \<Rightarrow> time_memory \<Rightarrow> (exn + pystr \<times> int) \<times> time_memory" where
  "tm_resolve P now ps sl pid r =
     (case tm_lookup P pid r of
        (Inl y, r') \<Rightarrow> (Inl y, r')
      | (Inr None, r') \<Rightarrow> (Inl UnknownPeerError, r')
      | (Inr (Some x), r') \<Rightarrow>
          if tm_lifetime r' = 0 then (Inl ZeroDivisionError, r')
          else (case py_index (tm_peers r') (x div tm_lifetime r') of
                  Inl y \<Rightarrow> (Inl y, r')
                | Inr peer \<Rightarrow>
                    let epoch = x mod tm_lifetime r'
                    in if is_stale_epoch sl peer epoch then (Inl (ReplayDetected peer epoch), r')
                       else (Inr (peer, epoch), r')))"

definition tm_storage_bytes :: "peers \<Rightarrow> time_memory \<Rightarrow> int" where
  "tm_storage_bytes ps r =
     CHAIN_RECORD_BYTES * (\<Sum>e \<leftarrow> tm_ends r. int (length e)) + COUNTER_BYTES * int (length (tm_peers r))"

definition time_memory_ops :: "time_memory resolver_ops" where
  "time_memory_ops = \<lparr>ro_attach = tm_attach, ro_resolve = tm_resolve, ro_accept = base_accept,
     ro_storage_bytes = tm_storage_bytes\<rparr>"

section \<open>Coverage\<close>

text \<open>The set of covered points, without repetition, in the order in which they are met.\<close>

fun tm_cover_chain ::
  "prims \<Rightarrow> int \<Rightarrow> int list \<Rightarrow> int \<Rightarrow> int list \<Rightarrow> time_memory \<Rightarrow> (exn + int list) \<times> time_memory" where
  "tm_cover_chain P table [] x seen r = (Inr seen, r)"
| "tm_cover_chain P table (j # js) x seen r =
     (let seen' = (if x \<in> set seen then seen else seen @ [x])
      in case tm_f P True x r of
           (Inl y, r') \<Rightarrow> (Inl y, r')
         | (Inr digest, r') \<Rightarrow>
             (case tm_reduce digest j table r' of
                Inl y \<Rightarrow> (Inl y, r')
              | Inr z \<Rightarrow> tm_cover_chain P table js z seen' r'))"

fun tm_cover :: "prims \<Rightarrow> int \<Rightarrow> (int \<times> int) list \<Rightarrow> int list \<Rightarrow> time_memory \<Rightarrow> (exn + int list) \<times> time_memory" where
  "tm_cover P tau [] seen r = (Inr seen, r)"
| "tm_cover P tau ((table, start) # ss) seen r =
     (case tm_cover_chain P table [0 .. tau - 1] start seen r of
        (Inl y, r') \<Rightarrow> (Inl y, r')
      | (Inr seen', r') \<Rightarrow> tm_cover P tau ss seen' r')"

definition tm_coverage :: "prims \<Rightarrow> time_memory \<Rightarrow> (exn + rat) \<times> time_memory" where
  "tm_coverage P r =
     (case tm_chain_length r of
        Inl y \<Rightarrow> (Inl y, r)
      | Inr tau \<Rightarrow>
          (case tm_cover P tau (concat (map (\<lambda>(t, ends). map (\<lambda>(_, s). (int t, s)) ends) (enumerate 0 (tm_ends r)))) [] r of
             (Inl y, r') \<Rightarrow> (Inl y, r')
           | (Inr covered, r') \<Rightarrow>
               let r'' = r'\<lparr>probes := probes r, precompute_probes := precompute_probes r\<rparr>
               in (if tm_space r = 0 then Inl ZeroDivisionError
                   else Inr (of_nat (length covered) / of_int (tm_space r)), r'')))"

end
