(* ===== verification/TimeMemory_Complete.thy ===== *)
theory TimeMemory_Complete
  imports TimeMemory
begin

text \<open>
  What the time-memory trade-off finds.  A point is covered when it lies on a chain that a table kept;
  the lookup finds exactly the covered points, at a cost that is at most quadratic in the chain length.
\<close>

section \<open>The strategy names only enrolled peers and fresh epochs\<close>

definition tm_wf :: "prims \<Rightarrow> peers \<Rightarrow> session_log \<Rightarrow> time_memory \<Rightarrow> bool" where
  "tm_wf P ps sl r \<longleftrightarrow> distinct (map fst ps) \<and> tm_peers r = map fst ps \<and> tm_lams r = map snd ps"

text \<open>Every step of a lookup changes the counters only.\<close>

definition same_tables :: "time_memory \<Rightarrow> time_memory \<Rightarrow> bool" where
  "same_tables a b \<longleftrightarrow> tm_lifetime a = tm_lifetime b \<and> tm_peers a = tm_peers b \<and> tm_lams a = tm_lams b \<and>
     tm_ends a = tm_ends b \<and> tm_n_tables a = tm_n_tables b \<and> tm_chain_length_arg a = tm_chain_length_arg b \<and>
     tm_chains_per_table_arg a = tm_chains_per_table_arg b \<and> tm_rng a = tm_rng b"

lemma same_tables_simps [simp]:
  "same_tables a a"
  "same_tables (add_probes n a) b \<longleftrightarrow> same_tables a b"
  "same_tables (add_precompute n a) b \<longleftrightarrow> same_tables a b"
  "same_tables (a\<lparr>tm_false_alarms := k\<rparr>) b \<longleftrightarrow> same_tables a b"
  by (simp_all add: same_tables_def add_probes_def add_precompute_def)

lemma same_tables_trans: "same_tables a b \<Longrightarrow> same_tables b c \<Longrightarrow> same_tables a c"
  by (simp add: same_tables_def)

lemma tm_f_same: "tm_f P pre x r = (res, r') \<Longrightarrow> same_tables r' r"
  by (auto simp: tm_f_def h2_counted_eq split: if_splits sum.splits)

lemma tm_walk_same: "tm_walk P pre t js x r = (res, r') \<Longrightarrow> same_tables r' r"
  by (induction js arbitrary: x r)
    (auto split: prod.splits sum.splits dest: tm_f_same intro: same_tables_trans)

lemma tm_f_sound:
  "tm_f P pre x r = (Inr h, r') \<Longrightarrow> \<exists>lam. tm_lifetime r \<noteq> 0 \<and> py_index (tm_lams r) (x div tm_lifetime r) = Inr lam \<and>
     h2_pseudonym P lam (x mod tm_lifetime r) = Inr h"
  by (auto simp: tm_f_def h2_counted_eq split: if_splits sum.splits)

lemma tm_try_step:
  assumes "tm_try P pid tau t ends c r = (res, r')"
  shows "same_tables r' r \<and> (\<forall>x. res = Inr (Some x) \<longrightarrow> (\<exists>r2 r3. same_tables r2 r \<and> tm_f P False x r2 = (Inr pid, r3)))"
proof -
  have f: "same_tables b a" if "tm_f P False x a = (res', b)" for x a b and res' :: "exn + bytes"
    using that by (rule tm_f_same)
  show ?thesis
  proof (cases "tm_reduce pid c t r")
    case (Inl y)
    with assms show ?thesis by (auto simp: tm_try_def)
  next
    case z0: (Inr z0)
    obtain w1 r1 where w1: "tm_walk P False t [c + 1 .. tau - 1] z0 r = (w1, r1)" by fastforce
    note s1 = tm_walk_same [OF w1]
    show ?thesis
    proof (cases "\<exists>z start. w1 = Inr z \<and> map_of ends z = Some start")
      case False
      with assms z0 w1 s1 show ?thesis by (cases w1) (auto simp: tm_try_def split: option.splits)
    next
      case True
      then obtain z start where z: "w1 = Inr z" "map_of ends z = Some start" by blast
      obtain w2 r2 where w2: "tm_walk P False t [0 .. c - 1] start r1 = (w2, r2)" by fastforce
      have s2: "same_tables r2 r" using tm_walk_same [OF w2] s1 by (rule same_tables_trans)
      show ?thesis
      proof (cases w2)
        case (Inl y)
        with assms z0 w1 z w2 s2 show ?thesis by (auto simp: tm_try_def)
      next
        case (Inr x)
        obtain w3 r3 where w3: "tm_f P False x r2 = (w3, r3)" by fastforce
        have s3: "same_tables r3 r" using f [OF w3] s2 by (rule same_tables_trans)
        show ?thesis
        proof (cases w3)
          case (Inl y)
          with assms z0 w1 z w2 Inr w3 s3 show ?thesis by (auto simp: tm_try_def)
        next
          case d: (Inr d)
          show ?thesis
          proof (cases "d = pid")
            case True
            with assms z0 w1 z w2 Inr w3 d have "res = Inr (Some x)" "r' = r3" by (simp_all add: tm_try_def)
            with s2 s3 w3 d True show ?thesis by auto
          next
            case False
            with assms z0 w1 z w2 Inr w3 d
            have "res = Inr None" "r' = r3\<lparr>tm_false_alarms := tm_false_alarms r3 + 1\<rparr>" by (auto simp: tm_try_def)
            with s3 show ?thesis by simp
          qed
        qed
      qed
    qed
  qed
qed

definition found :: "prims \<Rightarrow> bytes \<Rightarrow> time_memory \<Rightarrow> exn + int option \<Rightarrow> bool" where
  "found P pid r res \<longleftrightarrow> (\<forall>x. res = Inr (Some x) \<longrightarrow> (\<exists>r2 r3. same_tables r2 r \<and> tm_f P False x r2 = (Inr pid, r3)))"

lemma found_trans: "found P pid r1 res \<Longrightarrow> same_tables r1 r \<Longrightarrow> found P pid r res"
  unfolding found_def by (blast intro: same_tables_trans)

lemma found_None [simp]: "found P pid r (Inl y)" "found P pid r (Inr None)"
  by (simp_all add: found_def)

lemma tm_columns_step:
  "tm_columns P pid tau t ends cs r = (res, r') \<Longrightarrow> same_tables r' r \<and> found P pid r res"
proof (induction cs arbitrary: r)
  case Nil
  then show ?case by auto
next
  case (Cons c cs)
  obtain w r1 where w: "tm_try P pid tau t ends c r = (w, r1)" by fastforce
  from tm_try_step [OF w] have s: "same_tables r1 r" "found P pid r w" by (simp_all add: found_def)
  consider y where "w = Inl y" | x where "w = Inr (Some x)" | "w = Inr None" by (metis not_None_eq sum.exhaust)
  then show ?case
  proof cases
    case 3
    with Cons.prems w have "tm_columns P pid tau t ends cs r1 = (res, r')" by simp
    from Cons.IH [OF this] s show ?thesis by (meson same_tables_trans found_trans)
  qed (use Cons.prems w s in auto)
qed

lemma tm_tables_step:
  "tm_tables P pid tau ts r = (res, r') \<Longrightarrow> same_tables r' r \<and> found P pid r res"
proof (induction ts arbitrary: r)
  case Nil
  then show ?case by auto
next
  case (Cons te ts)
  obtain t ends where te: "te = (t, ends)" by (cases te)
  obtain w r1 where w: "tm_columns P pid tau (int t) ends (rev [0 .. tau - 1]) r = (w, r1)" by fastforce
  note s = tm_columns_step [OF w]
  consider y where "w = Inl y" | x where "w = Inr (Some x)" | "w = Inr None" by (metis not_None_eq sum.exhaust)
  then show ?case
  proof cases
    case 3
    with Cons.prems w te have "tm_tables P pid tau ts r1 = (res, r')" by simp
    from Cons.IH [OF this] s show ?thesis by (meson same_tables_trans found_trans)
  qed (use Cons.prems w s te in auto)
qed

lemma tm_lookup_step:
  "tm_lookup P pid r = (res, r') \<Longrightarrow> same_tables r' r \<and> found P pid r res"
  by (auto simp: tm_lookup_def split: sum.splits dest: tm_tables_step)

lemma py_index_map: "py_index (map f l) i = map_sum id f (py_index l i)"
  by (simp add: py_index_def Let_def)

lemma py_index_mem: "py_index l i = Inr x \<Longrightarrow> x \<in> set l"
  by (auto simp: py_index_def Let_def split: if_splits)

lemma tm_resolve_same: "tm_resolve P now ps sl pid r = (res, r') \<Longrightarrow> same_tables r' r"
  by (auto simp: tm_resolve_def Let_def split: sum.splits option.splits prod.splits if_splits dest: tm_lookup_step)

lemma tm_resolve_sound:
  assumes "tm_wf P ps sl r" "tm_resolve P now ps sl pid r = (Inr (p, e), r')"
  shows "(\<exists>lam. map_of ps p = Some lam \<and> h2_pseudonym P lam e = Inr pid) \<and> last_epoch sl p < e"
proof -
  from assms(2) obtain x where l: "tm_lookup P pid r = (Inr (Some x), r')"
    and i: "py_index (tm_peers r') (x div tm_lifetime r') = Inr p" "e = x mod tm_lifetime r'" "\<not> is_stale_epoch sl p e"
    by (auto simp: tm_resolve_def Let_def split: sum.splits option.splits prod.splits if_splits)
  from tm_lookup_step [OF l] obtain r2 r3 where s: "same_tables r' r" "same_tables r2 r" and f: "tm_f P False x r2 = (Inr pid, r3)"
    by (auto simp: found_def)
  from tm_f_sound [OF f] s assms(1) obtain lam where
    lam: "py_index (map snd ps) (x div tm_lifetime r) = Inr lam" "h2_pseudonym P lam (x mod tm_lifetime r) = Inr pid"
    by (auto simp: same_tables_def tm_wf_def)
  from i(1) s(1) assms(1) have "py_index (map fst ps) (x div tm_lifetime r) = Inr p" by (simp add: same_tables_def tm_wf_def)
  then obtain q where q: "py_index ps (x div tm_lifetime r) = Inr q" "fst q = p"
    unfolding py_index_map by (cases "py_index ps (x div tm_lifetime r)") auto
  with lam(1) have "snd q = lam" unfolding py_index_map by simp
  with q py_index_mem [OF q(1)] assms(1) have "map_of ps p = Some lam"
    by (cases q) (auto simp: tm_wf_def)
  with lam(2) i(2,3) s(1) show ?thesis by (auto simp: is_stale_epoch_def same_tables_def)
qed

lemma tm_chains_same: "tm_chains P tau t ss ends r = (res, r') \<Longrightarrow> same_tables r' r"
proof (induction ss arbitrary: ends r)
  case Nil
  then show ?case by auto
next
  case (Cons s ss)
  obtain w r1 where w: "tm_walk P True t [0 .. tau - 1] s r = (w, r1)" by fastforce
  note tm_walk_same [OF w]
  with Cons w show ?case by (cases w) (auto intro: same_tables_trans)
qed

lemma tm_build_peers:
  "tm_build P tau ts r = (res, r') \<Longrightarrow> tm_peers r' = tm_peers r \<and> tm_lams r' = tm_lams r \<and> tm_lifetime r' = tm_lifetime r"
proof (induction ts arbitrary: r)
  case Nil
  then show ?case by simp
next
  case (Cons t ts)
  show ?case
  proof (cases "\<exists>c. tm_chains_per_table r = Inr c \<and> \<not> min c (tm_space r) < 0")
    case False
    with Cons.prems show ?thesis by (auto simp: Let_def split: sum.splits if_splits)
  next
    case True
    then obtain c where c: "tm_chains_per_table r = Inr c" "\<not> min c (tm_space r) < 0" by blast
    obtain w r1 where w: "tm_chains P tau t (tm_rng r (nat t) (tm_space r) (min c (tm_space r))) [] r = (w, r1)" by fastforce
    note s = tm_chains_same [OF w]
    show ?thesis
    proof (cases w)
      case (Inl y)
      with Cons.prems c w s show ?thesis by (simp add: Let_def same_tables_def)
    next
      case (Inr ends)
      with Cons.prems c w have "tm_build P tau ts (r1\<lparr>tm_ends := tm_ends r1 @ [ends]\<rparr>) = (res, r')" by (simp add: Let_def)
      from Cons.IH [OF this] s show ?thesis by (simp add: same_tables_def)
    qed
  qed
qed

interpretation time_mem: fresh_resolver time_memory_ops tm_wf
proof (unfold_locales, goal_cases)
  case (1 P ps sl r now pid res r')
  then show ?case by (auto simp: time_memory_ops_def tm_wf_def same_tables_def dest: tm_resolve_same)
next
  case (2 P ps sl r now pid p e r')
  then show ?case using tm_resolve_sound by (simp add: time_memory_ops_def)
next
  case (6 ps P now sl r r')
  then show ?case
    by (auto simp: time_memory_ops_def tm_attach_def tm_wf_def Let_def split: sum.splits dest: tm_build_peers)
next
  case (8 P ps sl r now pid p e r')
  then show ?case using tm_resolve_sound by (simp add: time_memory_ops_def)
qed (auto simp: time_memory_ops_def base_accept_def tm_wf_def)

section \<open>Chains as functions\<close>

definition point_hash :: "prims \<Rightarrow> peers \<Rightarrow> int \<Rightarrow> int \<Rightarrow> bytes" where
  "point_hash P ps L x = pseudonym P (snd (ps ! nat (x div L))) (x mod L)"

definition reduced :: "peers \<Rightarrow> int \<Rightarrow> int \<Rightarrow> bytes \<Rightarrow> int \<Rightarrow> int" where
  "reduced ps L t digest j = (int_from_bytes (take 8 digest) + j + t * 1000003) mod (int (length ps) * L)"

definition chain_to :: "prims \<Rightarrow> peers \<Rightarrow> int \<Rightarrow> int \<Rightarrow> int list \<Rightarrow> int \<Rightarrow> int" where
  "chain_to P ps L t js x = foldl (\<lambda>x j. reduced ps L t (point_hash P ps L x) j) x js"

definition in_space :: "peers \<Rightarrow> int \<Rightarrow> int \<Rightarrow> bool" where
  "in_space ps L x \<longleftrightarrow> 0 \<le> x \<and> x < int (length ps) * L"

definition tm_ready :: "prims \<Rightarrow> peers \<Rightarrow> time_memory \<Rightarrow> bool" where
  "tm_ready P ps r \<longleftrightarrow> tm_peers r = map fst ps \<and> tm_lams r = map snd ps \<and> valid_peers ps \<and> ps \<noteq> [] \<and>
     0 < tm_lifetime r \<and> tm_lifetime r \<le> 256 ^ 8"

lemma tm_ready_same: "same_tables r' r \<Longrightarrow> tm_ready P ps r' = tm_ready P ps r"
  by (simp add: same_tables_def tm_ready_def)

lemma tm_fields_add [simp]:
  "tm_lifetime (add_probes n r) = tm_lifetime r" "tm_lifetime (add_precompute n r) = tm_lifetime r"
  "tm_ends (add_probes n r) = tm_ends r" "tm_ends (add_precompute n r) = tm_ends r"
  "tm_space (add_probes n r) = tm_space r" "tm_space (add_precompute n r) = tm_space r"
  "tm_rng (add_precompute n r) = tm_rng r"
  "tm_ready P ps (add_probes n r) = tm_ready P ps r" "tm_ready P ps (add_precompute n r) = tm_ready P ps r"
  by (simp_all add: add_probes_def add_precompute_def tm_ready_def tm_space_def)

lemma tm_args_add [simp]:
  "tm_chain_length_arg (add_precompute n r) = tm_chain_length_arg r"
  "tm_chains_per_table_arg (add_precompute n r) = tm_chains_per_table_arg r"
  by (simp_all add: add_precompute_def)

lemma tm_parameters_add [simp]:
  "tm_chain_length (add_precompute n r) = tm_chain_length r"
  "tm_chains_per_table (add_precompute n r) = tm_chains_per_table r"
  by (auto simp: tm_chains_per_table_def tm_chain_length_def split: option.split sum.split)

lemma reduced_in_space: "tm_ready P ps r \<Longrightarrow> in_space ps (tm_lifetime r) (reduced ps (tm_lifetime r) t d j)"
  by (simp add: tm_ready_def in_space_def reduced_def)

lemma chain_in_space: "tm_ready P ps r \<Longrightarrow> in_space ps (tm_lifetime r) x \<Longrightarrow>
    in_space ps (tm_lifetime r) (chain_to P ps (tm_lifetime r) t js x)"
  by (induction js arbitrary: x) (simp_all add: chain_to_def reduced_in_space)

definition count :: "bool \<Rightarrow> int \<Rightarrow> time_memory \<Rightarrow> time_memory" where
  "count pre n r = (if pre then add_precompute n r else add_probes n r)"

lemma count_simps [simp]:
  "count pre 0 r = r" "count pre m (count pre n r) = count pre (n + m) r"
  "tm_lifetime (count pre n r) = tm_lifetime r" "tm_ends (count pre n r) = tm_ends r"
  "tm_space (count pre n r) = tm_space r" "tm_ready P ps (count pre n r) = tm_ready P ps r"
  "same_tables (count pre n r) s = same_tables r s"
  by (simp_all add: count_def)

lemma point_index:
  assumes "in_space ps L x" "0 < L"
  shows "0 \<le> x div L" "x div L < int (length ps)" "0 \<le> x mod L" "x mod L < L"
proof -
  show "0 \<le> x div L" using assms by (simp add: in_space_def pos_imp_zdiv_nonneg_iff)
  have "x div L * L \<le> x" using assms(2) by (simp add: minus_mod_eq_div_mult [symmetric])
  with assms(1) have "x div L * L < int (length ps) * L" unfolding in_space_def by linarith
  with assms(2) show "x div L < int (length ps)" by (metis mult_less_cancel_right_pos)
qed (use assms in simp_all)

lemma tm_f_eq:
  assumes "tm_ready P ps r" "in_space ps (tm_lifetime r) x"
  shows "tm_f P pre x r = (Inr (point_hash P ps (tm_lifetime r) x), count pre 1 r)"
proof -
  let ?L = "tm_lifetime r"
  have L: "0 < ?L" "?L \<le> 256 ^ 8" using assms(1) by (simp_all add: tm_ready_def)
  note i = point_index [OF assms(2) L(1)]
  have "py_index (tm_lams r) (x div ?L) = Inr (snd (ps ! nat (x div ?L)))"
    using assms(1) i by (simp add: tm_ready_def py_index_def Let_def nat_less_iff)
  moreover have "valid_lam (snd (ps ! nat (x div ?L)))"
    using assms(1) i by (simp add: tm_ready_def valid_peers_def nat_less_iff)
  moreover have "valid_epoch (x mod ?L)" using i(3) order.strict_trans2 [OF i(4) L(2)] by (simp add: valid_epoch_def)
  ultimately show ?thesis
    using L(1) by (simp add: tm_f_def h2_counted_eq h2_pseudonym_valid point_hash_def count_def)
qed

lemma tm_reduce_eq: "tm_ready P ps r \<Longrightarrow> tm_reduce d j t r = Inr (reduced ps (tm_lifetime r) t d j)"
  by (auto simp: tm_reduce_def tm_ready_def tm_space_def reduced_def)

lemma tm_walk_eq:
  "tm_ready P ps r \<Longrightarrow> in_space ps (tm_lifetime r) x \<Longrightarrow>
     tm_walk P pre t js x r = (Inr (chain_to P ps (tm_lifetime r) t js x), count pre (int (length js)) r)"
proof (induction js arbitrary: x r)
  case Nil
  then show ?case by (simp add: chain_to_def)
next
  case (Cons j js)
  let ?z = "reduced ps (tm_lifetime r) t (point_hash P ps (tm_lifetime r) x) j"
  have "in_space ps (tm_lifetime r) ?z" by (rule reduced_in_space [OF Cons.prems(1)])
  with Cons.IH [of "count pre 1 r" ?z] Cons.prems show ?case
    by (simp add: tm_f_eq tm_reduce_eq chain_to_def)
qed

lemma chain_to_append: "chain_to P ps L t (js @ ks) x = chain_to P ps L t ks (chain_to P ps L t js x)"
  by (simp add: chain_to_def)

lemma chain_to_Cons: "chain_to P ps L t (j # js) x = chain_to P ps L t js (reduced ps L t (point_hash P ps L x) j)"
  by (simp add: chain_to_def)

text \<open>A whole chain, cut at one of its columns.\<close>

lemma chain_cut:
  assumes "0 \<le> c" "c < tau"
  shows "chain_to P ps L t [0 .. tau - 1] s =
    chain_to P ps L t [c + 1 .. tau - 1] (reduced ps L t (point_hash P ps L (chain_to P ps L t [0 .. c - 1] s)) c)"
proof -
  have "[0 .. tau - 1] = [0 .. c - 1] @ c # [c + 1 .. tau - 1]"
    using assms by (metis diff_add_cancel upto_split3 zle_diff1_eq)
  then show ?thesis by (simp add: chain_to_append chain_to_Cons)
qed

section \<open>The lookup\<close>

definition hit :: "prims \<Rightarrow> peers \<Rightarrow> int \<Rightarrow> int \<Rightarrow> bytes \<Rightarrow> int \<Rightarrow> (int \<times> int) list \<Rightarrow> int \<Rightarrow> int option" where
  "hit P ps L tau pid t ends c =
     (case map_of ends (chain_to P ps L t [c + 1 .. tau - 1] (reduced ps L t pid c)) of
        None \<Rightarrow> None
      | Some s \<Rightarrow> let x = chain_to P ps L t [0 .. c - 1] s in if point_hash P ps L x = pid then Some x else None)"

text \<open>The ends a table keeps belong to whole chains that start in the space.\<close>

definition chains_ok :: "prims \<Rightarrow> peers \<Rightarrow> int \<Rightarrow> int \<Rightarrow> int \<Rightarrow> (int \<times> int) list \<Rightarrow> bool" where
  "chains_ok P ps L tau t ends \<longleftrightarrow> distinct (map fst ends) \<and>
     (\<forall>(e, s) \<in> set ends. in_space ps L s \<and> e = chain_to P ps L t [0 .. tau - 1] s)"

definition tables_ok :: "prims \<Rightarrow> peers \<Rightarrow> int \<Rightarrow> int \<Rightarrow> (int \<times> int) list list \<Rightarrow> bool" where
  "tables_ok P ps L tau tables \<longleftrightarrow> (\<forall>t < length tables. chains_ok P ps L tau (int t) (tables ! t))"

definition on_chain :: "prims \<Rightarrow> peers \<Rightarrow> int \<Rightarrow> int \<Rightarrow> int \<Rightarrow> (int \<times> int) list \<Rightarrow> int \<Rightarrow> int \<Rightarrow> bool" where
  "on_chain P ps L tau t ends c x \<longleftrightarrow> 0 \<le> c \<and> c < tau \<and> (\<exists>s \<in> snd ` set ends. x = chain_to P ps L t [0 .. c - 1] s)"

lemma hit_on_chain:
  assumes "chains_ok P ps L tau t ends" "on_chain P ps L tau t ends c x"
  shows "hit P ps L tau (point_hash P ps L x) t ends c = Some x"
proof -
  from assms(2) obtain e s where es: "(e, s) \<in> set ends" "x = chain_to P ps L t [0 .. c - 1] s" "0 \<le> c" "c < tau"
    by (auto simp: on_chain_def)
  with assms(1) have "e = chain_to P ps L t [0 .. tau - 1] s" by (auto simp: chains_ok_def)
  also have "\<dots> = chain_to P ps L t [c + 1 .. tau - 1] (reduced ps L t (point_hash P ps L x) c)"
    using chain_cut [OF es(3,4)] es(2) by simp
  finally have "map_of ends (chain_to P ps L t [c + 1 .. tau - 1] (reduced ps L t (point_hash P ps L x) c)) = Some s"
    using es(1) assms(1) by (simp add: chains_ok_def)
  with es(2) show ?thesis by (simp add: hit_def)
qed

lemma hit_Some:
  "hit P ps L tau pid t ends c = Some x \<Longrightarrow> 0 \<le> c \<Longrightarrow> c < tau \<Longrightarrow>
     on_chain P ps L tau t ends c x \<and> point_hash P ps L x = pid"
  by (force simp: hit_def on_chain_def Let_def dest: map_of_SomeD split: option.splits if_splits)

text \<open>One column, all columns of a table, all tables: the result and a bound on the probes.\<close>

definition costs :: "int \<Rightarrow> time_memory \<Rightarrow> time_memory \<Rightarrow> bool" where
  "costs n r r' \<longleftrightarrow> same_tables r' r \<and> precompute_probes r' = precompute_probes r \<and> probes r \<le> probes r' \<and> probes r' \<le> probes r + n"

lemma costs_trans: "costs m a b \<Longrightarrow> costs n b c \<Longrightarrow> costs (m + n) a c"
  by (auto simp: costs_def intro: same_tables_trans)

lemma costs_more: "costs m a b \<Longrightarrow> m \<le> n \<Longrightarrow> costs n a b"
  by (simp add: costs_def)

lemma tm_try_eq:
  assumes "tm_ready P ps r" "chains_ok P ps (tm_lifetime r) tau t ends" "0 \<le> c" "c < tau"
  shows "\<exists>r'. tm_try P pid tau t ends c r = (Inr (hit P ps (tm_lifetime r) tau pid t ends c), r') \<and> costs tau r r' \<and>
    (hit P ps (tm_lifetime r) tau pid t ends c \<noteq> None \<or> c < tau - 1 \<longrightarrow> probes r < probes r')"
proof -
  let ?L = "tm_lifetime r"
  let ?y = "reduced ps ?L t pid c"
  let ?z = "chain_to P ps ?L t [c + 1 .. tau - 1] ?y" and ?r1 = "count False (tau - c - 1) r"

  have w1: "tm_walk P False t [c + 1 .. tau - 1] ?y r = (Inr ?z, ?r1)"
    using tm_walk_eq [OF assms(1) reduced_in_space [OF assms(1)], of False t "[c + 1 .. tau - 1]" t pid c] assms(4)
    by simp
  show ?thesis
  proof (cases "map_of ends ?z")
    case None
    with w1 assms show ?thesis
      by (auto simp: tm_try_def tm_reduce_eq hit_def costs_def count_def)
  next
    case (Some s)
    let ?x = "chain_to P ps ?L t [0 .. c - 1] s" and ?r2 = "count False (tau - 1) r"
    have s: "in_space ps ?L s" using map_of_SomeD [OF Some] assms(2) by (auto simp: chains_ok_def)
    have w2: "tm_walk P False t [0 .. c - 1] s ?r1 = (Inr ?x, ?r2)"
      using tm_walk_eq [of P ps ?r1 s] assms(1,3) s by simp
    have w3: "tm_f P False ?x ?r2 = (Inr (point_hash P ps ?L ?x), count False tau r)"
      using tm_f_eq [of P ps ?r2 ?x] assms(1) chain_in_space [OF assms(1) s] by simp
    show ?thesis
      using w1 w2 w3 Some assms
      by (auto simp: tm_try_def tm_reduce_eq hit_def costs_def count_def Let_def)
  qed
qed

text \<open>The first success of a search over a set of cells, in some order.\<close>

definition first_of :: "('a \<Rightarrow> 'b option) \<Rightarrow> 'a set \<Rightarrow> 'b option \<Rightarrow> bool" where
  "first_of H A res \<longleftrightarrow> (case res of None \<Rightarrow> \<forall>c \<in> A. H c = None | Some x \<Rightarrow> \<exists>c \<in> A. H c = Some x)"

lemma first_of_simps:
  "first_of H {} None"
  "H c = Some x \<Longrightarrow> first_of H (insert c A) (Some x)"
  "H c = None \<Longrightarrow> first_of H A res \<Longrightarrow> first_of H (insert c A) res"
  by (auto simp: first_of_def split: option.splits)

lemma first_of_Un:
  "first_of H A (Some x) \<Longrightarrow> first_of H (A \<union> B) (Some x)"
  "first_of H A None \<Longrightarrow> first_of H B res \<Longrightarrow> first_of H (A \<union> B) res"
  by (auto simp: first_of_def split: option.splits)

lemma first_of_image: "first_of (\<lambda>c. H (g c)) A res \<Longrightarrow> first_of H (g ` A) res"
  by (auto simp: first_of_def split: option.splits)

lemma tm_columns_eq:
  assumes "tm_ready P ps r" "tm_lifetime r = L" "chains_ok P ps L tau t ends" "\<forall>c \<in> set cs. 0 \<le> c \<and> c < tau"
  shows "\<exists>res r'. tm_columns P pid tau t ends cs r = (Inr res, r') \<and> costs (int (length cs) * tau) r r' \<and>
    first_of (hit P ps L tau pid t ends) (set cs) res"
  using assms
proof (induction cs arbitrary: r)
  case Nil
  then show ?case by (auto simp: costs_def first_of_simps)
next
  case (Cons c cs)
  let ?h = "hit P ps L tau pid t ends c"
  from Cons.prems tm_try_eq [of P ps r tau t ends c pid] obtain r1 where
    r1: "tm_try P pid tau t ends c r = (Inr ?h, r1)" "costs tau r r1" by auto
  have L: "tm_lifetime r1 = L" and rdy: "tm_ready P ps r1"
    using r1(2) Cons.prems(1,2) tm_ready_same by (auto simp: costs_def same_tables_def)
  have len: "int (length (c # cs)) * tau = tau + int (length cs) * tau" by (simp add: algebra_simps)
  have pos: "0 \<le> int (length cs) * tau" using Cons.prems(4) by simp
  show ?case
  proof (cases ?h)
    case None
    have "\<forall>c \<in> set cs. 0 \<le> c \<and> c < tau" using Cons.prems(4) by simp
    from Cons.IH [OF rdy L Cons.prems(3) this] obtain res r' where
      r': "tm_columns P pid tau t ends cs r1 = (Inr res, r')" "costs (int (length cs) * tau) r1 r'"
      "first_of (hit P ps L tau pid t ends) (set cs) res" by blast
    with r1 None costs_trans [OF r1(2) r'(2)] first_of_simps(3) [of "hit P ps L tau pid t ends" c, OF None r'(3)] show ?thesis unfolding len by simp
  next
    case (Some x)
    with r1 costs_more [OF r1(2), of "tau + int (length cs) * tau"] pos first_of_simps(2) [of "hit P ps L tau pid t ends" c, OF Some]
    show ?thesis unfolding len by simp
  qed
qed

text \<open>A cell: a table, its number, and a column.\<close>

definition cell_hit :: "prims \<Rightarrow> peers \<Rightarrow> int \<Rightarrow> int \<Rightarrow> bytes \<Rightarrow> (nat \<times> (int \<times> int) list) \<times> int \<Rightarrow> int option" where
  "cell_hit P ps L tau pid = (\<lambda>((t, ends), c). hit P ps L tau pid (int t) ends c)"

definition cells :: "int \<Rightarrow> (nat \<times> (int \<times> int) list) list \<Rightarrow> ((nat \<times> (int \<times> int) list) \<times> int) set" where
  "cells tau ts = set ts \<times> {0 .. tau - 1}"

lemma cells_simps: "cells tau [] = {}" "cells tau (te # ts) = Pair te ` {0 .. tau - 1} \<union> cells tau ts"
  by (auto simp: cells_def)

lemma tm_tables_eq:
  assumes "tm_ready P ps r" "tm_lifetime r = L" "\<forall>(t, ends) \<in> set ts. chains_ok P ps L tau (int t) ends" "0 \<le> tau"
  shows "\<exists>res r'. tm_tables P pid tau ts r = (Inr res, r') \<and> costs (int (length ts) * (tau * tau)) r r' \<and>
    first_of (cell_hit P ps L tau pid) (cells tau ts) res"
  using assms
proof (induction ts arbitrary: r)
  case Nil
  then show ?case by (auto simp: costs_def first_of_simps cells_simps)
next
  case (Cons te ts)
  obtain t ends where te: "te = (t, ends)" by (cases te)
  let ?H = "cell_hit P ps L tau pid"
  have c: "chains_ok P ps L tau (int t) ends" using Cons.prems(3) te by simp
  from tm_columns_eq [OF Cons.prems(1,2) c, of "rev [0 .. tau - 1]" pid] obtain h r1 where
    r1: "tm_columns P pid tau (int t) ends (rev [0 .. tau - 1]) r = (Inr h, r1)"
      "costs (int (length (rev [0 .. tau - 1])) * tau) r r1"
      "first_of (hit P ps L tau pid (int t) ends) (set (rev [0 .. tau - 1])) h" by auto
  have f1: "first_of ?H (Pair te ` {0 .. tau - 1}) h"
    by (rule first_of_image) (use r1(3) te in \<open>simp add: cell_hit_def\<close>)
  have k1: "costs (tau * tau) r r1" using r1(2) Cons.prems(4) by simp
  have L: "tm_lifetime r1 = L" and rdy: "tm_ready P ps r1"
    using k1 Cons.prems(1,2) tm_ready_same by (auto simp: costs_def same_tables_def)
  have len: "int (length (te # ts)) * (tau * tau) = tau * tau + int (length ts) * (tau * tau)" by (simp add: algebra_simps)
  show ?case
  proof (cases h)
    case None
    have "\<forall>(t, ends) \<in> set ts. chains_ok P ps L tau (int t) ends" using Cons.prems(3) by simp
    from Cons.IH [OF rdy L this Cons.prems(4)] obtain res r' where
      r': "tm_tables P pid tau ts r1 = (Inr res, r')" "costs (int (length ts) * (tau * tau)) r1 r'"
      "first_of ?H (cells tau ts) res" by blast
    with r1(1) te None costs_trans [OF k1 r'(2)] first_of_Un(2) [OF f1 [unfolded None] r'(3)]
    show ?thesis unfolding len cells_simps by simp
  next
    case (Some x)
    with r1(1) te costs_more [OF k1, of "tau * tau + int (length ts) * (tau * tau)"] first_of_Un(1) [OF f1 [unfolded Some]]
    show ?thesis unfolding len cells_simps by simp
  qed
qed

definition covered :: "prims \<Rightarrow> peers \<Rightarrow> int \<Rightarrow> int \<Rightarrow> (int \<times> int) list list \<Rightarrow> int \<Rightarrow> bool" where
  "covered P ps L tau tables x \<longleftrightarrow>
     (\<exists>t < length tables. \<exists>c. on_chain P ps L tau (int t) (tables ! t) c x)"

lemma enumerate_mem: "(t, e) \<in> set (enumerate 0 l) \<longleftrightarrow> t < length l \<and> e = l ! t"
  by (auto simp: in_set_enumerate_eq)

text \<open>Points with different hashes: the consequence of collision freedom the lookup needs.\<close>

lemma point_hash_inj:
  assumes "no_collisions P ps L" "distinct (map fst ps)" "0 < L" "in_space ps L x" "in_space ps L y"
    and "point_hash P ps L x = point_hash P ps L y"
  shows "x = y"
proof -
  note ix = point_index [OF assms(4,3)] and iy = point_index [OF assms(5,3)]
  define i j where ij: "i = nat (x div L)" "j = nat (y div L)"
  have b: "i < length ps" "j < length ps" using ix iy by (simp_all add: ij nat_less_iff)
  have "(fst (ps ! i), snd (ps ! i)) \<in> set ps" "(fst (ps ! j), snd (ps ! j)) \<in> set ps" using b by simp_all
  from no_collisionsD [OF assms(1) this ix(3,4) iy(3,4)] assms(6) ij
  have e: "fst (ps ! i) = fst (ps ! j)" "x mod L = y mod L" by (simp_all add: point_hash_def)
  from e(1) b assms(2) have "i = j" by (simp add: distinct_conv_nth) metis
  with ij ix iy have "x div L = y div L" by simp
  with e(2) show ?thesis by (metis div_mult_mod_eq)
qed

lemma on_chain_in_space:
  "tm_ready P ps r \<Longrightarrow> chains_ok P ps (tm_lifetime r) tau t ends \<Longrightarrow> on_chain P ps (tm_lifetime r) tau t ends c x \<Longrightarrow>
     in_space ps (tm_lifetime r) x"
  by (fastforce simp: on_chain_def chains_ok_def intro!: chain_in_space)

theorem tm_lookup_eq:
  assumes "tm_ready P ps r" "tm_lifetime r = L" "tm_chain_length r = Inr tau" "0 \<le> tau"
    and "tables_ok P ps L tau (tm_ends r)" "no_collisions P ps L" "in_space ps L x"
  shows "\<exists>r'. tm_lookup P (point_hash P ps L x) r =
      (Inr (if covered P ps L tau (tm_ends r) x then Some x else None), r') \<and>
    costs (int (length (tm_ends r)) * (tau * tau)) r r'"
proof -
  let ?ts = "enumerate 0 (tm_ends r)" and ?pid = "point_hash P ps L x"
  have ok: "\<forall>(t, ends) \<in> set ?ts. chains_ok P ps L tau (int t) ends"
    using assms(5) by (auto simp: tables_ok_def enumerate_mem)
  have L: "0 < L" and d: "distinct (map fst ps)" using assms(1,2) by (auto simp: tm_ready_def valid_peers_def)
  from tm_tables_eq [OF assms(1,2) ok assms(4), of ?pid] obtain res r' where
    r': "tm_tables P ?pid tau ?ts r = (Inr res, r')" "costs (int (length (tm_ends r)) * (tau * tau)) r r'"
    and f: "first_of (cell_hit P ps L tau ?pid) (cells tau ?ts) res" by auto
  have sound: "y = x \<and> covered P ps L tau (tm_ends r) x" if "res = Some y" for y
  proof -
    from f that obtain t c where h: "t < length (tm_ends r)" "0 \<le> c" "c < tau"
      "hit P ps L tau ?pid (int t) (tm_ends r ! t) c = Some y"
      by (auto simp: first_of_def cell_hit_def cells_def enumerate_mem)
    from hit_Some [OF h(4,2,3)] have o: "on_chain P ps L tau (int t) (tm_ends r ! t) c y" "point_hash P ps L y = ?pid"
      by simp_all
    have "in_space ps L y" using on_chain_in_space [OF assms(1), unfolded assms(2), OF _ o(1)] assms(5) h(1) by (simp add: tables_ok_def)
    from point_hash_inj [OF assms(6) d L this assms(7) o(2)] have "y = x" .
    with o(1) h(1) show ?thesis unfolding covered_def by blast
  qed
  moreover have "res \<noteq> None" if "covered P ps L tau (tm_ends r) x"
  proof -
    from that obtain t c where tc: "t < length (tm_ends r)" "on_chain P ps L tau (int t) (tm_ends r ! t) c x"
      by (auto simp: covered_def)
    then have mem: "((t, tm_ends r ! t), c) \<in> cells tau ?ts" by (simp add: cells_def enumerate_mem on_chain_def)
    have some: "cell_hit P ps L tau ?pid ((t, tm_ends r ! t), c) = Some x"
      using hit_on_chain tc assms(5) by (simp add: tables_ok_def cell_hit_def)
    show ?thesis
    proof
      assume "res = None"
      with f have "\<forall>q \<in> cells tau ?ts. cell_hit P ps L tau ?pid q = None" by (simp add: first_of_def)
      from bspec [OF this mem] some show False by simp
    qed
  qed
  ultimately have req: "res = (if covered P ps L tau (tm_ends r) x then Some x else None)" by (cases res) auto
  show ?thesis unfolding tm_lookup_def assms(3) sum.case using r' unfolding req by blast
qed

text \<open>Resolution of an enrolled peer's pseudonym below the lifetime.\<close>

theorem tm_resolve_eq:
  assumes "tm_ready P ps r" "tm_chain_length r = Inr tau" "0 \<le> tau" "tables_ok P ps (tm_lifetime r) tau (tm_ends r)"
    and "no_collisions P ps (tm_lifetime r)" "i < length ps" "0 \<le> e" "e < tm_lifetime r"
  shows "\<exists>r'. tm_resolve P now ps sl (pseudonym P (snd (ps ! i)) e) r =
      (if \<not> covered P ps (tm_lifetime r) tau (tm_ends r) (int i * tm_lifetime r + e) then Inl UnknownPeerError
       else if is_stale_epoch sl (fst (ps ! i)) e then Inl (ReplayDetected (fst (ps ! i)) e)
       else Inr (fst (ps ! i), e), r') \<and>
    costs (int (length (tm_ends r)) * (tau * tau)) r r'"
proof -
  let ?L = "tm_lifetime r" and ?x = "int i * tm_lifetime r + e"
  have L: "0 < ?L" using assms(1) by (simp add: tm_ready_def)
  have x: "?x div ?L = int i" "?x mod ?L = e" using assms(7,8) L by simp_all
  have "int (Suc i) * ?L \<le> int (length ps) * ?L" using assms(6) L by (intro mult_right_mono) auto
  then have "in_space ps ?L ?x" using assms(7,8) L by (simp add: in_space_def algebra_simps)
  from tm_lookup_eq [OF assms(1) refl assms(2-5) this] x obtain r' where
    l: "tm_lookup P (pseudonym P (snd (ps ! i)) e) r =
        (Inr (if covered P ps ?L tau (tm_ends r) ?x then Some ?x else None), r')"
      "costs (int (length (tm_ends r)) * (tau * tau)) r r'" by (auto simp: point_hash_def)
  have s: "tm_lifetime r' = ?L" "tm_peers r' = map fst ps"
    using l(2) assms(1) by (simp_all add: costs_def same_tables_def tm_ready_def)
  then have "py_index (tm_peers r') (int i) = Inr (fst (ps ! i))" using assms(6) by (simp add: py_index_def Let_def)
  with l s x L show ?thesis by (auto simp: tm_resolve_def Let_def)
qed

text \<open>A search costs something unless it looks at the last column only and finds nothing there.\<close>

lemma tm_columns_pos:
  assumes "tm_ready P ps r" "tm_lifetime r = L" "chains_ok P ps L tau t ends" "\<forall>c \<in> set cs. 0 \<le> c \<and> c < tau"
    and "tm_columns P pid tau t ends cs r = (Inr res, r')" "res \<noteq> None \<or> (\<exists>c \<in> set cs. c < tau - 1)"
  shows "probes r < probes r'"
  using assms
proof (induction cs arbitrary: r)
  case Nil
  then show ?case by simp
next
  case (Cons c cs)
  let ?h = "hit P ps L tau pid t ends c"
  from Cons.prems(1-4) tm_try_eq [of P ps r tau t ends c pid] obtain r1 where
    r1: "tm_try P pid tau t ends c r = (Inr ?h, r1)" "costs tau r r1" "?h \<noteq> None \<or> c < tau - 1 \<longrightarrow> probes r < probes r1" by auto
  have L: "tm_lifetime r1 = L" and rdy: "tm_ready P ps r1"
    using r1(2) Cons.prems(1,2) tm_ready_same by (auto simp: costs_def same_tables_def)
  have cs: "\<forall>c \<in> set cs. 0 \<le> c \<and> c < tau" using Cons.prems(4) by simp
  show ?case
  proof (cases ?h)
    case None
    with r1(1) Cons.prems(5) have rest: "tm_columns P pid tau t ends cs r1 = (Inr res, r')" by simp
    from tm_columns_eq [OF rdy L Cons.prems(3) cs, of pid] rest have "probes r1 \<le> probes r'" by (auto simp: costs_def)
    moreover have "probes r \<le> probes r1" using r1(2) by (simp add: costs_def)
    moreover have "probes r < probes r1 \<or> probes r1 < probes r'"
    proof (cases "c < tau - 1")
      case False
      with Cons.prems(6) have "res \<noteq> None \<or> (\<exists>c \<in> set cs. c < tau - 1)" by auto
      from Cons.IH [OF rdy L Cons.prems(3) cs rest this] show ?thesis ..
    qed (use r1(3) in simp)
    ultimately show ?thesis by linarith
  qed (use r1 Cons.prems(5) in auto)
qed

lemma tm_tables_pos:
  assumes "tm_ready P ps r" "\<forall>(t, ends) \<in> set ts. chains_ok P ps (tm_lifetime r) tau (int t) ends" "2 \<le> tau" "ts \<noteq> []"
    and "tm_tables P pid tau ts r = (Inr res, r')"
  shows "probes r < probes r'"
proof -
  obtain t ends us where ts: "ts = (t, ends) # us" using assms(4) by (metis list.exhaust surj_pair)
  let ?cs = "rev [0 .. tau - 1]"
  have c: "chains_ok P ps (tm_lifetime r) tau (int t) ends" using assms(2) ts by simp
  have cs: "\<forall>c \<in> set ?cs. 0 \<le> c \<and> c < tau" by auto
  from tm_columns_eq [OF assms(1) refl c cs, of pid] obtain h r1 where
    r1: "tm_columns P pid tau (int t) ends ?cs r = (Inr h, r1)" "costs (int (length ?cs) * tau) r r1" by blast
  have "0 \<in> set ?cs" "0 < tau - 1" using assms(3) by auto
  with tm_columns_pos [OF assms(1) refl c cs r1(1)] have p: "probes r < probes r1" by blast
  show ?thesis
  proof (cases h)
    case None
    with r1(1) assms(5) ts have rest: "tm_tables P pid tau us r1 = (Inr res, r')" by simp
    have s: "same_tables r1 r" using r1(2) by (simp add: costs_def)
    then have rdy: "tm_ready P ps r1" using assms(1) tm_ready_same by metis
    have L: "tm_lifetime r1 = tm_lifetime r" using s by (simp add: same_tables_def)
    have ok: "\<forall>(t, ends) \<in> set us. chains_ok P ps (tm_lifetime r) tau (int t) ends" using assms(2) unfolding ts by simp
    have "0 \<le> tau" using assms(3) by simp
    from tm_tables_eq [OF rdy L ok this, of pid] rest have "probes r1 \<le> probes r'" by (fastforce simp: costs_def)
    with p show ?thesis by linarith
  qed (use r1 p assms(5) ts in auto)
qed

text \<open>Any bytes as a pseudonym: what is found has that hash.\<close>

lemma tm_resolve_any:
  assumes "tm_ready P ps r" "tm_lifetime r = L" "tm_chain_length r = Inr tau" "0 \<le> tau" "tables_ok P ps L tau (tm_ends r)"
  shows "\<exists>r'. costs (int (length (tm_ends r)) * (tau * tau)) r r' \<and> (2 \<le> tau \<and> tm_ends r \<noteq> [] \<longrightarrow> probes r < probes r') \<and>
    (tm_resolve P now ps sl pid r = (Inl UnknownPeerError, r') \<or>
     (\<exists>i < length ps. \<exists>e. 0 \<le> e \<and> e < L \<and> pseudonym P (snd (ps ! i)) e = pid \<and>
        tm_resolve P now ps sl pid r = (if is_stale_epoch sl (fst (ps ! i)) e then Inl (ReplayDetected (fst (ps ! i)) e)
          else Inr (fst (ps ! i), e), r')))"
proof -
  let ?ts = "enumerate 0 (tm_ends r)"
  have L: "0 < L" using assms(1,2) by (simp add: tm_ready_def)
  have ok: "\<forall>(t, ends) \<in> set ?ts. chains_ok P ps L tau (int t) ends" using assms(5) by (auto simp: tables_ok_def enumerate_mem)
  from tm_tables_eq [OF assms(1,2) ok assms(4), of pid] obtain res r' where
    r': "tm_tables P pid tau ?ts r = (Inr res, r')" "costs (int (length (tm_ends r)) * (tau * tau)) r r'"
    and f: "first_of (cell_hit P ps L tau pid) (cells tau ?ts) res" by auto
  have pos: "probes r < probes r'" if "2 \<le> tau" "tm_ends r \<noteq> []"
    using tm_tables_pos [OF assms(1) ok [folded assms(2)] that(1) _ r'(1)] that(2) by (simp add: enumerate_eq_zip)
  have l: "tm_lookup P pid r = (Inr res, r')" using r'(1) by (simp add: tm_lookup_def assms(3))
  have s: "tm_lifetime r' = L" "tm_peers r' = map fst ps" using r'(2) assms(1,2) by (simp_all add: costs_def same_tables_def tm_ready_def)
  show ?thesis
  proof (cases res)
    case None
    with l r'(2) pos show ?thesis by (auto simp: tm_resolve_def)
  next
    case (Some y)
    from f Some obtain t c where h: "t < length (tm_ends r)" "0 \<le> c" "c < tau" "hit P ps L tau pid (int t) (tm_ends r ! t) c = Some y"
      by (auto simp: first_of_def cell_hit_def cells_def enumerate_mem)
    from hit_Some [OF h(4,2,3)] have o: "on_chain P ps L tau (int t) (tm_ends r ! t) c y" "point_hash P ps L y = pid" by simp_all
    have "in_space ps L y" using on_chain_in_space [OF assms(1), unfolded assms(2), OF _ o(1)] assms(5) h(1) by (simp add: tables_ok_def)
    note ix = point_index [OF this L]
    have "py_index (tm_peers r') (y div L) = Inr (fst (ps ! nat (y div L)))"
      using ix s by (simp add: py_index_def Let_def nat_less_iff)
    with l s L Some have "tm_resolve P now ps sl pid r =
        (if is_stale_epoch sl (fst (ps ! nat (y div L))) (y mod L) then Inl (ReplayDetected (fst (ps ! nat (y div L))) (y mod L))
         else Inr (fst (ps ! nat (y div L)), y mod L), r')" by (simp add: tm_resolve_def Let_def)
    moreover have "nat (y div L) < length ps" "pseudonym P (snd (ps ! nat (y div L))) (y mod L) = pid"
      using ix o(2) by (simp_all add: point_hash_def nat_less_iff)
    ultimately show ?thesis using r'(2) pos ix(3,4) by blast
  qed
qed

section \<open>What attaching builds\<close>

text \<open>The generator draws distinct members of the range, as many as were asked for.\<close>

definition sample_ok :: "(nat \<Rightarrow> int \<Rightarrow> int \<Rightarrow> int list) \<Rightarrow> bool" where
  "sample_ok rng \<longleftrightarrow> (\<forall>k n m. 0 \<le> m \<longrightarrow> m \<le> n \<longrightarrow>
      distinct (rng k n m) \<and> set (rng k n m) \<subseteq> {0 .. n - 1} \<and> int (length (rng k n m)) = m)"

lemma keep_first_ok:
  assumes "chains_ok P ps L tau t ends" "in_space ps L s"
  shows "chains_ok P ps L tau t (keep_first (chain_to P ps L t [0 .. tau - 1] s) s ends)"
  using assms set_alist_update [of "chain_to P ps L t [0 .. tau - 1] s" s ends]
  by (auto simp: chains_ok_def keep_first_def distinct_update)

lemma keep_first_length: "length (keep_first x s ends) \<le> Suc (length ends)"
  by (simp add: keep_first_def length_alist_update)

lemma tm_chains_eq:
  assumes "tm_ready P ps r" "tm_lifetime r = L" "chains_ok P ps L tau t ends" "\<forall>s \<in> set ss. in_space ps L s" "0 \<le> tau"
  shows "\<exists>ends'. tm_chains P tau t ss ends r = (Inr ends', add_precompute (int (length ss) * tau) r) \<and>
    chains_ok P ps L tau t ends' \<and> length ends' \<le> length ends + length ss"
  using assms
proof (induction ss arbitrary: ends r)
  case Nil
  then show ?case by simp
next
  case (Cons s ss)
  let ?e = "keep_first (chain_to P ps L t [0 .. tau - 1] s) s ends" and ?r = "add_precompute tau r"
  have w: "tm_walk P True t [0 .. tau - 1] s r = (Inr (chain_to P ps L t [0 .. tau - 1] s), ?r)"
    using tm_walk_eq [OF Cons.prems(1), of s True t] Cons.prems(2,4,5) by (simp add: count_def)
  have k: "chains_ok P ps L tau t ?e" using keep_first_ok Cons.prems(3,4) by simp
  have "tm_ready P ps ?r" "tm_lifetime ?r = L" "\<forall>s \<in> set ss. in_space ps L s" using Cons.prems by simp_all
  from Cons.IH [OF this(1,2) k this(3) Cons.prems(5)] obtain ends' where
    e: "tm_chains P tau t ss ?e ?r = (Inr ends', add_precompute (int (length ss) * tau) ?r)"
      "chains_ok P ps L tau t ends'" "length ends' \<le> length ?e + length ss" by blast
  have "length ends' \<le> length ends + length (s # ss)"
    using e(3) keep_first_length [of "chain_to P ps L t [0 .. tau - 1] s" s ends] by simp
  with e w show ?case by (simp add: algebra_simps)
qed

text \<open>Everything a strategy needs, and what its tables hold.\<close>

definition tm_built :: "prims \<Rightarrow> peers \<Rightarrow> int \<Rightarrow> int \<Rightarrow> int \<Rightarrow> time_memory \<Rightarrow> bool" where
  "tm_built P ps L tau m r \<longleftrightarrow> tm_ready P ps r \<and> tm_lifetime r = L \<and> tables_ok P ps L tau (tm_ends r) \<and>
     (\<forall>ends \<in> set (tm_ends r). int (length ends) \<le> m)"

lemma tm_built_snoc:
  assumes "tm_built P ps L tau m r" "chains_ok P ps L tau (int (length (tm_ends r))) ends" "int (length ends) \<le> m"
  shows "tm_built P ps L tau m (r\<lparr>tm_ends := tm_ends r @ [ends]\<rparr>)"
  using assms by (auto simp: tm_built_def tm_ready_def tables_ok_def nth_append less_Suc_eq)

lemma tm_ends_update [simp]:
  "tm_chains_per_table (r\<lparr>tm_ends := e\<rparr>) = tm_chains_per_table r" "tm_space (r\<lparr>tm_ends := e\<rparr>) = tm_space r"
  "tm_chain_length (r\<lparr>tm_ends := e\<rparr>) = tm_chain_length r"
  by (auto simp: tm_chains_per_table_def tm_chain_length_def tm_space_def split: option.split sum.split)

lemma tm_build_eq:
  assumes "tm_built P ps L tau m r" "tm_chains_per_table r = Inr c" "m = min c (tm_space r)" "0 \<le> c" "0 \<le> tau"
    and "sample_ok (tm_rng r)"
  shows "\<exists>r'. tm_build P tau (map int [length (tm_ends r) ..< length (tm_ends r) + k]) r = (Inr (), r') \<and>
     tm_built P ps L tau m r' \<and> length (tm_ends r') = length (tm_ends r) + k \<and> tm_chain_length r' = tm_chain_length r \<and>
     probes r' = probes r \<and> precompute_probes r' = precompute_probes r + int k * (m * tau)"
  using assms
proof (induction k arbitrary: r)
  case 0
  then show ?case by simp
next
  case (Suc k)
  let ?n = "length (tm_ends r)" and ?r1 = "add_precompute (m * tau) r"
  have rdy: "tm_ready P ps r" "tm_lifetime r = L" using Suc.prems(1) by (simp_all add: tm_built_def)
  have sp: "tm_space r = int (length ps) * L" using rdy by (simp add: tm_space_def tm_ready_def)
  have m: "0 \<le> m" "m \<le> tm_space r" using Suc.prems(3,4) rdy by (simp_all add: sp tm_ready_def)
  let ?ss = "tm_rng r ?n (tm_space r) m"
  have ss: "set ?ss \<subseteq> {0 .. tm_space r - 1}" "int (length ?ss) = m"
    using Suc.prems(6) m by (simp_all add: sample_ok_def)
  have "\<forall>s \<in> set ?ss. in_space ps L s" using ss(1) by (auto simp: in_space_def sp)
  moreover have "chains_ok P ps L tau (int ?n) []" by (simp add: chains_ok_def)
  ultimately obtain ends where e: "tm_chains P tau (int ?n) ?ss [] r = (Inr ends, ?r1)"
    "chains_ok P ps L tau (int ?n) ends" "length ends \<le> length ?ss"
    using tm_chains_eq [OF rdy, of tau "int ?n" "[]" ?ss] Suc.prems(5) ss(2) by auto
  let ?r2 = "?r1\<lparr>tm_ends := tm_ends ?r1 @ [ends]\<rparr>"
  have nn: "\<not> min c (tm_space r) < 0" using m(1) Suc.prems(3) by linarith
  have step: "tm_build P tau (map int [?n ..< ?n + Suc k]) r = tm_build P tau (map int [Suc ?n ..< Suc ?n + k]) ?r2"
    using e(1) nn Suc.prems(2,3) by (simp add: upt_conv_Cons Let_def del: upt_Suc)
  have b1: "tm_built P ps L tau m ?r1" using Suc.prems(1) by (simp add: tm_built_def)
  have b2: "tm_built P ps L tau m ?r2" by (rule tm_built_snoc [OF b1]) (use e ss(2) in auto)
  have l2: "length (tm_ends ?r2) = Suc ?n" by simp
  have "tm_chains_per_table ?r2 = Inr c" "m = min c (tm_space ?r2)" "sample_ok (tm_rng ?r2)"
    using Suc.prems by simp_all
  from Suc.IH [OF b2 this(1,2) Suc.prems(4,5) this(3)] obtain r' where
    "tm_build P tau (map int [Suc ?n ..< Suc ?n + k]) ?r2 = (Inr (), r')" "tm_built P ps L tau m r'"
    "length (tm_ends r') = Suc ?n + k" "tm_chain_length r' = tm_chain_length r" "probes r' = probes r"
    "precompute_probes r' = precompute_probes r + m * tau + int k * (m * tau)"
    unfolding l2 by auto
  with step show ?case by (simp add: algebra_simps)
qed

lemma map_int_upto: "map int [0 ..< n] = [0 .. int n - 1]"
  by (induction n) (simp_all add: upto_rec2)

theorem tm_attach_eq:
  assumes "valid_peers ps" "ps \<noteq> []" "0 < tm_lifetime r" "tm_lifetime r \<le> 256 ^ 8" "sample_ok (tm_rng r)"
    and "tm_chain_length_arg r = Some tau" "0 \<le> tau" "tm_chains_per_table_arg r = Some c" "0 \<le> c" "0 \<le> tm_n_tables r"
  shows "\<exists>r'. tm_attach P now ps sl r = (Inr (), r') \<and>
    tm_built P ps (tm_lifetime r) tau (min c (int (length ps) * tm_lifetime r)) r' \<and>
    int (length (tm_ends r')) = tm_n_tables r \<and> tm_chain_length r' = Inr tau \<and> probes r' = probes r \<and>
    precompute_probes r' = precompute_probes r + tm_n_tables r * (min c (int (length ps) * tm_lifetime r) * tau)"
proof -
  let ?r = "r\<lparr>tm_peers := map fst ps, tm_lams := map snd ps, tm_ends := []\<rparr>" and ?L = "tm_lifetime r"
  have sp: "tm_space ?r = int (length ps) * ?L" by (simp add: tm_space_def)
  have b: "tm_built P ps ?L tau (min c (int (length ps) * ?L)) ?r"
    using assms(1-4) by (simp add: tm_built_def tm_ready_def tables_ok_def)
  have "tm_chains_per_table ?r = Inr c" "tm_chain_length ?r = Inr tau"
    using assms(6,8) by (simp_all add: tm_chains_per_table_def tm_chain_length_def)
  note c = this
  have ts: "[0 .. tm_n_tables r - 1] = map int [0 ..< nat (tm_n_tables r)]"
    using assms(10) by (simp add: map_int_upto)
  from tm_build_eq [OF b c(1) _ assms(9,7), of "nat (tm_n_tables r)"] sp assms(5,10) c ts show ?thesis
    by (auto simp: tm_attach_def Let_def)
qed

end
