(* ===== verification/RfidSchemes.thy ===== *)
theory RfidSchemes
  imports LinearScan Json
begin

text \<open>
  The two comparison schemes of \<^verbatim>\<open>evaluation/resolution/rfid_schemes.py\<close>: the randomized hash lock and the
  key tree.  The depth of the tree, a floating-point logarithm in the source, is the least \<open>d\<close> with
  \<open>n \<le> delta ^ d\<close>; the subtraction of \<open>1e-12\<close> makes the two equal below \<open>10 ^ 10\<close> devices.
\<close>

definition R_BYTES :: nat where
  "R_BYTES = 16"

definition DIGEST_BYTES :: int where
  "DIGEST_BYTES = 32"

definition KEY_BYTES :: int where
  "KEY_BYTES = 32"

definition keyed_hash :: "prims \<Rightarrow> bytes \<Rightarrow> bytes \<Rightarrow> bytes" where
  "keyed_hash P key r = p_sha256 P (key @ r)"

section \<open>Randomized hash lock\<close>

record hash_lock =
  hl_keys :: "(pystr \<times> bytes) list"
  hl_probes :: int

definition lock_device_message :: "prims \<Rightarrow> urandom \<Rightarrow> bytes \<Rightarrow> bytes \<times> bytes" where
  "lock_device_message P u key = (let r = u R_BYTES in (r, keyed_hash P key r))"

fun lock_scan :: "prims \<Rightarrow> bytes \<Rightarrow> bytes \<Rightarrow> (pystr \<times> bytes) list \<Rightarrow> hash_lock \<Rightarrow> pystr option \<times> hash_lock" where
  "lock_scan P r tag [] t = (None, t)"
| "lock_scan P r tag ((peer, key) # ks) t =
     (let t' = t\<lparr>hl_probes := hl_probes t + 1\<rparr>
      in if keyed_hash P key r = tag then (Some peer, t') else lock_scan P r tag ks t')"

definition lock_resolve :: "prims \<Rightarrow> bytes \<Rightarrow> bytes \<Rightarrow> hash_lock \<Rightarrow> pystr option \<times> hash_lock" where
  "lock_resolve P r tag t = lock_scan P r tag (hl_keys t) t"

definition lock_storage_bytes :: "hash_lock \<Rightarrow> int" where
  "lock_storage_bytes t = 0"

definition lock_extra_m1_bytes :: "int \<Rightarrow> int" where
  "lock_extra_m1_bytes n = int R_BYTES"

lemma lock_scan_eq:
  "lock_scan P r tag ks t =
     (map_option fst (List.find (\<lambda>(p, k). keyed_hash P k r = tag) ks),
      t\<lparr>hl_probes := hl_probes t + search_cost (\<lambda>(p, k). keyed_hash P k r = tag) ks\<rparr>)"
  by (induction ks arbitrary: t) (auto simp: Let_def)

section \<open>Key tree\<close>

type_synonym node = "nat list"

record key_tree =
  kt_peers :: "pystr list"
  kt_delta :: nat
  kt_depth :: nat
  kt_probes :: int
  kt_key :: "(node \<times> bytes) list"
  kt_children :: "(node \<times> nat list) list"

function ceil_log :: "nat \<Rightarrow> nat \<Rightarrow> nat \<Rightarrow> nat" where
  "ceil_log b m d = (if b < 2 \<or> m \<le> b ^ d then d else ceil_log b m (Suc d))"
  by auto

lemma ceil_log_decreases:
  fixes b :: nat
  assumes "\<not> (b < 2 \<or> m \<le> b ^ d)"
  shows "m - b ^ Suc d < m - b ^ d"
proof -
  have "b ^ d < b ^ Suc d" using assms by simp
  with assms show ?thesis by linarith
qed

termination ceil_log
  by (relation "measure (\<lambda>(b, m, d). m - b ^ d)") (use ceil_log_decreases in auto)

declare ceil_log.simps [simp del]

definition tree_depth :: "nat \<Rightarrow> nat \<Rightarrow> nat" where
  "tree_depth delta n = ceil_log delta (max n 2) 1"

fun low_digits :: "nat \<Rightarrow> nat \<Rightarrow> nat \<Rightarrow> nat list" where
  "low_digits delta 0 i = []"
| "low_digits delta (Suc k) i = i mod delta # low_digits delta k (i div delta)"

definition tree_path :: "nat \<Rightarrow> nat \<Rightarrow> nat \<Rightarrow> node" where
  "tree_path delta depth i = rev (low_digits delta depth i)"

text \<open>\<^verbatim>\<open>repr\<close> of a tuple of integers.\<close>

fun join_digits :: "nat list \<Rightarrow> pystr" where
  "join_digits [] = []"
| "join_digits [d] = nat_digits d"
| "join_digits (d # ds) = nat_digits d @ [44, 32] @ join_digits ds"

definition tuple_repr :: "nat list \<Rightarrow> pystr" where
  "tuple_repr ds = 40 # join_digits ds @ (if length ds = 1 then [44, 41] else [41])"

definition children_of :: "node \<Rightarrow> key_tree \<Rightarrow> nat list" where
  "children_of node t = (case map_of (kt_children t) node of None \<Rightarrow> [] | Some cs \<Rightarrow> cs)"

definition add_node :: "prims \<Rightarrow> bytes \<Rightarrow> node \<Rightarrow> key_tree \<Rightarrow> key_tree" where
  "add_node P seed node t =
     (if map_of (kt_key t) node \<noteq> None then t
      else t\<lparr>kt_key := AList.update node (p_sha256 P (seed @ map word_of_nat (tuple_repr node))) (kt_key t),
             kt_children := AList.update (butlast node) (children_of (butlast node) t @ [last node]) (kt_children t)\<rparr>)"

definition add_peer :: "prims \<Rightarrow> bytes \<Rightarrow> nat \<Rightarrow> key_tree \<Rightarrow> key_tree" where
  "add_peer P seed i t =
     (let path = tree_path (kt_delta t) (kt_depth t) i
      in fold (\<lambda>level. add_node P seed (take level path)) [1 ..< Suc (kt_depth t)] t)"

definition new_key_tree :: "prims \<Rightarrow> pystr list \<Rightarrow> int \<Rightarrow> bytes \<Rightarrow> exn + key_tree" where
  "new_key_tree P peers delta seed =
     (if delta \<le> 0 then Inl ValueError
      else if delta = 1 then Inl ZeroDivisionError
      else Inr (fold (add_peer P seed) [0 ..< length peers]
             \<lparr>kt_peers = peers, kt_delta = nat delta, kt_depth = tree_depth (nat delta) (length peers), kt_probes = 0,
              kt_key = [], kt_children = []\<rparr>))"

fun path_tags :: "prims \<Rightarrow> bytes \<Rightarrow> node list \<Rightarrow> key_tree \<Rightarrow> exn + bytes list" where
  "path_tags P r [] t = Inr []"
| "path_tags P r (node # nodes) t =
     (case map_of (kt_key t) node of
        None \<Rightarrow> Inl KeyError
      | Some key \<Rightarrow> (case path_tags P r nodes t of Inl x \<Rightarrow> Inl x | Inr tags \<Rightarrow> Inr (keyed_hash P key r # tags)))"

definition tree_device_message :: "prims \<Rightarrow> urandom \<Rightarrow> nat \<Rightarrow> key_tree \<Rightarrow> exn + bytes \<times> bytes list" where
  "tree_device_message P u i t =
     (let r = u R_BYTES; path = tree_path (kt_delta t) (kt_depth t) i
      in case path_tags P r (map (\<lambda>level. take level path) [1 ..< Suc (kt_depth t)]) t of
           Inl x \<Rightarrow> Inl x | Inr tags \<Rightarrow> Inr (r, tags))"

text \<open>The children of one node are tried in turn.\<close>

fun try_children ::
  "prims \<Rightarrow> bytes \<Rightarrow> bytes \<Rightarrow> node \<Rightarrow> nat list \<Rightarrow> key_tree \<Rightarrow> (exn + node option) \<times> key_tree" where
  "try_children P r tag node [] t = (Inr None, t)"
| "try_children P r tag node (child # cs) t =
     (let t' = t\<lparr>kt_probes := kt_probes t + 1\<rparr>
      in case map_of (kt_key t) (node @ [child]) of
           None \<Rightarrow> (Inl KeyError, t')
         | Some key \<Rightarrow>
             if keyed_hash P key r = tag then (Inr (Some (node @ [child])), t') else try_children P r tag node cs t')"

fun walk_down ::
  "prims \<Rightarrow> bytes \<Rightarrow> bytes list \<Rightarrow> node \<Rightarrow> key_tree \<Rightarrow> (exn + node option) \<times> key_tree" where
  "walk_down P r [] node t = (Inr (Some node), t)"
| "walk_down P r (tag # tags) node t =
     (case try_children P r tag node (children_of node t) t of
        (Inl x, t') \<Rightarrow> (Inl x, t')
      | (Inr None, t') \<Rightarrow> (Inr None, t')
      | (Inr (Some node'), t') \<Rightarrow> walk_down P r tags node' t')"

definition node_index :: "nat \<Rightarrow> node \<Rightarrow> nat" where
  "node_index delta node = foldl (\<lambda>index digit. index * delta + digit) 0 node"

definition tree_resolve :: "prims \<Rightarrow> bytes \<Rightarrow> bytes list \<Rightarrow> key_tree \<Rightarrow> (exn + pystr option) \<times> key_tree" where
  "tree_resolve P r tags t =
     (case walk_down P r tags [] t of
        (Inl x, t') \<Rightarrow> (Inl x, t')
      | (Inr None, t') \<Rightarrow> (Inr None, t')
      | (Inr (Some node), t') \<Rightarrow>
          let index = node_index (kt_delta t') node
          in (if index < length (kt_peers t') then Inr (Some (kt_peers t' ! index)) else Inl IndexError, t'))"

definition tree_storage_bytes :: "key_tree \<Rightarrow> int" where
  "tree_storage_bytes t = KEY_BYTES * int (length (filter (\<lambda>(node, key). length node < kt_depth t) (kt_key t)))"

definition tree_extra_m1_bytes :: "key_tree \<Rightarrow> int" where
  "tree_extra_m1_bytes t = int R_BYTES + DIGEST_BYTES * (int (kt_depth t) - 1)"

section \<open>Depth and digits\<close>

lemma ceil_log_least:
  "2 \<le> b \<Longrightarrow> m \<le> b ^ ceil_log b m d \<and> d \<le> ceil_log b m d \<and> (\<forall>k. d \<le> k \<longrightarrow> k < ceil_log b m d \<longrightarrow> b ^ k < m)"
proof (induction b m d rule: ceil_log.induct)
  case (1 b m d)
  show ?case
  proof (cases "m \<le> b ^ d")
    case True
    then show ?thesis by (simp add: ceil_log.simps [of b m d])
  next
    case False
    with 1 have IH: "m \<le> b ^ ceil_log b m (Suc d)" "Suc d \<le> ceil_log b m (Suc d)"
      "\<forall>k. Suc d \<le> k \<longrightarrow> k < ceil_log b m (Suc d) \<longrightarrow> b ^ k < m" by auto
    have e: "ceil_log b m d = ceil_log b m (Suc d)" using False 1(2) by (simp add: ceil_log.simps [of b m d])
    have "b ^ k < m" if "d \<le> k" "k < ceil_log b m (Suc d)" for k
      using that IH(3) False by (cases "k = d") auto
    with IH e show ?thesis by simp
  qed
qed

lemma tree_depth_ok: "2 \<le> b \<Longrightarrow> n \<le> b ^ tree_depth b n" "2 \<le> b \<Longrightarrow> 1 \<le> tree_depth b n"
  using ceil_log_least [of b "max n 2" 1] by (simp_all add: tree_depth_def)

lemma length_low_digits [simp]: "length (low_digits b k i) = k"
  by (induction k arbitrary: i) simp_all

lemma length_tree_path [simp]: "length (tree_path b k i) = k"
  by (simp add: tree_path_def)

lemma low_digits_less: "0 < b \<Longrightarrow> d \<in> set (low_digits b k i) \<Longrightarrow> d < b"
  by (induction k arbitrary: i) auto

lemma tree_path_less: "0 < b \<Longrightarrow> d \<in> set (tree_path b k i) \<Longrightarrow> d < b"
  by (simp add: tree_path_def low_digits_less)

lemma node_index_snoc: "node_index b (node @ [d]) = node_index b node * b + d"
  by (simp add: node_index_def)

lemma node_index_path: "i < b ^ k \<Longrightarrow> node_index b (tree_path b k i) = i"
proof (induction k arbitrary: i)
  case 0
  then show ?case by (simp add: tree_path_def node_index_def)
next
  case (Suc k)
  then have "i div b < b ^ k" by (simp add: less_mult_imp_div_less mult.commute)
  with Suc.IH have "node_index b (tree_path b k (i div b)) = i div b" .
  then show ?case by (simp add: tree_path_def node_index_snoc)
qed

text \<open>A prefix of a path stands for the index of its subtree.\<close>

lemma take_tree_path: "l \<le> k \<Longrightarrow> take l (tree_path b k i) = tree_path b l (i div b ^ (k - l))"
proof (induction "k - l" arbitrary: k i)
  case 0
  then show ?case by simp
next
  case (Suc x)
  then obtain j where j: "k = Suc j" "l \<le> j" "x = j - l" by (cases k) auto
  have "take l (tree_path b k i) = take l (tree_path b j (i div b))"
    using j by (simp add: tree_path_def)
  also have "\<dots> = tree_path b l (i div b div b ^ (j - l))" using Suc(1) j by simp
  also have "i div b div b ^ (j - l) = i div b ^ (k - l)"
    using j by (simp add: div_mult2_eq [symmetric] Suc_diff_le)
  finally show ?case .
qed

section \<open>What the constructor builds\<close>

text \<open>
  The nodes of the tree are exactly the proper prefixes of the paths added so far, each with the key
  of its own, and the children of a node are listed once each.
\<close>

definition tree_nodes :: "nat \<Rightarrow> nat \<Rightarrow> nat set \<Rightarrow> node set" where
  "tree_nodes delta depth I = {take l (tree_path delta depth i) | l i. i \<in> I \<and> 1 \<le> l \<and> l \<le> depth}"

definition tree_inv :: "nat \<Rightarrow> nat \<Rightarrow> node set \<Rightarrow> key_tree \<Rightarrow> bool" where
  "tree_inv delta depth N t \<longleftrightarrow> kt_delta t = delta \<and> kt_depth t = depth \<and> fst ` set (kt_key t) = N \<and>
     distinct (map fst (kt_key t)) \<and> [] \<notin> N \<and>
     (\<forall>node. distinct (children_of node t) \<and> set (children_of node t) = {c. node @ [c] \<in> N})"

lemma tree_inv_add_node:
  assumes "tree_inv delta depth N t" "node \<noteq> []"
  shows "tree_inv delta depth (insert node N) (add_node P seed node t) \<and> kt_peers (add_node P seed node t) = kt_peers t"
proof (cases "node \<in> N")
  case True
  with assms have "map_of (kt_key t) node \<noteq> None" by (auto simp: tree_inv_def map_of_eq_None_iff)
  with assms True show ?thesis by (simp add: add_node_def insert_absorb)
next
  case False
  let ?t = "add_node P seed node t"
  from False assms have new: "map_of (kt_key t) node = None" by (auto simp: tree_inv_def map_of_eq_None_iff)
  have ch: "children_of m ?t = (if m = butlast node then children_of m t @ [last node] else children_of m t)" for m
    using new by (simp add: add_node_def children_of_def)
  have "distinct (children_of m ?t) \<and> set (children_of m ?t) = {c. m @ [c] \<in> insert node N}" for m
  proof -
    have d: "distinct (children_of m t)" "set (children_of m t) = {c. m @ [c] \<in> N}"
      using assms(1) by (simp_all add: tree_inv_def)
    have split: "m @ [c] = node \<longleftrightarrow> m = butlast node \<and> c = last node" for c
      using assms(2) by (metis append_butlast_last_id butlast_snoc last_snoc)
    from d False append_butlast_last_id [OF assms(2)] show ?thesis unfolding ch by (auto simp: split)
  qed
  moreover have "fst ` set (kt_key ?t) = insert node N" "distinct (map fst (kt_key ?t))"
    using assms(1) new by (auto simp: tree_inv_def add_node_def dom_update distinct_update)
  ultimately show ?thesis using assms new by (simp add: tree_inv_def add_node_def)
qed

lemma tree_inv_add_levels:
  assumes "tree_inv delta depth N t" "\<forall>l \<in> set ls. take l path \<noteq> []"
  shows "tree_inv delta depth (N \<union> (\<lambda>l. take l path) ` set ls) (fold (\<lambda>level. add_node P seed (take level path)) ls t) \<and>
    kt_peers (fold (\<lambda>level. add_node P seed (take level path)) ls t) = kt_peers t"
  using assms
proof (induction ls arbitrary: N t)
  case Nil
  then show ?case by simp
next
  case (Cons l ls)
  then have "take l path \<noteq> []" by simp
  from tree_inv_add_node [OF Cons.prems(1) this, of P seed]
  have "tree_inv delta depth (insert (take l path) N) (add_node P seed (take l path) t)"
    "kt_peers (add_node P seed (take l path) t) = kt_peers t" by simp_all
  with Cons.IH [OF this(1)] Cons.prems(2) show ?case by simp
qed

lemma tree_inv_add_peer:
  assumes "tree_inv delta depth (tree_nodes delta depth I) t" "1 \<le> depth"
  shows "tree_inv delta depth (tree_nodes delta depth (insert i I)) (add_peer P seed i t) \<and>
    kt_peers (add_peer P seed i t) = kt_peers t"
proof -
  let ?p = "tree_path delta depth i"
  have "\<forall>l \<in> set [1 ..< Suc depth]. take l ?p \<noteq> []"
    using assms(2) by (auto simp flip: length_0_conv)
  from tree_inv_add_levels [OF assms(1) this, of P seed] assms(1)
  have "tree_inv delta depth (tree_nodes delta depth I \<union> (\<lambda>l. take l ?p) ` set [1 ..< Suc depth]) (add_peer P seed i t) \<and>
    kt_peers (add_peer P seed i t) = kt_peers t"
    by (simp add: add_peer_def tree_inv_def Let_def)
  moreover have "tree_nodes delta depth I \<union> (\<lambda>l. take l ?p) ` set [1 ..< Suc depth] = tree_nodes delta depth (insert i I)"
  proof -
    have "set [1 ..< Suc depth] = {l. 1 \<le> l \<and> l \<le> depth}" by (auto simp del: upt_Suc)
    then show ?thesis unfolding tree_nodes_def by blast
  qed
  ultimately show ?thesis by simp
qed

lemma tree_inv_add_peers:
  assumes "tree_inv delta depth (tree_nodes delta depth I) t" "1 \<le> depth"
  shows "tree_inv delta depth (tree_nodes delta depth (I \<union> set is)) (fold (add_peer P seed) is t) \<and>
    kt_peers (fold (add_peer P seed) is t) = kt_peers t"
  using assms(1)
proof (induction "is" arbitrary: I t)
  case Nil
  then show ?case by simp
next
  case (Cons i "is")
  from tree_inv_add_peer [OF Cons.prems assms(2), of i P seed] Cons.IH [of "insert i I" "add_peer P seed i t"]
  show ?case by simp
qed

lemma new_key_tree_ok:
  assumes "new_key_tree P peers delta seed = Inr t"
  shows "2 \<le> kt_delta t" "kt_delta t = nat delta" "kt_depth t = tree_depth (nat delta) (length peers)" "kt_peers t = peers"
    "tree_inv (kt_delta t) (kt_depth t) (tree_nodes (kt_delta t) (kt_depth t) {..< length peers}) t"
proof -
  let ?d = "tree_depth (nat delta) (length peers)"
  let ?t0 = "\<lparr>kt_peers = peers, kt_delta = nat delta, kt_depth = ?d, kt_probes = 0, kt_key = [], kt_children = []\<rparr>"
  from assms have delta: "2 \<le> nat delta" and t: "t = fold (add_peer P seed) [0 ..< length peers] ?t0"
    by (auto simp: new_key_tree_def split: if_splits)
  have "tree_inv (nat delta) ?d (tree_nodes (nat delta) ?d {}) ?t0"
    by (simp add: tree_inv_def tree_nodes_def children_of_def)
  from tree_inv_add_peers [OF this tree_depth_ok(2) [OF delta], of "[0 ..< length peers]" P seed]
  have inv: "tree_inv (nat delta) ?d (tree_nodes (nat delta) ?d {..< length peers}) t" "kt_peers t = peers"
    by (simp_all add: t lessThan_atLeast0)
  then have f: "kt_delta t = nat delta" "kt_depth t = ?d" by (simp_all add: tree_inv_def)
  show "kt_delta t = nat delta" "kt_depth t = ?d" "kt_peers t = peers" "2 \<le> kt_delta t"
    "tree_inv (kt_delta t) (kt_depth t) (tree_nodes (kt_delta t) (kt_depth t) {..< length peers}) t"
    using f inv delta by simp_all
qed

section \<open>Resolution\<close>

definition node_tag :: "prims \<Rightarrow> bytes \<Rightarrow> key_tree \<Rightarrow> node \<Rightarrow> bytes" where
  "node_tag P r t node = keyed_hash P (the (map_of (kt_key t) node)) r"

text \<open>Two siblings whose keys give the same tag for the value in the clear.\<close>

definition siblings_collide :: "prims \<Rightarrow> bytes \<Rightarrow> key_tree \<Rightarrow> bool" where
  "siblings_collide P r t \<longleftrightarrow> (\<exists>node c d. c \<noteq> d \<and> c \<in> set (children_of node t) \<and> d \<in> set (children_of node t) \<and>
     node_tag P r t (node @ [c]) = node_tag P r t (node @ [d]))"

definition add_tree_probes :: "int \<Rightarrow> key_tree \<Rightarrow> key_tree" where
  "add_tree_probes n t = t\<lparr>kt_probes := kt_probes t + n\<rparr>"

lemma add_tree_probes_simps [simp]:
  "add_tree_probes 0 t = t" "add_tree_probes m (add_tree_probes n t) = add_tree_probes (n + m) t"
  "kt_probes (add_tree_probes n t) = kt_probes t + n" "kt_key (add_tree_probes n t) = kt_key t"
  "kt_delta (add_tree_probes n t) = kt_delta t" "kt_depth (add_tree_probes n t) = kt_depth t"
  "kt_peers (add_tree_probes n t) = kt_peers t" "children_of node (add_tree_probes n t) = children_of node t"
  "node_tag P r (add_tree_probes n t) node = node_tag P r t node"
  "tree_inv delta depth N (add_tree_probes n t) = tree_inv delta depth N t"
  "siblings_collide P r (add_tree_probes n t) = siblings_collide P r t"
  by (simp_all add: add_tree_probes_def children_of_def node_tag_def tree_inv_def siblings_collide_def add.assoc)

lemma try_children_eq:
  "\<forall>c \<in> set cs. map_of (kt_key t) (node @ [c]) \<noteq> None \<Longrightarrow>
     try_children P r tag node cs t =
       (Inr (map_option (\<lambda>c. node @ [c]) (List.find (\<lambda>c. node_tag P r t (node @ [c]) = tag) cs)),
        add_tree_probes (search_cost (\<lambda>c. node_tag P r t (node @ [c]) = tag) cs) t)"
proof (induction cs arbitrary: t)
  case Nil
  then show ?case by simp
next
  case (Cons c cs)
  have t': "t\<lparr>kt_probes := kt_probes t + 1\<rparr> = add_tree_probes 1 t" by (simp add: add_tree_probes_def)
  from Cons.IH [of "add_tree_probes 1 t"] Cons.prems show ?case
    by (auto simp: t' node_tag_def [of P r t "node @ [c]"] Let_def)
qed

lemma children_keys:
  assumes "tree_inv delta depth N t" "c \<in> set (children_of node t)"
  shows "map_of (kt_key t) (node @ [c]) \<noteq> None"
  using assms by (auto simp: tree_inv_def map_of_eq_None_iff)

lemma children_bound:
  assumes "tree_inv delta depth (tree_nodes delta depth I) t" "0 < delta"
  shows "length (children_of node t) \<le> delta"
proof -
  have "c < delta" if "c \<in> set (children_of node t)" for c
  proof -
    from that assms(1) obtain l i where "node @ [c] = take l (tree_path delta depth i)"
      by (auto simp: tree_inv_def tree_nodes_def)
    then have "c \<in> set (take l (tree_path delta depth i))" by (metis in_set_conv_decomp)
    then have "c \<in> set (tree_path delta depth i)" by (rule in_set_takeD)
    with tree_path_less assms(2) show ?thesis by blast
  qed
  then have "set (children_of node t) \<subseteq> {..< delta}" by auto
  moreover have "distinct (children_of node t)" using assms(1) by (simp add: tree_inv_def)
  ultimately show ?thesis by (metis card_lessThan card_mono distinct_card finite_lessThan)
qed

lemma walk_down_path:
  assumes "tree_inv delta depth (tree_nodes delta depth I) t" "0 < delta" "i \<in> I" "\<not> siblings_collide P r t"
    and "k \<le> depth" "path = tree_path delta depth i"
  shows "\<exists>n. walk_down P r (map (\<lambda>l. node_tag P r t (take l path)) [Suc k ..< Suc depth]) (take k path) t =
      (Inr (Some path), add_tree_probes n t) \<and> int (depth - k) \<le> n \<and> n \<le> int delta * int (depth - k)"
  using assms
proof (induction "depth - k" arbitrary: k t)
  case 0
  then have "k = depth" by simp
  with 0 show ?case by (auto intro!: exI [of _ 0] simp: add_tree_probes_def)
next
  case (Suc x)
  then have k: "k < depth" by simp
  let ?c = "path ! k" and ?cs = "children_of (take k path) t"
  have tk: "take (Suc k) path = take k path @ [?c]"
    using k Suc.prems(6) by (simp add: take_Suc_conv_app_nth)
  have "take (Suc k) path \<in> tree_nodes delta depth I"
    unfolding tree_nodes_def mem_Collect_eq
    by (rule exI [of _ "Suc k"], rule exI [of _ i]) (use Suc.prems(3,6) k in simp)
  then have mem: "?c \<in> set ?cs" using Suc.prems(1) tk by (simp add: tree_inv_def)
  let ?Q = "\<lambda>c. node_tag P r t (take k path @ [c]) = node_tag P r t (take (Suc k) path)"
  have "List.find ?Q ?cs = Some ?c"
    by (rule find_unique [OF mem]) (use Suc.prems(4) mem tk in \<open>auto simp: siblings_collide_def\<close>)
  moreover have "\<forall>c \<in> set ?cs. map_of (kt_key t) (take k path @ [c]) \<noteq> None"
    using children_keys [OF Suc.prems(1)] by blast
  ultimately have step: "try_children P r (node_tag P r t (take (Suc k) path)) (take k path) ?cs t =
      (Inr (Some (take (Suc k) path)), add_tree_probes (search_cost ?Q ?cs) t)"
    using tk by (simp add: try_children_eq)
  let ?t = "add_tree_probes (search_cost ?Q ?cs) t"
  have x: "x = depth - Suc k" using Suc.hyps(2) by simp
  have inv: "tree_inv delta depth (tree_nodes delta depth I) ?t" "\<not> siblings_collide P r ?t" using Suc.prems(1,4) by simp_all
  have kd: "Suc k \<le> depth" using k by simp
  from Suc.hyps(1) [OF x inv(1) Suc.prems(2,3) inv(2) kd Suc.prems(6)] obtain n where
    n: "walk_down P r (map (\<lambda>l. node_tag P r t (take l path)) [Suc (Suc k) ..< Suc depth]) (take (Suc k) path) ?t =
      (Inr (Some path), add_tree_probes n ?t)" "int (depth - Suc k) \<le> n" "n \<le> int delta * int (depth - Suc k)"
    unfolding add_tree_probes_simps by blast
  have "search_cost ?Q ?cs \<le> int delta"
    using search_cost_le [of ?Q ?cs] children_bound [OF Suc.prems(1,2), of "take k path"] by linarith
  moreover have "int delta * int (depth - k) = int delta + int delta * int (depth - Suc k)"
    using k by (simp add: algebra_simps flip: Suc_diff_Suc)
  moreover have "1 \<le> search_cost ?Q ?cs" using mem by (cases ?cs) (simp_all add: search_cost_def)
  moreover have "int (depth - k) = 1 + int (depth - Suc k)" using k by simp
  ultimately show ?case
    using n step k by (auto simp: upt_conv_Cons [of "Suc k"] simp del: upt_Suc intro!: exI [of _ "search_cost ?Q ?cs + n"])
qed

text \<open>
  A device of the tree is resolved to its name with at most \<open>delta\<close> probes per level, unless two siblings
  collide on the value it sent.
\<close>

lemma path_tags_eq:
  "\<forall>node \<in> set nodes. map_of (kt_key t) node \<noteq> None \<Longrightarrow> path_tags P r nodes t = Inr (map (node_tag P r t) nodes)"
  by (induction nodes) (auto simp: node_tag_def)

lemma tree_resolves:
  assumes "new_key_tree P peers delta seed = Inr t0" "t = add_tree_probes n t0" "i < length peers"
  shows "\<exists>r tags. tree_device_message P u i t = Inr (r, tags) \<and> r = u R_BYTES \<and> length tags = kt_depth t \<and>
    (siblings_collide P r t \<or>
     (\<exists>n. tree_resolve P r tags t = (Inr (Some (peers ! i)), add_tree_probes n t) \<and> int (kt_depth t) \<le> n \<and> n \<le> delta * int (kt_depth t)))"
proof -
  note new = new_key_tree_ok [OF assms(1)]
  let ?d = "kt_depth t" and ?b = "kt_delta t" and ?r = "u R_BYTES"
  let ?path = "tree_path ?b ?d i"
  let ?tags = "map (\<lambda>l. node_tag P ?r t (take l ?path)) [Suc 0 ..< Suc ?d]"
  have f: "?d = tree_depth (nat delta) (length peers)" "?b = nat delta" "2 \<le> nat delta" "kt_peers t = peers"
    using new assms(2) by simp_all
  then have "int ?b = delta" by simp
  have inv: "tree_inv ?b ?d (tree_nodes ?b ?d {..< length peers}) t" using new(5) assms(2) by simp
  have "map_of (kt_key t) (take l ?path) \<noteq> None" if "1 \<le> l" "l \<le> ?d" for l
  proof -
    have "take l ?path \<in> tree_nodes ?b ?d {..< length peers}"
      using that assms(3) unfolding tree_nodes_def by blast
    with inv show ?thesis by (simp add: tree_inv_def map_of_eq_None_iff)
  qed
  then have "\<forall>node \<in> set (map (\<lambda>l. take l ?path) [1 ..< Suc ?d]). map_of (kt_key t) node \<noteq> None"
    by (auto simp del: upt_Suc)
  then have msg: "tree_device_message P u i t = Inr (?r, ?tags)"
    by (simp add: tree_device_message_def Let_def path_tags_eq comp_def del: upt_Suc)
  have "tree_resolve P ?r ?tags t = (Inr (Some (peers ! i)), add_tree_probes n t) \<and> int ?d \<le> n \<and> n \<le> delta * int ?d"
    if "walk_down P ?r ?tags [] t = (Inr (Some ?path), add_tree_probes n t)" "int ?d \<le> n" "n \<le> int ?b * int ?d" for n
  proof -
    have "i < ?b ^ ?d" using tree_depth_ok(1) [OF f(3), of "length peers"] assms(3) f(1,2) by simp
    then show ?thesis
      using that assms(3) f \<open>int ?b = delta\<close> by (simp add: tree_resolve_def node_index_path Let_def del: upt_Suc)
  qed
  moreover have "\<exists>n. walk_down P ?r ?tags [] t = (Inr (Some ?path), add_tree_probes n t) \<and> int ?d \<le> n \<and> n \<le> int ?b * int ?d"
    if "\<not> siblings_collide P ?r t"
  proof -
    have "0 < ?b" "i \<in> {..< length peers}" using f assms(3) by simp_all
    from walk_down_path [OF inv this that le0 refl] show ?thesis by simp
  qed
  ultimately have "siblings_collide P ?r t \<or> (\<exists>n. tree_resolve P ?r ?tags t = (Inr (Some (peers ! i)), add_tree_probes n t) \<and>
      int ?d \<le> n \<and> n \<le> delta * int ?d)" by blast
  with msg show ?thesis by (intro exI [of _ ?r] exI [of _ ?tags]) simp
qed

text \<open>A first tag that no child of the root has is refused after at most \<open>delta\<close> probes.\<close>

lemma tree_refuses:
  assumes "new_key_tree P peers delta seed = Inr t0" "t = add_tree_probes k t0" "\<forall>c \<in> set (children_of [] t). node_tag P r t [c] \<noteq> tag"
  shows "\<exists>n. tree_resolve P r (tag # tags) t = (Inr None, add_tree_probes n t) \<and> 0 \<le> n \<and> n \<le> delta \<and> (peers \<noteq> [] \<longrightarrow> 0 < n)"
proof -
  have new: "2 \<le> kt_delta t" "kt_delta t = nat delta"
    "tree_inv (kt_delta t) (kt_depth t) (tree_nodes (kt_delta t) (kt_depth t) {..< length peers}) t"
    using new_key_tree_ok [OF assms(1)] assms(2) by simp_all
  have "\<forall>c \<in> set (children_of [] t). map_of (kt_key t) ([] @ [c]) \<noteq> None" using children_keys [OF new(3)] by blast
  moreover have "List.find (\<lambda>c. node_tag P r t ([] @ [c]) = tag) (children_of [] t) = None"
    using assms(3) by (simp add: find_None_iff)
  ultimately have "try_children P r tag [] (children_of [] t) t = (Inr None, add_tree_probes (int (length (children_of [] t))) t)"
    using assms(3) by (simp add: try_children_eq search_cost_none)
  moreover have "length (children_of [] t) \<le> nat delta" using children_bound [OF new(3)] new(1,2) by simp
  moreover have "children_of [] t \<noteq> []" if "peers \<noteq> []"
  proof -
    have "1 \<le> kt_depth t" using new_key_tree_ok [OF assms(1)] assms(2) tree_depth_ok(2) [of "nat delta" "length peers"] by simp
    then have "take 1 (tree_path (kt_delta t) (kt_depth t) 0) \<in> tree_nodes (kt_delta t) (kt_depth t) {..< length peers}"
      using that unfolding tree_nodes_def by blast
    moreover have "take 1 (tree_path (kt_delta t) (kt_depth t) 0) = [] @ [tree_path (kt_delta t) (kt_depth t) 0 ! 0]"
      using \<open>1 \<le> kt_depth t\<close> by (simp add: take_Suc_conv_app_nth)
    ultimately have "tree_path (kt_delta t) (kt_depth t) 0 ! 0 \<in> set (children_of [] t)"
      using new(3) by (simp add: tree_inv_def)
    then show ?thesis by auto
  qed
  ultimately show ?thesis using new(1,2) by (auto simp: tree_resolve_def)
qed

text \<open>With no tag at all the walk stays at the root and names the first device.\<close>

lemma tree_empty_tags: "kt_peers t \<noteq> [] \<Longrightarrow> tree_resolve P r [] t = (Inr (Some (hd (kt_peers t))), t)"
  by (simp add: tree_resolve_def node_index_def Let_def hd_conv_nth)

section \<open>Storage\<close>

lemma low_digits_inject: "i < b ^ k \<Longrightarrow> j < b ^ k \<Longrightarrow> tree_path b k i = tree_path b k j \<longleftrightarrow> i = j"
  using node_index_path by metis

lemma div_bound: "0 < n \<Longrightarrow> (\<lambda>i. i div q) ` {..< n} = {.. (n - 1) div (q :: nat)}" if "0 < q"
proof -
  assume n: "0 < n"
  have "j \<in> (\<lambda>i. i div q) ` {..< n}" if "j \<le> (n - 1) div q" for j
  proof (rule image_eqI)
    show "j = (j * q) div q" using \<open>0 < q\<close> by simp
    have "j * q \<le> (n - 1) div q * q" using that by simp
    also have "\<dots> \<le> n - 1" by simp
    finally show "j * q \<in> {..< n}" using n by simp
  qed
  then show ?thesis by (auto intro: div_le_mono)
qed

text \<open>The number of nodes at a level is the number of devices over the size of a subtree, rounded up.\<close>

lemma level_nodes:
  assumes "2 \<le> b" "n \<le> b ^ d" "0 < n" "1 \<le> l" "l \<le> d"
  shows "card {node \<in> tree_nodes b d {..< n}. length node = l} = (n - 1) div b ^ (d - l) + 1"
proof -
  let ?q = "b ^ (d - l)"
  have q: "0 < ?q" using assms(1) by simp
  have "{node \<in> tree_nodes b d {..< n}. length node = l} = (\<lambda>i. take l (tree_path b d i)) ` {..< n}"
    using assms(4,5) by (auto simp: tree_nodes_def)
  also have "\<dots> = tree_path b l ` (\<lambda>i. i div ?q) ` {..< n}"
    using assms(5) by (simp add: take_tree_path image_image)
  also have "\<dots> = tree_path b l ` {.. (n - 1) div ?q}" using div_bound [OF q assms(3)] by simp
  finally have e: "{node \<in> tree_nodes b d {..< n}. length node = l} = tree_path b l ` {.. (n - 1) div ?q}" .
  have "n - 1 < b ^ l * ?q" using assms by (simp add: power_add [symmetric])
  then have "(n - 1) div ?q < b ^ l" by (simp add: less_mult_imp_div_less)
  then have "inj_on (tree_path b l) {.. (n - 1) div ?q}" by (auto simp: inj_on_def low_digits_inject)
  then show ?thesis unfolding e by (simp add: card_image)
qed

text \<open>The keys kept above the leaves, level by level.\<close>

lemma tree_storage_levels:
  assumes inv: "tree_inv b d (tree_nodes b d {..< n}) t" and b: "2 \<le> b" "n \<le> b ^ d" "0 < n"
  shows "tree_storage_bytes t = KEY_BYTES * int (\<Sum>l \<leftarrow> [1 ..< d]. (n - 1) div b ^ (d - l) + 1)"
proof -
  let ?N = "tree_nodes b d {..< n}" and ?keys = "filter (\<lambda>(node, key). length node < kt_depth t) (kt_key t)"
  have depth: "kt_depth t = d" and dist: "distinct (map fst (kt_key t))" and dom: "fst ` set (kt_key t) = ?N"
    using inv by (simp_all add: tree_inv_def)
  have fin: "finite ?N" unfolding dom [symmetric] by simp
  have "distinct (map fst ?keys)" using distinct_fst_filter [OF dist] by simp
  then have "card (set (map fst ?keys)) = length ?keys" by (metis distinct_card length_map)
  moreover have "set (map fst ?keys) = {node \<in> ?N. length node < d}"
    unfolding dom [symmetric] depth by force
  ultimately have "length ?keys = card {node \<in> ?N. length node < d}" by simp
  also have "{node \<in> ?N. length node < d} = (\<Union>l \<in> {1 ..< d}. {node \<in> ?N. length node = l})"
  proof -
    have "1 \<le> length node" if "node \<in> ?N" for node using that by (auto simp: tree_nodes_def)
    then show ?thesis by auto
  qed
  also have "card \<dots> = (\<Sum>l \<in> {1 ..< d}. card {node \<in> ?N. length node = l})"
    using fin by (intro card_UN_disjoint) auto
  also have "\<dots> = (\<Sum>l \<in> {1 ..< d}. (n - 1) div b ^ (d - l) + 1)"
    using level_nodes [OF b] by (intro sum.cong) auto
  also have "\<dots> = (\<Sum>l \<leftarrow> [1 ..< d]. (n - 1) div b ^ (d - l) + 1)"
    by (simp add: sum_list_distinct_conv_sum_set)
  finally show ?thesis by (simp add: tree_storage_bytes_def)
qed

end
