(* ===== verification/ResolutionCosts.thy ===== *)
theory ResolutionCosts
  imports ClockComplete CounterTable_Complete TimeMemory_Complete RfidSchemes Json_Roundtrip "HOL-Library.Multiset" Complex_Main
begin

text \<open>
  The measurement of \<^verbatim>\<open>evaluation/resolution/resolution_costs.py\<close> and its closed forms.  Every random
  choice is an argument: the secrets, the devices drawn by \<^verbatim>\<open>rng.choice\<close> with the nonce of each run,
  and the forged pseudonyms.  A run of a strategy is the construction of the steady state, the honest
  loop and the forged loop; an assertion of the script that fails is \<open>AssertionError\<close>, and the mean
  of no sample raises \<^verbatim>\<open>StatisticsError\<close>, a \<^verbatim>\<open>ValueError\<close>.
\<close>

definition LOOKBACK :: int where
  "LOOKBACK = 16"

definition FORWARD :: int where
  "FORWARD = 8"

definition DRIFT :: int where
  "DRIFT = 1"

definition EPOCH_S :: rat where
  "EPOCH_S = 60"

definition LIFETIME :: int where
  "LIFETIME = 128"

definition DELTA :: nat where
  "DELTA = 32"

definition STEADY :: int where
  "STEADY = 100"

definition zero_pad :: "nat \<Rightarrow> pystr \<Rightarrow> pystr" where
  "zero_pad width ds = replicate (width - length ds) 48 @ ds"

definition device_name :: "nat \<Rightarrow> pystr" where
  "device_name i = lit ''dev-'' @ zero_pad 5 (nat_digits i)"

definition cost_peers :: "(nat \<Rightarrow> bytes) \<Rightarrow> nat \<Rightarrow> peers" where
  "cost_peers urandom32 n = map (\<lambda>i. (device_name i, int_from_bytes (urandom32 i))) [0 ..< n]"

definition steady_log :: "pystr list \<Rightarrow> int \<Rightarrow> session_log" where
  "steady_log names e =
     (let sl = new_session_log DEFAULT_MAX_ATTEMPTS FORWARD LOOKBACK
      in sl\<lparr>last_accepted_epoch := fold (\<lambda>p m. m(p \<mapsto> e)) names (last_accepted_epoch sl)\<rparr>)"

section \<open>Measuring a wire-compatible resolver\<close>

text \<open>One honest sample: whether it was a miss.\<close>

definition sample_once ::
  "prims \<Rightarrow> rat \<Rightarrow> 'a resolver_scheme resolver_ops \<Rightarrow> peers \<Rightarrow> pystr \<Rightarrow> int \<Rightarrow> bytes \<Rightarrow> session_log
     \<Rightarrow> 'a resolver_scheme \<Rightarrow> (exn + bool) \<times> 'a resolver_scheme \<times> session_log" where
  "sample_once P now ops sec p e n_i sl r =
     (case map_of sec p of
        None \<Rightarrow> (Inl KeyError, r, sl)
      | Some lam \<Rightarrow>
          (case h2_pseudonym P lam e of
             Inl x \<Rightarrow> (Inl x, r, sl)
           | Inr pid \<Rightarrow>
               (case ro_resolve ops P now sec sl pid r of
                  (Inl x, r') \<Rightarrow> (if x = UnknownPeerError then Inr True else Inl x, r', sl)
                | (Inr got, r') \<Rightarrow>
                    if got \<noteq> (p, e) then (Inl AssertionError, r', sl)
                    else (case ro_accept ops P now sec sl p e n_i r' of
                            (Inl x, r'', sl') \<Rightarrow> (if x = UnknownPeerError then Inr True else Inl x, r'', sl')
                          | (Inr _, r'', sl') \<Rightarrow> (Inr False, r'', sl')))))"

fun honest_loop ::
  "prims \<Rightarrow> rat \<Rightarrow> 'a resolver_scheme resolver_ops \<Rightarrow> peers \<Rightarrow> ('e \<Rightarrow> session_log \<Rightarrow> pystr \<Rightarrow> exn + int \<times> 'e)
     \<Rightarrow> (pystr \<times> bytes) list \<Rightarrow> 'e \<Rightarrow> session_log \<Rightarrow> 'a resolver_scheme
     \<Rightarrow> (exn + int list \<times> int) \<times> 'a resolver_scheme \<times> session_log" where
  "honest_loop P now ops sec epoch_of [] w sl r = (Inr ([], 0), r, sl)"
| "honest_loop P now ops sec epoch_of ((p, n_i) # draws) w sl r =
     (case epoch_of w sl p of
        Inl x \<Rightarrow> (Inl x, r, sl)
      | Inr (e, w') \<Rightarrow>
          (case sample_once P now ops sec p e n_i sl (reset_counters r) of
             (Inl x, r', sl') \<Rightarrow> (Inl x, r', sl')
           | (Inr missed, r', sl') \<Rightarrow>
               (case honest_loop P now ops sec epoch_of draws w' sl' r' of
                  (Inl x, s) \<Rightarrow> (Inl x, s)
                | (Inr (honest, misses), s) \<Rightarrow>
                    (Inr ((probes r' + precompute_probes r') # honest, (if missed then 1 else 0) + misses), s))))"

fun forged_loop ::
  "prims \<Rightarrow> rat \<Rightarrow> 'a resolver_scheme resolver_ops \<Rightarrow> peers \<Rightarrow> bytes list \<Rightarrow> session_log \<Rightarrow> 'a resolver_scheme
     \<Rightarrow> (exn + int list) \<times> 'a resolver_scheme" where
  "forged_loop P now ops sec [] sl r = (Inr [], r)"
| "forged_loop P now ops sec (pid # pids) sl r =
     (case ro_resolve ops P now sec sl pid (reset_counters r) of
        (Inr got, r') \<Rightarrow> (Inl AssertionError, r')
      | (Inl x, r') \<Rightarrow>
          if x \<noteq> UnknownPeerError then (Inl x, r')
          else (case forged_loop P now ops sec pids sl r' of
                  (Inl y, r'') \<Rightarrow> (Inl y, r'')
                | (Inr forged, r'') \<Rightarrow> (Inr (probes r' # forged), r'')))"

definition measure_wire ::
  "prims \<Rightarrow> rat \<Rightarrow> 'a resolver_scheme resolver_ops \<Rightarrow> peers \<Rightarrow> ('e \<Rightarrow> session_log \<Rightarrow> pystr \<Rightarrow> exn + int \<times> 'e)
     \<Rightarrow> (pystr \<times> bytes) list \<Rightarrow> bytes list \<Rightarrow> 'e \<Rightarrow> session_log \<Rightarrow> 'a resolver_scheme
     \<Rightarrow> (exn + int list \<times> int list \<times> int) \<times> 'a resolver_scheme \<times> session_log" where
  "measure_wire P now ops sec epoch_of draws pids w sl r =
     (case honest_loop P now ops sec epoch_of draws w sl r of
        (Inl x, r', sl') \<Rightarrow> (Inl x, r', sl')
      | (Inr (honest, misses), r', sl') \<Rightarrow>
          (case forged_loop P now ops sec pids sl' r' of
             (Inl x, r'') \<Rightarrow> (Inl x, r'', sl')
           | (Inr forged, r'') \<Rightarrow> (Inr (honest, forged, misses), r'', sl')))"

section \<open>One row per strategy\<close>

record cost_row =
  row_honest_mean :: rat
  row_honest_max :: int
  row_forged :: rat
  row_misses :: int
  row_precompute :: int
  row_epoch_probes :: int
  row_state_bytes :: int
  row_extra_m1_bits :: int
  row_honest_se :: "real option"

definition mean :: "int list \<Rightarrow> rat" where
  "mean xs = rat_of_int (sum_list xs) / rat_of_nat (length xs)"

text \<open>\<^verbatim>\<open>st.stdev(xs) / math.sqrt(len(xs)) if len(xs) > 1 else 0.0\<close>, without rounding.\<close>

definition variance :: "int list \<Rightarrow> rat" where
  "variance xs = (\<Sum>x \<leftarrow> xs. (of_int x - mean xs) ^ 2) / of_nat (length xs - 1)"

definition std_err :: "int list \<Rightarrow> real" where
  "std_err xs = (if 1 < length xs then sqrt (of_rat (variance xs)) / sqrt (real (length xs)) else 0)"

text \<open>Only the rows of O1, O3 and CR have the key \<^verbatim>\<open>honest_se\<close>.\<close>

definition cost_row_of :: "bool \<Rightarrow> int list \<Rightarrow> int list \<Rightarrow> int \<Rightarrow> int \<Rightarrow> int \<Rightarrow> int \<Rightarrow> int \<Rightarrow> exn + cost_row" where
  "cost_row_of with_se honest forged misses pre per_epoch state extra =
     (if honest = [] \<or> forged = [] then Inl ValueError
      else Inr \<lparr>row_honest_mean = mean honest, row_honest_max = Max (set honest), row_forged = mean forged,
             row_misses = misses, row_precompute = pre, row_epoch_probes = per_epoch, row_state_bytes = state,
             row_extra_m1_bits = extra, row_honest_se = (if with_se then Some (std_err honest) else None)\<rparr>)"

text \<open>\<^verbatim>\<open>sl._last_accepted_epoch[p] + 1\<close>, and the constant of the clock strategies.\<close>

definition next_epoch :: "unit \<Rightarrow> session_log \<Rightarrow> pystr \<Rightarrow> exn + int \<times> unit" where
  "next_epoch w sl p = (case last_accepted_epoch sl p of None \<Rightarrow> Inl KeyError | Some e \<Rightarrow> Inr (e + 1, ()))"

definition steady_epoch :: "unit \<Rightarrow> session_log \<Rightarrow> pystr \<Rightarrow> exn + int \<times> unit" where
  "steady_epoch w sl p = Inr (STEADY, ())"

text \<open>The steady state of a strategy, and its measurement: the precomputation, the samples, and the state left.\<close>

definition run_wire ::
  "prims \<Rightarrow> rat \<Rightarrow> 'a resolver_scheme resolver_ops \<Rightarrow> 'a resolver_scheme \<Rightarrow> peers
     \<Rightarrow> ('e \<Rightarrow> session_log \<Rightarrow> pystr \<Rightarrow> exn + int \<times> 'e) \<Rightarrow> (pystr \<times> bytes) list \<Rightarrow> bytes list \<Rightarrow> 'e \<Rightarrow> session_log
     \<Rightarrow> exn + int \<times> (int list \<times> int list \<times> int) \<times> 'a resolver_scheme \<times> session_log" where
  "run_wire P now ops r0 sec epoch_of draws pids w sl =
     (case ro_attach ops P now sec sl r0 of
        (Inl x, _) \<Rightarrow> Inl x
      | (Inr _, r) \<Rightarrow>
          (case measure_wire P now ops sec epoch_of draws pids w sl r of
             (Inl x, _) \<Rightarrow> Inl x
           | (Inr samples, r', sl') \<Rightarrow> Inr (precompute_probes r, samples, r', sl')))"

definition run_linear :: "prims \<Rightarrow> peers \<Rightarrow> (pystr \<times> bytes) list \<Rightarrow> bytes list \<Rightarrow> exn + cost_row" where
  "run_linear P sec draws pids =
     (case run_wire P 0 linear_scan_ops new_resolver sec next_epoch draws pids () (steady_log (map fst sec) STEADY) of
        Inl x \<Rightarrow> Inl x
      | Inr (_, (honest, forged, misses), r, sl) \<Rightarrow>
          cost_row_of True honest forged misses 0 0 (ro_storage_bytes linear_scan_ops sec r) 0)"

definition run_table :: "prims \<Rightarrow> peers \<Rightarrow> (pystr \<times> bytes) list \<Rightarrow> bytes list \<Rightarrow> exn + cost_row" where
  "run_table P sec draws pids =
     (case run_wire P 0 counter_table_ops (new_counter_table None) sec next_epoch draws pids ()
             (steady_log (map fst sec) STEADY) of
        Inl x \<Rightarrow> Inl x
      | Inr (pre, (honest, forged, misses), r, sl) \<Rightarrow>
          cost_row_of False honest forged misses pre 0 (ro_storage_bytes counter_table_ops sec r) 0)"

definition fixed_clock :: rat where
  "fixed_clock = EPOCH_S * of_int STEADY + 1"

definition run_clock :: "prims \<Rightarrow> peers \<Rightarrow> (pystr \<times> bytes) list \<Rightarrow> bytes list \<Rightarrow> exn + cost_row" where
  "run_clock P sec draws pids =
     (case run_wire P fixed_clock clock_scan_ops (new_clock_resolver EPOCH_S DRIFT) sec steady_epoch draws pids ()
             (steady_log (map fst sec) STEADY) of
        Inl x \<Rightarrow> Inl x
      | Inr (_, (honest, forged, misses), r, sl) \<Rightarrow>
          if nonce_cache_entries r \<noteq> int (length honest) then Inl AssertionError
          else cost_row_of True honest forged misses 0 0 (NONCE_CACHE_ENTRY_BYTES * int (length sec)) 0)"

definition run_clock_table :: "prims \<Rightarrow> peers \<Rightarrow> (pystr \<times> bytes) list \<Rightarrow> bytes list \<Rightarrow> exn + cost_row" where
  "run_clock_table P sec draws pids =
     (case run_wire P fixed_clock clock_table_ops (new_clock_table EPOCH_S DRIFT) sec steady_epoch draws pids ()
             (steady_log (map fst sec) STEADY) of
        Inl x \<Rightarrow> Inl x
      | Inr (pre, (honest, forged, misses), r, sl) \<Rightarrow>
          (case sec of
             [] \<Rightarrow> Inl IndexError
           | (_, lam) # _ \<Rightarrow>
               (case h2_pseudonym P lam (STEADY + 1) of
                  Inl x \<Rightarrow> Inl x
                | Inr pid \<Rightarrow>
                    (case ro_resolve clock_table_ops P (fixed_clock + EPOCH_S) sec sl pid (reset_counters r) of
                       (Inl x, _) \<Rightarrow> Inl x
                     | (Inr _, r') \<Rightarrow>
                         cost_row_of False honest forged misses pre (precompute_probes r')
                           (TABLE_ENTRY_BYTES * int (length sec) * (2 * DRIFT + 1) + NONCE_CACHE_ENTRY_BYTES * int (length sec)) 0))))"

text \<open>The trade-off: \<open>nxt\<close> counts the epochs of every device from a random start.\<close>

definition tm_epoch :: "(pystr \<rightharpoonup> int) \<Rightarrow> session_log \<Rightarrow> pystr \<Rightarrow> exn + int \<times> (pystr \<rightharpoonup> int)" where
  "tm_epoch nxt sl p = (case nxt p of None \<Rightarrow> Inl KeyError | Some e \<Rightarrow> Inr (e + 1, nxt(p \<mapsto> e + 1)))"

definition run_time_memory ::
  "prims \<Rightarrow> (nat \<Rightarrow> int \<Rightarrow> int \<Rightarrow> int list) \<Rightarrow> (pystr \<rightharpoonup> int) \<Rightarrow> peers \<Rightarrow> (pystr \<times> bytes) list \<Rightarrow> bytes list \<Rightarrow> exn + cost_row" where
  "run_time_memory P rng nxt sec draws pids =
     (case run_wire P 0 time_memory_ops (new_time_memory LIFETIME 6 None None rng) sec tm_epoch draws pids nxt
             (steady_log (map fst sec) (-1)) of
        Inl x \<Rightarrow> Inl x
      | Inr (pre, (honest, forged, misses), r, sl) \<Rightarrow>
          cost_row_of False honest forged misses pre 0 (ro_storage_bytes time_memory_ops sec r) 0)"

text \<open>The two schemes that change the first message: a draw is a device and the randomness of its message.\<close>

fun lock_loop :: "prims \<Rightarrow> (pystr \<times> urandom) list \<Rightarrow> hash_lock \<Rightarrow> (exn + int list) \<times> hash_lock" where
  "lock_loop P [] t = (Inr [], t)"
| "lock_loop P ((p, u) # draws) t =
     (case map_of (hl_keys t) p of
        None \<Rightarrow> (Inl KeyError, t)
      | Some key \<Rightarrow>
          (case lock_device_message P u key of (r, tag) \<Rightarrow>
            (case lock_resolve P r tag (t\<lparr>hl_probes := 0\<rparr>) of (got, t') \<Rightarrow>
              if got \<noteq> Some p then (Inl AssertionError, t')
              else (case lock_loop P draws t' of
                      (Inl x, t'') \<Rightarrow> (Inl x, t'')
                    | (Inr honest, t'') \<Rightarrow> (Inr (hl_probes t' # honest), t'')))))"

fun lock_keys :: "peers \<Rightarrow> exn + (pystr \<times> bytes) list" where
  "lock_keys [] = Inr []"
| "lock_keys ((p, v) # sec) =
     (case int_to_bytes 32 v of
        Inl x \<Rightarrow> Inl x
      | Inr key \<Rightarrow> (case lock_keys sec of Inl x \<Rightarrow> Inl x | Inr keys \<Rightarrow> Inr ((p, key) # keys)))"

definition run_lock :: "prims \<Rightarrow> peers \<Rightarrow> (pystr \<times> urandom) list \<Rightarrow> bytes \<Rightarrow> bytes \<Rightarrow> exn + cost_row" where
  "run_lock P sec draws forged_r forged_tag =
     (case lock_keys sec of
        Inl x \<Rightarrow> Inl x
      | Inr keys \<Rightarrow>
          (case lock_loop P draws \<lparr>hl_keys = keys, hl_probes = 0\<rparr> of
             (Inl x, _) \<Rightarrow> Inl x
           | (Inr honest, t) \<Rightarrow>
               (case lock_resolve P forged_r forged_tag (t\<lparr>hl_probes := 0\<rparr>) of
                  (Some _, _) \<Rightarrow> Inl AssertionError
                | (None, t') \<Rightarrow> cost_row_of True honest [hl_probes t'] 0 0 0 0 (8 * lock_extra_m1_bytes (int (length sec))))))"

fun tree_loop :: "prims \<Rightarrow> pystr list \<Rightarrow> (nat \<times> urandom) list \<Rightarrow> key_tree \<Rightarrow> (exn + int list) \<times> key_tree" where
  "tree_loop P names [] t = (Inr [], t)"
| "tree_loop P names ((i, u) # draws) t =
     (case tree_device_message P u i (t\<lparr>kt_probes := 0\<rparr>) of
        Inl x \<Rightarrow> (Inl x, t)
      | Inr (r, tags) \<Rightarrow>
          (case tree_resolve P r tags (t\<lparr>kt_probes := 0\<rparr>) of
             (Inl x, t') \<Rightarrow> (Inl x, t')
           | (Inr got, t') \<Rightarrow>
               if got \<noteq> Some (names ! i) then (Inl AssertionError, t')
               else (case tree_loop P names draws t' of
                       (Inl x, t'') \<Rightarrow> (Inl x, t'')
                     | (Inr honest, t'') \<Rightarrow> (Inr (kt_probes t' # honest), t''))))"

definition run_tree ::
  "prims \<Rightarrow> bytes \<Rightarrow> pystr list \<Rightarrow> (nat \<times> urandom) list \<Rightarrow> bytes \<Rightarrow> bytes \<Rightarrow> exn + cost_row \<times> nat" where
  "run_tree P seed names draws forged_r forged_tag =
     (case new_key_tree P names (int DELTA) seed of
        Inl x \<Rightarrow> Inl x
      | Inr tree \<Rightarrow>
          (case tree_loop P names draws tree of
             (Inl x, _) \<Rightarrow> Inl x
           | (Inr honest, t) \<Rightarrow>
               (case tree_resolve P forged_r (replicate (kt_depth t) forged_tag) (t\<lparr>kt_probes := 0\<rparr>) of
                  (Inl x, _) \<Rightarrow> Inl x
                | (Inr (Some _), _) \<Rightarrow> Inl AssertionError
                | (Inr None, t') \<Rightarrow>
                    (case cost_row_of False honest [kt_probes t'] 0 0 0 (tree_storage_bytes t') (8 * tree_extra_m1_bytes t') of
                       Inl x \<Rightarrow> Inl x
                     | Inr row \<Rightarrow> Inr (row, kt_depth t')))))"

section \<open>Closed forms\<close>

definition W1 :: int where
  "W1 = LOOKBACK + FORWARD + 1"

definition WT :: int where
  "WT = 2 * DRIFT + 1"

definition cost_tree_depth :: "nat \<Rightarrow> nat" where
  "cost_tree_depth n = tree_depth DELTA n"

text \<open>Honest probes, forged probes, probes per epoch, state in bytes, extra bits of the first message.\<close>

definition closed :: "string \<Rightarrow> int \<Rightarrow> exn + rat \<times> int \<times> int \<times> int \<times> int" where
  "closed strategy n =
     (if n = 0 then Inr (0, 0, 0, 0, 0)
      else if strategy = ''O1'' then
        Inr (of_int ((n - 1) * W1) / 2 + of_int (LOOKBACK + 2), n * W1, 0, COUNTER_BYTES * n, 0)
      else if strategy = ''O2'' then Inr (1, 0, 0, (TABLE_ENTRY_BYTES * FORWARD + COUNTER_BYTES) * n, 0)
      else if strategy = ''O3'' then Inr (of_int ((n - 1) * WT) / 2 + 1, n * WT, 0, NONCE_CACHE_ENTRY_BYTES * n, 0)
      else if strategy = ''O4'' then
        Inr (0, 0, n, (TABLE_ENTRY_BYTES * WT + NONCE_CACHE_ENTRY_BYTES) * n, 0)
      else if strategy = ''CR'' then Inr (of_int (n + 1) / 2, n, 0, 0, 8 * 16)
      else Inl KeyError)"

text \<open>The key tree's rows of the cost model: \<^verbatim>\<open>math.ceil(n / DELTA ** (d - level))\<close> on integers.\<close>

definition ceil_div :: "nat \<Rightarrow> nat \<Rightarrow> nat" where
  "ceil_div n m = (n + m - 1) div m"

definition tree_model_state :: "nat \<Rightarrow> int" where
  "tree_model_state n =
     (let d = cost_tree_depth n in 32 * int (\<Sum>level \<leftarrow> [1 ..< d]. ceil_div n (DELTA ^ (d - level))))"

definition tree_model_extra :: "nat \<Rightarrow> int" where
  "tree_model_extra n = 8 * (16 + 32 * (int (cost_tree_depth n) - 1))"

section \<open>The script's own checks\<close>

text \<open>The assertions \<^verbatim>\<open>main\<close> makes about a measured row.\<close>

definition EXACT :: "string list" where
  "EXACT = [''O1'', ''O2'', ''O3'', ''O4'', ''CR'']"

definition check_row :: "string \<Rightarrow> int \<Rightarrow> cost_row \<Rightarrow> exn + unit" where
  "check_row s n row =
     (if s \<notin> set EXACT then Inr ()
      else case closed s n of
        Inl x \<Rightarrow> Inl x
      | Inr (h, f, e, b, x) \<Rightarrow>
          (case if s \<in> {''O1'', ''O3'', ''CR''} then map_option (\<lambda>se. 4 * se + 1 / 10 ^ 9) (row_honest_se row) else Some (1 / 10 ^ 9) of
             None \<Rightarrow> Inl KeyError
           | Some tol \<Rightarrow>
               if \<not> of_rat \<bar>row_honest_mean row - h\<bar> \<le> tol then Inl AssertionError
               else if row_forged row \<noteq> of_int f then Inl AssertionError
               else if s = ''O4'' \<and> row_epoch_probes row \<noteq> e then Inl AssertionError
               else if s \<in> {''O1'', ''O2'', ''O4''} \<and> \<not> \<bar>rat_of_int (row_state_bytes row - b)\<bar> < 1 / 10 ^ 6 then Inl AssertionError
               else if s \<in> {''O1'', ''O3'', ''CR''} \<and>
                   \<not> row_honest_max row \<le> (n - 1) * (if s = ''O1'' then W1 else if s = ''O3'' then WT else 1)
                                         + (if s = ''O1'' then LOOKBACK + 2 else 1) then Inl AssertionError
               else Inr ()))"

definition check_tree_row :: "cost_row \<Rightarrow> nat \<Rightarrow> exn + unit" where
  "check_tree_row row depth =
     (if row_honest_max row \<le> int DELTA * int depth \<and> row_forged row \<le> of_nat DELTA then Inr () else Inl AssertionError)"

end
