(* ===== verification/CostBench.thy ===== *)
theory CostBench
  imports ResolutionCosts
begin

text \<open>
  What the measurement measures.  The interface \<open>cost_bench\<close> says what one honest sample and one
  forged pseudonym cost in the steady state and that the steady state survives both; the loops of
  \<open>measure_wire\<close> then return exactly those costs, and no sample is a miss.  The four wire-compatible
  counter and clock strategies are interpretations of it.
\<close>

section \<open>The interface\<close>

definition unenrolled :: "prims \<Rightarrow> peers \<Rightarrow> int \<Rightarrow> bytes \<Rightarrow> bool" where
  "unenrolled P sec E pid \<longleftrightarrow> (\<forall>q \<in> set sec. \<forall>e \<in> {0 ..< E}. pseudonym P (snd q) e \<noteq> pid)"

lemma unenrolledD: "unenrolled P sec E pid \<Longrightarrow> (p, lam) \<in> set sec \<Longrightarrow> 0 \<le> e \<Longrightarrow> e < E \<Longrightarrow> pseudonym P lam e \<noteq> pid"
  by (fastforce simp: unenrolled_def)

locale cost_bench =
  fixes ops :: "'a resolver_scheme resolver_ops"
    and inv :: "prims \<Rightarrow> rat \<Rightarrow> int \<Rightarrow> peers \<Rightarrow> nat \<Rightarrow> bytes set \<Rightarrow> session_log \<Rightarrow> 'a resolver_scheme \<Rightarrow> bool"
    and epoch_of :: "unit \<Rightarrow> session_log \<Rightarrow> pystr \<Rightarrow> exn + int \<times> unit"
    and cost :: "peers \<Rightarrow> pystr \<Rightarrow> int"
    and forged_cost :: "peers \<Rightarrow> int"
  assumes honest_step: "inv P now E sec (Suc k) used sl r \<Longrightarrow> p \<in> fst ` set sec \<Longrightarrow> n \<notin> used \<Longrightarrow> length n = 16 \<Longrightarrow>
      \<exists>e r' sl'. epoch_of () sl p = Inr (e, ()) \<and>
        sample_once P now ops sec p e n sl (reset_counters r) = (Inr False, r', sl') \<and>
        probes r' + precompute_probes r' = cost sec p \<and> inv P now E sec k (insert n used) sl' r'"
    and forged_step: "inv P now E sec k used sl r \<Longrightarrow> unenrolled P sec E pid \<Longrightarrow>
      \<exists>r'. ro_resolve ops P now sec sl pid (reset_counters r) = (Inl UnknownPeerError, r') \<and>
        probes r' = forged_cost sec \<and> inv P now E sec k used sl r'"
begin

lemma honest_loop_eq:
  assumes "inv P now E sec (length draws + k) used sl r" "\<forall>d \<in> set draws. fst d \<in> fst ` set sec \<and> length (snd d) = 16"
    and "distinct (map snd draws)" "snd ` set draws \<inter> used = {}"
  shows "\<exists>r' sl'. honest_loop P now ops sec epoch_of draws () sl r = (Inr (map (\<lambda>d. cost sec (fst d)) draws, 0), r', sl') \<and>
    inv P now E sec k (snd ` set draws \<union> used) sl' r'"
  using assms
proof (induction draws arbitrary: used sl r)
  case Nil
  then show ?case by simp
next
  case (Cons d draws)
  obtain p n where d: "d = (p, n)" by (cases d)
  from Cons.prems honest_step [of P now E sec "length draws + k" used sl r p n] d
  obtain e r1 sl1 where s: "epoch_of () sl p = Inr (e, ())"
    "sample_once P now ops sec p e n sl (reset_counters r) = (Inr False, r1, sl1)"
    "probes r1 + precompute_probes r1 = cost sec p" "inv P now E sec (length draws + k) (insert n used) sl1 r1" by auto
  have "snd ` set draws \<inter> insert n used = {}" using Cons.prems d by auto
  with Cons.IH [OF s(4)] Cons.prems obtain r2 sl2 where
    "honest_loop P now ops sec epoch_of draws () sl1 r1 = (Inr (map (\<lambda>d. cost sec (fst d)) draws, 0), r2, sl2)"
    "inv P now E sec k (snd ` set draws \<union> insert n used) sl2 r2" by auto
  with s show ?case by (simp add: d)
qed

lemma forged_loop_eq:
  assumes "inv P now E sec k used sl r" "\<forall>pid \<in> set pids. unenrolled P sec E pid"
  shows "\<exists>r'. forged_loop P now ops sec pids sl r = (Inr (map (\<lambda>_. forged_cost sec) pids), r') \<and> inv P now E sec k used sl r'"
  using assms
proof (induction pids arbitrary: r)
  case Nil
  then show ?case by simp
next
  case (Cons pid pids)
  then obtain r1 where s: "ro_resolve ops P now sec sl pid (reset_counters r) = (Inl UnknownPeerError, r1)"
    "probes r1 = forged_cost sec" "inv P now E sec k used sl r1" using forged_step by fastforce
  with Cons.IH [OF s(3)] Cons.prems show ?case by auto
qed

lemma measured:
  assumes "inv P now E sec (length draws) {} sl r" "\<forall>d \<in> set draws. fst d \<in> fst ` set sec \<and> length (snd d) = 16"
    and "distinct (map snd draws)" "\<forall>pid \<in> set pids. unenrolled P sec E pid"
  shows "\<exists>r' sl'. measure_wire P now ops sec epoch_of draws pids () sl r =
      (Inr (map (\<lambda>d. cost sec (fst d)) draws, map (\<lambda>_. forged_cost sec) pids, 0), r', sl') \<and>
    inv P now E sec 0 (snd ` set draws) sl' r'"
proof -
  from honest_loop_eq [of P now E sec draws 0 "{}" sl r] assms(1-3) obtain r1 sl1 where
    h: "honest_loop P now ops sec epoch_of draws () sl r = (Inr (map (\<lambda>d. cost sec (fst d)) draws, 0), r1, sl1)"
    "inv P now E sec 0 (snd ` set draws) sl1 r1" by auto
  from forged_loop_eq [OF h(2) assms(4)] h(1) show ?thesis by (auto simp: measure_wire_def)
qed

end

lemma sample_once_hit:
  assumes "map_of sec p = Some lam" "h2_pseudonym P lam e = Inr pid"
    and "ro_resolve ops P now sec sl pid r = (Inr (p, e), r1)" "ro_accept ops P now sec sl p e n r1 = (Inr (), r2, sl')"
  shows "sample_once P now ops sec p e n sl r = (Inr False, r2, sl')"
  using assms by (simp add: sample_once_def)

section \<open>The steady state\<close>

definition enrolment_ok :: "prims \<Rightarrow> peers \<Rightarrow> int \<Rightarrow> bool" where
  "enrolment_ok P sec E \<longleftrightarrow> valid_peers sec \<and> no_collisions P sec E \<and> E \<le> 256 ^ 8 \<and> (\<forall>q \<in> set sec. valid_str (fst q))"

text \<open>The log of the counter strategies: \<open>k\<close> more acceptances stay below the horizon.\<close>

definition counting :: "int \<Rightarrow> peers \<Rightarrow> nat \<Rightarrow> session_log \<Rightarrow> bool" where
  "counting E sec k sl \<longleftrightarrow> forward_tolerance sl = FORWARD \<and> replay_lookback sl = LOOKBACK \<and>
     (\<forall>p \<in> fst ` set sec. last_accepted_epoch sl p \<noteq> None \<and> STEADY \<le> last_epoch sl p \<and> last_epoch sl p + int k + FORWARD < E)"

lemma steady_accepted:
  "last_accepted_epoch (steady_log names e) p = (if p \<in> set names then Some e else None)"
proof -
  have "fold (\<lambda>p m. m(p \<mapsto> e)) names m p = (if p \<in> set names then Some e else m p)" for m :: "pystr \<rightharpoonup> int"
    by (induction names arbitrary: m) auto
  then show ?thesis by (simp add: steady_log_def Let_def new_session_log_def)
qed

lemma steady_log_simps [simp]:
  "forward_tolerance (steady_log names e) = FORWARD" "replay_lookback (steady_log names e) = LOOKBACK"
  "last_epoch (steady_log names e) p = (if p \<in> set names then e else -1)"
  by (simp_all add: last_epoch_def steady_accepted) (simp_all add: steady_log_def Let_def new_session_log_def)

lemma counting_steady: "STEADY + int k + FORWARD < E \<Longrightarrow> counting E sec k (steady_log (map fst sec) STEADY)"
  by (simp add: counting_def steady_accepted)

lemma next_epoch_eq: "last_accepted_epoch sl p \<noteq> None \<Longrightarrow> next_epoch w sl p = Inr (last_epoch sl p + 1, ())"
  by (auto simp: next_epoch_def last_epoch_def)

lemma counting_horizon:
  assumes "enrolment_ok P sec E" "counting E sec k sl"
  shows "below_horizon sl sec FORWARD E"
proof -
  have "-1 \<le> last_epoch sl (fst q) \<and> last_epoch sl (fst q) + FORWARD < E" if "q \<in> set sec" for q
    using assms(2) that unfolding counting_def STEADY_def by force
  with assms(1) show ?thesis by (simp add: below_horizon_def enrolment_ok_def)
qed

lemma counting_accept:
  assumes "counting E sec (Suc k) sl" "p \<in> fst ` set sec"
  shows "counting E sec k (accept_epoch sl p (last_epoch sl p + 1))"
proof -
  have "last_accepted_epoch (accept_epoch sl p (last_epoch sl p + 1)) q \<noteq> None \<and>
      STEADY \<le> last_epoch (accept_epoch sl p (last_epoch sl p + 1)) q \<and>
      last_epoch (accept_epoch sl p (last_epoch sl p + 1)) q + int k + FORWARD < E" if "q \<in> fst ` set sec" for q
  proof -
    from assms(1) that have q: "last_accepted_epoch sl q \<noteq> None" "STEADY \<le> last_epoch sl q"
      "last_epoch sl q + int (Suc k) + FORWARD < E" unfolding counting_def by blast+
    moreover from q(1) have "last_accepted_epoch (accept_epoch sl p (last_epoch sl p + 1)) q \<noteq> None"
      by (simp add: accept_epoch_def)
    ultimately show ?thesis by auto
  qed
  with assms(1) show ?thesis by (simp add: counting_def)
qed

definition name_pos :: "peers \<Rightarrow> pystr \<Rightarrow> nat" where
  "name_pos sec p = length (takeWhile (\<lambda>q. fst q \<noteq> p) sec)"

lemma name_pos_split:
  assumes "valid_peers sec" "p \<in> fst ` set sec"
  obtains before lam after where "sec = before @ (p, lam) # after" "length before = name_pos sec p" "map_of sec p = Some lam"
    "valid_lam lam" "(p, lam) \<in> set sec"
proof -
  have c: "\<exists>before lam after. sec = before @ (p, lam) # after \<and> length before = name_pos sec p"
    using assms(2)
  proof (induction sec)
    case Nil
    then show ?case by simp
  next
    case (Cons x sec)
    obtain q mu where x: "x = (q, mu)" by (cases x)
    show ?case
    proof (cases "q = p")
      case True
      then show ?thesis
        by (intro exI [of _ "[]"] exI [of _ mu] exI [of _ sec]) (simp add: x name_pos_def)
    next
      case False
      with Cons x obtain b lam a where "sec = b @ (p, lam) # a" "length b = name_pos sec p" by auto
      with False show ?thesis
        by (intro exI [of _ "x # b"] exI [of _ lam] exI [of _ a]) (simp add: x name_pos_def)
    qed
  qed
  then obtain before lam after where s: "sec = before @ (p, lam) # after" "length before = name_pos sec p" by blast
  have "distinct (map fst sec)" "valid_lam lam" using assms(1) s(1) by (auto simp: valid_peers_def)
  moreover from this have "map_of sec p = Some lam" using s(1) by (intro map_of_is_SomeI) auto
  ultimately show ?thesis using that s by simp
qed

lemma reset_counters_simps [simp]:
  "probes (reset_counters r) = 0" "precompute_probes (reset_counters r) = 0"
  by (simp_all add: reset_counters_def)

section \<open>Strategy O1\<close>

definition linear_bench :: "prims \<Rightarrow> rat \<Rightarrow> int \<Rightarrow> peers \<Rightarrow> nat \<Rightarrow> bytes set \<Rightarrow> session_log \<Rightarrow> resolver \<Rightarrow> bool" where
  "linear_bench P now E sec k used sl r \<longleftrightarrow> enrolment_ok P sec E \<and> counting E sec k sl"

lemma candidates_length:
  assumes "counting E sec k sl" "fst ` set qs \<subseteq> fst ` set sec"
  shows "int (length (candidates sl qs)) = W1 * int (length qs)"
  using assms(2)
proof (induction qs)
  case Nil
  then show ?case by simp
next
  case (Cons x qs)
  obtain q mu where x: "x = (q, mu)" by (cases x)
  have "q \<in> fst ` set sec" using Cons.prems x by simp
  with assms(1) have "STEADY \<le> last_epoch sl q" "replay_lookback sl = LOOKBACK" "forward_tolerance sl = FORWARD"
    unfolding counting_def by blast+
  then have "int (length (epoch_search_window sl q)) = W1"
    by (simp add: epoch_search_window_def Let_def W1_def STEADY_def LOOKBACK_def FORWARD_def)
  with Cons show ?case by (simp add: x algebra_simps)
qed

interpretation linear_bench: cost_bench linear_scan_ops linear_bench next_epoch
  "\<lambda>sec p. W1 * int (name_pos sec p) + (LOOKBACK + 2)" "\<lambda>sec. W1 * int (length sec)"
proof (unfold_locales, goal_cases)
  case (1 P now E sec k used sl r p n)
  then have ok: "enrolment_ok P sec E" and c: "counting E sec (Suc k) sl" by (simp_all add: linear_bench_def)
  from ok have v: "valid_peers sec" "no_collisions P sec E" by (simp_all add: enrolment_ok_def)
  from name_pos_split [OF v(1) 1(2)] obtain before lam after where s: "sec = before @ (p, lam) # after"
    "length before = name_pos sec p" "map_of sec p = Some lam" "valid_lam lam" "(p, lam) \<in> set sec" by metis
  have par: "last_accepted_epoch sl p \<noteq> None" "STEADY \<le> last_epoch sl p" "forward_tolerance sl = FORWARD" "replay_lookback sl = LOOKBACK"
    using c 1(2) unfolding counting_def by blast+
  let ?e = "last_epoch sl p + 1" and ?n = "W1 * int (name_pos sec p) + (LOOKBACK + 2)"
  note hz = counting_horizon [OF ok c]
  have e: "?e \<in> set (epoch_search_window sl p)" "valid_epoch ?e"
    using par below_horizonD [OF hz s(5)] by (simp_all add: window_mem FORWARD_def LOOKBACK_def STEADY_def valid_epoch_def)
  have "int (length (candidates sl before)) = W1 * int (name_pos sec p)"
    using candidates_length [OF c, of before] s(1,2) by auto
  then have "linear_resolve P now sec sl (pseudonym P lam ?e) (reset_counters r) = (Inr (p, ?e), add_probes ?n (reset_counters r))"
    using linear_resolve_match [OF v _ s(1) e(1), of now] hz par
    by (simp add: is_stale_epoch_def STEADY_def LOOKBACK_def)
  then have "sample_once P now linear_scan_ops sec p ?e n sl (reset_counters r) =
      (Inr False, add_probes ?n (reset_counters r), accept_epoch sl p ?e)"
    using s(3,4) e(2) by (intro sample_once_hit [of sec p lam P ?e "pseudonym P lam ?e"])
      (simp_all add: h2_pseudonym_valid linear_scan_ops_def base_accept_def)
  then show ?case
    using par(1) ok counting_accept [OF c 1(2)] by (simp add: next_epoch_eq linear_bench_def)
next
  case (2 P now E sec k used sl r pid)
  then have ok: "enrolment_ok P sec E" and c: "counting E sec k sl" by (simp_all add: linear_bench_def)
  then have v: "valid_peers sec" "forward_tolerance sl = FORWARD" by (simp_all add: enrolment_ok_def counting_def)
  note hz = counting_horizon [OF ok c]
  have "pseudonym P lam e \<noteq> pid" if "(p, lam) \<in> set sec" "e \<in> set (epoch_search_window sl p)" for p lam e
    using unenrolledD [OF 2(2) that(1)] that(2) below_horizonD [OF hz that(1)] v(2) by (simp add: window_mem)
  then have "\<forall>(p, lam) \<in> set sec. \<forall>e \<in> set (epoch_search_window sl p). pseudonym P lam e \<noteq> pid" by blast
  with linear_resolve_unknown [OF v(1), of sl E P pid now "reset_counters r"] hz v(2) candidates_length [OF c, of sec]
  have "linear_resolve P now sec sl pid (reset_counters r) =
      (Inl UnknownPeerError, add_probes (W1 * int (length sec)) (reset_counters r))" by simp
  with 2 show ?case by (simp add: linear_scan_ops_def linear_bench_def)
qed

section \<open>Strategy O2\<close>

definition table_bench :: "prims \<Rightarrow> rat \<Rightarrow> int \<Rightarrow> peers \<Rightarrow> nat \<Rightarrow> bytes set \<Rightarrow> session_log \<Rightarrow> counter_table \<Rightarrow> bool" where
  "table_bench P now E sec k used sl r \<longleftrightarrow> enrolment_ok P sec E \<and> counting E sec k sl \<and> counter_full P FORWARD sec sl r"

lemma counter_full_reset [simp]: "counter_full P F ps sl (reset_counters r) = counter_full P F ps sl r"
  by (simp add: counter_full_def reset_counters_def forward_def cong: option.case_cong)

interpretation table_bench: cost_bench counter_table_ops table_bench next_epoch "\<lambda>sec p. 1" "\<lambda>sec. 0"
proof (unfold_locales, goal_cases)
  case (1 P now E sec k used sl r p n)
  then have ok: "enrolment_ok P sec E" and c: "counting E sec (Suc k) sl" and full: "counter_full P FORWARD sec sl (reset_counters r)"
    by (simp_all add: table_bench_def)
  from ok have v: "valid_peers sec" "no_collisions P sec E" by (simp_all add: enrolment_ok_def)
  from name_pos_split [OF v(1) 1(2)] obtain lam where s: "map_of sec p = Some lam" "valid_lam lam" "(p, lam) \<in> set sec" by metis
  have par: "last_accepted_epoch sl p \<noteq> None" "STEADY \<le> last_epoch sl p" using c 1(2) unfolding counting_def by blast+
  let ?e = "last_epoch sl p + 1"
  note hz0 = counting_horizon [OF ok c] and c1 = counting_accept [OF c 1(2)]
  note hz1 = counting_horizon [OF ok c1]
  have e: "valid_epoch ?e" "last_epoch sl p < ?e" "?e \<le> last_epoch sl p + FORWARD"
    using par below_horizonD [OF hz0 s(3)] by (simp_all add: FORWARD_def STEADY_def valid_epoch_def)
  from counter_accept_full [OF full v hz0 hz1 s(3) e(2,3), of now n] obtain r2 where
    a: "counter_accept P now sec sl p ?e n (reset_counters r) = (Inr (), r2, accept_epoch sl p ?e)"
    "counter_full P FORWARD sec (accept_epoch sl p ?e) r2" "probes r2 = 1" "precompute_probes r2 = 0" by auto
  have "counter_spec P FORWARD sec sl (pseudonym P lam ?e) p ?e" using s(3) e by (auto simp: counter_spec_def)
  with counter_resolve_iff(1,2) [OF full, of now "pseudonym P lam ?e"]
  have "counter_resolve P now sec sl (pseudonym P lam ?e) (reset_counters r) = (Inr (p, ?e), reset_counters r)"
    by (cases "counter_resolve P now sec sl (pseudonym P lam ?e) (reset_counters r)") auto
  then have "sample_once P now counter_table_ops sec p ?e n sl (reset_counters r) = (Inr False, r2, accept_epoch sl p ?e)"
    using s e(1) a(1) by (intro sample_once_hit [of sec p lam P ?e "pseudonym P lam ?e"])
      (simp_all add: h2_pseudonym_valid counter_table_ops_def)
  then show ?case
    using par(1) ok c1 a by (simp add: next_epoch_eq table_bench_def)
next
  case (2 P now E sec k used sl r pid)
  then have ok: "enrolment_ok P sec E" and c: "counting E sec k sl" and full: "counter_full P FORWARD sec sl (reset_counters r)"
    by (simp_all add: table_bench_def)
  note hz = counting_horizon [OF ok c]
  have "\<not> counter_spec P FORWARD sec sl pid p e" for p e
  proof
    assume "counter_spec P FORWARD sec sl pid p e"
    then obtain lam where l: "(p, lam) \<in> set sec" "last_epoch sl p < e" "e \<le> last_epoch sl p + FORWARD"
      "pseudonym P lam e = pid" by (auto simp: counter_spec_def)
    from unenrolledD [OF 2(2) l(1), of e] below_horizonD [OF hz l(1)] l(2-4) show False by simp
  qed
  then have "fst (counter_resolve P now sec sl pid (reset_counters r)) = Inl UnknownPeerError"
    using counter_resolve_iff(3) [OF full] by blast
  with counter_resolve_iff(2) [OF full, of now pid]
  have "counter_resolve P now sec sl pid (reset_counters r) = (Inl UnknownPeerError, reset_counters r)"
    by (cases "counter_resolve P now sec sl pid (reset_counters r)") simp
  with 2 full show ?case by (simp add: counter_table_ops_def table_bench_def)
qed

section \<open>The nonce cache of the clock strategies\<close>

definition cached :: "rat \<Rightarrow> bytes set \<Rightarrow> 'a clock_resolver_scheme \<Rightarrow> bool" where
  "cached now used r \<longleftrightarrow> ck_epoch_seconds r = EPOCH_S \<and> current_epoch now r = Inr STEADY \<and> ck_drift r = DRIFT \<and> finite used \<and> (\<forall>n \<in> used. length n = 16) \<and>
     (\<exists>l. (\<forall>tag \<in> set l. \<exists>name. \<exists>n \<in> used. tag = name @ [0] @ n) \<and> length l = card used \<and>
       ck_nonces r = (if used = {} then [] else [(STEADY, l)]))"

lemma cached_reset [simp]: "cached now used (reset_counters r) = cached now used r"
  by (simp add: cached_def reset_counters_def current_epoch_def)

lemma cached_probes [simp]: "cached now used (add_probes m r) = cached now used r"
  by (simp add: cached_def add_probes_def current_epoch_def)

lemma cached_entries: "cached now used r \<Longrightarrow> nonce_cache_entries r = int (card used)"
  by (auto simp: cached_def nonce_cache_entries_def)

lemma cached_accept:
  assumes "cached now used r" "n \<notin> used" "length n = 16" "utf8_encode p = Inr name"
  shows "\<exists>ns. clock_accept P now ps sl p STEADY n r = (Inr (), r\<lparr>ck_nonces := ns\<rparr>, accept_epoch sl p STEADY) \<and>
    cached now (insert n used) (r\<lparr>ck_nonces := ns\<rparr>)"
proof -
  from assms(1) obtain l where c: "current_epoch now r = Inr STEADY" "ck_drift r = DRIFT" "finite used" "\<forall>n \<in> used. length n = 16"
      "ck_epoch_seconds r = EPOCH_S"
    and l: "\<forall>tag \<in> set l. \<exists>name. \<exists>n \<in> used. tag = name @ [0] @ n" "length l = card used"
    and ns: "ck_nonces r = (if used = {} then [] else [(STEADY, l)])" by (auto simp: cached_def)
  have nil: "used = {} \<Longrightarrow> l = []" using l(2) by simp
  have p: "purged STEADY STEADY r = [(STEADY, l)]"
    using ns nil by (auto simp: purged_def setdefault_def c(2) DRIFT_def)
  then have s: "seen_nonces STEADY STEADY r = l" by (simp add: seen_nonces_def)
  have new: "name @ [0] @ n \<notin> set l"
  proof
    assume "name @ [0] @ n \<in> set l"
    with l(1) obtain name' n' where "n' \<in> used" "name @ [0] @ n = name' @ [0] @ n'" by blast
    moreover from this c(4) assms(3) have "n = n'"
      using append_eq_append_conv [of n n' "name @ [0]" "name' @ [0]"] by simp
    ultimately show False using assms(2) by simp
  qed
  let ?ns = "[(STEADY, l @ [name @ [0] @ n])]"
  have "clock_accept P now ps sl p STEADY n r = (Inr (), r\<lparr>ck_nonces := ?ns\<rparr>, accept_epoch sl p STEADY)"
    using new by (simp add: clock_accept_eq [OF c(1) assms(4)] p s)
  moreover have "\<forall>tag \<in> set (l @ [name @ [0] @ n]). \<exists>name. \<exists>m \<in> insert n used. tag = name @ [0] @ m"
    using l(1) by fastforce
  then have "cached now (insert n used) (r\<lparr>ck_nonces := ?ns\<rparr>)"
    unfolding cached_def using c l(2) assms(2,3)
    by (intro conjI exI [of _ "l @ [name @ [0] @ n]"]) simp_all
  ultimately show ?thesis by blast
qed

lemma steady_window: "cached now used r \<Longrightarrow> clock_window now r = Inr [STEADY, STEADY - 1, STEADY + 1]"
  by (simp add: cached_def clock_window_def window_of_def DRIFT_def STEADY_def)

lemma clock_scan_skip:
  assumes "\<forall>e \<in> set W. valid_epoch e" "\<forall>q \<in> set qs. valid_lam (snd q) \<and> (\<forall>e \<in> set W. pseudonym P (snd q) e \<noteq> pid)"
  shows "clock_scan_peers P pid W (qs @ ps) r = clock_scan_peers P pid W ps (add_probes (int (length qs * length W)) r)"
  using assms(2)
proof (induction qs arbitrary: r)
  case Nil
  then show ?case by simp
next
  case (Cons x qs)
  obtain q mu where x: "x = (q, mu)" by (cases x)
  have no: "\<forall>e \<in> set W. pseudonym P mu e \<noteq> pid" "valid_lam mu" using Cons.prems x by simp_all
  then have "List.find (\<lambda>e. pseudonym P mu e = pid) W = None" by (simp add: find_None_iff)
  moreover have "search_cost (\<lambda>e. pseudonym P mu e = pid) W = int (length W)" using no by (intro search_cost_none) simp
  ultimately have "clock_scan_peers P pid W ((x # qs) @ ps) r = clock_scan_peers P pid W (qs @ ps) (add_probes (int (length W)) r)"
    using probe_epochs_eq [OF no(2) assms(1), of P pid r] by (simp add: x)
  also have "\<dots> = clock_scan_peers P pid W ps (add_probes (int (length qs * length W)) (add_probes (int (length W)) r))"
    using Cons.prems by (intro Cons.IH) simp
  finally show ?case by (simp add: algebra_simps)
qed

section \<open>Strategy O3\<close>

definition clock_bench :: "prims \<Rightarrow> rat \<Rightarrow> int \<Rightarrow> peers \<Rightarrow> nat \<Rightarrow> bytes set \<Rightarrow> session_log \<Rightarrow> clock_resolver \<Rightarrow> bool" where
  "clock_bench P now E sec k used sl r \<longleftrightarrow> enrolment_ok P sec E \<and> STEADY + 1 < E \<and> cached now used r"

lemma steady_epochs_valid:
  assumes "enrolment_ok P sec E" "STEADY + 1 < E" "e \<in> set [STEADY, STEADY - 1, STEADY + 1]"
  shows "valid_epoch e" "0 \<le> e" "e < E"
  using assms by (auto simp: enrolment_ok_def valid_epoch_def STEADY_def)

lemma utf8_of_valid: "valid_str s \<Longrightarrow> \<exists>b. utf8_encode s = Inr b"
  by (simp add: utf8_encode_def)

interpretation clock_bench: cost_bench clock_scan_ops clock_bench steady_epoch
  "\<lambda>sec p. WT * int (name_pos sec p) + 1" "\<lambda>sec. WT * int (length sec)"
proof (unfold_locales, goal_cases)
  case (1 P now E sec k used sl r p n)
  then have ok: "enrolment_ok P sec E" and E: "STEADY + 1 < E" and c: "cached now used (reset_counters r)" by (simp_all add: clock_bench_def)
  from ok have v: "valid_peers sec" "no_collisions P sec E" "\<forall>q \<in> set sec. valid_str (fst q)" by (simp_all add: enrolment_ok_def)
  from name_pos_split [OF v(1) 1(2)] obtain before lam after where s: "sec = before @ (p, lam) # after"
    "length before = name_pos sec p" "map_of sec p = Some lam" "valid_lam lam" "(p, lam) \<in> set sec" by metis
  let ?W = "[STEADY, STEADY - 1, STEADY + 1]" and ?pid = "pseudonym P lam STEADY"
    and ?n = "WT * int (name_pos sec p) + 1"
  have W: "\<forall>e \<in> set ?W. valid_epoch e \<and> 0 \<le> e \<and> e < E" using steady_epochs_valid [OF ok E] by blast
  have skip: "\<forall>q \<in> set before. valid_lam (snd q) \<and> (\<forall>e \<in> set ?W. pseudonym P (snd q) e \<noteq> ?pid)"
  proof (intro ballI conjI notI)
    fix q assume q: "q \<in> set before"
    then have qs: "(fst q, snd q) \<in> set sec" using s(1) by simp
    then show "valid_lam (snd q)" using v(1) by (auto simp: valid_peers_def)
    fix e assume e: "e \<in> set ?W" "pseudonym P (snd q) e = ?pid"
    have "0 \<le> e" "e < E" "0 \<le> STEADY" "STEADY < E" using bspec [OF W e(1)] E by (simp_all add: STEADY_def)
    from no_collisionsD [OF v(2) qs s(5) this e(2)] have "fst q = p" by simp
    moreover have "p \<notin> fst ` set before" using v(1) s(1) by (auto simp: valid_peers_def)
    ultimately show False using q by auto
  qed
  have pe: "probe_epochs P lam ?pid ?W r' = (Inr (Some STEADY), add_probes 1 r')" for r' :: clock_resolver
    using W s(4) by (subst probe_epochs_eq) simp_all
  have "clock_scan_peers P ?pid ?W sec (reset_counters r) = (Inr (p, STEADY), add_probes ?n (reset_counters r))"
    unfolding s(1) using W skip pe s(2) by (subst clock_scan_skip) (simp_all add: WT_def DRIFT_def algebra_simps s(1) [symmetric])
  then have res: "clock_scan_resolve P now sec sl ?pid (reset_counters r) = (Inr (p, STEADY), add_probes ?n (reset_counters r))"
    by (simp add: clock_scan_resolve_def steady_window [OF c])
  from utf8_of_valid v(3) s(5) obtain name where name: "utf8_encode p = Inr name" by fastforce
  from cached_accept [of now used "add_probes ?n (reset_counters r)" n p name P sec sl] c 1(3,4) name obtain ns where
    a: "clock_accept P now sec sl p STEADY n (add_probes ?n (reset_counters r)) =
       (Inr (), (add_probes ?n (reset_counters r))\<lparr>ck_nonces := ns\<rparr>, accept_epoch sl p STEADY)"
    "cached now (insert n used) ((add_probes ?n (reset_counters r))\<lparr>ck_nonces := ns\<rparr>)" by auto
  have "sample_once P now clock_scan_ops sec p STEADY n sl (reset_counters r) =
      (Inr False, (add_probes ?n (reset_counters r))\<lparr>ck_nonces := ns\<rparr>, accept_epoch sl p STEADY)"
    using s(3,4) W res a(1) by (intro sample_once_hit [of sec p lam P STEADY ?pid])
      (simp_all add: h2_pseudonym_valid clock_scan_ops_def)
  then show ?case
    using ok E a(2) by (simp add: steady_epoch_def clock_bench_def add_probes_def)
next
  case (2 P now E sec k used sl r pid)
  then have ok: "enrolment_ok P sec E" and E: "STEADY + 1 < E" and c: "cached now used (reset_counters r)" by (simp_all add: clock_bench_def)
  let ?W = "[STEADY, STEADY - 1, STEADY + 1]"
  have W: "valid_epoch e" "0 \<le> e" "e < E" if "e \<in> set ?W" for e using steady_epochs_valid [OF ok E that] .
  have "clock_scan_peers P pid ?W (sec @ []) (reset_counters r) =
      clock_scan_peers P pid ?W [] (add_probes (int (length sec * length ?W)) (reset_counters r))"
  proof (rule clock_scan_skip)
    show "\<forall>q \<in> set sec. valid_lam (snd q) \<and> (\<forall>e \<in> set ?W. pseudonym P (snd q) e \<noteq> pid)"
      using 2(2) W ok unfolding unenrolled_def enrolment_ok_def valid_peers_def by (metis atLeastLessThan_iff)
  qed (use W in blast)
  then have "clock_scan_resolve P now sec sl pid (reset_counters r) = (Inl UnknownPeerError, add_probes (WT * int (length sec)) (reset_counters r))"
    by (simp add: clock_scan_resolve_def steady_window [OF c] WT_def DRIFT_def algebra_simps)
  with 2 show ?case by (simp add: clock_scan_ops_def clock_bench_def)
qed

section \<open>Strategy O4\<close>

definition tabled_bench :: "prims \<Rightarrow> rat \<Rightarrow> int \<Rightarrow> peers \<Rightarrow> nat \<Rightarrow> bytes set \<Rightarrow> session_log \<Rightarrow> clock_table \<Rightarrow> bool" where
  "tabled_bench P now E sec k used sl r \<longleftrightarrow> enrolment_ok P sec E \<and> STEADY + 1 < E \<and> cached now used r \<and>
     set (ckt_tabled r) = {STEADY - 1 .. STEADY + 1} \<and> holds P sec {STEADY - 1 .. STEADY + 1} r"

lemma steady_set: "set [STEADY, STEADY - 1, STEADY + 1] = {STEADY - 1 .. STEADY + 1}"
  by auto

lemma cached_cong:
  "ck_epoch_seconds r' = ck_epoch_seconds r \<Longrightarrow> ck_drift r' = ck_drift r \<Longrightarrow> ck_nonces r' = ck_nonces r \<Longrightarrow>
     cached now used r' = cached now used r"
  by (simp add: cached_def current_epoch_def)

lemma holds_updates [simp]:
  "holds P ps T (reset_counters r) = holds P ps T r" "holds P ps T (r\<lparr>ck_nonces := ns\<rparr>) = holds P ps T r"
  "ckt_tabled (reset_counters r) = ckt_tabled r" "ckt_table (reset_counters r) = ckt_table r"
  by (simp_all add: holds_def reset_counters_def)

text \<open>In the steady state the table is complete: a resolution advances nothing and hashes nothing.\<close>

lemma tabled_lookup:
  assumes "tabled_bench P now E sec k used sl r"
  shows "\<exists>r'. clock_table_resolve P now sec sl pid (reset_counters r) =
      (case map_of (ckt_table r') pid of None \<Rightarrow> Inl UnknownPeerError | Some got \<Rightarrow> Inr got, r') \<and>
    tabled_bench P now E sec k used sl r' \<and> probes r' = 0 \<and> precompute_probes r' = 0"
proof -
  let ?r = "reset_counters r" and ?W = "[STEADY, STEADY - 1, STEADY + 1]"
  from assms have ok: "enrolment_ok P sec E" "STEADY + 1 < E" and c: "cached now used ?r"
    and t: "set (ckt_tabled ?r) = {STEADY - 1 .. STEADY + 1}" "holds P sec (set (ckt_tabled ?r)) ?r"
    by (simp_all add: tabled_bench_def)
  have "{STEADY - 1 .. STEADY + 1} \<subseteq> {0 ..< E}" using ok(2) by (auto simp: STEADY_def)
  then have sub: "set (ckt_tabled ?r) \<subseteq> {0 ..< E}" "set ?W \<subseteq> {0 ..< E}" by (simp_all only: t(1) steady_set)
  from ok(1) have v: "no_collisions P sec E" "E \<le> 256 ^ 8" "valid_peers sec" by (simp_all add: enrolment_ok_def)
  from clock_advance_exact [OF v t(2) sub(1) steady_window [OF c] sub(2)] obtain r' where
    a: "clock_advance P now sec ?r = (Inr (), r')" "holds P sec (set ?W) r'" "set (ckt_tabled r') = set ?W"
    "probes r' = 0" "precompute_probes r' = int (length sec) * int (card (set ?W - set (ckt_tabled ?r)))"
    "ck_epoch_seconds r' = ck_epoch_seconds ?r" "ck_drift r' = ck_drift ?r" "ck_nonces r' = ck_nonces ?r"
    by auto
  have "set ?W - set (ckt_tabled ?r) = {}" by (simp only: t(1) steady_set Diff_cancel)
  with a(5) have "precompute_probes r' = 0" by (simp del: list.set)
  moreover have "cached now used r'" using cached_cong [OF a(6-8)] c by simp
  moreover have "set (ckt_tabled r') = {STEADY - 1 .. STEADY + 1}" using a(3) by (simp only: steady_set)
  moreover have "holds P sec (set (ckt_tabled r')) r'" using a(2,3) by simp
  ultimately show ?thesis using a(1,4) ok
    by (intro exI [of _ r']) (simp add: clock_table_resolve_def tabled_bench_def split: option.split)
qed

interpretation tabled_bench: cost_bench clock_table_ops tabled_bench steady_epoch "\<lambda>sec p. 0" "\<lambda>sec. 0"
proof (unfold_locales, goal_cases)
  case (1 P now E sec k used sl r p n)
  then have ok: "enrolment_ok P sec E" and E: "STEADY + 1 < E" by (simp_all add: tabled_bench_def)
  from ok have v: "valid_peers sec" "\<forall>q \<in> set sec. valid_str (fst q)" by (simp_all add: enrolment_ok_def)
  from name_pos_split [OF v(1) 1(2)] obtain lam where s: "map_of sec p = Some lam" "valid_lam lam" "(p, lam) \<in> set sec" by metis
  let ?pid = "pseudonym P lam STEADY"
  from tabled_lookup [OF 1(1), of ?pid] obtain r1 where
    a: "clock_table_resolve P now sec sl ?pid (reset_counters r) =
      (case map_of (ckt_table r1) ?pid of None \<Rightarrow> Inl UnknownPeerError | Some got \<Rightarrow> Inr got, r1)"
    "tabled_bench P now E sec (Suc k) used sl r1" "probes r1 = 0" "precompute_probes r1 = 0" by blast
  then have c: "cached now used r1" and h: "set (ckt_tabled r1) = {STEADY - 1 .. STEADY + 1}" "holds P sec (set (ckt_tabled r1)) r1"
    by (simp_all add: tabled_bench_def)
  have "map_of (ckt_table r1) ?pid = Some (p, STEADY)" using holds_lookup [OF h(2)] h(1) s(3) by auto
  with a(1) have res: "clock_table_resolve P now sec sl ?pid (reset_counters r) = (Inr (p, STEADY), r1)" by simp
  from utf8_of_valid v(2) s(3) obtain name where name: "utf8_encode p = Inr name" by fastforce
  from cached_accept [OF c 1(3,4) name, of P sec sl] obtain ns where
    n: "clock_accept P now sec sl p STEADY n r1 = (Inr (), r1\<lparr>ck_nonces := ns\<rparr>, accept_epoch sl p STEADY)"
    "cached now (insert n used) (r1\<lparr>ck_nonces := ns\<rparr>)" by auto
  have "valid_epoch STEADY" using steady_epochs_valid [OF ok E] by simp
  then have "sample_once P now clock_table_ops sec p STEADY n sl (reset_counters r) =
      (Inr False, r1\<lparr>ck_nonces := ns\<rparr>, accept_epoch sl p STEADY)"
    using s(1,2) res n(1) by (intro sample_once_hit [of sec p lam P STEADY ?pid])
      (simp_all add: h2_pseudonym_valid clock_table_ops_def)
  then show ?case
    using ok E n(2) h a(3,4) by (simp add: steady_epoch_def tabled_bench_def)
next
  case (2 P now E sec k used sl r pid)
  from tabled_lookup [OF 2(1), of pid] obtain r1 where
    a: "clock_table_resolve P now sec sl pid (reset_counters r) =
      (case map_of (ckt_table r1) pid of None \<Rightarrow> Inl UnknownPeerError | Some got \<Rightarrow> Inr got, r1)"
    "tabled_bench P now E sec k used sl r1" "probes r1 = 0" by blast
  then have h: "set (ckt_tabled r1) = {STEADY - 1 .. STEADY + 1}" "holds P sec (set (ckt_tabled r1)) r1"
    and E: "STEADY + 1 < E" by (simp_all add: tabled_bench_def)
  have "map_of (ckt_table r1) pid = None"
  proof (cases "map_of (ckt_table r1) pid")
    case (Some got)
    then obtain p e where "map_of (ckt_table r1) pid = Some (p, e)" by (cases got) simp
    then have "map_of (ckt_table r1) pid = Some (p, e)" by simp
    then obtain lam where l: "e \<in> {STEADY - 1 .. STEADY + 1}" "(p, lam) \<in> set sec" "pseudonym P lam e = pid"
      unfolding holds_lookup [OF h(2)] h(1) by blast
    moreover have "0 \<le> e" "e < E" using l(1) E by (simp_all add: STEADY_def)
    ultimately show ?thesis using unenrolledD [OF 2(2)] by blast
  qed simp
  with a show ?case by (simp add: clock_table_ops_def)
qed

end
