(* ===== verification/CostForms.thy ===== *)
theory CostForms
  imports CostBench
begin

text \<open>
  The closed forms are what the measurement returns when every device is drawn equally often, for any
  number of devices: means, forged costs, precomputation, storage and extra bits.
\<close>

section \<open>Means\<close>

definition balanced :: "pystr list \<Rightarrow> pystr list \<Rightarrow> bool" where
  "balanced names drawn \<longleftrightarrow> drawn \<noteq> [] \<and> (\<exists>k. mset drawn = repeat_mset k (mset names))"

lemma sum_repeat_mset: "(\<Sum>x \<in># repeat_mset k M. f x) = int k * (\<Sum>x \<in># M. f x)"
  by (induction k) (simp_all add: algebra_simps)

lemma sum_list_mset: "sum_list (map f xs) = (\<Sum>x \<in># mset xs. f x)" for f :: "'a \<Rightarrow> int"
  by (metis mset_map sum_mset_sum_list)

lemma balanced_members: "balanced names drawn \<Longrightarrow> set drawn \<subseteq> set names"
proof -
  have "set_mset (repeat_mset k M) \<subseteq> set_mset M" for k :: nat and M :: "pystr multiset"
    by (induction k) auto
  then show "balanced names drawn \<Longrightarrow> ?thesis" unfolding balanced_def by (metis set_mset_mset)
qed

lemma mean_balanced:
  assumes "balanced names drawn"
  shows "mean (map f drawn) = mean (map f names)"
proof -
  from assms obtain k where k: "mset drawn = repeat_mset k (mset names)" and ne: "drawn \<noteq> []"
    by (auto simp: balanced_def)
  have len: "length drawn = k * length names" by (metis k size_mset size_repeat_mset)
  then have "k \<noteq> 0" using ne by (cases k) auto
  have "sum_list (map f drawn) = int k * sum_list (map f names)"
    by (simp add: sum_list_mset k sum_repeat_mset)
  with len \<open>k \<noteq> 0\<close> show ?thesis by (simp add: mean_def)
qed

lemma mean_const: "xs \<noteq> [] \<Longrightarrow> mean (map (\<lambda>_. c) xs) = of_int c"
  by (simp add: mean_def sum_list_triv field_simps)

lemma mean_within:
  assumes "xs \<noteq> []" "\<forall>x \<in> set xs. 0 < x \<and> x \<le> b"
  shows "0 < mean xs" "mean xs \<le> of_int b"
proof -
  have "0 < sum_list xs" using assms
  proof (induction xs)
    case (Cons x xs)
    then show ?case by (cases "xs = []") auto
  qed simp
  moreover have "sum_list xs \<le> int (length xs) * b"
    using sum_list_mono [of xs id "\<lambda>_. b"] assms(2) by (simp add: sum_list_triv)
  then have "rat_of_int (sum_list xs) \<le> rat_of_int (int (length xs) * b)" by (simp only: of_int_le_iff)
  ultimately show "0 < mean xs" "mean xs \<le> of_int b" using assms(1) by (simp_all add: mean_def field_simps)
qed

lemma name_pos_names: "distinct (map fst sec) \<Longrightarrow> map (name_pos sec) (map fst sec) = [0 ..< length sec]"
proof (induction sec)
  case Nil
  then show ?case by simp
next
  case (Cons x sec)
  then have "map (name_pos (x # sec)) (map fst sec) = map (\<lambda>p. Suc (name_pos sec p)) (map fst sec)"
    by (intro map_cong) (auto simp: name_pos_def)
  also have "\<dots> = map Suc (map (name_pos sec) (map fst sec))" by simp
  also have "\<dots> = map Suc [0 ..< length sec]" using Cons by (simp only: list.map distinct.simps)
  finally have "map (name_pos (x # sec)) (map fst sec) = [Suc 0 ..< Suc (length sec)]"
    by (simp only: map_Suc_upt)
  moreover have "name_pos (x # sec) (fst x) = 0" by (simp add: name_pos_def)
  ultimately show ?case by (simp only: list.map length_Cons upt_conv_Cons [OF zero_less_Suc])
qed

lemma sum_int_upt: "2 * (\<Sum>i \<leftarrow> [0 ..< n]. int i) = int n * (int n - 1)"
  by (induction n) (simp_all add: algebra_simps)

lemma mean_affine:
  assumes "valid_peers sec" "sec \<noteq> []"
  shows "mean (map (\<lambda>p. a * int (name_pos sec p) + b) (map fst sec)) = of_int ((int (length sec) - 1) * a) / 2 + of_int b"
proof -
  let ?n = "length sec"
  have "map (\<lambda>p. a * int (name_pos sec p) + b) (map fst sec) = map (\<lambda>i. a * int i + b) (map (name_pos sec) (map fst sec))"
    by simp
  also have "\<dots> = map (\<lambda>i. a * int i + b) [0 ..< ?n]"
    using assms(1) by (simp only: name_pos_names valid_peers_def)
  finally have m: "map (\<lambda>p. a * int (name_pos sec p) + b) (map fst sec) = map (\<lambda>i. a * int i + b) [0 ..< ?n]" .
  have "sum_list (map (\<lambda>i. a * int i + b) [0 ..< ?n]) = a * (\<Sum>i \<leftarrow> [0 ..< ?n]. int i) + int ?n * b"
    by (simp add: sum_list_addf sum_list_const_mult sum_list_triv)
  then have "2 * sum_list (map (\<lambda>i. a * int i + b) [0 ..< ?n]) = int ?n * ((int ?n - 1) * a + 2 * b)"
    using arg_cong [OF sum_int_upt [of ?n], of "\<lambda>s. a * s"] by (simp add: algebra_simps)
  from arg_cong [OF this, of rat_of_int]
  have "2 * rat_of_int (sum_list (map (\<lambda>i. a * int i + b) [0 ..< ?n])) =
      rat_of_nat ?n * (of_int ((int ?n - 1) * a) + 2 * of_int b)" by (simp only: of_int_mult of_int_add of_int_numeral of_int_of_nat_eq)
  then have "rat_of_int (sum_list (map (\<lambda>i. a * int i + b) [0 ..< ?n])) =
      rat_of_nat ?n * (of_int ((int ?n - 1) * a) / 2 + of_int b)" by (simp only: distrib_left times_divide_eq_right)
  moreover have "rat_of_nat ?n \<noteq> 0" using assms(2) by simp
  ultimately show ?thesis unfolding m mean_def by simp
qed

section \<open>The rows\<close>

text \<open>Draws of enrolled devices with nonces of their own, and forged pseudonyms.\<close>

definition draws_ok :: "prims \<Rightarrow> peers \<Rightarrow> int \<Rightarrow> (pystr \<times> bytes) list \<Rightarrow> bytes list \<Rightarrow> bool" where
  "draws_ok P sec E draws pids \<longleftrightarrow> draws \<noteq> [] \<and> (\<forall>d \<in> set draws. fst d \<in> fst ` set sec \<and> length (snd d) = 16) \<and>
     distinct (map snd draws) \<and> pids \<noteq> [] \<and> (\<forall>pid \<in> set pids. unenrolled P sec E pid)"

text \<open>The same with every device drawn equally often.\<close>

definition fair_draws :: "prims \<Rightarrow> peers \<Rightarrow> int \<Rightarrow> (pystr \<times> bytes) list \<Rightarrow> bytes list \<Rightarrow> bool" where
  "fair_draws P sec E draws pids \<longleftrightarrow> balanced (map fst sec) (map fst draws) \<and> (\<forall>d \<in> set draws. length (snd d) = 16) \<and>
     distinct (map snd draws) \<and> pids \<noteq> [] \<and> (\<forall>pid \<in> set pids. unenrolled P sec E pid)"

lemma fair_draws_ok:
  assumes "fair_draws P sec E draws pids"
  shows "draws_ok P sec E draws pids"
proof -
  have "fst ` set draws \<subseteq> fst ` set sec" "draws \<noteq> []"
    using balanced_members [of "map fst sec" "map fst draws"] assms by (auto simp: fair_draws_def balanced_def)
  with assms show ?thesis by (auto simp: fair_draws_def draws_ok_def)
qed

lemma std_err_nonneg [simp]: "0 \<le> std_err xs"
proof -
  have "0 \<le> variance xs" unfolding variance_def by (intro divide_nonneg_nonneg sum_list_nonneg) auto
  then show ?thesis by (simp add: std_err_def)
qed

text \<open>A row agrees with the closed form of its strategy in every column, and has no misses.\<close>

definition row_is :: "string \<Rightarrow> nat \<Rightarrow> cost_row \<Rightarrow> bool" where
  "row_is s n row \<longleftrightarrow> row_misses row = 0 \<and> (\<exists>f. row_forged row = of_int f \<and>
     closed s (int n) = Inr (row_honest_mean row, f, row_epoch_probes row, row_state_bytes row, row_extra_m1_bits row)) \<and>
     (s \<in> {''O1'', ''O3'', ''CR''} \<longrightarrow> (\<exists>se. row_honest_se row = Some se \<and> 0 \<le> se))"

text \<open>A row that misses the closed form of the honest mean by \<open>dev\<close>, and agrees with it otherwise.\<close>

definition row_measures :: "string \<Rightarrow> nat \<Rightarrow> rat \<Rightarrow> cost_row \<Rightarrow> bool" where
  "row_measures s n dev row \<longleftrightarrow> row_misses row = 0 \<and> (\<exists>f. row_forged row = of_int f \<and>
     closed s (int n) = Inr (row_honest_mean row - dev, f, row_epoch_probes row, row_state_bytes row, row_extra_m1_bits row)) \<and>
     (s \<in> {''O1'', ''O3'', ''CR''} \<longrightarrow> (\<exists>se. row_honest_se row = Some se \<and> 0 \<le> se))"

lemma row_is_iff: "row_is s n row \<longleftrightarrow> row_measures s n 0 row"
  by (simp add: row_is_def row_measures_def)

definition max_bound :: "string \<Rightarrow> int \<Rightarrow> cost_row \<Rightarrow> bool" where
  "max_bound s n row \<longleftrightarrow> (s \<in> {''O1'', ''O3'', ''CR''} \<longrightarrow>
     row_honest_max row \<le> (n - 1) * (if s = ''O1'' then W1 else if s = ''O3'' then WT else 1) + (if s = ''O1'' then LOOKBACK + 2 else 1))"

text \<open>What the script tolerates: four standard errors where the position of the device is random.\<close>

definition tolerated :: "string \<Rightarrow> rat \<Rightarrow> cost_row \<Rightarrow> bool" where
  "tolerated s dev row \<longleftrightarrow>
     of_rat \<bar>dev\<bar> \<le> (if s \<in> {''O1'', ''O3'', ''CR''} then 4 * the (row_honest_se row) + 1 / 10 ^ 9 else 1 / 10 ^ 9 :: real)"

text \<open>The script's checks of such a row come down to that tolerance.\<close>

lemma row_measures_checked:
  assumes "row_measures s n dev row" "max_bound s (int n) row" "s \<in> set EXACT"
  shows "check_row s (int n) row = (if tolerated s dev row then Inr () else Inl AssertionError)"
proof -
  from assms(1) obtain f where f: "row_forged row = of_int f"
    "closed s (int n) = Inr (row_honest_mean row - dev, f, row_epoch_probes row, row_state_bytes row, row_extra_m1_bits row)"
    by (auto simp: row_measures_def)
  let ?tol = "if s \<in> {''O1'', ''O3'', ''CR''} then 4 * the (row_honest_se row) + 1 / 10 ^ 9 else 1 / 10 ^ 9 :: real"
  have tol: "(if s \<in> {''O1'', ''O3'', ''CR''} then map_option (\<lambda>se. 4 * se + 1 / 10 ^ 9) (row_honest_se row) else Some (1 / 10 ^ 9)) = Some ?tol"
  proof (cases "s \<in> {''O1'', ''O3'', ''CR''}")
    case True
    with assms(1) obtain se where se: "row_honest_se row = Some se" by (auto simp: row_measures_def)
    show ?thesis unfolding if_P [OF True] se by simp
  qed (simp only: if_not_P if_False)
  have d: "\<bar>row_honest_mean row - (row_honest_mean row - dev)\<bar> = \<bar>dev\<bar>" by simp
  have b: "\<bar>rat_of_int (row_state_bytes row - row_state_bytes row)\<bar> < 1 / 10 ^ 6" by simp
  have m: "\<not> (s \<in> {''O1'', ''O3'', ''CR''} \<and> \<not> row_honest_max row \<le> (int n - 1) * (if s = ''O1'' then W1 else if s = ''O3'' then WT else 1)
      + (if s = ''O1'' then LOOKBACK + 2 else 1))" using assms(2) unfolding max_bound_def by blast
  have swap: "(if \<not> Q then x else y) = (if Q then y else x)" for Q and x y :: "exn + unit" by simp
  show ?thesis unfolding check_row_def f(2) sum.case prod.case tol option.case d tolerated_def
    using b assms(3) f(1) m by (simp only: if_True if_False simp_thms swap)
qed

lemma no_deviation_tolerated: "row_measures s n dev row \<Longrightarrow> tolerated s 0 row"
proof -
  assume "row_measures s n dev row"
  then have "0 \<le> the (row_honest_se row)" if "s \<in> {''O1'', ''O3'', ''CR''}" using that by (auto simp: row_measures_def)
  then show ?thesis unfolding tolerated_def by (auto split: if_split)
qed

lemma row_is_checked:
  assumes "row_is s n row"
    and "s \<in> {''O1'', ''O3'', ''CR''} \<longrightarrow> row_honest_max row \<le> (int n - 1) * (if s = ''O1'' then W1 else if s = ''O3'' then WT else 1)
      + (if s = ''O1'' then LOOKBACK + 2 else 1)"
  shows "check_row s (int n) row = Inr ()"
proof (cases "s \<in> set EXACT")
  case True
  from assms(1) have "tolerated s 0 row" unfolding row_is_iff by (rule no_deviation_tolerated)
  with row_measures_checked [OF assms(1) [unfolded row_is_iff] _ True] assms(2) show ?thesis by (simp only: max_bound_def if_True)
qed (simp add: check_row_def)

text \<open>How far the drawn devices lie from the middle of the table, on average.\<close>

definition excess :: "peers \<Rightarrow> pystr list \<Rightarrow> rat" where
  "excess sec drawn = mean (map (\<lambda>p. int (name_pos sec p)) drawn) - of_int (int (length sec) - 1) / 2"

lemma mean_affine_map:
  assumes "xs \<noteq> []"
  shows "mean (map (\<lambda>x. a * f x + b) xs) = of_int a * mean (map f xs) + of_int b"
proof -
  have "sum_list (map (\<lambda>x. a * f x + b) xs) = a * sum_list (map f xs) + int (length xs) * b"
    by (simp add: sum_list_addf sum_list_const_mult sum_list_triv)
  with assms show ?thesis by (simp add: mean_def field_simps)
qed

lemma mean_excess:
  "draws \<noteq> [] \<Longrightarrow> mean (map (\<lambda>d. a * int (name_pos sec (fst d)) + b) draws) =
     of_int ((int (length sec) - 1) * a) / 2 + of_int b + of_int a * excess sec (map fst draws)"
  using mean_affine_map [of draws a "\<lambda>d. int (name_pos sec (fst d))" b]
  by (simp add: excess_def comp_def algebra_simps diff_divide_distrib)

lemma excess_balanced:
  assumes "valid_peers sec" "sec \<noteq> []" "balanced (map fst sec) drawn"
  shows "excess sec drawn = 0"
  using mean_balanced [OF assms(3), of "\<lambda>p. int (name_pos sec p)"] mean_affine [OF assms(1,2), of 1 0]
  by (simp add: excess_def comp_def)

lemma draws_members: "draws_ok P sec E draws pids \<Longrightarrow> \<forall>d \<in> set draws. fst d \<in> fst ` set sec \<and> length (snd d) = 16"
  by (simp add: draws_ok_def)

lemma draws_nonempty: "draws_ok P sec E draws pids \<Longrightarrow> draws \<noteq> [] \<and> sec \<noteq> [] \<and> pids \<noteq> []"
  by (cases draws) (auto simp: draws_ok_def)

context cost_bench
begin

lemma run_wire_eq:
  assumes "ro_attach ops P now sec sl r0 = (Inr (), r)" "inv P now E sec (length draws) {} sl r" "draws_ok P sec E draws pids"
  shows "\<exists>r' sl'. run_wire P now ops r0 sec epoch_of draws pids () sl =
      Inr (precompute_probes r, (map (\<lambda>d. cost sec (fst d)) draws, map (\<lambda>_. forged_cost sec) pids, 0), r', sl') \<and>
    inv P now E sec 0 (snd ` set draws) sl' r'"
proof -
  have "distinct (map snd draws)" "\<forall>pid \<in> set pids. unenrolled P sec E pid" using assms(3) by (simp_all add: draws_ok_def)
  from measured [OF assms(2) draws_members [OF assms(3)] this] assms(1) show ?thesis by (auto simp: run_wire_def)
qed

end

lemma cost_row_of_eq:
  "draws_ok P sec E draws pids \<Longrightarrow>
     cost_row_of w (map f draws) (map (\<lambda>_. c) pids) misses pre per_epoch state extra =
       Inr \<lparr>row_honest_mean = mean (map f draws), row_honest_max = Max (set (map f draws)), row_forged = of_int c,
            row_misses = misses, row_precompute = pre, row_epoch_probes = per_epoch, row_state_bytes = state,
            row_extra_m1_bits = extra, row_honest_se = (if w then Some (std_err (map f draws)) else None)\<rparr>"
  using draws_nonempty [of P sec E draws pids] by (simp add: cost_row_of_def mean_const)

lemma name_pos_less: "p \<in> fst ` set sec \<Longrightarrow> name_pos sec p < length sec"
  unfolding name_pos_def by (induction sec) auto

lemma max_affine:
  assumes "draws_ok P sec E draws pids" "0 \<le> a"
  shows "Max (set (map (\<lambda>d. a * int (name_pos sec (fst d)) + b) draws)) \<le> (int (length sec) - 1) * a + b"
proof -
  have "a * int (name_pos sec (fst d)) + b \<le> (int (length sec) - 1) * a + b" if "d \<in> set draws" for d
  proof -
    have "int (name_pos sec (fst d)) \<le> int (length sec) - 1"
      using name_pos_less [of "fst d" sec] draws_members [OF assms(1)] that by simp
    with mult_right_mono [OF this assms(2)] show ?thesis by (simp add: mult.commute)
  qed
  then show ?thesis using draws_nonempty [OF assms(1)] by (auto simp: Max_le_iff)
qed

lemma linear_measured:
  assumes "enrolment_ok P sec E" "draws_ok P sec E draws pids" "STEADY + int (length draws) + FORWARD < E"
  shows "\<exists>row. run_linear P sec draws pids = Inr row \<and> row_measures ''O1'' (length sec) (of_int W1 * excess sec (map fst draws)) row \<and>
    max_bound ''O1'' (int (length sec)) row"
proof -
  let ?sl = "steady_log (map fst sec) STEADY" and ?c = "\<lambda>p. W1 * int (name_pos sec p) + (LOOKBACK + 2)"
  have ne: "sec \<noteq> []" and v: "valid_peers sec" using draws_nonempty [OF assms(2)] assms(1) by (simp_all add: enrolment_ok_def)
  have inv: "linear_bench P 0 E sec (length draws) {} ?sl new_resolver"
    using assms(1) counting_steady [OF assms(3)] by (simp add: linear_bench_def)
  have at: "ro_attach linear_scan_ops P 0 sec ?sl new_resolver = (Inr (), new_resolver)"
    by (simp add: linear_scan_ops_def base_attach_def)
  from linear_bench.run_wire_eq [OF at inv assms(2)] obtain r sl where
    "run_wire P 0 linear_scan_ops new_resolver sec next_epoch draws pids () ?sl = Inr (precompute_probes new_resolver,
       (map (\<lambda>d. ?c (fst d)) draws, map (\<lambda>_. W1 * int (length sec)) pids, 0), r, sl)" by blast
  then show ?thesis
    using mean_excess [of draws W1 sec "LOOKBACK + 2"] max_affine [OF assms(2), of W1 "LOOKBACK + 2"] draws_nonempty [OF assms(2)] ne
    by (simp add: run_linear_def cost_row_of_eq [OF assms(2)] row_measures_def max_bound_def closed_def linear_scan_ops_def linear_storage_bytes_def
        W1_def LOOKBACK_def FORWARD_def mult.commute)
qed

lemma table_measured:
  assumes "enrolment_ok P sec E" "draws_ok P sec E draws pids" "STEADY + int (length draws) + FORWARD < E"
  shows "\<exists>row. run_table P sec draws pids = Inr row \<and> row_measures ''O2'' (length sec) 0 row \<and> max_bound ''O2'' (int (length sec)) row \<and>
    row_precompute row = FORWARD * int (length sec)"
proof -
  let ?sl = "steady_log (map fst sec) STEADY"
  have ne: "sec \<noteq> []" and v: "valid_peers sec" "no_collisions P sec E"
    using draws_nonempty [OF assms(2)] assms(1) by (simp_all add: enrolment_ok_def)
  note c = counting_steady [OF assms(3), of sec]
  note hz = counting_horizon [OF assms(1) c]
  have "0 \<le> FORWARD" "forward ?sl (new_counter_table None) = FORWARD"
    by (simp_all add: FORWARD_def forward_def new_counter_table_def)
  from counter_attach_full [OF v(2) hz v(1) this, of 0] obtain r where
    r: "counter_attach P 0 sec ?sl (new_counter_table None) = (Inr (), r)" "counter_full P FORWARD sec ?sl r"
    "precompute_probes r = FORWARD * int (length sec)" by (auto simp: new_counter_table_def)
  have inv: "table_bench P 0 E sec (length draws) {} ?sl r" using assms(1) c r(2) by (simp add: table_bench_def)
  have at: "ro_attach counter_table_ops P 0 sec ?sl (new_counter_table None) = (Inr (), r)"
    using r(1) by (simp add: counter_table_ops_def)
  from table_bench.run_wire_eq [OF at inv assms(2)] obtain r' sl where
    w: "run_wire P 0 counter_table_ops (new_counter_table None) sec next_epoch draws pids () ?sl =
       Inr (precompute_probes r, (map (\<lambda>_. 1) draws, map (\<lambda>_. 0) pids, 0), r', sl)"
    "table_bench P 0 E sec 0 (snd ` set draws) sl r'" by blast
  have "ro_storage_bytes counter_table_ops sec r' = (TABLE_ENTRY_BYTES * FORWARD + COUNTER_BYTES) * int (length sec)"
  proof -
    have "counter_full P FORWARD sec sl r'" "below_horizon sl sec FORWARD E"
      using w(2) counting_horizon [OF assms(1), of 0 sl] by (simp_all add: table_bench_def)
    from counter_full_storage [OF this(1) v(2) this(2)] show ?thesis by (simp add: counter_table_ops_def FORWARD_def)
  qed
  then show ?thesis
    using w(1) mean_const [of draws 1] draws_nonempty [OF assms(2)] r(3)
    by (simp add: run_table_def cost_row_of_eq [OF assms(2)] row_measures_def max_bound_def closed_def)
qed

lemma fixed_epoch:
  "ck_epoch_seconds r = EPOCH_S \<Longrightarrow> current_epoch fixed_clock r = Inr STEADY"
  "ck_epoch_seconds r = EPOCH_S \<Longrightarrow> current_epoch (fixed_clock + EPOCH_S) r = Inr (STEADY + 1)"
  by (simp_all add: current_epoch_def fixed_clock_def EPOCH_S_def STEADY_def floor_eq_iff)

lemma cached_fresh:
  assumes "ck_epoch_seconds r = EPOCH_S" "ck_drift r = DRIFT" "ck_nonces r = []"
  shows "cached fixed_clock {} r"
  using assms by (simp add: cached_def fixed_epoch)

lemma clock_measured:
  assumes "enrolment_ok P sec E" "draws_ok P sec E draws pids" "STEADY + 1 < E"
  shows "\<exists>row. run_clock P sec draws pids = Inr row \<and> row_measures ''O3'' (length sec) (of_int WT * excess sec (map fst draws)) row \<and>
    max_bound ''O3'' (int (length sec)) row"
proof -
  let ?sl = "steady_log (map fst sec) STEADY" and ?c = "\<lambda>p. WT * int (name_pos sec p) + 1"
    and ?r = "new_clock_resolver EPOCH_S DRIFT"
  have ne: "sec \<noteq> []" and v: "valid_peers sec" using draws_nonempty [OF assms(2)] assms(1) by (simp_all add: enrolment_ok_def)
  have inv: "clock_bench P fixed_clock E sec (length draws) {} ?sl ?r"
    using assms(1,3) cached_fresh [of ?r] by (simp add: clock_bench_def new_clock_resolver_def)
  have at: "ro_attach clock_scan_ops P fixed_clock sec ?sl ?r = (Inr (), ?r)"
    by (simp add: clock_scan_ops_def base_attach_def)
  from clock_bench.run_wire_eq [OF at inv assms(2)] obtain r sl where
    w: "run_wire P fixed_clock clock_scan_ops ?r sec steady_epoch draws pids () ?sl = Inr (precompute_probes ?r,
       (map (\<lambda>d. ?c (fst d)) draws, map (\<lambda>_. WT * int (length sec)) pids, 0), r, sl)"
    "clock_bench P fixed_clock E sec 0 (snd ` set draws) sl r" by blast
  have "distinct (map snd draws)" using assms(2) by (simp add: draws_ok_def)
  then have "card (snd ` set draws) = length draws" using distinct_card [of "map snd draws"] by simp
  with w(2) cached_entries [of fixed_clock "snd ` set draws" r] have "nonce_cache_entries r = int (length draws)"
    by (simp add: clock_bench_def)
  then show ?thesis
    using w(1) mean_excess [of draws WT sec 1] max_affine [OF assms(2), of WT 1] draws_nonempty [OF assms(2)] ne
    by (simp add: run_clock_def cost_row_of_eq [OF assms(2)] row_measures_def max_bound_def closed_def WT_def DRIFT_def mult.commute)
qed

lemma clock_table_measured:
  assumes "enrolment_ok P sec E" "draws_ok P sec E draws pids" "STEADY + 2 < E"
  shows "\<exists>row. run_clock_table P sec draws pids = Inr row \<and> row_measures ''O4'' (length sec) 0 row \<and> max_bound ''O4'' (int (length sec)) row \<and>
    row_precompute row = WT * int (length sec)"
proof -
  let ?sl = "steady_log (map fst sec) STEADY" and ?r0 = "new_clock_table EPOCH_S DRIFT"
  let ?W = "[STEADY, STEADY - 1, STEADY + 1]" and ?W1 = "[STEADY + 1, STEADY, STEADY + 2]"
  have ne: "sec \<noteq> []" and v: "no_collisions P sec E" "E \<le> 256 ^ 8" "valid_peers sec"
    using draws_nonempty [OF assms(2)] assms(1) by (simp_all add: enrolment_ok_def)
  have E: "STEADY + 1 < E" using assms(3) by simp
  have sub: "set ?W \<subseteq> {0 ..< E}" "set ?W1 \<subseteq> {0 ..< E}" using assms(3) by (auto simp: STEADY_def)
  let ?r1 = "?r0\<lparr>ckt_table := [], ckt_tabled := []\<rparr>"
  have c0: "cached fixed_clock {} ?r1" by (rule cached_fresh) (simp_all add: new_clock_table_def)
  have h0: "holds P sec (set (ckt_tabled ?r1)) ?r1" "set (ckt_tabled ?r1) \<subseteq> {0 ..< E}" by (simp_all add: holds_def)
  from clock_advance_exact [OF v h0 steady_window [OF c0] sub(1)] obtain r where
    a: "clock_advance P fixed_clock sec ?r1 = (Inr (), r)" "holds P sec (set ?W) r" "set (ckt_tabled r) = set ?W"
    "precompute_probes r = precompute_probes ?r1 + int (length sec) * int (card (set ?W - set (ckt_tabled ?r1)))"
    "ck_epoch_seconds r = ck_epoch_seconds ?r1" "ck_drift r = ck_drift ?r1" "ck_nonces r = ck_nonces ?r1" by blast
  have pre: "precompute_probes r = WT * int (length sec)" using a(4) by (simp add: WT_def DRIFT_def new_clock_table_def)
  have "tabled_bench P fixed_clock E sec (length draws) {} ?sl r"
    using assms(1) E cached_cong [OF a(5-7), of fixed_clock "{}"] c0 a(2,3) by (simp only: tabled_bench_def steady_set simp_thms)
  moreover have "ro_attach clock_table_ops P fixed_clock sec ?sl ?r0 = (Inr (), r)"
    using a(1) by (simp add: clock_table_ops_def clock_table_attach_def)
  ultimately obtain r2 sl where
    w: "run_wire P fixed_clock clock_table_ops ?r0 sec steady_epoch draws pids () ?sl =
       Inr (precompute_probes r, (map (\<lambda>_. 0) draws, map (\<lambda>_. 0) pids, 0), r2, sl)"
    "tabled_bench P fixed_clock E sec 0 (snd ` set draws) sl r2"
    using tabled_bench.run_wire_eq [OF _ _ assms(2)] by blast
  obtain p lam qs where sec: "sec = (p, lam) # qs" using ne by (metis list.exhaust surj_pair)
  let ?r2 = "reset_counters r2"
  have t2: "set (ckt_tabled ?r2) = {STEADY - 1 .. STEADY + 1}" "holds P sec (set (ckt_tabled ?r2)) ?r2"
    and c2: "ck_epoch_seconds ?r2 = EPOCH_S" "ck_drift ?r2 = DRIFT"
    using w(2) cached_reset [of fixed_clock "snd ` set draws" r2] by (simp_all add: tabled_bench_def cached_def)
  have win: "clock_window (fixed_clock + EPOCH_S) ?r2 = Inr ?W1"
    using c2 by (simp add: clock_window_def fixed_epoch window_of_def DRIFT_def STEADY_def)
  have "set (ckt_tabled ?r2) \<subseteq> {0 ..< E}" using sub(1) by (simp only: t2(1) steady_set)
  from clock_advance_exact [OF v t2(2) this win sub(2)] obtain r3 where
    b: "clock_advance P (fixed_clock + EPOCH_S) sec ?r2 = (Inr (), r3)" "holds P sec (set ?W1) r3"
    "precompute_probes r3 = precompute_probes ?r2 + int (length sec) * int (card (set ?W1 - set (ckt_tabled ?r2)))" by blast
  have "set ?W1 - set (ckt_tabled ?r2) = {STEADY + 2}" unfolding t2(1) by auto
  with b(3) have per: "precompute_probes r3 = int (length sec)" by (simp only: reset_counters_simps) simp
  have "map_of (ckt_table r3) (pseudonym P lam (STEADY + 1)) = Some (p, STEADY + 1)"
    unfolding holds_lookup [OF b(2)] by (auto simp: sec)
  then have res: "clock_table_resolve P (fixed_clock + EPOCH_S) sec sl (pseudonym P lam (STEADY + 1)) ?r2 = (Inr (p, STEADY + 1), r3)"
    using b(1) by (simp add: clock_table_resolve_def)
  have "valid_lam lam" "valid_epoch (STEADY + 1)"
    using v(3) sec steady_epochs_valid [OF assms(1) E] by simp_all
  then have "h2_pseudonym P lam (STEADY + 1) = Inr (pseudonym P lam (STEADY + 1))" by (rule h2_pseudonym_valid)
  then have "run_clock_table P sec draws pids =
      cost_row_of False (map (\<lambda>_. 0) draws) (map (\<lambda>_. 0) pids) 0 (precompute_probes r) (precompute_probes r3)
        (TABLE_ENTRY_BYTES * int (length sec) * (2 * DRIFT + 1) + NONCE_CACHE_ENTRY_BYTES * int (length sec)) 0"
    using w(1) res by (simp add: run_clock_table_def sec clock_table_ops_def)
  then show ?thesis
    using mean_const [of draws 0] draws_nonempty [OF assms(2)] pre per
    by (simp add: cost_row_of_eq [OF assms(2)] row_measures_def max_bound_def closed_def WT_def algebra_simps)
qed

section \<open>The randomized hash lock\<close>

definition lock_key :: "int \<Rightarrow> bytes" where
  "lock_key v = be_bytes 32 (nat v)"

text \<open>In the clear value \<open>r\<close>, no two devices give the same tag; and no device gives a forged tag.\<close>

definition tags_distinct :: "prims \<Rightarrow> peers \<Rightarrow> bytes \<Rightarrow> bool" where
  "tags_distinct P sec r \<longleftrightarrow> distinct (map (\<lambda>q. keyed_hash P (lock_key (snd q)) r) sec)"

definition forged_lock_tag :: "prims \<Rightarrow> peers \<Rightarrow> bytes \<Rightarrow> bytes \<Rightarrow> bool" where
  "forged_lock_tag P sec r tag \<longleftrightarrow> (\<forall>q \<in> set sec. keyed_hash P (lock_key (snd q)) r \<noteq> tag)"

lemma lock_keys_eq: "valid_peers sec \<Longrightarrow> lock_keys sec = Inr (map (\<lambda>q. (fst q, lock_key (snd q))) sec)"
proof (induction sec)
  case Nil
  then show ?case by simp
next
  case (Cons x sec)
  obtain p v where x: "x = (p, v)" by (cases x)
  with Cons show ?case by (simp add: lock_key_def int_to_bytes_def valid_lam_def)
qed

lemma lock_found:
  assumes "valid_peers sec" "tags_distinct P sec r" "(p, v) \<in> set sec"
  shows "lock_resolve P r (keyed_hash P (lock_key v) r) \<lparr>hl_keys = map (\<lambda>q. (fst q, lock_key (snd q))) sec, hl_probes = 0\<rparr> =
    (Some p, \<lparr>hl_keys = map (\<lambda>q. (fst q, lock_key (snd q))) sec, hl_probes = int (name_pos sec p) + 1\<rparr>)"
proof -
  let ?tag = "keyed_hash P (lock_key v) r" and ?ks = "map (\<lambda>q. (fst q, lock_key (snd q))) sec"
  let ?Q = "\<lambda>(q, k). keyed_hash P k r = ?tag"
  have "distinct (map fst sec)" using assms(1) by (simp add: valid_peers_def)
  have iff: "?Q (fst q, lock_key (snd q)) \<longleftrightarrow> fst q = p" if "q \<in> set sec" for q
  proof
    assume "?Q (fst q, lock_key (snd q))"
    with assms(2,3) that have "q = (p, v)" by (auto simp: tags_distinct_def distinct_map inj_on_def)
    then show "fst q = p" by simp
  next
    assume "fst q = p"
    with that assms(3) \<open>distinct (map fst sec)\<close> have "q = (p, v)"
      by (metis eq_key_imp_eq_value surjective_pairing)
    then show "?Q (fst q, lock_key (snd q))" by simp
  qed
  have "List.find ?Q ?ks = Some (p, lock_key v)"
  proof (intro find_unique ballI impI)
    show "(p, lock_key v) \<in> set ?ks" using assms(3) by (force simp: image_iff)
    fix y assume y: "y \<in> set ?ks" "?Q y"
    then obtain q where q: "q \<in> set sec" "y = (fst q, lock_key (snd q))" by auto
    with y iff have "fst q = p" by simp
    with q(1) assms(3) \<open>distinct (map fst sec)\<close> have "q = (p, v)" by (metis eq_key_imp_eq_value surjective_pairing)
    with q show "y = (p, lock_key v)" by simp
  qed simp
  moreover have "takeWhile (\<lambda>q. \<not> ?Q (fst q, lock_key (snd q))) sec = takeWhile (\<lambda>q. fst q \<noteq> p) sec"
    using iff by (intro takeWhile_cong) auto
  then have "search_cost ?Q ?ks = int (min (length sec) (Suc (name_pos sec p)))"
    by (simp add: search_cost_def takeWhile_map comp_def name_pos_def)
  moreover have "p \<in> fst ` set sec" using assms(3) by force
  ultimately show ?thesis
    using name_pos_less [of p sec] by (simp add: lock_resolve_def lock_scan_eq)
qed

lemma lock_loop_eq:
  assumes v: "valid_peers sec" and d: "\<forall>d \<in> set draws. fst d \<in> fst ` set sec \<and> tags_distinct P sec (snd d R_BYTES)"
  shows "\<exists>m. lock_loop P draws \<lparr>hl_keys = map (\<lambda>q. (fst q, lock_key (snd q))) sec, hl_probes = k\<rparr> =
    (Inr (map (\<lambda>d. int (name_pos sec (fst d)) + 1) draws), \<lparr>hl_keys = map (\<lambda>q. (fst q, lock_key (snd q))) sec, hl_probes = m\<rparr>)"
  using d
proof (induction draws arbitrary: k)
  case Nil
  then show ?case by simp
next
  case (Cons x draws)
  obtain p u where x: "x = (p, u)" by (cases x)
  let ?ks = "map (\<lambda>q. (fst q, lock_key (snd q))) sec"
  have "p \<in> fst ` set sec" using Cons.prems x by simp
  from name_pos_split [OF v this] obtain lam where lam: "(p, lam) \<in> set sec" "map_of sec p = Some lam" by metis
  have "map_of ?ks p = Some (lock_key lam)"
    using map_of_map [of lock_key sec] lam(2) by (simp add: case_prod_unfold comp_def)
  moreover have "tags_distinct P sec (u R_BYTES)" using Cons.prems x by simp
  note lock_found [OF v this lam(1)]
  ultimately show ?case using Cons.IH [of "int (name_pos sec p) + 1"] Cons.prems
    by (auto simp: x lock_device_message_def Let_def)
qed

lemma lock_measured:
  assumes v: "valid_peers sec" and ne: "draws \<noteq> []" and mem: "\<forall>d \<in> set draws. fst d \<in> fst ` set sec"
    and d: "\<forall>d \<in> set draws. tags_distinct P sec (snd d R_BYTES)" and f: "forged_lock_tag P sec r tag"
  shows "\<exists>row. run_lock P sec draws r tag = Inr row \<and> row_measures ''CR'' (length sec) (excess sec (map fst draws)) row \<and>
    max_bound ''CR'' (int (length sec)) row"
proof -
  let ?ks = "map (\<lambda>q. (fst q, lock_key (snd q))) sec" and ?c = "\<lambda>p. 1 * int (name_pos sec p) + 1"
  have ns: "sec \<noteq> []" using ne mem by (cases draws) auto
  from lock_loop_eq [OF v, of draws P 0] d mem obtain m where
    l: "lock_loop P draws \<lparr>hl_keys = ?ks, hl_probes = 0\<rparr> = (Inr (map (\<lambda>d. ?c (fst d)) draws), \<lparr>hl_keys = ?ks, hl_probes = m\<rparr>)" by auto
  have miss: "\<forall>k \<in> set ?ks. \<not> (case k of (q, k) \<Rightarrow> keyed_hash P k r = tag)" using f by (auto simp: forged_lock_tag_def)
  then have "List.find (\<lambda>(q, k). keyed_hash P k r = tag) ?ks = None" unfolding find_None_iff by blast
  with search_cost_none [OF miss] have
    r: "lock_resolve P r tag \<lparr>hl_keys = ?ks, hl_probes = 0\<rparr> = (None, \<lparr>hl_keys = ?ks, hl_probes = int (length sec)\<rparr>)"
    by (simp add: lock_resolve_def lock_scan_eq)
  have "mean (map (\<lambda>d. ?c (fst d)) draws) = of_int (int (length sec) - 1) / 2 + 1 + excess sec (map fst draws)"
    using mean_excess [OF ne, of 1 sec 1] by simp
  moreover have "Max (set (map (\<lambda>d. ?c (fst d)) draws)) \<le> int (length sec)"
    using ne mem name_pos_less by (fastforce simp: Max_le_iff)
  moreover have "run_lock P sec draws r tag = cost_row_of True (map (\<lambda>d. ?c (fst d)) draws) [int (length sec)] 0 0 0 0 (8 * lock_extra_m1_bytes (int (length sec)))"
    using l r by (simp add: run_lock_def lock_keys_eq [OF v])
  ultimately show ?thesis
    using ne ns by (simp add: cost_row_of_def row_measures_def max_bound_def closed_def mean_def lock_extra_m1_bytes_def R_BYTES_def field_simps)
qed

section \<open>Equal draws\<close>

text \<open>If every device is drawn equally often, every row is the closed form.\<close>

lemma fair_excess:
  assumes "enrolment_ok P sec E" "fair_draws P sec E draws pids"
  shows "excess sec (map fst draws) = 0"
  using assms draws_nonempty [OF fair_draws_ok [OF assms(2)]]
  by (intro excess_balanced) (simp_all add: enrolment_ok_def fair_draws_def)

lemma linear_row:
  assumes "enrolment_ok P sec E" "fair_draws P sec E draws pids" "STEADY + int (length draws) + FORWARD < E"
  shows "\<exists>row. run_linear P sec draws pids = Inr row \<and> row_is ''O1'' (length sec) row \<and>
    row_honest_max row \<le> (int (length sec) - 1) * W1 + (LOOKBACK + 2)"
  using linear_measured [OF assms(1) fair_draws_ok [OF assms(2)] assms(3)] fair_excess [OF assms(1,2)]
  by (simp add: row_is_iff max_bound_def)

lemma table_row:
  assumes "enrolment_ok P sec E" "fair_draws P sec E draws pids" "STEADY + int (length draws) + FORWARD < E"
  shows "\<exists>row. run_table P sec draws pids = Inr row \<and> row_is ''O2'' (length sec) row \<and>
    row_precompute row = FORWARD * int (length sec)"
  using table_measured [OF assms(1) fair_draws_ok [OF assms(2)] assms(3)] by (auto simp: row_is_iff)

lemma clock_row:
  assumes "enrolment_ok P sec E" "fair_draws P sec E draws pids" "STEADY + 1 < E"
  shows "\<exists>row. run_clock P sec draws pids = Inr row \<and> row_is ''O3'' (length sec) row \<and>
    row_honest_max row \<le> (int (length sec) - 1) * WT + 1"
  using clock_measured [OF assms(1) fair_draws_ok [OF assms(2)] assms(3)] fair_excess [OF assms(1,2)]
  by (simp add: row_is_iff max_bound_def)

lemma clock_table_row:
  assumes "enrolment_ok P sec E" "fair_draws P sec E draws pids" "STEADY + 2 < E"
  shows "\<exists>row. run_clock_table P sec draws pids = Inr row \<and> row_is ''O4'' (length sec) row \<and>
    row_precompute row = WT * int (length sec)"
  using clock_table_measured [OF assms(1) fair_draws_ok [OF assms(2)] assms(3)] by (auto simp: row_is_iff)

lemma lock_row:
  assumes "valid_peers sec" "balanced (map fst sec) (map fst draws)"
    and "\<forall>d \<in> set draws. tags_distinct P sec (snd d R_BYTES)" "forged_lock_tag P sec r tag"
  shows "\<exists>row. run_lock P sec draws r tag = Inr row \<and> row_is ''CR'' (length sec) row \<and> row_honest_max row \<le> int (length sec)"
proof -
  have d: "draws \<noteq> []" "\<forall>d \<in> set draws. fst d \<in> fst ` set sec"
    using balanced_members [OF assms(2)] assms(2) by (auto simp: balanced_def)
  then have "sec \<noteq> []" by (cases draws) auto
  from excess_balanced [OF assms(1) this assms(2)] lock_measured [OF assms(1) d assms(3,4)] show ?thesis
    by (simp add: row_is_iff max_bound_def)
qed

section \<open>The key tree\<close>

lemma ceil_div_eq: "0 < n \<Longrightarrow> 0 < m \<Longrightarrow> ceil_div n m = (n - 1) div m + 1"
proof -
  assume a: "0 < n" "0 < m"
  then have "n + m - 1 = (n - 1) + m" by simp
  with a show ?thesis unfolding ceil_div_def by (simp only: div_add_self2)
qed

lemma probes_reset: "t\<lparr>kt_probes := 0\<rparr> = add_tree_probes (- kt_probes t) t"
  by (simp add: add_tree_probes_def)

lemma tree_loop_eq:
  assumes new: "new_key_tree P names delta seed = Inr t0"
    and d: "\<forall>d \<in> set draws. fst d < length names \<and> \<not> siblings_collide P (snd d R_BYTES) t0"
  shows "\<exists>costs m. tree_loop P names draws (add_tree_probes k t0) = (Inr costs, add_tree_probes m t0) \<and>
    length costs = length draws \<and> (\<forall>c \<in> set costs. int (kt_depth t0) \<le> c \<and> c \<le> delta * int (kt_depth t0))"
  using d
proof (induction draws arbitrary: k)
  case Nil
  then show ?case by auto
next
  case (Cons x draws)
  obtain i u where x: "x = (i, u)" by (cases x)
  let ?t = "(add_tree_probes k t0)\<lparr>kt_probes := 0\<rparr>"
  have t: "?t = add_tree_probes (- kt_probes t0) t0" by (simp add: probes_reset)
  have i: "i < length names" "\<not> siblings_collide P (u R_BYTES) ?t" using Cons.prems x t by simp_all
  from tree_resolves [OF new t i(1), of u] i(2) obtain tags n where
    r: "tree_device_message P u i ?t = Inr (u R_BYTES, tags)"
    "tree_resolve P (u R_BYTES) tags ?t = (Inr (Some (names ! i)), add_tree_probes n ?t)" "int (kt_depth ?t) \<le> n" "n \<le> delta * int (kt_depth ?t)"
    by blast
  have n: "add_tree_probes n ?t = add_tree_probes (n - kt_probes t0) t0" "kt_probes (add_tree_probes n ?t) = n"
    unfolding t by simp_all
  have "\<forall>d \<in> set draws. fst d < length names \<and> \<not> siblings_collide P (snd d R_BYTES) t0" using Cons.prems by simp
  from Cons.IH [OF this, of "n - kt_probes t0"] obtain costs m where
    "tree_loop P names draws (add_tree_probes (n - kt_probes t0) t0) = (Inr costs, add_tree_probes m t0)"
    "length costs = length draws" "\<forall>c \<in> set costs. int (kt_depth t0) \<le> c \<and> c \<le> delta * int (kt_depth t0)" by blast
  moreover have "kt_depth ?t = kt_depth t0" by simp
  ultimately show ?case using r n
    by (intro exI [of _ "n # costs"] exI [of _ m]) (simp add: x)
qed

lemma tree_row:
  assumes new: "new_key_tree P names (int DELTA) seed = Inr t0" and ne: "names \<noteq> []" "draws \<noteq> []"
    and d: "\<forall>d \<in> set draws. fst d < length names \<and> \<not> siblings_collide P (snd d R_BYTES) t0"
    and f: "\<forall>c \<in> set (children_of [] t0). node_tag P r t0 [c] \<noteq> tag"
  shows "\<exists>row. run_tree P seed names draws r tag = Inr (row, cost_tree_depth (length names)) \<and>
    row_state_bytes row = tree_model_state (length names) \<and> row_extra_m1_bits row = tree_model_extra (length names) \<and>
    row_honest_max row \<le> int DELTA * int (cost_tree_depth (length names)) \<and> row_forged row \<le> of_nat DELTA \<and>
    0 < row_honest_mean row \<and> 0 < row_forged row"
proof -
  note ok = new_key_tree_ok [OF new]
  let ?d = "kt_depth t0" and ?n = "length names"
  have depth: "?d = cost_tree_depth ?n" and delta: "kt_delta t0 = DELTA" "2 \<le> DELTA"
    using ok by (simp_all add: cost_tree_depth_def DELTA_def)
  have "tree_loop P names draws (add_tree_probes 0 t0) = tree_loop P names draws t0" by simp
  with tree_loop_eq [OF new d, of 0] obtain costs m where
    l: "tree_loop P names draws t0 = (Inr costs, add_tree_probes m t0)" "length costs = length draws"
    "\<forall>c \<in> set costs. int ?d \<le> c \<and> c \<le> int DELTA * int ?d" by auto
  let ?t = "(add_tree_probes m t0)\<lparr>kt_probes := 0\<rparr>"
  have t: "?t = add_tree_probes (- kt_probes t0) t0" by (simp add: probes_reset)
  have "0 < ?d" using depth tree_depth_ok(2) [OF delta(2), of ?n] by (simp add: cost_tree_depth_def)
  then obtain k where k: "?d = Suc k" by (cases ?d) auto
  have "\<forall>c \<in> set (children_of [] ?t). node_tag P r ?t [c] \<noteq> tag" using f t by simp
  from tree_refuses [OF new t this, of "replicate k tag"] obtain n where
    n: "tree_resolve P r (replicate ?d tag) ?t = (Inr None, add_tree_probes n ?t)" "0 < n" "n \<le> int DELTA"
    using ne(1) by (auto simp: k)
  have same: "kt_depth (add_tree_probes n ?t) = ?d" "kt_probes (add_tree_probes n ?t) = n"
    "tree_storage_bytes (add_tree_probes n ?t) = tree_storage_bytes t0" "tree_extra_m1_bytes (add_tree_probes n ?t) = tree_extra_m1_bytes t0"
    unfolding t by (simp_all add: tree_storage_bytes_def tree_extra_m1_bytes_def)
  have n0: "0 < ?n" using ne(1) by simp
  have pow: "?n \<le> DELTA ^ ?d" using tree_depth_ok(1) [OF delta(2), of ?n] depth by (simp add: cost_tree_depth_def)
  have inv: "tree_inv DELTA ?d (tree_nodes DELTA ?d {..< ?n}) t0" using ok(5) delta(1) by simp
  have "(\<Sum>l \<leftarrow> [1 ..< ?d]. (?n - 1) div DELTA ^ (?d - l) + 1) = (\<Sum>l \<leftarrow> [1 ..< ?d]. ceil_div ?n (DELTA ^ (?d - l)))"
    using ceil_div_eq [OF n0] by (simp add: DELTA_def)
  then have st: "tree_storage_bytes t0 = tree_model_state ?n"
    by (simp only: tree_storage_levels [OF inv delta(2) pow n0] tree_model_state_def Let_def depth KEY_BYTES_def)
  have ex: "8 * tree_extra_m1_bytes t0 = tree_model_extra ?n"
    by (simp add: tree_extra_m1_bytes_def tree_model_extra_def depth R_BYTES_def DIGEST_BYTES_def)
  have "costs \<noteq> []" using l(2) ne(2) by auto
  then have mx: "Max (set costs) \<le> int DELTA * int ?d" using l(3) by simp
  have "\<forall>c \<in> set costs. 0 < c \<and> c \<le> int DELTA * int ?d" using l(3) k by auto
  from mean_within [OF \<open>costs \<noteq> []\<close> this] mean_within [of "[n]" "int DELTA"] n(2,3)
  have "0 < mean costs" "0 < mean [n]" "mean [n] \<le> of_nat DELTA" by simp_all
  then show ?thesis
    using new l(1) n(1) same st ex mx \<open>costs \<noteq> []\<close>
    by (simp add: run_tree_def cost_row_of_def depth)
qed

section \<open>The devices of the measurement\<close>

lemma zero_pad_val: "digits_val (zero_pad w (nat_digits n)) = n"
proof -
  have "digits_val (replicate k 48 @ ds) = digits_val ds" for k ds
    by (induction k) (simp_all add: digits_val_def)
  then show ?thesis by (simp add: zero_pad_def)
qed

lemma device_name_inject: "device_name i = device_name j \<longleftrightarrow> i = j"
proof
  assume "device_name i = device_name j"
  then have "zero_pad 5 (nat_digits i) = zero_pad 5 (nat_digits j)" by (simp add: device_name_def)
  then show "i = j" by (metis zero_pad_val)
qed simp

lemma device_name_ascii: "is_ascii (device_name i)"
  using nat_digits_set [of _ i] by (fastforce simp: is_ascii_def device_name_def zero_pad_def is_digit_def)

lemma cost_peers_enrolment:
  assumes "\<forall>i < n. length (u i) = 32" "no_collisions P (cost_peers u n) E" "E \<le> 256 ^ 8"
  shows "enrolment_ok P (cost_peers u n) E"
proof -
  have "valid_lam (int_from_bytes (u i))" if "i < n" for i
    using int_from_bytes_bound [of "u i"] int_from_bytes_nonneg [of "u i"] assms(1) that by (simp add: valid_lam_def)
  moreover have "distinct (map fst (cost_peers u n))"
    by (simp add: cost_peers_def comp_def distinct_map inj_on_def device_name_inject)
  ultimately have "valid_peers (cost_peers u n)" by (auto simp: valid_peers_def cost_peers_def)
  moreover have "\<forall>q \<in> set (cost_peers u n). valid_str (fst q)"
    by (auto simp: cost_peers_def is_ascii_valid [OF device_name_ascii])
  ultimately show ?thesis using assms(2,3) by (simp add: enrolment_ok_def)
qed

lemma cost_peers_length [simp]: "length (cost_peers u n) = n"
  by (simp add: cost_peers_def)

end
