(* ===== verification/ToyCosts.thy ===== *)
theory ToyCosts
  imports CostForms Toy
begin

text \<open>
  Concrete inputs of the cost measurement for the witnesses: two devices with the secrets 1 and 2 under
  the toy primitives, each drawn once, and one forged pseudonym.
\<close>

definition toy_secret :: "nat \<Rightarrow> bytes" where
  "toy_secret i = replicate 31 0 @ [word_of_nat (Suc i)]"

definition toy_sec :: peers where
  "toy_sec = cost_peers toy_secret 2"

lemma toy_sec_eq: "toy_sec = [(device_name 0, 1), (device_name 1, 2)]"
  by (simp add: toy_sec_def cost_peers_def upt_rec toy_secret_def int_from_bytes_def numeral_eq_Suc)

lemma toy_sec_length [simp]: "length toy_sec = 2"
  by (simp add: toy_sec_def)

lemma toy_no_collisions_two:
  assumes "E \<le> 256 ^ 8"
  shows "no_collisions toy toy_sec E"
proof -
  have "be_bytes 32 (nat 1) ! 31 \<noteq> be_bytes 32 (nat 2) ! 31" by code_simp
  then have "drop 8 (be_bytes 32 (nat 1)) \<noteq> drop 8 (be_bytes 32 (nat 2))" by code_simp
  then have "pseudonym toy 1 e \<noteq> pseudonym toy 2 f" for e f by (simp add: toy_pseudonym)
  moreover have "no_collisions toy [(p, lam)] E" for p lam using assms by (rule toy_no_collisions)
  ultimately show ?thesis by (auto simp: toy_sec_eq no_collisions_Cons)
qed

lemma toy_enrolment: "E \<le> 256 ^ 8 \<Longrightarrow> enrolment_ok toy toy_sec E"
  using toy_no_collisions_two unfolding toy_sec_def by (intro cost_peers_enrolment) (simp_all add: toy_secret_def)

definition toy_draws :: "(pystr \<times> bytes) list" where
  "toy_draws = [(device_name 0, replicate 16 0), (device_name 1, replicate 16 1)]"

definition toy_forged :: bytes where
  "toy_forged = replicate 32 255"

lemma toy_balanced: "balanced (map fst toy_sec) [device_name 0, device_name 1]"
  by (auto simp: balanced_def toy_sec_eq intro!: exI [of _ "1 :: nat"])

lemma toy_fair: "fair_draws toy toy_sec E toy_draws [toy_forged]"
proof -
  have "toy_forged ! 0 \<noteq> drop 8 (be_bytes 32 (nat 1)) ! 0" "toy_forged ! 0 \<noteq> drop 8 (be_bytes 32 (nat 2)) ! 0" by code_simp+
  moreover have "(drop 8 (be_bytes 32 (nat v)) @ bs) ! 0 = drop 8 (be_bytes 32 (nat v)) ! 0" for v bs
    by (simp add: nth_append)
  ultimately have "pseudonym toy 1 e \<noteq> toy_forged" "pseudonym toy 2 e \<noteq> toy_forged" for e
    unfolding toy_pseudonym by metis+
  then show ?thesis
    using toy_balanced by (simp add: fair_draws_def toy_draws_def unenrolled_def toy_sec_eq)
qed

section \<open>Randomness of the two schemes that are not wire compatible\<close>

lemma toy_keyed_hash:
  assumes "length key = 32" "length r = 16"
  shows "keyed_hash toy key r = drop 16 key @ r"
  using assms by (simp add: keyed_hash_def toy_def keep_last_def last_n_def)

lemma zeros_length: "length (zeros R_BYTES) = 16"
  by (simp add: zeros_def R_BYTES_def)

text \<open>Two keys that differ in a byte of the second half give different tags, and none gives the forged one.\<close>

lemma toy_hash_differs:
  assumes "length k = 32" "length l = 32" "i < 16" "k ! (16 + i) \<noteq> l ! (16 + i)"
  shows "keyed_hash toy k (zeros R_BYTES) \<noteq> keyed_hash toy l (zeros R_BYTES)"
proof
  assume "keyed_hash toy k (zeros R_BYTES) = keyed_hash toy l (zeros R_BYTES)"
  then have "drop 16 k ! i = drop 16 l ! i" using assms by (simp add: toy_keyed_hash zeros_length)
  with assms show False by simp
qed

lemma toy_hash_forged:
  assumes "length k = 32"
  shows "keyed_hash toy k (zeros R_BYTES) \<noteq> toy_forged"
proof
  assume "keyed_hash toy k (zeros R_BYTES) = toy_forged"
  then have "drop 16 k @ zeros R_BYTES = toy_forged" using assms by (simp add: toy_keyed_hash zeros_length)
  then have "(drop 16 k @ zeros R_BYTES) ! 31 = toy_forged ! 31" by simp
  with assms show False by (simp add: nth_append toy_forged_def zeros_def R_BYTES_def)
qed

lemma toy_tags: "tags_distinct toy toy_sec (zeros R_BYTES)" "forged_lock_tag toy toy_sec (zeros R_BYTES) toy_forged"
proof -
  have "be_bytes 32 (nat 1) ! 31 \<noteq> be_bytes 32 (nat 2) ! 31" by code_simp
  then have "lock_key 1 ! (16 + 15) \<noteq> lock_key 2 ! (16 + 15)" by (simp add: lock_key_def)
  from toy_hash_differs [OF _ _ _ this] show "tags_distinct toy toy_sec (zeros R_BYTES)"
    by (simp add: tags_distinct_def toy_sec_eq lock_key_def)
  show "forged_lock_tag toy toy_sec (zeros R_BYTES) toy_forged"
    by (simp add: forged_lock_tag_def toy_sec_eq lock_key_def toy_hash_forged)
qed

definition toy_names :: "pystr list" where
  "toy_names = [device_name 0, device_name 1]"

definition toy_tree :: key_tree where
  "toy_tree = \<lparr>kt_peers = toy_names, kt_delta = 32, kt_depth = 1, kt_probes = 0,
     kt_key = [([0], keep_last 32 (zeros 32 @ [40, 48, 44, 41])), ([1], keep_last 32 (zeros 32 @ [40, 49, 44, 41]))],
     kt_children = [([], [0, 1])]\<rparr>"

lemma toy_new_tree: "new_key_tree toy toy_names (int DELTA) (zeros 32) = Inr toy_tree"
proof -
  have d: "tree_depth 32 2 = 1" "tree_path 32 1 0 = [0]" "tree_path 32 1 1 = [1]" by code_simp+
  have r: "tuple_repr [0] = [40, 48, 44, 41]" "tuple_repr [1] = [40, 49, 44, 41]" by code_simp+
  have h: "p_sha256 toy = keep_last 32" by (simp add: toy_def)
  have u: "[0 ..< length toy_names] = [0, 1]" "length toy_names = 2" "[1 ..< Suc 1] = [1]" by (simp_all add: toy_names_def upt_rec)
  let ?t0 = "\<lparr>kt_peers = toy_names, kt_delta = 32, kt_depth = 1, kt_probes = 0, kt_key = [], kt_children = []\<rparr>"
  have "add_peer toy (zeros 32) 0 ?t0 = ?t0\<lparr>kt_key := [([0], keep_last 32 (zeros 32 @ [40, 48, 44, 41]))], kt_children := [([], [0])]\<rparr>"
    using d r u by (simp add: add_peer_def add_node_def children_of_def Let_def h)
  then have "fold (add_peer toy (zeros 32)) [0, 1] ?t0 = toy_tree"
    using d r u by (simp add: add_peer_def add_node_def children_of_def Let_def h toy_tree_def)
  then show ?thesis using d u by (simp add: new_key_tree_def DELTA_def)
qed

lemma toy_node_tags:
  "node_tag toy (zeros R_BYTES) toy_tree [0] \<noteq> node_tag toy (zeros R_BYTES) toy_tree [1]"
  "node_tag toy (zeros R_BYTES) toy_tree [0] \<noteq> toy_forged" "node_tag toy (zeros R_BYTES) toy_tree [1] \<noteq> toy_forged"
proof -
  let ?k = "keep_last 32 (zeros 32 @ [40, 48, 44, 41])" and ?l = "keep_last 32 (zeros 32 @ [40, 49, 44, 41])"
  have t: "node_tag toy r toy_tree [0] = keyed_hash toy ?k r" "node_tag toy r toy_tree [1] = keyed_hash toy ?l r" for r
    by (simp_all add: node_tag_def toy_tree_def)
  have "?k ! (16 + 13) \<noteq> ?l ! (16 + 13)" by (simp add: keep_last_def last_n_def zeros_def nth_append)
  from toy_hash_differs [OF _ _ _ this]
  show "node_tag toy (zeros R_BYTES) toy_tree [0] \<noteq> node_tag toy (zeros R_BYTES) toy_tree [1]" by (simp add: t del: One_nat_def)
  show "node_tag toy (zeros R_BYTES) toy_tree [0] \<noteq> toy_forged" "node_tag toy (zeros R_BYTES) toy_tree [1] \<noteq> toy_forged"
    by (simp_all add: t toy_hash_forged del: One_nat_def)
qed

lemma toy_children: "children_of node toy_tree = (if node = [] then [0, 1] else [])"
  by (simp add: children_of_def toy_tree_def)

lemma toy_siblings: "\<not> siblings_collide toy (zeros R_BYTES) toy_tree"
proof
  assume "siblings_collide toy (zeros R_BYTES) toy_tree"
  then obtain c d where "c \<noteq> d" "c \<in> {0, 1}" "d \<in> {0, 1}"
    "node_tag toy (zeros R_BYTES) toy_tree [c] = node_tag toy (zeros R_BYTES) toy_tree [d]"
    by (auto simp: siblings_collide_def toy_children split: if_splits)
  with toy_node_tags(1) show False by (auto simp del: One_nat_def)
qed

end
