(* ===== verification/NodeRuns.thy ===== *)
theory NodeRuns
  imports Nodes Toy
begin

text \<open>
  What can go wrong at the nodes.  The first section lists every exception a request can raise under
  the default strategy; the others follow one connection, the accept loop, and one authentication from
  the device's request to the key both ends hold.
\<close>

section \<open>The exceptions of a request\<close>

text \<open>\<^verbatim>\<open>AESGCM.decrypt\<close> with a key of the right length raises \<^verbatim>\<open>InvalidTag\<close>, or \<^verbatim>\<open>ValueError\<close> for a nonce of a bad length.\<close>

definition gcm_raises :: "prims \<Rightarrow> bool" where
  "gcm_raises P \<longleftrightarrow> (\<forall>k n x a y. length k = KEY_LEN \<longrightarrow> p_gcm_decrypt P k n x a = Inl y \<longrightarrow>
     y = InvalidTag \<or> y = ValueError \<and> \<not> (8 \<le> length n \<and> length n \<le> 128))"

definition legal_nonce :: "bytes \<Rightarrow> bool" where
  "legal_nonce msg \<longleftrightarrow> (\<forall>m. message1_from_bytes msg = Inr m \<longrightarrow> 8 \<le> length (m1_gcm_nonce m) \<and> length (m1_gcm_nonce m) \<le> 128)"

text \<open>What a request can raise: it could not be read, or it is rejected, in the name of an enrolled peer or of none.\<close>

definition request_error :: "peers \<Rightarrow> bytes \<Rightarrow> exn \<Rightarrow> bool" where
  "request_error ps msg x \<longleftrightarrow> x = MessageFormatError \<and> message1_from_bytes msg = Inl MessageFormatError \<or> x = UnknownPeerError \<or>
     (\<exists>p \<in> fst ` set ps. x \<in> {BlockedEntity p, CoverageError p, IntegrityError (unopened_text p), IntegrityError (mismatch_text p)} \<or>
       (\<exists>e. valid_epoch e \<and> x = ReplayDetected p e))"

lemma request_error_caught: "request_error ps msg x \<Longrightarrow> is_authentication_error x \<or> x = MessageFormatError"
  by (auto simp: request_error_def is_authentication_error_def)

lemma request_errors:
  assumes "(p, lam) \<in> set ps"
  shows "request_error ps msg (BlockedEntity p)" "request_error ps msg (CoverageError p)"
    "request_error ps msg (IntegrityError (unopened_text p))" "request_error ps msg (IntegrityError (mismatch_text p))"
proof -
  have "p \<in> fst ` set ps" using assms by force
  then show "request_error ps msg (BlockedEntity p)" "request_error ps msg (CoverageError p)"
    "request_error ps msg (IntegrityError (unopened_text p))" "request_error ps msg (IntegrityError (mismatch_text p))"
    unfolding request_error_def by blast+
qed

text \<open>A server with the default strategy that can take \<open>k\<close> more requests before its epochs leave eight bytes.\<close>

definition scan_ready :: "prims \<Rightarrow> nat \<Rightarrow> resolver server \<Rightarrow> bool" where
  "scan_ready P k s \<longleftrightarrow> valid_peers (srv_peers s) \<and> valid_lam (cred_lam (ent_credential s)) \<and>
     valid_str (cred_identity (ent_credential s)) \<and> srv_nonce_bits s \<in> set SUPPORTED_NONCE_BITS \<and> cache_ok P s \<and>
     0 \<le> forward_tolerance (srv_log s) \<and>
     below_horizon (srv_log s) (srv_peers s) (forward_tolerance (srv_log s) * (int k + 1)) (256 ^ 8)"

lemma scan_ready_horizon:
  assumes "scan_ready P k s"
  shows "below_horizon (srv_log s) (srv_peers s) (forward_tolerance (srv_log s)) (256 ^ 8)"
proof -
  have "forward_tolerance (srv_log s) \<le> forward_tolerance (srv_log s) * (int k + 1)"
    using assms by (simp add: scan_ready_def mult_le_cancel_left1)
  with assms show ?thesis unfolding scan_ready_def below_horizon_def by fastforce
qed

lemma linear_resolve_cases:
  assumes "valid_peers ps" "below_horizon sl ps (forward_tolerance sl) E" "linear_resolve P now ps sl pid r = (res, r')"
  shows "res = Inl UnknownPeerError \<or> (\<exists>p e. p \<in> fst ` set ps \<and> valid_epoch e \<and> res = Inl (ReplayDetected p e)) \<or>
    (\<exists>p e lam. res = Inr (p, e) \<and> (p, lam) \<in> set ps \<and> valid_epoch e \<and> last_epoch sl p < e \<and> e \<le> last_epoch sl p + forward_tolerance sl)"
proof -
  let ?f = "List.find (matches P pid) (candidates sl ps)"
  have res: "res = scan_spec sl ?f"
    using linear_scan_peers_eq [OF assms(1) below_horizon_valid [OF assms(2)], of P pid r] assms(3) by (simp add: linear_resolve_def)
  show ?thesis
  proof (cases ?f)
    case None
    then show ?thesis using res by (simp add: scan_spec_def)
  next
    case (Some c)
    obtain p lam e where c: "c = (p, lam, e)" by (cases c)
    have "c \<in> set (candidates sl ps)" using Some by (metis find_Some_iff nth_mem)
    with c have "(p, lam, e) \<in> set (candidates sl ps)" by simp
    then have m: "(p, lam) \<in> set ps" "e \<in> set (epoch_search_window sl p)" by (simp_all add: candidates_mem)
    with below_horizonD [OF assms(2) m(1)] have "valid_epoch e" "e \<le> last_epoch sl p + forward_tolerance sl"
      by (simp_all add: window_mem valid_epoch_def)
    moreover have "p \<in> fst ` set ps" using m(1) by force
    ultimately show ?thesis using m(1) res Some c by (auto simp: scan_spec_def is_stale_epoch_def)
  qed
qed

lemma verify_outcome:
  assumes P: "hkdf_ok P" "gcm_raises P" and ready: "scan_ready P n s"
    and call: "verify_request P linear_scan_ops env msg s = (v, s1)"
  shows "case v of Inl x \<Rightarrow> request_error (srv_peers s) msg x \<or> x = ValueError \<and> \<not> legal_nonce msg
    | Inr (m, p, e, k, n_i) \<Rightarrow> length k = KEY_LEN \<and> valid_epoch e \<and> e \<le> last_epoch (srv_log s) p + forward_tolerance (srv_log s)"
proof (cases "message1_from_bytes msg")
  case (Inl x)
  with call message1_from_bytes_error [OF Inl] show ?thesis
    by (auto simp: verify_request_def request_error_def)
next
  case m: (Inr m)
  obtain res r' where r: "linear_resolve P (env_now_resolve env) (srv_peers s) (srv_log s) (m1_pid m) (srv_resolver s) = (res, r')"
    by fastforce
  have rp: "resolve_pseudonym P linear_scan_ops (env_now_resolve env) (m1_pid m) s = (res, s\<lparr>srv_resolver := r'\<rparr>)"
    using r by (simp add: resolve_pseudonym_def linear_scan_ops_def)
  from ready have vp: "valid_peers (srv_peers s)" by (simp add: scan_ready_def)
  from linear_resolve_cases [OF vp scan_ready_horizon [OF ready] r]
  consider x where "res = Inl x" "request_error (srv_peers s) msg x" | p e lam where "res = Inr (p, e)" "(p, lam) \<in> set (srv_peers s)"
    "valid_epoch e" "e \<le> last_epoch (srv_log s) p + forward_tolerance (srv_log s)"
    by (auto simp: request_error_def)
  then show ?thesis
  proof cases
    case 1
    with call m rp show ?thesis by (auto simp: verify_request_def)
  next
    case 2
    let ?s1 = "s\<lparr>srv_resolver := r'\<rparr>"
    note enr = request_errors [OF 2(2), of msg]
    have mo: "map_of (cred_peer_secrets (ent_credential s)) p = Some lam" and vl: "valid_lam lam" "valid_lam (cred_lam (ent_credential s))"
      using 2(2) vp ready by (auto simp: valid_peers_def srv_peers_def scan_ready_def)
    then have "\<exists>k. root_of P (ent_credential s) p = Inr k \<and> length k = KEY_LEN"
      using P(1) by (simp add: root_of_def derive_pairwise_root_valid pairwise_root_length)
    then obtain k where k: "root_of P (ent_credential s) p = Inr k" "length k = KEY_LEN" by blast
    obtain r2 s2 where g: "get_pairwise_root P p ?s1 = (r2, s2)" by fastforce
    have "cache_ok P ?s1" using ready by (simp add: scan_ready_def)
    from root_lookup [OF this g] k have r2: "r2 = Inr k" by simp
    have dec: "y = InvalidTag \<or> y = ValueError \<and> \<not> legal_nonce msg"
      if "aead_decrypt P k (m1_gcm_nonce m) (m1_ciphertext m) (m1_tag m) [] = Inl y" for y
      using that P(2) k(2) m by (auto simp: aead_decrypt_def gcm_raises_def legal_nonce_def)
    show ?thesis
    proof (cases "aead_decrypt P k (m1_gcm_nonce m) (m1_ciphertext m) (m1_tag m) []")
      case (Inl y)
      with dec [OF this] call m rp 2 g r2 enr show ?thesis
        by (auto simp: verify_request_def split: if_splits)
    next
      case (Inr pt)
      with call m rp 2 g r2 k enr show ?thesis
        by (auto simp: verify_request_def Let_def split: if_splits)
    qed
  qed
qed

lemma answer_total:
  assumes "valid_epoch e" "length k = KEY_LEN" "valid_str (cred_identity (ent_credential s))" "srv_nonce_bits s \<in> set SUPPORTED_NONCE_BITS"
  shows "\<exists>a. answer_request P linear_scan_ops env m p e k n_i s = (Inr a, s\<lparr>srv_log := record_success (accept_epoch (srv_log s) p e) p\<rparr>)"
proof -
  have "int_to_bytes 8 e = Inr (be_bytes 8 (nat e))" using assms(1) by (simp add: int_to_bytes_def valid_epoch_def)
  moreover obtain n_j where n: "generate_nonce (env_nonce env) (srv_nonce_bits s) = Inr n_j" using assms(4) by (simp add: generate_nonce_def)
  moreover obtain gn c t where "aead_encrypt P (env_gcm env) k (n_j @ be_bytes 8 (nat e)) (m1_pid m @ n_i) = Inr (gn, c, t)"
    using aead_encrypt_total [OF assms(2)] by blast
  moreover obtain b where "message2_to_bytes \<lparr>m2_server_id = JStr (cred_identity (ent_credential s)), m2_gcm_nonce = gn,
      m2_ciphertext = c, m2_tag = t\<rparr> = Inr b"
    using message2_to_bytes_total [of "\<lparr>m2_server_id = JStr (cred_identity (ent_credential s)), m2_gcm_nonce = gn,
      m2_ciphertext = c, m2_tag = t\<rparr>"] assms(3) by auto
  ultimately show ?thesis
    by (simp add: answer_request_def linear_scan_ops_def base_accept_def Let_def derive_session_key_valid [OF assms(1)])
qed

lemma scan_ready_wf: "scan_ready P k s \<Longrightarrow> server_wf linear_wf P s"
  by (auto simp: scan_ready_def server_wf_def linear_wf_def valid_peers_def)

text \<open>Every outcome of one request, and what remains possible after it.\<close>

lemma request_outcome:
  assumes P: "hkdf_ok P" "gcm_raises P" and ready: "scan_ready P (Suc k) s"
    and call: "handle_auth_request P linear_scan_ops env msg s = (res, s')"
  shows "(\<exists>a. res = Inr a) \<or> (\<exists>x. res = Inl x \<and> request_error (srv_peers s) msg x) \<or> res = Inl ValueError \<and> \<not> legal_nonce msg"
    and "scan_ready P k s'"
proof -
  obtain v s1 where v: "verify_request P linear_scan_ops env msg s = (v, s1)" by fastforce
  note wf = scan_ready_wf [OF ready]
  note vo = verify_outcome [OF P ready v] and vs = linear.verify_step [OF wf v]
  have less: "scan_ready P k s''" if "same_setup s s''" "cache_ok P s''" "forward_tolerance (srv_log s'') = forward_tolerance (srv_log s)"
    "\<forall>q. last_epoch (srv_log s) q \<le> last_epoch (srv_log s'') q \<and> last_epoch (srv_log s'') q \<le> last_epoch (srv_log s) q + forward_tolerance (srv_log s)"
    for s'' :: "resolver server"
  proof -
    note bound = that(4)
    let ?F = "forward_tolerance (srv_log s)"
    have "-1 \<le> last_epoch (srv_log s'') (fst q) \<and> last_epoch (srv_log s'') (fst q) + ?F * (int k + 1) < 256 ^ 8"
      if "q \<in> set (srv_peers s)" for q
    proof -
      have "-1 \<le> last_epoch (srv_log s) (fst q)" "last_epoch (srv_log s) (fst q) + ?F * (int (Suc k) + 1) < 256 ^ 8"
        using ready that unfolding scan_ready_def below_horizon_def by blast+
      moreover have "?F * (int (Suc k) + 1) = ?F * (int k + 1) + ?F" by (simp add: algebra_simps)
      ultimately show ?thesis using spec [OF bound, of "fst q"] by linarith
    qed
    then show ?thesis using ready that(1-3) by (simp add: scan_ready_def below_horizon_def same_setup_def srv_peers_def)
  qed
  have "((\<exists>a. res = Inr a) \<or> (\<exists>x. res = Inl x \<and> request_error (srv_peers s) msg x) \<or> res = Inl ValueError \<and> \<not> legal_nonce msg) \<and> scan_ready P k s'"
  proof (cases v)
    case (Inl x)
    have s': "s' = s1" "res = Inl x" using call v Inl by (simp_all add: handle_auth_request_def)
    from vs Inl have s1: "server_wf linear_wf P s1" "same_setup s s1" "srv_log s1 = srv_log s \<or> failure_logged s (srv_log s1) x" by simp_all
    have "scan_ready P k s1"
    proof (rule less)
      show "cache_ok P s1" using s1(1) by (simp add: server_wf_def)
      show "forward_tolerance (srv_log s1) = forward_tolerance (srv_log s)"
        using s1(3) by (auto simp: failure_logged_def)
      show "\<forall>q. last_epoch (srv_log s) q \<le> last_epoch (srv_log s1) q \<and>
          last_epoch (srv_log s1) q \<le> last_epoch (srv_log s) q + forward_tolerance (srv_log s)"
        using s1(3) ready by (auto simp: failure_logged_def scan_ready_def)
    qed (rule s1(2))
    with vo Inl s' show ?thesis by auto
  next
    case (Inr t)
    obtain m p e key n_i where t: "t = (m, p, e, key, n_i)" by (cases t)
    from vs Inr t have s1: "server_wf linear_wf P s1" "same_setup s s1" "srv_log s1 = srv_log s" by simp_all
    from vo Inr t have key: "length key = KEY_LEN" "valid_epoch e" "e \<le> last_epoch (srv_log s) p + forward_tolerance (srv_log s)" by simp_all
    let ?s2 = "s1\<lparr>srv_log := record_success (accept_epoch (srv_log s1) p e) p\<rparr>"
    have "valid_str (cred_identity (ent_credential s1))" "srv_nonce_bits s1 \<in> set SUPPORTED_NONCE_BITS"
      using ready s1(2) by (simp_all add: scan_ready_def same_setup_def)
    from answer_total [OF key(2,1) this, of P env m p n_i] obtain a where
      "answer_request P linear_scan_ops env m p e key n_i s1 = (Inr a, ?s2)" by blast
    then have s': "res = Inr a" "s' = ?s2" using call v Inr t by (simp_all add: handle_auth_request_def)
    have "scan_ready P k ?s2"
    proof (rule less)
      show "same_setup s ?s2" using s1(2) by (simp add: same_setup_def)
      show "cache_ok P ?s2" using s1(1) by (simp add: server_wf_def)
      show "forward_tolerance (srv_log ?s2) = forward_tolerance (srv_log s)" using s1(3) by simp
      show "\<forall>q. last_epoch (srv_log s) q \<le> last_epoch (srv_log ?s2) q \<and>
          last_epoch (srv_log ?s2) q \<le> last_epoch (srv_log s) q + forward_tolerance (srv_log s)"
        using s1(3) key(3) ready by (auto simp: scan_ready_def)
    qed
    with s' show ?thesis by simp
  qed
  then show "(\<exists>a. res = Inr a) \<or> (\<exists>x. res = Inl x \<and> request_error (srv_peers s) msg x) \<or> res = Inl ValueError \<and> \<not> legal_nonce msg"
    "scan_ready P k s'" by blast+
qed

section \<open>Everything fits into a frame\<close>

lemma escape_char_length: "length (escape_char c) \<le> 12"
  by (simp add: escape_char_def unicode_escape_def)

lemma quote_length: "length (quote_str s) \<le> 12 * length s + 2"
proof -
  have "length (concat (map escape_char s)) \<le> 12 * length s"
  proof (induction s)
    case (Cons c s)
    with escape_char_length [of c] show ?case by simp
  qed simp
  then show ?thesis by (simp add: quote_str_def)
qed

lemma quote_b64_length: "length bs \<le> 100 \<Longrightarrow> length (quote_str (b64 bs)) \<le> 1634"
proof -
  assume "length bs \<le> 100"
  then have "(length bs + 2) div 3 \<le> 34" by linarith
  then have "length (b64 bs) \<le> 136" by (simp add: b64_def length_b64encode)
  with quote_length [of "b64 bs"] show ?thesis by simp
qed

lemma version_length: "length (int_repr PROTOCOL_VERSION) = 1"
  by (simp add: int_repr_def PROTOCOL_VERSION_def nat_digits.simps)

lemma encode_payload_length: "json_ok j \<Longrightarrow> encode_payload j = Inr b \<Longrightarrow> length b = length (json_dumps [] j)"
  by (auto simp: encode_payload_ok)

lemma message1_length:
  assumes "message1_to_bytes m = Inr b" "length (m1_pid m) \<le> 100" "length (m1_gcm_nonce m) \<le> 100"
    "length (m1_ciphertext m) \<le> 100" "length (m1_tag m) \<le> 100"
  shows "length b \<le> 7000"
proof -
  have "length (json_dumps [] (message1_payload m)) \<le> 300 + (length (quote_str (b64 (m1_pid m))) + length (quote_str (b64 (m1_gcm_nonce m)))
      + length (quote_str (b64 (m1_ciphertext m))) + length (quote_str (b64 (m1_tag m))))"
    using quote_length [of "lit ''type''"] quote_length [of "lit ''M1''"] quote_length [of "lit ''pid''"]
      quote_length [of "lit ''nonce''"] quote_length [of "lit ''v''"] quote_length [of "lit ''ct''"] quote_length [of "lit ''tag''"]
    by (simp add: message1_payload_def version_length del: lit_Cons) (simp add: lit_def)
  with assms(2-5) [THEN quote_b64_length] encode_payload_length [OF message1_payload_ok assms(1) [unfolded message1_to_bytes_def]]
  show ?thesis by linarith
qed

lemma message2_length:
  assumes "message2_to_bytes m = Inr b" "m2_server_id m = JStr i" "valid_str i" "length i \<le> 1000"
    and "length (m2_gcm_nonce m) \<le> 100" "length (m2_ciphertext m) \<le> 100" "length (m2_tag m) \<le> 100"
  shows "length b \<le> 17300"
proof -
  have "length (json_dumps [] (message2_payload m)) \<le> 300 + (length (quote_str i) + length (quote_str (b64 (m2_gcm_nonce m)))
      + length (quote_str (b64 (m2_ciphertext m))) + length (quote_str (b64 (m2_tag m))))"
    using quote_length [of "lit ''type''"] quote_length [of "lit ''M2''"] quote_length [of "lit ''sid''"]
      quote_length [of "lit ''nonce''"] quote_length [of "lit ''v''"] quote_length [of "lit ''ct''"] quote_length [of "lit ''tag''"]
    by (simp add: message2_payload_def version_length assms(2) del: lit_Cons) (simp add: lit_def)
  moreover have "length (quote_str i) \<le> 12002" using quote_length [of i] assms(4) by simp
  moreover have "json_ok (message2_payload m)" using assms(2,3) by simp
  ultimately show ?thesis
    using assms(5-7) [THEN quote_b64_length] encode_payload_length [OF _ assms(1) [unfolded message2_to_bytes_def]]
    by linarith
qed

text \<open>A response of the server, wrapped, sent and unwrapped again.\<close>

lemma response_envelope:
  assumes "message2_to_bytes m = Inr b" "m2_server_id m = JStr i" "valid_str i" "length b \<le> 17300"
  shows "\<exists>e s. build_ok_envelope b = Inr e \<and> length e \<le> MAX_FRAME_BYTES \<and> ascii_encode s = Inr b \<and>
    parse_envelope e = Inr (JDict [(lit ''ok'', JBool True), (lit ''payload'', JStr s)])"
proof -
  let ?s = "json_dumps [] (message2_payload m)"
  have j: "json_ok (message2_payload m)" using assms(2,3) by simp
  have a: "is_ascii ?s" by (simp add: json_dumps_ascii j)
  have b: "b = map word_of_nat ?s" using assms(1) j by (simp add: message2_to_bytes_def encode_payload_ok)
  then have d: "ascii_decode b = Inr ?s" "ascii_encode ?s = Inr b" "length b = length ?s"
    using a by (simp_all add: ascii_decode_encode ascii_encode_def)
  from ok_envelope_back [OF d(1)] obtain e where
    e: "build_ok_envelope b = Inr e" "parse_envelope e = Inr (JDict [(lit ''ok'', JBool True), (lit ''payload'', JStr ?s)])" by blast
  have "length e = length (json_dumps [32] (JDict [(lit ''ok'', JBool True), (lit ''payload'', JStr ?s)]))"
    using e(1) d(1) by (auto simp: build_ok_envelope_def ascii_encode_def split: if_splits)
  also have "\<dots> \<le> 300 + length (quote_str ?s)"
    using quote_length [of "lit ''ok''"] quote_length [of "lit ''payload''"]
    by (simp del: lit_Cons) (simp add: lit_def)
  also have "\<dots> \<le> MAX_FRAME_BYTES" using quote_length [of ?s] d(3) assms(4) by (simp add: MAX_FRAME_BYTES_def)
  finally show ?thesis using e d(2) by blast
qed

section \<open>One connection\<close>

text \<open>
  The library's own texts and the names of the peers are short, so of all rejections only the one that shows the
  type or the version of a request can be too long for a frame.
\<close>

definition short_texts :: "py_texts \<Rightarrow> peers \<Rightarrow> bool" where
  "short_texts T ps \<longleftrightarrow> (\<forall>msg x. length (pt_raised T msg x) \<le> 10000) \<and>
     (\<forall>(p, lam) \<in> set ps. length p \<le> 1000 \<and> length (pt_repr T (JStr p)) \<le> 10010)"

definition rejection_length :: "py_texts \<Rightarrow> bytes \<Rightarrow> exn \<Rightarrow> nat" where
  "rejection_length T msg x = length (json_dumps [32] (JDict [(lit ''ok'', JBool False),
     (lit ''error_type'', JStr (exn_name x)), (lit ''message'', JStr (node_text T msg x))]))"

definition oversized :: "py_texts \<Rightarrow> bytes \<Rightarrow> bool" where
  "oversized T msg \<longleftrightarrow> message1_from_bytes msg = Inl MessageFormatError \<and> MAX_FRAME_BYTES < rejection_length T msg MessageFormatError"

lemma error_envelope:
  "\<exists>e. build_error_envelope (exn_name x) (node_text T msg x) = Inr e \<and> length e = rejection_length T msg x"
proof -
  let ?j = "json_dumps [32] (JDict [(lit ''ok'', JBool False), (lit ''error_type'', JStr (exn_name x)), (lit ''message'', JStr (node_text T msg x))])"
  have "is_ascii (exn_name x)" by (cases x; simp add: exn_name_def)
  then have "is_ascii ?j" by (simp add: quote_str_ascii)
  then show ?thesis by (simp add: build_error_envelope_def ascii_encode_def rejection_length_def)
qed

lemma length_lit [simp]: "length (lit s) = length s"
  by (simp add: lit_def)

lemma rejection_length_sum:
  "rejection_length T msg x = 17 + length (quote_str (lit ''ok'')) + length (quote_str (lit ''error_type'')) +
     length (quote_str (exn_name x)) + length (quote_str (lit ''message'')) + length (quote_str (node_text T msg x))"
  by (simp add: rejection_length_def del: lit_Cons)

lemma rejection_length_le: "rejection_length T msg x \<le> 700 + 12 * length (node_text T msg x)"
proof -
  have "length (exn_name x) \<le> 30" by (cases x; simp add: exn_name_def)
  then have "length (quote_str (exn_name x)) \<le> 362" using quote_length [of "exn_name x"] by simp
  moreover have "length (quote_str (lit ''ok'')) \<le> 26" "length (quote_str (lit ''error_type'')) \<le> 122" "length (quote_str (lit ''message'')) \<le> 86"
    using quote_length [of "lit ''ok''"] quote_length [of "lit ''error_type''"] quote_length [of "lit ''message''"]
    by (simp_all del: lit_Cons)
  ultimately show ?thesis using quote_length [of "node_text T msg x"] unfolding rejection_length_sum by linarith
qed

lemma rejection_fits:
  assumes "short_texts T ps" "request_error ps msg x" "\<not> oversized T msg"
  shows "rejection_length T msg x \<le> MAX_FRAME_BYTES"
proof (cases "x = MessageFormatError")
  case True
  then show ?thesis using assms(2,3) by (auto simp: oversized_def request_error_def)
next
  case False
  have n: "length (int_repr e) \<le> 20" if "valid_epoch e" for e
    using that nat_digits_length [of "nat e" 20] by (auto simp: int_repr_def valid_epoch_def nat_less_iff)
  have b: "length p \<le> 1000 \<and> length (pt_repr T (JStr p)) \<le> 10010" if "(p, lam) \<in> set ps" for p lam
    using assms(1) that by (auto simp: short_texts_def)
  from False assms(2) have "length (node_text T msg x) \<le> 20000"
    by (auto simp: request_error_def node_texts unopened_text_def mismatch_text_def simp del: lit_Cons dest!: b n)
  with rejection_length_le [of T msg x] show ?thesis by (simp add: MAX_FRAME_BYTES_def)
qed

text \<open>What makes a rejection too long is the type or the version the request shows.\<close>

lemma oversized_header:
  assumes "short_texts T ps" "oversized T msg"
  shows "\<exists>s d. utf8_decode msg = Inr s \<and> json_loads s = Inr (JDict d) \<and>
    (80000 < length (pt_repr T (dict_get d ''type'')) \<or> 80000 < length (pt_repr T (dict_get d ''v'')))"
proof -
  from assms(2) rejection_length_le [of T msg MessageFormatError] have l: "80100 < length (node_text T msg MessageFormatError)"
    by (simp add: oversized_def MAX_FRAME_BYTES_def)
  have r: "length (pt_raised T msg x) \<le> 10000" for x using assms(1) by (simp add: short_texts_def)
  have m: "\<not> 80100 < length (lit ''malformed M1 payload: '' @ pt_raised T msg x)" for x using r [of x] by simp
  show ?thesis
    using l m unfolding node_texts message1_error_text_def Let_def exn.case
    by (auto split: sum.splits json.splits if_splits simp del: length_append)
qed

lemma accepted_response:
  assumes "gcm_ok P" "urandom_ok (env_nonce env)" "urandom_ok (env_gcm env)" "accepted P ops env s msg a s' e"
    and "valid_str (cred_identity (ent_credential s))" "length (cred_identity (ent_credential s)) \<le> 1000"
  shows "\<exists>b t. build_ok_envelope (res_response_bytes a) = Inr b \<and> length b \<le> MAX_FRAME_BYTES \<and>
    ascii_encode t = Inr (res_response_bytes a) \<and> parse_envelope b = Inr (JDict [(lit ''ok'', JBool True), (lit ''payload'', JStr t)])"
proof -
  from assms(4) obtain k aad n_j gn c tag where
    enc: "generate_nonce (env_nonce env) (srv_nonce_bits s) = Inr n_j"
      "aead_encrypt P (env_gcm env) k (n_j @ be_bytes 8 (nat e)) aad = Inr (gn, c, tag)"
    and m: "message2_to_bytes \<lparr>m2_server_id = JStr (cred_identity (ent_credential s)), m2_gcm_nonce = gn,
       m2_ciphertext = c, m2_tag = tag\<rparr> = Inr (res_response_bytes a)" by (auto simp: accepted_def)
  from generate_nonce_length [OF assms(2) enc(1)] have "length n_j \<le> 32" by auto
  with aead_roundtrip(2-4) [OF assms(1,3) enc(2)] have "length gn \<le> 100" "length c \<le> 100" "length tag \<le> 100"
    by (simp_all add: GCM_NONCE_LEN_def TAG_LEN_def)
  with message2_length [OF m] assms(5,6) have "length (res_response_bytes a) \<le> 17300" by simp
  from response_envelope [OF m _ assms(5) this] show ?thesis by simp
qed

text \<open>\<^verbatim>\<open>recv_frame\<close> raises only what the node catches.\<close>

lemma recv_exact_raises: "recv_exact s n chunks = (Inl x, s') \<Longrightarrow> x = ConnectionError"
proof (induction s n chunks rule: recv_exact.induct)
  case (1 s n chunks)
  obtain chunk s1 where c: "sock_recv n s = (chunk, s1)" by fastforce
  show ?case
  proof (cases "n = 0 \<or> chunk = []")
    case True
    with "1.prems" c show ?thesis by (subst (asm) recv_exact.simps) (auto split: if_splits)
  next
    case False
    then have "recv_exact s1 (n - length chunk) (chunks @ [chunk]) = (Inl x, s')"
      using "1.prems" c by (subst (asm) recv_exact.simps) simp
    with "1.IH" [OF _ c [symmetric] refl] False show ?thesis by simp
  qed
qed

lemma recv_frame_raises: "recv_frame s = (Inl x, s') \<Longrightarrow> x = ConnectionError \<or> x = ValueError"
  using recv_exact_raises by (fastforce simp: recv_frame_def Let_def split: prod.splits sum.splits if_splits)

lemma conn_send_raises:
  "length b \<le> MAX_FRAME_BYTES \<Longrightarrow> conn_send conn s b = (r, s') \<Longrightarrow> r = Inr () \<or> r = Inl OSError"
  by (auto simp: conn_send_def send_frame_eq split: if_splits)

text \<open>The randomness a connection is served with, and the nonce and the header of the request it carries.\<close>

definition connection_ok :: "py_texts \<Rightarrow> server_env \<times> connection \<Rightarrow> bool" where
  "connection_ok T = (\<lambda>(env, conn). urandom_ok (env_nonce env) \<and> urandom_ok (env_gcm env) \<and>
     (\<forall>b sock. recv_frame (conn_socket conn) = (Inr b, sock) \<longrightarrow> legal_nonce b \<and> \<not> oversized T b))"

lemma connection_survives:
  assumes P: "hkdf_ok P" "gcm_ok P" "gcm_raises P" "short_texts T (srv_peers s)" and ready: "scan_ready P (Suc k) s"
    and id: "length (cred_identity (ent_credential s)) \<le> 1000" and c: "connection_ok T (env, conn)"
  shows "\<exists>s' sock evs. handle_connection P linear_scan_ops env (node_text T) conn s = (Inr (), s', sock, evs) \<and>
    scan_ready P k s' \<and> ent_credential s' = ent_credential s \<and> evs \<noteq> []"
proof -
  have less: "scan_ready P k s"
  proof -
    have "forward_tolerance (srv_log s) * (int k + 1) \<le> forward_tolerance (srv_log s) * (int (Suc k) + 1)"
      using ready by (intro mult_left_mono) (simp_all add: scan_ready_def)
    with ready show ?thesis unfolding scan_ready_def below_horizon_def by fastforce
  qed
  obtain rf sock where rf: "recv_frame (conn_socket conn) = (rf, sock)" by fastforce
  show ?thesis
  proof (cases rf)
    case (Inl x)
    with rf recv_frame_raises less show ?thesis by (auto simp: handle_connection_def)
  next
    case (Inr b)
    have legal: "legal_nonce b" "urandom_ok (env_nonce env)" "urandom_ok (env_gcm env)" "\<not> oversized T b"
      using c rf Inr by (auto simp: connection_ok_def)
    obtain res s1 where h: "handle_auth_request P linear_scan_ops env b s = (res, s1)" by fastforce
    note ro = request_outcome [OF P(1,3) ready h] and wf = scan_ready_wf [OF ready]
    have cred: "ent_credential s1 = ent_credential s"
      using linear.handle_step(1) [OF wf h] by (simp add: same_setup_def)
    show ?thesis
    proof (cases res)
      case (Inl x)
      with ro(1) legal have x: "request_error (srv_peers s) b x" by auto
      from rejection_fits [OF P(4) this legal(4)] obtain e where
        e: "build_error_envelope (exn_name x) (node_text T b x) = Inr e" "length e \<le> MAX_FRAME_BYTES"
        using error_envelope [of x T b] by auto
      obtain r sock' where sd: "conn_send conn sock e = (r, sock')" by fastforce
      from conn_send_raises [OF e(2) sd] rf \<open>rf = Inr b\<close> h Inl e(1) sd request_error_caught [OF x] ro(2) cred show ?thesis
        by (auto simp: handle_connection_def send_envelope_def is_os_error_def)
    next
      case (Inr a)
      from linear.handle_accepts [OF wf h [unfolded Inr]] obtain ep where acc: "accepted P linear_scan_ops env s b a s1 ep" by blast
      have "valid_str (cred_identity (ent_credential s))" using ready by (simp add: scan_ready_def)
      from accepted_response [OF P(2) legal(2,3) acc this id] obtain e where
        e: "build_ok_envelope (res_response_bytes a) = Inr e" "length e \<le> MAX_FRAME_BYTES" by blast
      obtain r sock' where sd: "conn_send conn sock e = (r, sock')" by fastforce
      from conn_send_raises [OF e(2) sd] rf \<open>rf = Inr b\<close> h Inr e(1) sd ro(2) cred show ?thesis
        by (auto simp: handle_connection_def send_envelope_def is_os_error_def)
    qed
  qed
qed

lemma serve_survives:
  assumes P: "hkdf_ok P" "gcm_ok P" "gcm_raises P" and "short_texts T (srv_peers s)"
    and "scan_ready P (length cs + k) s" "length (cred_identity (ent_credential s)) \<le> 1000" "\<forall>c \<in> set cs. connection_ok T c"
  shows "\<exists>s' evs. serve P linear_scan_ops (node_text T) cs s = (Inr (), s', evs) \<and> scan_ready P k s' \<and> length cs \<le> length evs"
  using assms(4-7)
proof (induction cs arbitrary: s)
  case Nil
  then show ?case by simp
next
  case (Cons c cs)
  obtain env conn where c: "c = (env, conn)" by (cases c)
  have "scan_ready P (Suc (length cs + k)) s" "connection_ok T (env, conn)" using Cons.prems c by simp_all
  from connection_survives [OF P Cons.prems(1) this(1) Cons.prems(3) this(2)] obtain s1 sock evs where
    1: "handle_connection P linear_scan_ops env (node_text T) conn s = (Inr (), s1, sock, evs)" "scan_ready P (length cs + k) s1"
      "ent_credential s1 = ent_credential s" "evs \<noteq> []" by blast
  have "srv_peers s1 = srv_peers s" using 1(3) by (simp add: srv_peers_def)
  with Cons.IH [OF _ 1(2)] 1(3) Cons.prems obtain s2 evs' where
    "serve P linear_scan_ops (node_text T) cs s1 = (Inr (), s2, evs')" "scan_ready P k s2" "length cs \<le> length evs'" by auto
  moreover have "Suc (length cs) \<le> length (evs @ evs')" using 1(4) \<open>length cs \<le> length evs'\<close> by (cases evs) auto
  ultimately show ?case using 1(1) c by simp
qed

text \<open>
  A nonce of a bad length under a pseudonym of an unblocked peer: the request raises \<^verbatim>\<open>ValueError\<close>, which
  the node does not catch, and no later connection is served.
\<close>

lemma bad_nonce_escapes:
  assumes P: "hkdf_ok P" "gcm_checks_iv P" and ready: "scan_ready P n s"
    and m: "message1_from_bytes msg = Inr m" "\<not> (8 \<le> length (m1_gcm_nonce m) \<and> length (m1_gcm_nonce m) \<le> 128)"
    and r: "linear_resolve P (env_now_resolve env) (srv_peers s) (srv_log s) (m1_pid m) (srv_resolver s) = (Inr (p, e), r')"
    and p: "\<not> is_blocked (srv_log s) p" "coverage_ok s p"
  shows "\<exists>s'. handle_auth_request P linear_scan_ops env msg s = (Inl ValueError, s') \<and> srv_log s' = srv_log s"
proof -
  let ?s1 = "s\<lparr>srv_resolver := r'\<rparr>"
  have rp: "resolve_pseudonym P linear_scan_ops (env_now_resolve env) (m1_pid m) s = (Inr (p, e), ?s1)"
    using r by (simp add: resolve_pseudonym_def linear_scan_ops_def)
  from ready have vp: "valid_peers (srv_peers s)" by (simp add: scan_ready_def)
  from linear_resolve_cases [OF vp scan_ready_horizon [OF ready] r] obtain lam where "(p, lam) \<in> set (srv_peers s)" by auto
  then have "map_of (cred_peer_secrets (ent_credential s)) p = Some lam" "valid_lam lam" "valid_lam (cred_lam (ent_credential s))"
    using vp ready by (auto simp: valid_peers_def srv_peers_def scan_ready_def)
  then have "\<exists>k. root_of P (ent_credential s) p = Inr k \<and> length k = KEY_LEN"
    using P(1) by (simp add: root_of_def derive_pairwise_root_valid pairwise_root_length)
  then obtain k where k: "root_of P (ent_credential s) p = Inr k" "length k = KEY_LEN" by blast
  have "cache_ok P ?s1" using ready by (simp add: scan_ready_def)
  from get_root_exact [OF this, of p k] k have g: "get_pairwise_root P p ?s1 =
      (Inr k, ?s1\<lparr>ent_root_cache := (ent_root_cache ?s1)(p \<mapsto> k)\<rparr>)" by simp
  have "aead_decrypt P k (m1_gcm_nonce m) (m1_ciphertext m) (m1_tag m) [] = Inl ValueError"
    using P(2) k(2) m(2) by (simp add: aead_decrypt_def gcm_checks_iv_def)
  then show ?thesis
    using m(1) rp p g by (simp add: handle_auth_request_def verify_request_def coverage_ok_def)
qed

text \<open>
  A request whose rejection is too long for a frame: sending the rejection raises \<^verbatim>\<open>ValueError\<close>, which the node does
  not catch either.  One frame with a long type is such a request.
\<close>

theorem long_header_stops_server:
  assumes "recv_frame (conn_socket conn) = (Inr msg, sock)" "oversized T msg"
  shows "serve P ops (node_text T) ((env, conn) # cs) s = (Inl ValueError, s, [Rejected MessageFormatError])"
proof -
  obtain e where e: "build_error_envelope (exn_name MessageFormatError) (node_text T msg MessageFormatError) = Inr e"
    "MAX_FRAME_BYTES < length e" using error_envelope [of MessageFormatError T msg] assms(2) by (auto simp: oversized_def)
  have "handle_auth_request P ops env msg s = (Inl MessageFormatError, s)"
    using assms(2) by (simp add: oversized_def handle_auth_request_def verify_request_def)
  with assms(1) e show ?thesis
    by (simp add: handle_connection_def send_envelope_def conn_send_def send_frame_def is_os_error_def)
qed

lemma quote_str_longer: "length s + 2 \<le> length (quote_str s)"
proof -
  have "1 \<le> length (escape_char c)" for c by (simp add: escape_char_def unicode_escape_def)
  then have "length s \<le> length (concat (map escape_char s))"
    by (induction s) (auto simp: add_le_mono [of 1 _ _ _, simplified])
  then show ?thesis by (simp add: quote_str_def)
qed

lemma long_type_request:
  assumes "\<forall>s. length s + 2 \<le> length (pt_repr T (JStr s))"
  shows "\<exists>msg. length msg \<le> MAX_FRAME_BYTES \<and> oversized T msg"
proof -
  obtain n :: nat where n: "n = 1048500" by blast
  let ?ty = "replicate n 65 :: pystr" and ?k = "lit ''type''"
  let ?j = "JDict [(?k, JStr ?ty)]"
  have ok: "json_ok ?j" by (simp add: is_ascii_valid is_ascii_def)
  then obtain msg where msg: "encode_payload ?j = Inr msg" "length msg = length (json_dumps [] ?j)"
    using encode_payload_ok by auto
  have q: "length (quote_str ?ty) = n + 2"
    by (simp add: quote_str_def escape_char_def length_concat comp_def sum_list_replicate)
  have "length msg \<le> n + 20" by (simp add: msg(2) q) (simp add: lit_def quote_str_def escape_char_def)
  then have len: "length msg \<le> MAX_FRAME_BYTES" by (simp add: n MAX_FRAME_BYTES_def)
  from loads_of_encoded [OF ok msg(1)] obtain s where s: "utf8_decode msg = Inr s" "json_loads s = Inr ?j" by blast
  have ne: "?ty \<noteq> lit ''M1''"
  proof
    assume "?ty = lit ''M1''"
    then have "length ?ty = length (lit ''M1'')" by simp
    then show False by (simp add: n lit_def)
  qed
  then have e: "message1_from_bytes msg = Inl MessageFormatError"
    using s by (simp add: message1_from_bytes_def open_payload_def)
  have "node_text T msg MessageFormatError = lit ''expected type M1, got '' @ pt_repr T (JStr ?ty)"
    using s ne by (simp add: node_texts message1_error_text_def dict_get_def del: lit_Cons)
  moreover have "n + 2 \<le> length (pt_repr T (JStr ?ty))" using spec [OF assms, of ?ty] by simp
  ultimately have "n + 20 \<le> length (node_text T msg MessageFormatError)" by (simp del: lit_Cons)
  then have "n + 22 \<le> length (quote_str (node_text T msg MessageFormatError))"
    using quote_str_longer [of "node_text T msg MessageFormatError"] by linarith
  moreover have "4 \<le> length (quote_str (lit ''ok''))" "12 \<le> length (quote_str (lit ''error_type''))"
    "9 \<le> length (quote_str (lit ''message''))" "20 \<le> length (quote_str (exn_name MessageFormatError))"
    using quote_str_longer [of "lit ''ok''"] quote_str_longer [of "lit ''error_type''"] quote_str_longer [of "lit ''message''"]
      quote_str_longer [of "lit ''MessageFormatError''"] by (simp_all add: exn_name_def del: lit_Cons)
  ultimately have "n + 84 \<le> rejection_length T msg MessageFormatError" unfolding rejection_length_sum by linarith
  then have "oversized T msg" using e by (simp add: oversized_def n MAX_FRAME_BYTES_def)
  with len show ?thesis by blast
qed

section \<open>The address of the server\<close>

lemma rpartition_last: "c \<notin> set b \<Longrightarrow> rpartition c (a @ c # b) = (a, [c], b)"
proof -
  assume "c \<notin> set b"
  then have "takeWhile (\<lambda>x. x \<noteq> c) (rev (a @ c # b)) = rev b" by (simp add: takeWhile_append takeWhile_eq_all_conv)
  then show ?thesis by (simp add: rpartition_def Let_def)
qed

lemma rpartition_none: "c \<notin> set s \<Longrightarrow> rpartition c s = ([], [], s)"
  by (simp add: rpartition_def)

text \<open>An address is read back as the host, colons included, and the port; without one the argument is refused.\<close>

lemma parse_addr_of:
  assumes "host \<noteq> []" "length (nat_digits n) \<le> 4300"
  shows "parse_server_addr (host @ 58 # nat_digits n) = Some (Inr (host, int n))"
proof -
  have d: "list_all is_digit (nat_digits n)" by (auto simp: list_all_iff dest: nat_digits_set)
  have ne: "58 \<notin> set (nat_digits n)" using nat_digits_set [of 58 n] by (auto simp: is_digit_def)
  have a: "is_ascii (nat_digits n)" using nat_digits_set [of _ n] by (fastforce simp: is_ascii_def is_digit_def)
  show ?thesis using assms d a by (simp add: parse_server_addr_def rpartition_last [OF ne])
qed

lemma parse_addr_refused:
  "58 \<notin> set s \<Longrightarrow> parse_server_addr s = Some (Inl ArgumentTypeError)"
  "58 \<notin> set port \<Longrightarrow> parse_server_addr (58 # port) = Some (Inl ArgumentTypeError)"
  "58 \<notin> set port \<Longrightarrow> is_ascii port \<Longrightarrow> port = [] \<or> \<not> list_all is_digit port \<Longrightarrow>
     parse_server_addr (host @ 58 # port) = Some (Inl ArgumentTypeError)"
  using rpartition_last [of 58 port "[]"] by (simp_all add: parse_server_addr_def rpartition_none rpartition_last)

section \<open>One authentication between the two nodes\<close>

text \<open>The server node as the network the device node talks to, with any fragmentation in both directions.\<close>

definition server_network ::
  "prims \<Rightarrow> 'r resolver_ops \<Rightarrow> server_env \<Rightarrow> (bytes \<Rightarrow> exn \<Rightarrow> pystr) \<Rightarrow> 'r server \<Rightarrow> nat list \<Rightarrow> nat list \<Rightarrow> bytes \<Rightarrow> exn + socket" where
  "server_network P ops env str_of s sizes sizes' msg =
     (case handle_connection P ops env str_of
         \<lparr>conn_socket = \<lparr>sock_in = frame msg, sock_sizes = sizes, sock_out = []\<rparr>, conn_broken = False\<rparr> s of
        (_, _, sock, _) \<Rightarrow> Inr \<lparr>sock_in = sock_out sock, sock_sizes = sizes', sock_out = []\<rparr>)"

lemma request_length:
  assumes "sha256_ok P" "gcm_ok P" "urandom_ok (env_dev_nonce env)" "urandom_ok (env_dev_gcm env)" "requested P env p d msg k pid n_i m"
  shows "length msg \<le> MAX_FRAME_BYTES"
proof -
  from assms(5) have r: "generate_nonce (env_dev_nonce env) (dev_nonce_bits d) = Inr n_i" "message1_to_bytes m = Inr msg"
    "aead_encrypt P (env_dev_gcm env) k (pid @ n_i @ be_bytes 8 (nat (device_epoch env d p))) [] =
       Inr (m1_gcm_nonce m, m1_ciphertext m, m1_tag m)" "m1_pid m = pid"
    "h2_pseudonym P (cred_lam (ent_credential d)) (device_epoch env d p) = Inr pid" by (simp_all add: requested_def)
  have "length pid = 32" using r(5) assms(1) by (auto simp: h2_pseudonym_Inr pseudonym_def sha256_ok_def)
  moreover have "length n_i \<le> 32" using generate_nonce_length [OF assms(3) r(1)] by auto
  ultimately have "length msg \<le> 7000"
    using aead_roundtrip(2-4) [OF assms(2,4) r(3)] r(4)
    by (intro message1_length [OF r(2)]) (simp_all add: GCM_NONCE_LEN_def TAG_LEN_def)
  then show ?thesis by (simp add: MAX_FRAME_BYTES_def)
qed

lemma nodes_once:
  assumes P: "sha256_ok P" "gcm_ok P" and wf: "server_wf linear_wf P s" "device_wf P d"
    and new: "cred_role cred = lit ''device''" "new_device cred None DEFAULT_NONCE_BITS DEFAULT_SESSION_TIMEOUT_SECONDS 3 False = Inr d"
    and run: "handshake P linear_scan_ops h sid d s = (Inr (key, a), d', s')"
    and env: "urandom_ok (env_dev_nonce (he_build h))" "urandom_ok (env_dev_gcm (he_build h))"
      "urandom_ok (env_nonce (he_server h))" "urandom_ok (env_gcm (he_server h))"
    and id: "valid_str (cred_identity (ent_credential s))" "length (cred_identity (ent_credential s)) \<le> 1000"
    and there: "network addr = server_network P linear_scan_ops (he_server h) str_of s sizes sizes'"
  shows "\<exists>msg. authenticate_once P cred (Inr addr) sid False last_msg (he_build h) (he_complete h) network =
    (Inr (Succeeded (take 16 (hex (p_sha256 P key)))), Some msg)"
proof -
  obtain msg d1 where b: "build_auth_request P (he_build h) sid d = (Inr msg, d1)"
    using run by (auto simp: handshake_def split: sum.splits prod.splits)
  obtain a1 s1 where h1: "handle_auth_request P linear_scan_ops (he_server h) msg s = (Inr a1, s1)"
    using run b by (auto simp: handshake_def split: sum.splits prod.splits)
  have c: "fst (complete_auth P (he_complete h) (res_response_bytes a) d1) = Inr key" and a: "a1 = a"
    using run b h1 by (auto simp: handshake_def split: sum.splits prod.splits)
  have "cache_ok P d" using wf(2) by (simp add: device_wf_def)
  from build_result [OF this b] obtain k pid n_i m where "requested P (he_build h) sid d msg k pid n_i m" by auto
  from request_length [OF P env(1,2) this] have len: "length msg \<le> MAX_FRAME_BYTES" .
  from linear.handle_accepts [OF wf(1) h1] obtain e where "accepted P linear_scan_ops (he_server h) s msg a1 s1 e" by blast
  from accepted_response [OF P(2) env(3,4) this id] a obtain eb t where
    eb: "build_ok_envelope (res_response_bytes a) = Inr eb" "length eb \<le> MAX_FRAME_BYTES"
      "ascii_encode t = Inr (res_response_bytes a)"
      "parse_envelope eb = Inr (JDict [(lit ''ok'', JBool True), (lit ''payload'', JStr t)])" by blast
  let ?sock = "\<lparr>sock_in = frame msg, sock_sizes = sizes, sock_out = []\<rparr>"
  from recv_frame_eq [OF len, of ?sock "[]"] obtain sock where
    sock: "recv_frame ?sock = (Inr msg, sock)" "sock_out sock = []" by auto
  have net: "server_network P linear_scan_ops (he_server h) str_of s sizes sizes' msg =
      Inr \<lparr>sock_in = frame eb, sock_sizes = sizes', sock_out = []\<rparr>"
    using sock h1 a eb(1,2) by (simp add: server_network_def handle_connection_def send_envelope_def conn_send_def send_frame_eq)
  let ?returned = "\<lparr>sock_in = frame eb, sock_sizes = sizes', sock_out = frame msg\<rparr>"
  from recv_frame_eq [OF eb(2), of ?returned "[]"] obtain sock' where resp: "recv_frame ?returned = (Inr eb, sock')" by auto
  have "read_response P (he_complete h) True eb d1 = Inr (Succeeded (take 16 (hex (p_sha256 P key))))"
    using eb(3,4) c by (simp add: read_response_def envelope_field_def truthy_def del: lit_Cons)
  then show ?thesis
    using new b net len resp by (simp add: authenticate_once_def there send_frame_eq del: lit_Cons)
qed

section \<open>Locking a peer out\<close>

text \<open>
  A message that shows a fresh pseudonym of \<open>p\<close> and does not open under the pair's root: anyone who has
  seen a first message that was lost can send it.
\<close>

definition garbage :: "prims \<Rightarrow> resolver server \<Rightarrow> pystr \<Rightarrow> bytes \<Rightarrow> bool" where
  "garbage P s p msg \<longleftrightarrow> (\<exists>m lam e k. message1_from_bytes msg = Inr m \<and> (p, lam) \<in> set (srv_peers s) \<and>
     m1_pid m = pseudonym P lam e \<and> last_epoch (srv_log s) p < e \<and> e \<le> last_epoch (srv_log s) p + forward_tolerance (srv_log s) \<and>
     root_of P (ent_credential s) p = Inr k \<and> aead_decrypt P k (m1_gcm_nonce m) (m1_ciphertext m) (m1_tag m) [] = Inl InvalidTag)"

definition requests :: "prims \<Rightarrow> 'r resolver_ops \<Rightarrow> (server_env \<times> bytes) list \<Rightarrow> 'r server \<Rightarrow> 'r server" where
  "requests P ops es s = foldl (\<lambda>s (env, msg). snd (handle_auth_request P ops env msg s)) s es"

text \<open>What the flood keeps: the enrolment, the epochs and the coverage; only failures are counted.\<close>

definition scan_open :: "prims \<Rightarrow> int \<Rightarrow> int \<Rightarrow> pystr \<Rightarrow> resolver server \<Rightarrow> bool" where
  "scan_open P F E p s \<longleftrightarrow> linear_good P F E (srv_peers s) (srv_log s) (srv_resolver s) \<and>
     below_horizon (srv_log s) (srv_peers s) F E \<and> cache_ok P s \<and> coverage_ok s p"

lemma scan_open_resolves:
  assumes o: "scan_open P F E p s" and lam: "(p, lam) \<in> set (srv_peers s)"
    and e: "last_epoch (srv_log s) p < e" "e \<le> last_epoch (srv_log s) p + forward_tolerance (srv_log s)"
  shows "\<exists>r'. resolve_pseudonym P linear_scan_ops now (pseudonym P lam e) s = (Inr (p, e), s\<lparr>srv_resolver := r'\<rparr>)"
proof -
  let ?pid = "pseudonym P lam e"
  from o have g: "linear_good P F E (srv_peers s) (srv_log s) (srv_resolver s)" "below_horizon (srv_log s) (srv_peers s) F E"
    by (simp_all add: scan_open_def)
  then have "counter_spec P F (srv_peers s) (srv_log s) ?pid p e" using lam e by (auto simp: counter_spec_def linear_good_def)
  from linear_cs.good_resolve [OF g this, of now] obtain r' where
    "ro_resolve linear_scan_ops P now (srv_peers s) (srv_log s) ?pid (srv_resolver s) = (Inr (p, e), r')" by blast
  then show ?thesis by (intro exI [of _ r']) (simp add: resolve_pseudonym_def)
qed

lemma garbage_step:
  assumes o: "scan_open P F E p s" and g: "garbage P s p msg" and h: "handle_auth_request P linear_scan_ops env msg s = (res, s')"
  shows "srv_log s' = fail (srv_log s) p" "res = Inl (if is_blocked (srv_log s) p then BlockedEntity p else IntegrityError (unopened_text p))"
    "scan_open P F E p s'" "garbage P s' p msg' = garbage P s p msg'"
proof -
  from g obtain m lam e k where m: "message1_from_bytes msg = Inr m" "(p, lam) \<in> set (srv_peers s)" "m1_pid m = pseudonym P lam e"
    "last_epoch (srv_log s) p < e" "e \<le> last_epoch (srv_log s) p + forward_tolerance (srv_log s)" "root_of P (ent_credential s) p = Inr k"
    "aead_decrypt P k (m1_gcm_nonce m) (m1_ciphertext m) (m1_tag m) [] = Inl InvalidTag" unfolding garbage_def by blast
  from scan_open_resolves [OF o m(2,4,5), of "env_now_resolve env"] obtain r1 where
    r: "resolve_pseudonym P linear_scan_ops (env_now_resolve env) (m1_pid m) s = (Inr (p, e), s\<lparr>srv_resolver := r1\<rparr>)" by (auto simp: m(3))
  let ?s1 = "s\<lparr>srv_resolver := r1\<rparr>"
  have oo: "cache_ok P ?s1" "coverage_ok ?s1 p" using o by (simp_all add: scan_open_def coverage_ok_def)
  from get_root_exact [OF oo(1), of p k] m(6) have gr: "get_pairwise_root P p ?s1 =
      (Inr k, ?s1\<lparr>ent_root_cache := (ent_root_cache ?s1)(p \<mapsto> k)\<rparr>)" by simp
  let ?s2 = "?s1\<lparr>ent_root_cache := (ent_root_cache ?s1)(p \<mapsto> k)\<rparr>"
  have c2: "cache_ok P ?s2" using oo(1) m(6) by (auto simp: cache_ok_def)
  have "is_blocked (srv_log s) p \<and> res = Inl (BlockedEntity p) \<and> s' = ?s1 \<or>
      \<not> is_blocked (srv_log s) p \<and> res = Inl (IntegrityError (unopened_text p)) \<and> s' = server_failure ?s2 p"
  proof (cases "is_blocked (srv_log s) p")
    case True
    then show ?thesis using h m(1) r by (auto simp: handle_auth_request_def verify_request_def)
  next
    case False
    then show ?thesis using h m(1,7) r gr oo(2) by (auto simp: handle_auth_request_def verify_request_def)
  qed
  then consider "is_blocked (srv_log s) p" "res = Inl (BlockedEntity p)" "s' = ?s1"
    | "\<not> is_blocked (srv_log s) p" "res = Inl (IntegrityError (unopened_text p))" "s' = server_failure ?s2 p" by blast
  then have *: "srv_log s' = fail (srv_log s) p \<and> res = Inl (if is_blocked (srv_log s) p then BlockedEntity p else IntegrityError (unopened_text p)) \<and>
      ent_credential s' = ent_credential s \<and> ent_coverage_predicate s' = ent_coverage_predicate s \<and> cache_ok P s'"
  proof cases
    case 1
    then show ?thesis using oo(1) fail_blocked [of p "srv_log s"] by (simp add: is_blocked_def)
  next
    case 2
    then show ?thesis using c2 by (simp add: server_failure_def)
  qed
  then show "srv_log s' = fail (srv_log s) p" "res = Inl (if is_blocked (srv_log s) p then BlockedEntity p else IntegrityError (unopened_text p))" by blast+
  have "srv_peers s' = srv_peers s" using * by (simp add: srv_peers_def)
  with * o show "scan_open P F E p s'"
    by (auto simp: scan_open_def coverage_ok_def linear_good_def below_horizon_def)
  show "garbage P s' p msg' = garbage P s p msg'" using * by (simp add: garbage_def srv_peers_def)
qed

lemma garbage_flood:
  assumes "scan_open P F E p s" "\<forall>(env, msg) \<in> set es. garbage P s p msg"
  shows "srv_log (requests P linear_scan_ops es s) = log_run (srv_log s) (map (\<lambda>_. Fail p) es)"
    and "scan_open P F E p (requests P linear_scan_ops es s)"
    and "garbage P (requests P linear_scan_ops es s) p msg' = garbage P s p msg'"
proof -
  have "srv_log (requests P linear_scan_ops es s) = log_run (srv_log s) (map (\<lambda>_. Fail p) es) \<and>
    scan_open P F E p (requests P linear_scan_ops es s) \<and> garbage P (requests P linear_scan_ops es s) p msg' = garbage P s p msg'"
    using assms
  proof (induction es arbitrary: s)
    case Nil
    then show ?case by (simp add: requests_def log_run_def)
  next
    case (Cons x es)
    obtain env msg where x: "x = (env, msg)" by (cases x)
    obtain res s1 where h: "handle_auth_request P linear_scan_ops env msg s = (res, s1)" by fastforce
    from Cons.prems(2) x have g: "garbage P s p msg" by simp
    note st = garbage_step [OF Cons.prems(1) g h]
    from Cons.IH [OF st(3)] Cons.prems(2) st(1,4) h show ?case
      by (simp add: x requests_def log_run_def split_beta)
  qed
  then show "srv_log (requests P linear_scan_ops es s) = log_run (srv_log s) (map (\<lambda>_. Fail p) es)"
    "scan_open P F E p (requests P linear_scan_ops es s)"
    "garbage P (requests P linear_scan_ops es s) p msg' = garbage P s p msg'" by blast+
qed

lemma streak_replicate: "streak p (replicate n (Fail p)) = n"
proof (induction n)
  case (Suc n)
  then show ?case by (simp only: replicate_Suc replicate_append_same [symmetric] streak_simps if_True simp_thms)
qed simp

lemma flood_blocks:
  assumes "1 \<le> m" "m \<le> int n"
  shows "p \<in> blocked (log_run (new_session_log m f l) (replicate n (Fail p)))"
proof -
  let ?k = "nat m - 1"
  have k: "?k < n" "Suc ?k = nat m" "nat m \<le> n" using assms by linarith+
  have "take (nat m) (replicate n (Fail p)) = replicate (nat m) (Fail p)" using k(3) by simp
  then have "m \<le> int (streak p (take (Suc ?k) (replicate n (Fail p))))"
    unfolding k(2) by (simp add: streak_replicate)
  then have "history_blocks m p (replicate n (Fail p))"
    unfolding history_blocks_def using k(1) by (intro exI [of _ ?k]) simp
  then show ?thesis by (simp add: log_run_blocked)
qed

end
