(* ===== verification/ClockRuns.thy ===== *)
theory ClockRuns
  imports Sync ClockComplete
begin

text \<open>
  Runs between a device that takes its epoch from the clock and a server with one of the clock
  strategies: a run succeeds when the device's epoch is in the server's window and its nonce was not
  used in that epoch before, and leaves the nonce in the cache.
\<close>

lemma clock_accept_fresh:
  assumes "current_epoch now r = Inr cur" "utf8_encode p = Inr name" "\<not> ck_remembers p e n r"
  shows "\<exists>r'. clock_accept P now ps sl p e n r = (Inr (), r', accept_epoch sl p e) \<and> ck_remembers p e n r'"
proof -
  have "name @ [0] @ n \<notin> set (seen_nonces cur e r)"
    using assms(2,3) by (auto simp: seen_nonces_def map_of_purged ck_remembers_def split: option.splits)
  then have "\<exists>r'. clock_accept P now ps sl p e n r = (Inr (), r', accept_epoch sl p e)"
    by (simp add: clock_accept_eq [OF assms(1,2)])
  then show ?thesis using ck_accept_remembers by blast
qed

lemma clock_handshake:
  fixes s :: "'a clock_resolver_scheme server"
  assumes P: "prims_ok P" and env: "env_ok h d" and pair: "paired (ent_credential d) (ent_credential s)"
    and will: "willing d s" and dwf: "device_wf P d" and swf: "cache_ok P s"
    and e: "e = device_epoch (he_build h) d (cred_identity (ent_credential s))" "valid_epoch e"
    and ops: "ro_accept ops = clock_accept"
    and res: "ro_resolve ops P (env_now_resolve (he_server h)) (srv_peers s) (srv_log s)
      (pseudonym P (cred_lam (ent_credential d)) e) (srv_resolver s) = (Inr (cred_identity (ent_credential d), e), r1)"
    and r1: "same_clock (srv_resolver s) r1"
    and cur: "current_epoch (env_now_accept (he_server h)) (srv_resolver s) = Inr cur"
    and name: "valid_str (cred_identity (ent_credential d))"
    and fresh: "\<And>n. generate_nonce (env_dev_nonce (he_build h)) (dev_nonce_bits d) = Inr n \<Longrightarrow>
      \<not> ck_remembers (cred_identity (ent_credential d)) e n (srv_resolver s)"
  shows "\<exists>a n_i n_j d' s'. handshake P ops h (cred_identity (ent_credential s)) d s =
      (Inr (session_key P (pair_root P d s) n_i n_j e, a), d', s') \<and>
    res_session_key a = session_key P (pair_root P d s) n_i n_j e \<and> res_peer_identity a = cred_identity (ent_credential d) \<and>
    generate_nonce (env_dev_nonce (he_build h)) (dev_nonce_bits d) = Inr n_i \<and>
    ck_remembers (cred_identity (ent_credential d)) e n_i (srv_resolver s')"
proof -
  let ?did = "cred_identity (ent_credential d)" and ?sl = "accept_epoch (srv_log s) (cred_identity (ent_credential d)) e"
  obtain utf where utf: "utf8_encode ?did = Inr utf" using name by (auto simp: utf8_encode_def)
  have c1: "current_epoch (env_now_accept (he_server h)) r1 = Inr cur"
    using cur r1 by (simp add: current_epoch_def same_clock_def split: if_splits)
  note keep = same_clockD [OF r1]
  obtain n where n: "generate_nonce (env_dev_nonce (he_build h)) (dev_nonce_bits d) = Inr n"
    using nonce_generated will env by (auto simp: willing_def env_ok_def)
  let ?Q = "ck_remembers ?did e n"
  have acc: "\<exists>r2. ro_accept ops P (env_now_accept (he_server h)) (srv_peers s) (srv_log s) ?did e n_i r1 = (Inr (), r2, ?sl) \<and> ?Q r2"
    if "generate_nonce (env_dev_nonce (he_build h)) (dev_nonce_bits d) = Inr n_i" for n_i
    using clock_accept_fresh [OF c1 utf, of e n_i P "srv_peers s" "srv_log s"] fresh [OF that] that n keep by (simp add: ops)
  from handshake_succeeds [OF P env pair will dwf swf e res, of ?sl ?Q] acc obtain a n_i n_j r2 where run:
    "handshake P ops h (cred_identity (ent_credential s)) d s = (Inr (session_key P (pair_root P d s) n_i n_j e, a),
       after_run P h d s n_i, after_answer s ?did (pair_root P d s) r2 ?sl)"
    "res_session_key a = session_key P (pair_root P d s) n_i n_j e" "res_peer_identity a = ?did" "generate_nonce (env_dev_nonce (he_build h)) (dev_nonce_bits d) = Inr n_i" "?Q r2" by blast
  then have "ck_remembers ?did e n_i (srv_resolver (after_answer s ?did (pair_root P d s) r2 ?sl))"
    using n by (simp add: after_answer_def)
  with run show ?thesis by blast
qed

text \<open>Under O3 the window is searched, under O4 looked up; the decision is the same.\<close>

lemma scan_finds:
  assumes nc: "no_collisions P ps E" "E \<le> 256 ^ 8" "valid_peers ps" and w: "clock_window now r = Inr W" "set W \<subseteq> {0 ..< E}"
    and p: "(p, lam) \<in> set ps" "e \<in> set W"
  shows "\<exists>r1. ro_resolve clock_scan_ops P now ps sl (pseudonym P lam e) r = (Inr (p, e), r1) \<and> same_clock r r1"
proof -
  have "clock_spec P W ps (pseudonym P lam e) p e" using p by (auto simp: clock_spec_def)
  moreover have "\<forall>e \<in> set W. 0 \<le> e \<and> e < E" using w(2) by (auto simp: subset_iff)
  ultimately obtain n where "clock_scan_peers P (pseudonym P lam e) W ps r = (Inr (p, e), add_probes n r)"
    using clock_scan_peers_Some [OF nc(3) _ nc(2,1)] by blast
  with w(1) show ?thesis by (simp add: clock_scan_ops_def clock_scan_resolve_def same_clock_def add_probes_def)
qed

lemma table_finds:
  assumes nc: "no_collisions P ps E" "E \<le> 256 ^ 8" "valid_peers ps" and h: "holds P ps (set (ckt_tabled r)) r" "set (ckt_tabled r) \<subseteq> {0 ..< E}"
    and w: "clock_window now r = Inr W" "set W \<subseteq> {0 ..< E}" and p: "(p, lam) \<in> set ps" "e \<in> set W"
  shows "\<exists>r1. ro_resolve clock_table_ops P now ps sl (pseudonym P lam e) r = (Inr (p, e), r1) \<and> same_clock r r1"
proof -
  have "clock_spec P W ps (pseudonym P lam e) p e" using p by (auto simp: clock_spec_def)
  then have "fst (clock_table_resolve P now ps sl (pseudonym P lam e) r) = Inr (p, e)"
    using clock_table_resolve_iff(1) [OF nc h w] by simp
  moreover have "snd (clock_table_resolve P now ps sl (pseudonym P lam e) r) = snd (clock_advance P now ps r)"
    by (auto simp: clock_table_resolve_def split: prod.split sum.split option.split)
  ultimately show ?thesis using clock_advance_clock [of r P now ps]
    by (cases "clock_table_resolve P now ps sl (pseudonym P lam e) r") (simp add: clock_table_ops_def)
qed

text \<open>The device's name is in the server's table of peers with the secret it signs under.\<close>

lemma paired_peer:
  assumes "paired (ent_credential d) (ent_credential s)"
  shows "(cred_identity (ent_credential d), cred_lam (ent_credential d)) \<in> set (srv_peers s)"
  using assms by (auto simp: paired_def srv_peers_def dest: map_of_SomeD)

end
