(* ===== verification/ToyRuns.thy ===== *)
theory ToyRuns
  imports NodeRuns ClockRuns
begin

text \<open>
  Concrete inputs for the witnesses about nodes and clocks: a first message with a nonce of a bad
  length, one that does not open, connections that carry them, and a pair whose epochs come from the
  clock.
\<close>

section \<open>Hostile messages\<close>

definition toy_message1 :: "bytes \<Rightarrow> message1" where
  "toy_message1 n = \<lparr>m1_pid = pseudonym toy 5 0, m1_gcm_nonce = n, m1_ciphertext = [], m1_tag = []\<rparr>"

definition toy_wire :: "bytes \<Rightarrow> bytes" where
  "toy_wire n = (case message1_to_bytes (toy_message1 n) of Inr b \<Rightarrow> b | Inl _ \<Rightarrow> [])"

lemma toy_wire_eq: "message1_to_bytes (toy_message1 n) = Inr (toy_wire n)"
  using message1_to_bytes_total [of "toy_message1 n"] by (auto simp: toy_wire_def)

lemma toy_wire_back: "message1_from_bytes (toy_wire n) = Inr (toy_message1 n)"
  by (rule message1_from_to_bytes [OF toy_wire_eq])

lemma toy_wire_length: "length n \<le> 100 \<Longrightarrow> length (toy_wire n) \<le> MAX_FRAME_BYTES"
  using message1_length [OF toy_wire_eq, of n] toy_sha256_ok
  by (simp add: toy_message1_def MAX_FRAME_BYTES_def pseudonym_def sha256_ok_def)

definition toy_connection :: "bytes \<Rightarrow> connection" where
  "toy_connection n = \<lparr>conn_socket = \<lparr>sock_in = frame (toy_wire n), sock_sizes = [3], sock_out = []\<rparr>, conn_broken = False\<rparr>"

lemma toy_connection_frame:
  "length n \<le> 100 \<Longrightarrow> \<exists>sock. recv_frame (conn_socket (toy_connection n)) = (Inr (toy_wire n), sock)"
  using recv_frame_eq [OF toy_wire_length, of n "conn_socket (toy_connection n)" "[]"] by (auto simp: toy_connection_def)

lemma toy_scan_good: "linear_good toy 8 100 (srv_peers (toy_server new_resolver)) (srv_log (toy_server new_resolver)) new_resolver"
  "below_horizon (srv_log (toy_server new_resolver)) (srv_peers (toy_server new_resolver)) 8 100"
  using toy_linear toy_horizon by (simp_all add: toy_server_def srv_peers_def srv_cred_def)

lemma toy_scan_resolves:
  "\<exists>r'. linear_resolve toy now (srv_peers (toy_server new_resolver)) (srv_log (toy_server new_resolver)) (pseudonym toy 5 0)
     new_resolver = (Inr (dev_id, 0), r')"
proof -
  have "last_epoch (srv_log (toy_server new_resolver)) dev_id = -1" by (simp add: toy_server_def new_session_log_def last_epoch_def)
  then have "counter_spec toy 8 (srv_peers (toy_server new_resolver)) (srv_log (toy_server new_resolver)) (pseudonym toy 5 0) dev_id 0"
    by (simp add: counter_spec_def del: lit_Cons)
  from linear_cs.good_resolve [OF toy_scan_good this] show ?thesis by (auto simp: linear_scan_ops_def)
qed

lemma toy_scan_ready: "scan_ready toy k (toy_server new_resolver)" if "k \<le> 1000"
proof -
  have "int k * 8 \<le> 8000" using that by simp
  then show ?thesis
    by (auto simp: scan_ready_def toy_valid_peers toy_creds below_horizon_def cache_ok_def)
      (auto simp: toy_server_def srv_cred_def valid_lam_def valid_str_def lit_def SUPPORTED_NONCE_BITS_def new_session_log_def last_epoch_def)
qed

lemma toy_raises: "gcm_raises toy"
  by (auto simp: gcm_raises_def toy_def toy_decrypt_def split: if_splits)

lemma toy_open: "scan_open toy 8 100 dev_id (toy_server new_resolver)"
proof -
  have "cache_ok toy (toy_server new_resolver)" "coverage_ok (toy_server new_resolver) dev_id"
    by (simp_all add: cache_ok_def coverage_ok_def toy_server_def)
  moreover have "srv_resolver (toy_server new_resolver) = new_resolver" by (simp add: toy_server_def)
  ultimately show ?thesis using toy_scan_good by (simp add: scan_open_def)
qed

lemma toy_garbage: "garbage toy (toy_server new_resolver) dev_id (toy_wire (zeros 12))"
proof -
  let ?k = "pair_root toy toy_device (toy_server new_resolver)"
  have k: "root_of toy srv_cred dev_id = Inr ?k"
    using paired_roots(2) [OF toy_paired [where r = new_resolver]] unfolding toy_creds(1,2) toy_creds(3) .
  have "length ?k = KEY_LEN" using toy_hkdf_ok by (simp add: pair_root_def pairwise_root_length)
  moreover have "aead_decrypt toy k (zeros 12) [] [] [] = Inl InvalidTag" if "length k = KEY_LEN" for k
  proof -
    have "keep_last TAG_LEN k \<noteq> []" using keep_last_length [of TAG_LEN k] by (auto simp: TAG_LEN_def simp del: keep_last_length)
    with that show ?thesis by (simp add: aead_decrypt_def toy_def toy_decrypt_def zeros_def last_n_def)
  qed
  ultimately have "aead_decrypt toy ?k (zeros 12) [] [] [] = Inl InvalidTag" by blast
  moreover have "last_epoch (srv_log (toy_server new_resolver)) dev_id = -1" "forward_tolerance (srv_log (toy_server new_resolver)) = 8"
    by (simp_all add: toy_server_def new_session_log_def last_epoch_def)
  ultimately show ?thesis using k
    by (auto simp: garbage_def toy_wire_back toy_message1_def toy_creds simp del: lit_Cons intro!: exI [of _ 5] exI [of _ 0])
qed

section \<open>Epochs from the clock\<close>

definition toy_clock_device :: device where
  "toy_clock_device = toy_device\<lparr>dev_epoch_clock := True\<rparr>"

lemma toy_clock_simps [simp]:
  "ent_credential toy_clock_device = dev_cred" "dev_epoch_clock toy_clock_device" "dev_log toy_clock_device = new_session_log 3 8 16"
  "dev_nonce_bits toy_clock_device = 128" "dev_session_timeout toy_clock_device = 5"
  by (simp_all add: toy_clock_device_def toy_device_def)

lemma toy_clock_pair:
  "env_ok toy_run toy_clock_device" "paired (ent_credential toy_clock_device) (ent_credential (toy_server r))"
  "willing toy_clock_device (toy_server r)" "device_wf toy toy_clock_device" "cache_ok toy (toy_server r)"
  "device_epoch (he_build toy_run) toy_clock_device p = 0"
proof -
  show "env_ok toy_run toy_clock_device"
    by (simp add: env_ok_def toy_run_def toy_device_env_def toy_server_env_def zeros_ok)
  show "paired (ent_credential toy_clock_device) (ent_credential (toy_server r))" using toy_paired by (simp add: toy_creds)
  show "willing toy_clock_device (toy_server r)" using toy_willing [of r]
    by (simp add: willing_def toy_clock_device_def coverage_ok_def)
  show "device_wf toy toy_clock_device"
    by (simp add: device_wf_def cache_ok_def toy_clock_device_def toy_device_def)
  show "cache_ok toy (toy_server r)" by (simp add: cache_ok_def toy_server_def)
  show "device_epoch (he_build toy_run) toy_clock_device p = 0" by (simp add: device_epoch_def toy_run_def toy_device_env_def)
qed

lemma toy_window: "clock_window 0 (new_clock_resolver 60 1) = Inr [0, 1]" "clock_window 0 (new_clock_table 60 1) = Inr [0, 1]"
  "current_epoch 0 (new_clock_resolver 60 1) = Inr 0" "current_epoch 0 (new_clock_table 60 1) = Inr 0"
  by (simp_all add: clock_window_def current_epoch_def new_clock_resolver_def new_clock_table_def window_of_def)

lemma toy_unseen: "\<not> ck_remembers p e n (new_clock_resolver 60 1)" "\<not> ck_remembers p e n (new_clock_table 60 1)"
  by (simp_all add: ck_remembers_def new_clock_resolver_def new_clock_table_def)

lemma toy_empty_table: "holds toy ps (set (ckt_tabled (new_clock_table 60 1))) (new_clock_table 60 1)"
  "ckt_tabled (new_clock_table 60 1) = []"
  by (simp_all add: holds_def new_clock_table_def)

lemma toy_clock_run:
  fixes r :: "'a clock_resolver_scheme"
  assumes a: "ro_accept ops = clock_accept" and c: "current_epoch 0 r = Inr 0" and u: "\<And>p e n. \<not> ck_remembers p e n r"
    and f: "\<exists>r1. ro_resolve ops toy 0 (srv_peers (toy_server r)) (srv_log (toy_server r))
      (pseudonym toy (cred_lam dev_cred) 0) r = (Inr (cred_identity dev_cred, 0), r1) \<and> same_clock r r1"
  shows "\<exists>a msg s1. handle_auth_request toy ops toy_server_env msg (toy_server r) = (Inr a, s1)"
proof -
  let ?s = "toy_server r" and ?d = toy_clock_device
  have s: "srv_resolver ?s = r" by (simp add: toy_server_def)
  have now: "env_now_resolve (he_server toy_run) = 0" "env_now_accept (he_server toy_run) = 0" "he_server toy_run = toy_server_env"
    by (simp_all add: toy_run_def toy_server_env_def)
  have ve: "valid_epoch 0" by (simp add: valid_epoch_def)
  have i: "valid_str (cred_identity (ent_credential ?d))" by (simp add: dev_cred_def valid_str_def lit_def)
  from f obtain r1 where "ro_resolve ops toy (env_now_resolve (he_server toy_run)) (srv_peers ?s) (srv_log ?s)
      (pseudonym toy (cred_lam (ent_credential ?d)) 0) (srv_resolver ?s) = (Inr (cred_identity (ent_credential ?d), 0), r1)"
    "same_clock (srv_resolver ?s) r1" by (auto simp: s now(1))
  moreover have "current_epoch (env_now_accept (he_server toy_run)) (srv_resolver ?s) = Inr 0" using c by (simp add: s now(2))
  ultimately have "\<exists>a k d' s'. handshake toy ops toy_run (cred_identity (ent_credential ?s)) ?d ?s = (Inr (k, a), d', s')"
    using clock_handshake [OF toy_ok toy_clock_pair(1-5) toy_clock_pair(6) [symmetric] ve a _ _ _ i] u s by metis
  then show ?thesis using handshake_message unfolding now(3) [symmetric] by metis
qed

lemma toy_clock_accepts:
  "\<exists>a msg s1. handle_auth_request toy clock_scan_ops toy_server_env msg (toy_server (new_clock_resolver 60 1)) = (Inr a, s1)"
  "\<exists>a msg s1. handle_auth_request toy clock_table_ops toy_server_env msg (toy_server (new_clock_table 60 1)) = (Inr a, s1)"
proof -
  have p: "(cred_identity dev_cred, cred_lam dev_cred) \<in> set (srv_peers (toy_server r))" for r :: "'a clock_resolver_scheme"
    using paired_peer [OF toy_clock_pair(2)] by simp
  have nc: "no_collisions toy (srv_peers (toy_server r)) 100" "valid_peers (srv_peers (toy_server r))" for r :: "'a clock_resolver_scheme"
    using toy_no_collisions [of 100] toy_valid_peers by simp_all
  have e: "(100 :: int) \<le> 256 ^ 8" "set [0, 1] \<subseteq> {0 ..< 100 :: int}" "0 \<in> set [0, 1 :: int]" by simp_all
  have h: "set (ckt_tabled (new_clock_table 60 1)) \<subseteq> {0 ..< 100}" by (simp add: toy_empty_table)
  show "\<exists>a msg s1. handle_auth_request toy clock_scan_ops toy_server_env msg (toy_server (new_clock_resolver 60 1)) = (Inr a, s1)"
    by (rule toy_clock_run [OF _ toy_window(3) toy_unseen(1) scan_finds [OF nc(1) e(1) nc(2) toy_window(1) e(2) p e(3)]])
      (simp add: clock_scan_ops_def)
  show "\<exists>a msg s1. handle_auth_request toy clock_table_ops toy_server_env msg (toy_server (new_clock_table 60 1)) = (Inr a, s1)"
    by (rule toy_clock_run [OF _ toy_window(4) toy_unseen(2)
          table_finds [OF nc(1) e(1) nc(2) toy_empty_table(1) h toy_window(2) e(2) p e(3)]])
      (simp add: clock_table_ops_def)
qed

end
