(* ===== verification/Provisioning.thy ===== *)
theory Provisioning
  imports Nodes
begin

text \<open>
  Provisioning from the manifest to the credential files: a well-formed manifest is enrolled in full,
  every file loads back to the credential the authority issued, and the files of a device and of a
  server hold a pair of credentials that can run the protocol.
\<close>

section \<open>Enrolling a manifest\<close>

definition entry_ok :: "manifest_entry \<Rightarrow> bool" where
  "entry_ok e \<longleftrightarrow> (\<exists>i r. me_identity e = Some i \<and> me_role e = Some r \<and> r \<in> set VALID_ROLES \<and> valid_str i)"

definition manifest_ok :: "manifest_entry list \<Rightarrow> bool" where
  "manifest_ok es \<longleftrightarrow> (\<forall>e \<in> set es. entry_ok e) \<and> distinct (map me_identity es)"

text \<open>The references handed out so far: one per identity, each to the credential of that identity.\<close>

definition refs_ok :: "(pystr \<times> nat) list \<Rightarrow> cred_store \<Rightarrow> bool" where
  "refs_ok acc st \<longleftrightarrow> distinct (map fst acc) \<and> (\<forall>(i, r) \<in> set acc. r < length st \<and> cred_identity (st ! r) = i)"

definition points_ok :: "cred_store \<Rightarrow> bool" where
  "points_ok st \<longleftrightarrow> (\<forall>c \<in> set st. cred_public_point c \<noteq> Some [])"

lemma enroll_total:
  assumes "r \<in> set VALID_ROLES" "valid_str i" "map_of (ta_registry ta) i = None"
  shows "\<exists>ta' c. enroll P ta st i r ex = (Inr (length st), ta', st @ [c]) \<and> cred_identity c = i \<and> cred_role c = r \<and>
    ta_registry ta' = AList.update i (length st) (ta_registry ta) \<and>
    cred_public_point c \<in> {None, Some (scalar_to_public_point P (cred_lam c))}"
  using assms by (simp add: enroll_def derive_long_term_secret_def utf8_encode_def Let_def)

lemma batch_total:
  assumes "manifest_ok es" "\<forall>e \<in> set es. \<forall>i. me_identity e = Some i \<longrightarrow> map_of (ta_registry ta) i = None \<and> i \<notin> fst ` set acc"
    and "refs_ok acc st" "points_ok st" "\<forall>v. p_ec_point P v \<noteq> []"
  shows "\<exists>creds ta' cs. enroll_batch P es acc ta st = (Inr creds, ta', st @ cs) \<and> refs_ok creds (st @ cs) \<and> points_ok (st @ cs) \<and>
    set acc \<subseteq> set creds \<and>
    (\<forall>e \<in> set es. \<forall>i r. me_identity e = Some i \<longrightarrow> me_role e = Some r \<longrightarrow>
       (\<exists>k. (i, k) \<in> set creds \<and> cred_role ((st @ cs) ! k) = r))"
  using assms(1-4)
proof (induction es arbitrary: acc ta st)
  case Nil
  then show ?case by (intro exI [of _ acc] exI [of _ ta] exI [of _ "[]"]) simp
next
  case (Cons e es)
  from Cons.prems(1) obtain i r where ir: "me_identity e = Some i" "me_role e = Some r" "r \<in> set VALID_ROLES" "valid_str i"
    by (auto simp: manifest_ok_def entry_ok_def)
  with Cons.prems(2) have new: "map_of (ta_registry ta) i = None" "i \<notin> fst ` set acc" by simp_all
  from enroll_total [OF ir(3,4) new(1), of P st "case me_export_public_point e of Some b \<Rightarrow> b | None \<Rightarrow> False"] obtain ta1 c where
    c: "enroll P ta st i r (case me_export_public_point e of Some b \<Rightarrow> b | None \<Rightarrow> False) = (Inr (length st), ta1, st @ [c])"
      "cred_identity c = i" "cred_role c = r" "ta_registry ta1 = AList.update i (length st) (ta_registry ta)"
      "cred_public_point c \<in> {None, Some (scalar_to_public_point P (cred_lam c))}" by blast
  let ?acc = "acc @ [(i, length st)]"
  have upd: "AList.update i (length st) acc = ?acc" using new(2) by (rule alist_update_fresh)
  have m: "manifest_ok es" using Cons.prems(1) by (simp add: manifest_ok_def)
  have fresh: "\<forall>f \<in> set es. \<forall>j. me_identity f = Some j \<longrightarrow> map_of (ta_registry ta1) j = None \<and> j \<notin> fst ` set ?acc"
  proof (intro ballI allI impI)
    fix f j assume f: "f \<in> set es" "me_identity f = Some j"
    then have "j \<noteq> i" using Cons.prems(1) ir(1) by (force simp: manifest_ok_def)
    with f Cons.prems(2) c(4) show "map_of (ta_registry ta1) j = None \<and> j \<notin> fst ` set ?acc" by auto
  qed
  have refs: "refs_ok ?acc (st @ [c])"
    using Cons.prems(3) new(2) c(2) by (force simp: refs_ok_def nth_append)
  have "cred_public_point c \<noteq> Some []" using c(5) assms(5) by (auto simp: scalar_to_public_point_def)
  then have "points_ok (st @ [c])" using Cons.prems(4) by (auto simp: points_ok_def)
  from Cons.IH [OF m fresh refs this] obtain creds ta' cs where
    IH: "enroll_batch P es ?acc ta1 (st @ [c]) = (Inr creds, ta', (st @ [c]) @ cs)" "refs_ok creds ((st @ [c]) @ cs)"
      "points_ok ((st @ [c]) @ cs)" "set ?acc \<subseteq> set creds"
      "\<forall>e \<in> set es. \<forall>i r. me_identity e = Some i \<longrightarrow> me_role e = Some r \<longrightarrow>
         (\<exists>k. (i, k) \<in> set creds \<and> cred_role (((st @ [c]) @ cs) ! k) = r)" by blast
  have "enroll_batch P (e # es) acc ta st = (Inr creds, ta', st @ (c # cs))"
    using ir c(1) IH(1) upd by simp
  moreover have "(i, length st) \<in> set creds \<and> cred_role ((st @ c # cs) ! length st) = r" using IH(4) c(3) by simp
  ultimately show ?case using IH(2-5) ir
    by (intro exI [of _ creds] exI [of _ ta'] exI [of _ "c # cs"]) auto
qed

section \<open>Sharing\<close>

lemma share_one_point: "cred_public_point (share_one c st p ! k) = cred_public_point (st ! k)"
  by (cases "c < length st"; cases "c = k"; simp add: share_one_def nth_list_update list_update_beyond)

lemma share_mutual_keeps:
  "length (share_mutual_peer_keys st cs) = length st"
  "cred_identity (share_mutual_peer_keys st cs ! k) = cred_identity (st ! k)"
  "cred_lam (share_mutual_peer_keys st cs ! k) = cred_lam (st ! k)"
  "cred_role (share_mutual_peer_keys st cs ! k) = cred_role (st ! k)"
  "cred_public_point (share_mutual_peer_keys st cs ! k) = cred_public_point (st ! k)"
proof -
  have one: "cred_role (share_peer_keys s c ps ! k) = cred_role (s ! k) \<and>
      cred_public_point (share_peer_keys s c ps ! k) = cred_public_point (s ! k)" for s c ps
    by (induction ps arbitrary: s) (simp_all add: share_peer_keys_def share_one_point)
  have "length (foldl (\<lambda>s c. share_peer_keys s c (Q s c)) st cs) = length st \<and>
      cred_identity (foldl (\<lambda>s c. share_peer_keys s c (Q s c)) st cs ! k) = cred_identity (st ! k) \<and>
      cred_lam (foldl (\<lambda>s c. share_peer_keys s c (Q s c)) st cs ! k) = cred_lam (st ! k) \<and>
      cred_role (foldl (\<lambda>s c. share_peer_keys s c (Q s c)) st cs ! k) = cred_role (st ! k) \<and>
      cred_public_point (foldl (\<lambda>s c. share_peer_keys s c (Q s c)) st cs ! k) = cred_public_point (st ! k)" for Q
    by (induction cs arbitrary: st) (simp_all add: one)
  then show "length (share_mutual_peer_keys st cs) = length st"
    "cred_identity (share_mutual_peer_keys st cs ! k) = cred_identity (st ! k)"
    "cred_lam (share_mutual_peer_keys st cs ! k) = cred_lam (st ! k)"
    "cred_role (share_mutual_peer_keys st cs ! k) = cred_role (st ! k)"
    "cred_public_point (share_mutual_peer_keys st cs ! k) = cred_public_point (st ! k)"
    by (simp_all add: share_mutual_peer_keys_def)
qed

lemma derive_valid_str: "derive_long_term_secret P i s = Inr lam \<Longrightarrow> valid_str i"
  by (auto simp: derive_long_term_secret_def utf8_encode_def split: if_splits)

text \<open>Two members of a group, a device and a server, can run the protocol with each other.\<close>

lemma shared_paired:
  assumes ok: "ta_ok P ta st" and cs: "\<forall>x \<in> set cs. x < length st" "distinct cs" and m: "c \<in> set cs" "d \<in> set cs"
    and role: "cred_role (st ! c) = lit ''device''" "cred_role (st ! d) = lit ''server''"
  shows "paired (share_mutual_peer_keys st cs ! c) (share_mutual_peer_keys st cs ! d)"
proof -
  have ne: "c \<noteq> d"
  proof
    assume "c = d"
    with role have "lit ''device'' = lit ''server''" by (simp only:)
    then show False by (simp only: lit_inject) simp
  qed
  have ids: "distinct (map cred_identity st)" using ok by (simp add: ta_ok_def)
  have l: "c < length st" "d < length st" using cs(1) m by simp_all
  have "cred_ok P (ta_master_secret ta) (st ! c)" "cred_ok P (ta_master_secret ta) (st ! d)" using ok l by (simp_all add: ta_ok_def)
  then have v: "valid_lam (cred_lam (st ! c))" "valid_lam (cred_lam (st ! d))" "valid_str (cred_identity (st ! d))"
    by (auto simp: cred_ok_def derive_valid_lam derive_valid_str)
  note k1 = share_mutual_knows [OF cs(1) cs(1) ids cs(2) m ne, folded share_mutual_peer_keys_def]
  note k2 = share_mutual_knows [OF cs(1) cs(1) ids cs(2) m(2,1) ne [symmetric], folded share_mutual_peer_keys_def]
  show ?thesis unfolding paired_def using role v k1 k2 by (simp add: share_mutual_keeps del: lit_Cons)
qed

section \<open>The files\<close>

lemma valid_lam_digits: "valid_lam lam \<Longrightarrow> length (nat_digits (nat \<bar>lam\<bar>)) \<le> 4300"
proof -
  assume "valid_lam lam"
  then have "nat \<bar>lam\<bar> < 10 ^ 78" unfolding valid_lam_def by (simp add: nat_less_iff)
  from nat_digits_length [OF this] show ?thesis by simp
qed

lemma cred_ok_storable:
  assumes "cred_ok P s c" "cred_public_point c \<noteq> Some []"
  shows "cred_storable c"
proof -
  have "valid_str (cred_role c)" using assms(1) by (auto simp: cred_ok_def VALID_ROLES_def valid_str_def lit_def)
  moreover have "valid_str k \<and> length (nat_digits (nat \<bar>v\<bar>)) \<le> 4300" if "(k, v) \<in> set (cred_peer_secrets c)" for k v
  proof -
    have "derive_long_term_secret P k s = Inr v" using assms(1) that by (auto simp: cred_ok_def)
    from derive_valid_str [OF this] valid_lam_digits [OF derive_valid_lam [OF this]] show ?thesis by simp
  qed
  moreover have "derive_long_term_secret P (cred_identity c) s = Inr (cred_lam c)" using assms(1) by (simp add: cred_ok_def)
  note derive_valid_str [OF this] valid_lam_digits [OF derive_valid_lam [OF this]]
  ultimately show ?thesis using assms by (auto simp: cred_storable_def cred_ok_def)
qed

section \<open>The files\<close>

text \<open>A name the operating system takes as it is, in a path short enough, where no directory stands.\<close>

definition bundle_ok :: "fs \<Rightarrow> pystr list \<Rightarrow> py_path \<Rightarrow> pystr \<Rightarrow> bool" where
  "bundle_ok files cwd out_dir i \<longleftrightarrow> plain_name (i @ lit ''.json'') \<and>
     utf8_size (path_str (bundle_path out_dir i)) < PATH_MAX \<and> \<not> path_is_dir files cwd (bundle_path out_dir i)"

definition stored :: "fs \<Rightarrow> pystr list \<Rightarrow> py_path \<Rightarrow> credential \<Rightarrow> bool" where
  "stored files cwd path c \<longleftrightarrow>
     (\<exists>f. file_at files cwd path = Some f \<and> kf_mode f = PRIVATE_FILE_MODE \<and> keystore_load (Some f) = (Some (Inr c), Some f))"

lemma bundle_node:
  assumes "find_node files cwd out_dir = Inr (D, FsDir)" "bundle_ok files cwd out_dir i"
  shows "find_slot files cwd (bundle_path out_dir i) = Inr (D @ [i @ lit ''.json''])"
    "node_at files (D @ [i @ lit ''.json'']) \<noteq> Some FsDir"
proof -
  show s: "find_slot files cwd (bundle_path out_dir i) = Inr (D @ [i @ lit ''.json''])"
    using slot_plain [OF assms(1)] assms(2) by (simp add: bundle_ok_def bundle_path_def)
  with assms(2) show "node_at files (D @ [i @ lit ''.json'']) \<noteq> Some FsDir"
    by (auto simp: bundle_ok_def path_is_dir_def find_node_def)
qed

lemma bundle_ok_keep:
  assumes "find_node files cwd out_dir = Inr (D, FsDir)" "find_node files' cwd out_dir = Inr (D, FsDir)"
    and "bundle_ok files cwd out_dir i" "node_at files' (D @ [i @ lit ''.json'']) \<noteq> Some FsDir"
  shows "bundle_ok files' cwd out_dir i"
proof -
  have "find_slot files' cwd (bundle_path out_dir i) = Inr (D @ [i @ lit ''.json''])"
    using slot_plain [OF assms(2)] assms(3) by (simp add: bundle_ok_def bundle_path_def)
  with assms(3,4) show ?thesis
    by (auto simp: bundle_ok_def path_is_dir_def find_node_def split: option.splits fs_node.splits)
qed

lemma save_all_stores:
  assumes "find_node files cwd out_dir = Inr (D, FsDir)" "distinct (map fst cs)"
    and "\<forall>(i, r) \<in> set cs. cred_storable (st ! r) \<and> bundle_ok files cwd out_dir i"
  shows "\<exists>files'. save_all cwd out_dir st cs files = (Inr (), files') \<and> find_node files' cwd out_dir = Inr (D, FsDir) \<and>
    (\<forall>(i, r) \<in> set cs. stored files' cwd (bundle_path out_dir i) (st ! r)) \<and>
    (\<forall>q. q \<notin> (\<lambda>i. D @ [i @ lit ''.json'']) ` fst ` set cs \<longrightarrow> node_at files' q = node_at files q)"
  using assms
proof (induction cs arbitrary: files)
  case Nil
  then show ?case by simp
next
  case (Cons x cs)
  obtain i r where x: "x = (i, r)" by (cases x)
  let ?slot = "\<lambda>i. D @ [i @ lit ''.json'']"
  from Cons.prems(3) x have ok: "cred_storable (st ! r)" "bundle_ok files cwd out_dir i" by simp_all
  from save_plain [OF Cons.prems(1), of "i @ lit ''.json''" "st ! r"] ok obtain f files1 where
    s: "save_at files cwd (bundle_path out_dir i) (st ! r) = (Inr (), files1)" "kf_mode f = PRIVATE_FILE_MODE"
      "keystore_load (Some f) = (Some (Inr (st ! r)), Some f)" "node_at files (?slot i) \<noteq> Some FsDir"
      "\<forall>q. node_at files1 q = (if q = ?slot i then Some (FsFile f) else node_at files q)"
    by (auto simp: bundle_ok_def bundle_path_def)
  have dir: "find_node files1 cwd out_dir = Inr (D, FsDir)"
    by (rule find_node_keep [OF Cons.prems(1)]) (use s(4,5) in auto)
  have later: "\<forall>(j, r) \<in> set cs. cred_storable (st ! r) \<and> bundle_ok files1 cwd out_dir j"
  proof safe
    fix j r' assume j: "(j, r') \<in> set cs"
    with Cons.prems(3) have ok: "cred_storable (st ! r')" "bundle_ok files cwd out_dir j" by auto
    then show "cred_storable (st ! r')" by simp
    have "node_at files1 (?slot j) \<noteq> Some FsDir"
      using bundle_node(2) [OF Cons.prems(1) ok(2)] s(5) by simp
    with bundle_ok_keep [OF Cons.prems(1) dir ok(2)] show "bundle_ok files1 cwd out_dir j" by simp
  qed
  from Cons.IH [OF dir _ later] Cons.prems(2) obtain files' where
    IH: "save_all cwd out_dir st cs files1 = (Inr (), files')" "find_node files' cwd out_dir = Inr (D, FsDir)"
      "\<forall>(i, r) \<in> set cs. stored files' cwd (bundle_path out_dir i) (st ! r)"
      "\<forall>q. q \<notin> ?slot ` fst ` set cs \<longrightarrow> node_at files' q = node_at files1 q" by auto
  have "?slot i \<notin> ?slot ` fst ` set cs" using Cons.prems(2) x by auto
  with IH(4) s(5) have n: "node_at files' (?slot i) = Some (FsFile f)" by simp
  have "bundle_ok files' cwd out_dir i" by (rule bundle_ok_keep [OF Cons.prems(1) IH(2) ok(2)]) (simp add: n del: lit_Cons)
  from bundle_node(1) [OF IH(2) this] n have "stored files' cwd (bundle_path out_dir i) (st ! r)"
    using s(2,3) by (simp add: stored_def file_at_def find_node_def)
  with IH s(1,5) x show ?case by (intro exI [of _ files']) auto
qed

text \<open>
  What the condition on names keeps out: two identities whose paths meet lose the first credential,
  and an identity with a NUL raises.
\<close>

lemma meeting_paths_lose_credential:
  assumes "cred_storable (st ! r)" "cred_storable (st ! r')"
  shows "\<exists>files. save_all [] (to_path (lit ''out'')) st [(lit ''a/../b'', r), (lit ''b'', r')] [([lit ''out''], FsDir)] =
      (Inr (), files) \<and>
    load_at files [] (bundle_path (to_path (lit ''out'')) (lit ''a/../b'')) = Some (Inr (st ! r')) \<and>
    load_at files [] (bundle_path (to_path (lit ''out'')) (lit ''b'')) = Some (Inr (st ! r'))"
proof -
  from keystore_roundtrip [OF assms(1)] keystore_roundtrip [OF assms(2)] obtain f f' where
    f: "\<And>old. keystore_save (st ! r) old = Inr f" "\<And>old. keystore_save (st ! r') old = Inr f'"
      "keystore_load (Some f') = (Some (Inr (st ! r')), Some f')"
    by (metis (no_types, lifting) keystore_save_def)
  show ?thesis
    by (simp add: f load_at_def save_at_def bundle_path_def path_join_def to_path_def path_root_def Let_def
        file_at_def path_parent_def make_dirs.simps mkdir_exist_ok_def os_mkdir_def find_slot_def find_node_def path_str_def
        utf8_size_def utf8_char_def NAME_MAX_def PATH_MAX_def node_at_def entry_def path_is_dir_def put_file_def lit_def)
qed

lemma nul_identity_raises:
  assumes "find_node files cwd out_dir = Inr (D, FsDir)" "0 \<in> set i" "47 \<notin> set i" "keystore_save c None = Inr f"
  shows "save_at files cwd (bundle_path out_dir i) c = (Inl ValueError, files)"
proof -
  have "i @ lit ''.json'' \<notin> {[], lit ''.''}" using assms(2) by (auto simp: lit_def append_eq_Cons_conv)
  with assms(3) have b: "bundle_path out_dir i = out_dir\<lparr>pa_parts := pa_parts out_dir @ [i @ lit ''.json'']\<rparr>"
    unfolding bundle_path_def by (intro join_one) (auto simp: lit_def)
  have p: "path_parent (bundle_path out_dir i) = out_dir" by (simp add: b path_parent_def)
  have "find_slot files cwd (bundle_path out_dir i) = Inl NullByte"
    using assms(2) by (simp add: find_slot_def b path_str_def join_slash_snoc)
  moreover have "keystore_save c old = Inr f" for old using assms(4) by (simp add: keystore_save_def)
  ultimately show ?thesis
    by (simp add: save_at_def p dirs_there [OF assms(1)] put_file_def exn_of_os_def)
qed

section \<open>The command\<close>

text \<open>Every credential of a batch is one of its entries'.\<close>

lemma batch_names:
  assumes "enroll_batch P es acc ta st = (Inr creds, ta', st')"
  shows "fst ` set creds \<subseteq> fst ` set acc \<union> {i. \<exists>e \<in> set es. me_identity e = Some i}"
  using assms
proof (induction es arbitrary: acc ta st)
  case Nil
  then show ?case by simp
next
  case (Cons e es)
  from Cons.prems obtain i r ta1 st1 where e: "me_identity e = Some i"
    "enroll_batch P es (AList.update i r acc) ta1 st1 = (Inr creds, ta', st')"
    by (auto split: option.splits sum.splits prod.splits)
  from Cons.IH [OF e(2)] e(1) show ?case by (auto simp: dom_update)
qed

text \<open>What enrolling and sharing a well-formed manifest leaves in the store.\<close>

lemma enrolled_manifest:
  assumes m: "manifest_ok es" and ec: "\<forall>v. p_ec_point P v \<noteq> []"
  shows "\<exists>creds ta st cred. enroll_batch P es [] (new_trusted_authority (Some s) fresh) [] = (Inr creds, ta, st) \<and>
    distinct (map fst creds) \<and> (\<forall>(i, r) \<in> set creds. cred i = share_mutual_peer_keys st (map snd creds) ! r \<and> cred_storable (cred i)) \<and>
    (\<forall>i \<in> fst ` set creds. \<exists>e \<in> set es. me_identity e = Some i) \<and>
    (\<forall>e \<in> set es. \<forall>i. me_identity e = Some i \<longrightarrow>
       i \<in> fst ` set creds \<and> cred_identity (cred i) = i \<and> me_role e = Some (cred_role (cred i)) \<and>
       derive_long_term_secret P i s = Inr (cred_lam (cred i))) \<and>
    (\<forall>e \<in> set es. \<forall>f \<in> set es. \<forall>i j. me_identity e = Some i \<longrightarrow> me_role e = Some (lit ''device'') \<longrightarrow>
       me_identity f = Some j \<longrightarrow> me_role f = Some (lit ''server'') \<longrightarrow> paired (cred i) (cred j))"
proof -
  let ?ta = "new_trusted_authority (Some s) fresh"
  have "refs_ok [] []" "points_ok []" by (simp_all add: refs_ok_def points_ok_def)
  from batch_total [OF m _ this ec, of ?ta] obtain creds ta st where
    b: "enroll_batch P es [] ?ta [] = (Inr creds, ta, st)" "refs_ok creds st" "points_ok st"
      "\<forall>e \<in> set es. \<forall>i r. me_identity e = Some i \<longrightarrow> me_role e = Some r \<longrightarrow> (\<exists>k. (i, k) \<in> set creds \<and> cred_role (st ! k) = r)"
    by (auto simp: new_trusted_authority_def)
  have ok: "ta_ok P ta st" "ta_master_secret ta = s"
    using enroll_batch_ok [OF ta_ok_new b(1)] by (simp_all add: new_trusted_authority_def)
  let ?cs = "map snd creds" and ?st = "share_mutual_peer_keys st (map snd creds)"
  have live: "\<forall>x \<in> set ?cs. x < length st" using b(2) by (auto simp: refs_ok_def)
  have dist: "distinct ?cs"
  proof -
    have name: "cred_identity (st ! snd x) = fst x" if "x \<in> set creds" for x
      using b(2) that by (auto simp: refs_ok_def)
    have "inj_on snd (set creds)"
    proof (rule inj_onI)
      fix x y assume xy: "x \<in> set creds" "y \<in> set creds" "snd x = snd y"
      with name [OF xy(1)] name [OF xy(2)] show "x = y" by (simp add: prod_eq_iff)
    qed
    moreover have "distinct creds" using b(2) by (simp add: refs_ok_def distinct_map)
    ultimately show ?thesis by (simp add: distinct_map)
  qed
  have ok': "ta_ok P ta ?st" using share_mutual_ok [OF ok(1) live live] by (simp add: share_mutual_peer_keys_def)
  have keys: "distinct (map fst creds)" using b(2) by (simp add: refs_ok_def)
  let ?cred = "\<lambda>i. ?st ! the (map_of creds i)"
  have at: "map_of creds i = Some k" if "(i, k) \<in> set creds" for i k using that keys by simp
  have store: "?cred i = ?st ! r \<and> cred_storable (?cred i)" if "(i, r) \<in> set creds" for i r
  proof -
    have r: "r < length st" using live that by force
    then have "?st ! r \<in> set ?st" by (simp add: share_mutual_keeps)
    with ok'(1) have "cred_ok P (ta_master_secret ta) (?st ! r)" by (simp add: ta_ok_def)
    moreover have "cred_public_point (?st ! r) \<noteq> Some []" using b(3) r by (simp add: points_ok_def share_mutual_keeps)
    ultimately show ?thesis using cred_ok_storable by (simp add: at [OF that])
  qed
  have entry: "i \<in> fst ` set creds \<and> cred_identity (?cred i) = i \<and> me_role e = Some (cred_role (?cred i)) \<and>
      derive_long_term_secret P i s = Inr (cred_lam (?cred i))"
    if e: "e \<in> set es" "me_identity e = Some i" for e i
  proof -
    from m e obtain r where r: "me_role e = Some r" by (auto simp: manifest_ok_def entry_ok_def)
    from b(4) e r obtain k where k: "(i, k) \<in> set creds" "cred_role (st ! k) = r" by blast
    have kl: "k < length st" "cred_identity (st ! k) = i" using b(2) k(1) by (auto simp: refs_ok_def)
    then have "cred_ok P s (st ! k)" using ok by (simp add: ta_ok_def)
    then have "derive_long_term_secret P i s = Inr (cred_lam (st ! k))" using kl by (simp add: cred_ok_def)
    moreover have "i \<in> fst ` set creds" using k(1) by force
    ultimately show ?thesis using k(2) r kl by (simp add: at [OF k(1)] share_mutual_keeps)
  qed
  have pair: "paired (?cred i) (?cred j)"
    if e: "e \<in> set es" "f \<in> set es" "me_identity e = Some i" "me_role e = Some (lit ''device'')"
      "me_identity f = Some j" "me_role f = Some (lit ''server'')" for e f i j
  proof -
    from b(4) e obtain k n where kn: "(i, k) \<in> set creds" "cred_role (st ! k) = lit ''device''"
      "(j, n) \<in> set creds" "cred_role (st ! n) = lit ''server''" by meson
    then have "k \<in> set ?cs" "n \<in> set ?cs" by force+
    from shared_paired [OF ok(1) live dist this kn(2,4)] show ?thesis by (simp add: at [OF kn(1)] at [OF kn(3)])
  qed
  show ?thesis
    apply (intro exI [of _ creds] exI [of _ ta] exI [of _ st] exI [of _ ?cred] conjI)
    subgoal by (rule b(1))
    subgoal by (rule keys)
    subgoal using store by blast
    subgoal using batch_names [OF b(1)] by auto
    subgoal using entry by blast
    subgoal using pair by blast
    done
qed

lemma provision_manifest:
  assumes m: "manifest_ok es" and secret: "resolve_master_secret cwd out_dir master_hex files fresh = (Inr s, files1)"
    and made: "make_dirs files1 cwd out_dir = (Inr (), files2)"
    and names: "\<forall>e \<in> set es. \<forall>i. me_identity e = Some i \<longrightarrow> bundle_ok files2 cwd out_dir i"
    and ec: "\<forall>v. p_ec_point P v \<noteq> []"
  shows "\<exists>D files' cred. enroll_manifest P cwd out_dir es master_hex files fresh = (Inr 0, files') \<and>
    find_node files2 cwd out_dir = Inr (D, FsDir) \<and>
    (\<forall>e \<in> set es. \<forall>i. me_identity e = Some i \<longrightarrow>
       stored files' cwd (bundle_path out_dir i) (cred i) \<and> cred_identity (cred i) = i \<and>
       me_role e = Some (cred_role (cred i)) \<and> derive_long_term_secret P i s = Inr (cred_lam (cred i))) \<and>
    (\<forall>e \<in> set es. \<forall>f \<in> set es. \<forall>i j. me_identity e = Some i \<longrightarrow> me_role e = Some (lit ''device'') \<longrightarrow>
       me_identity f = Some j \<longrightarrow> me_role f = Some (lit ''server'') \<longrightarrow> paired (cred i) (cred j)) \<and>
    (\<forall>q. (\<forall>e \<in> set es. \<forall>i. me_identity e = Some i \<longrightarrow> q \<noteq> D @ [i @ lit ''.json'']) \<longrightarrow> node_at files' q = node_at files2 q)"
proof -
  from enrolled_manifest [OF m ec, of s fresh] obtain creds ta st cred where
    b: "enroll_batch P es [] (new_trusted_authority (Some s) fresh) [] = (Inr creds, ta, st)" "distinct (map fst creds)"
      "\<forall>(i, r) \<in> set creds. cred i = share_mutual_peer_keys st (map snd creds) ! r \<and> cred_storable (cred i)"
    and from_es: "\<forall>i \<in> fst ` set creds. \<exists>e \<in> set es. me_identity e = Some i"
    and entry: "\<forall>e \<in> set es. \<forall>i. me_identity e = Some i \<longrightarrow>
       i \<in> fst ` set creds \<and> cred_identity (cred i) = i \<and> me_role e = Some (cred_role (cred i)) \<and>
       derive_long_term_secret P i s = Inr (cred_lam (cred i))"
    and pair: "\<forall>e \<in> set es. \<forall>f \<in> set es. \<forall>i j. me_identity e = Some i \<longrightarrow> me_role e = Some (lit ''device'') \<longrightarrow>
       me_identity f = Some j \<longrightarrow> me_role f = Some (lit ''server'') \<longrightarrow> paired (cred i) (cred j)" by blast
  let ?st = "share_mutual_peer_keys st (map snd creds)"
  from dirs_made [OF made] obtain D where D: "find_node files2 cwd out_dir = Inr (D, FsDir)" by blast
  have "\<forall>(i, r) \<in> set creds. cred_storable (?st ! r) \<and> bundle_ok files2 cwd out_dir i"
    using b(3) from_es names by fastforce
  from save_all_stores [OF D b(2) this] obtain files' where
    sv: "save_all cwd out_dir ?st creds files2 = (Inr (), files')"
      "\<forall>(i, r) \<in> set creds. stored files' cwd (bundle_path out_dir i) (?st ! r)"
      "\<forall>q. q \<notin> (\<lambda>i. D @ [i @ lit ''.json'']) ` fst ` set creds \<longrightarrow> node_at files' q = node_at files2 q" by blast
  have run: "enroll_manifest P cwd out_dir es master_hex files fresh = (Inr 0, files')"
    using secret b(1) made sv(1) by (simp add: enroll_manifest_def)
  have files: "stored files' cwd (bundle_path out_dir i) (cred i)" if "i \<in> fst ` set creds" for i
  proof -
    from that obtain r where "(i, r) \<in> set creds" by auto
    with b(3) sv(2) show ?thesis by fastforce
  qed
  have rest: "node_at files' q = node_at files2 q"
    if "\<forall>e \<in> set es. \<forall>i. me_identity e = Some i \<longrightarrow> q \<noteq> D @ [i @ lit ''.json'']" for q
    using sv(3) from_es that by blast
  show ?thesis
    apply (intro exI [of _ D] exI [of _ files'] exI [of _ cred] conjI)
    subgoal by (rule run)
    subgoal by (rule D)
    subgoal using entry files by blast
    subgoal by (rule pair)
    subgoal using rest by blast
    done
qed

end
