(* ===== verification/CTools.thy ===== *)
theory CTools
  imports NodeRuns Provisioning
begin

text \<open>
  The two Python tools of the C port: \<^verbatim>\<open>gen_config.py\<close>, which writes the firmware's header, and
  \<^verbatim>\<open>interop.py\<close>, which serves the C client and compares fingerprints.  The C program is an argument: what
  arrives on its connections, the lines it prints and its exit code.
\<close>

section \<open>Enrolment\<close>

definition TOOL_DEVICE :: pystr where
  "TOOL_DEVICE = lit ''esp8266-001''"

definition TOOL_SERVER :: pystr where
  "TOOL_SERVER = lit ''server-A''"

definition tool_manifest :: "manifest_entry list" where
  "tool_manifest = [\<lparr>me_identity = Some TOOL_DEVICE, me_role = Some (lit ''device''), me_export_public_point = None\<rparr>,
     \<lparr>me_identity = Some TOOL_SERVER, me_role = Some (lit ''server''), me_export_public_point = None\<rparr>]"

definition tool_enroll :: "prims \<Rightarrow> bytes \<Rightarrow> exn + credential \<times> credential" where
  "tool_enroll P master =
     (case enroll_batch P tool_manifest [] (new_trusted_authority (Some master) (\<lambda>n. [])) [] of
        (Inl x, _) \<Rightarrow> Inl x
      | (Inr creds, ta, st) \<Rightarrow>
          let st' = share_mutual_peer_keys st (map snd creds)
          in (case (map_of creds TOOL_DEVICE, map_of creds TOOL_SERVER) of
                (Some d, Some s) \<Rightarrow> Inr (st' ! d, st' ! s)
              | _ \<Rightarrow> Inl KeyError))"

text \<open>The master secret of \<^verbatim>\<open>gen_config.py\<close> and its file, and the one of \<^verbatim>\<open>interop.py\<close>.\<close>

definition config_master :: "pystr option \<Rightarrow> bool \<Rightarrow> urandom \<Rightarrow> (exn + bytes) \<times> pystr option" where
  "config_master master_file new_enrollment fresh =
     (case master_file of
        Some t \<Rightarrow> if \<not> new_enrollment then (fromhex (strip t), Some t) else (Inr (fresh 32), Some (hex (fresh 32)))
      | None \<Rightarrow> (Inr (fresh 32), Some (hex (fresh 32))))"

definition interop_master :: "pystr option \<Rightarrow> bool \<Rightarrow> pystr option \<Rightarrow> urandom \<Rightarrow> exn + bytes" where
  "interop_master master_hex listen saved fresh =
     (case (master_hex, saved) of
        (Some (c # cs), _) \<Rightarrow> fromhex (c # cs)
      | (_, Some t) \<Rightarrow> if listen then fromhex (strip t) else Inr (fresh 32)
      | _ \<Rightarrow> Inr (fresh 32))"

section \<open>The header of the firmware\<close>

fun comma_join :: "pystr list \<Rightarrow> pystr" where
  "comma_join [] = []"
| "comma_join [x] = x"
| "comma_join (x # y # xs) = x @ [44, 32] @ comma_join (y # xs)"

definition c_array :: "string \<Rightarrow> bytes \<Rightarrow> pystr" where
  "c_array name b = lit ''static const uint8_t '' @ lit name @ lit ''[32] = {'' @
     comma_join (map (\<lambda>x. [48, 120] @ hex [x]) b) @ lit ''};''"

text \<open>\<^verbatim>\<open>s.replace("\\", "\\\\").replace('"', '\\"')\<close>\<close>

definition replace_char :: "nat \<Rightarrow> pystr \<Rightarrow> pystr \<Rightarrow> pystr" where
  "replace_char c by s = concat (map (\<lambda>x. if x = c then by else [x]) s)"

definition esc :: "pystr \<Rightarrow> pystr" where
  "esc s = replace_char 34 [92, 34] (replace_char 92 [92, 92] s)"

text \<open>\<^verbatim>\<open>f"{n:08x}"\<close>\<close>

fun hex_nat :: "nat \<Rightarrow> pystr" where
  "hex_nat n = (if n < 16 then [hex_digit n] else hex_nat (n div 16) @ [hex_digit (n mod 16)])"

declare hex_nat.simps [simp del]

definition hex08 :: "nat \<Rightarrow> pystr" where
  "hex08 n = replicate (8 - length (hex_nat n)) 48 @ hex_nat n"

definition config_text :: "pystr \<Rightarrow> pystr \<Rightarrow> pystr \<Rightarrow> int \<Rightarrow> int \<Rightarrow> bytes \<Rightarrow> bytes \<Rightarrow> pystr" where
  "config_text ssid wifi_pass host port gen lam_d lam_s =
     lit ''// GENERATED by tools/gen_config.py -- do not commit.'' @ [10] @
     lit ''#pragma once'' @ [10] @
     lit ''#include <stdint.h>'' @ [10] @
     lit ''#define WIFI_SSID '' @ [34] @ esc ssid @ [34, 10] @
     lit ''#define WIFI_PASS '' @ [34] @ esc wifi_pass @ [34, 10] @
     lit ''#define SERVER_HOST '' @ [34] @ host @ [34, 10] @
     lit ''#define SERVER_PORT '' @ int_repr port @ [10] @
     lit ''#define SERVER_ID '' @ [34] @ TOOL_SERVER @ [34, 10] @
     lit ''#define EPOCH_GENERATION 0x'' @ hex08 (nat gen) @ lit ''u'' @ [10] @
     c_array ''LAM_DEVICE'' lam_d @ [10] @
     c_array ''LAM_SERVER'' lam_s @ [10]"

definition gen_config ::
  "prims \<Rightarrow> pystr \<Rightarrow> pystr \<Rightarrow> pystr \<Rightarrow> int \<Rightarrow> bool \<Rightarrow> pystr option \<Rightarrow> urandom \<Rightarrow> (exn + bytes) \<times> pystr option" where
  "gen_config P ssid wifi_pass host port new_enrollment master_file fresh =
     (case config_master master_file new_enrollment fresh of
        (Inl x, f) \<Rightarrow> (Inl x, f)
      | (Inr master, f) \<Rightarrow>
          (case tool_enroll P master of
             Inl x \<Rightarrow> (Inl x, f)
           | Inr (d, s) \<Rightarrow>
               (case int_to_bytes 32 (cred_lam d) of
                  Inl x \<Rightarrow> (Inl x, f)
                | Inr lam_d \<Rightarrow>
                    (case map_of (cred_peer_secrets d) TOOL_SERVER of
                       None \<Rightarrow> (Inl KeyError, f)
                     | Some lam \<Rightarrow>
                         (case int_to_bytes 32 lam of
                            Inl x \<Rightarrow> (Inl x, f)
                          | Inr lam_s \<Rightarrow>
                              let gen = int_from_bytes (take 4 (p_sha256 P lam_d))
                              in (utf8_encode (config_text ssid wifi_pass host port gen lam_d lam_s), f))))))"

section \<open>Serving the C client\<close>

datatype tool_event =
    ToolAccepted pystr
  | ToolRejected pystr

text \<open>A connection: what arrives, and the exception that sending on it raises, if any.\<close>

record tool_connection =
  tc_socket :: socket
  tc_fault :: "exn option"

definition tool_send :: "tool_connection \<Rightarrow> socket \<Rightarrow> exn + bytes \<Rightarrow> (exn + unit) \<times> socket" where
  "tool_send c sock envelope =
     (case envelope of
        Inl x \<Rightarrow> (Inl x, sock)
      | Inr b \<Rightarrow>
          (case tc_fault c of
             Some x \<Rightarrow> if length b \<le> MAX_FRAME_BYTES then (Inl x, sock) else send_frame sock b
           | None \<Rightarrow> send_frame sock b))"

definition tool_connection_served ::
  "prims \<Rightarrow> 'r resolver_ops \<Rightarrow> server_env \<Rightarrow> (bytes \<Rightarrow> exn \<Rightarrow> pystr) \<Rightarrow> tool_connection \<Rightarrow> 'r server
     \<Rightarrow> (exn + unit) \<times> 'r server \<times> socket \<times> tool_event list" where
  "tool_connection_served P ops env str_of c s =
     (case recv_frame (tc_socket c) of
        (Inl x, sock) \<Rightarrow> (if x = ConnectionError then Inr () else Inl x, s, sock, [])
      | (Inr req, sock) \<Rightarrow>
          (case handle_auth_request P ops env req s of
             (Inl x, s') \<Rightarrow>
               if is_authentication_error x \<or> x = MessageFormatError then
                 (case tool_send c sock (build_error_envelope (exn_name x) (str_of req x)) of
                    (r, sock') \<Rightarrow> (r, s', sock', [ToolRejected (exn_name x)]))
               else (if x = ConnectionError then Inr () else Inl x, s', sock, [])
           | (Inr res, s') \<Rightarrow>
               (case tool_send c sock (build_ok_envelope (res_response_bytes res)) of
                  (Inl y, sock') \<Rightarrow> (if y = ConnectionError then Inr () else Inl y, s', sock',
                     [ToolAccepted (take 16 (hex (p_sha256 P (res_session_key res))))])
                | (Inr _, sock') \<Rightarrow> (Inr (), s', sock', [ToolAccepted (take 16 (hex (p_sha256 P (res_session_key res))))]))))"

text \<open>The thread: an exception that escapes a connection ends it, as closing the listener does.\<close>

fun tool_serve ::
  "prims \<Rightarrow> 'r resolver_ops \<Rightarrow> (bytes \<Rightarrow> exn \<Rightarrow> pystr) \<Rightarrow> (server_env \<times> tool_connection) list \<Rightarrow> 'r server
     \<Rightarrow> (exn + unit) \<times> 'r server \<times> tool_event list" where
  "tool_serve P ops str_of [] s = (Inr (), s, [])"
| "tool_serve P ops str_of ((env, c) # cs) s =
     (case tool_connection_served P ops env str_of c s of
        (Inl x, s', sock, evs) \<Rightarrow> (Inl x, s', evs)
      | (Inr _, s', sock, evs) \<Rightarrow> (let (r, s'', evs') = tool_serve P ops str_of cs s' in (r, s'', evs @ evs')))"

section \<open>Comparing fingerprints\<close>

text \<open>The text before and after the first occurrence of a separator.\<close>

fun split_first :: "pystr \<Rightarrow> pystr \<Rightarrow> (pystr \<times> pystr) option" where
  "split_first sep [] = (if sep = [] then Some ([], []) else None)"
| "split_first sep (c # s) =
     (case strip_prefix sep (c # s) of
        Some rest \<Rightarrow> Some ([], rest)
      | None \<Rightarrow> map_option (\<lambda>(a, b). (c # a, b)) (split_first sep s))"

text \<open>\<^verbatim>\<open>l.split("fp=")[1]\<close> of the lines that contain \<^verbatim>\<open>RESULT ok\<close>\<close>

definition line_fp :: "pystr \<Rightarrow> exn + pystr" where
  "line_fp l =
     (case split_first (lit ''fp='') l of
        None \<Rightarrow> Inl IndexError
      | Some (_, rest) \<Rightarrow> Inr (case split_first (lit ''fp='') rest of None \<Rightarrow> rest | Some (a, _) \<Rightarrow> a))"

fun result_fps :: "pystr list \<Rightarrow> exn + pystr list" where
  "result_fps [] = Inr []"
| "result_fps (l # ls) =
     (if split_first (lit ''RESULT ok'') l = None then result_fps ls
      else case line_fp l of
        Inl x \<Rightarrow> Inl x
      | Inr fp \<Rightarrow> (case result_fps ls of Inl x \<Rightarrow> Inl x | Inr fps \<Rightarrow> Inr (fp # fps)))"

definition accepted_fps :: "tool_event list \<Rightarrow> pystr list" where
  "accepted_fps evs = concat (map (\<lambda>e. case e of ToolAccepted fp \<Rightarrow> [fp] | ToolRejected _ \<Rightarrow> []) evs)"

definition interop_exit :: "pystr list \<Rightarrow> int \<Rightarrow> tool_event list \<Rightarrow> int \<Rightarrow> exn + int" where
  "interop_exit stdout returncode evs n =
     (case result_fps stdout of
        Inl x \<Rightarrow> Inl x
      | Inr c_fps \<Rightarrow>
          let matching = (c_fps = accepted_fps evs \<and> int (length c_fps) = n)
          in Inr (if matching \<and> returncode = 0 then 0 else 1))"

section \<open>The enrolment succeeds\<close>

lemma tool_manifest_ok: "manifest_ok tool_manifest"
  by (simp add: manifest_ok_def entry_ok_def tool_manifest_def VALID_ROLES_def valid_str_def TOOL_DEVICE_def TOOL_SERVER_def lit_def)

lemma tool_enrolled:
  assumes "\<forall>v. p_ec_point P v \<noteq> []"
  shows "\<exists>d s. tool_enroll P master = Inr (d, s) \<and> paired d s \<and> cred_identity d = TOOL_DEVICE \<and> cred_identity s = TOOL_SERVER \<and>
    derive_long_term_secret P TOOL_DEVICE master = Inr (cred_lam d) \<and> derive_long_term_secret P TOOL_SERVER master = Inr (cred_lam s)"
proof -
  from enrolled_manifest [OF tool_manifest_ok assms, of master "\<lambda>n. []"] obtain creds ta st cred where
    b: "enroll_batch P tool_manifest [] (new_trusted_authority (Some master) (\<lambda>n. [])) [] = (Inr creds, ta, st)" "distinct (map fst creds)"
      "\<forall>(i, r) \<in> set creds. cred i = share_mutual_peer_keys st (map snd creds) ! r \<and> cred_storable (cred i)"
    and entry: "\<forall>e \<in> set tool_manifest. \<forall>i. me_identity e = Some i \<longrightarrow>
       i \<in> fst ` set creds \<and> cred_identity (cred i) = i \<and> me_role e = Some (cred_role (cred i)) \<and>
       derive_long_term_secret P i master = Inr (cred_lam (cred i))"
    and pair: "\<forall>e \<in> set tool_manifest. \<forall>f \<in> set tool_manifest. \<forall>i j. me_identity e = Some i \<longrightarrow> me_role e = Some (lit ''device'') \<longrightarrow>
       me_identity f = Some j \<longrightarrow> me_role f = Some (lit ''server'') \<longrightarrow> paired (cred i) (cred j)" by blast
  have at: "\<exists>r. map_of creds i = Some r \<and> share_mutual_peer_keys st (map snd creds) ! r = cred i" if i: "i \<in> fst ` set creds" for i
  proof -
    from i obtain r where r: "(i, r) \<in> set creds" by auto
    with b(2,3) show ?thesis by (intro exI [of _ r]) auto
  qed
  have d: "TOOL_DEVICE \<in> fst ` set creds" "cred_identity (cred TOOL_DEVICE) = TOOL_DEVICE"
    "derive_long_term_secret P TOOL_DEVICE master = Inr (cred_lam (cred TOOL_DEVICE))"
    using entry by (simp_all add: tool_manifest_def del: lit_Cons)
  have s: "TOOL_SERVER \<in> fst ` set creds" "cred_identity (cred TOOL_SERVER) = TOOL_SERVER"
    "derive_long_term_secret P TOOL_SERVER master = Inr (cred_lam (cred TOOL_SERVER))"
    using entry by (simp_all add: tool_manifest_def del: lit_Cons)
  have pr: "paired (cred TOOL_DEVICE) (cred TOOL_SERVER)" using pair by (simp add: tool_manifest_def del: lit_Cons)
  from at [OF d(1)] at [OF s(1)] have "tool_enroll P master = Inr (cred TOOL_DEVICE, cred TOOL_SERVER)"
    by (auto simp: tool_enroll_def b(1) Let_def)
  with d s pr show ?thesis by blast
qed

section \<open>Reading the header as a compiler does\<close>

text \<open>The rest of a string literal after its opening quote, with the two escapes that occur.\<close>

fun c_string :: "pystr \<Rightarrow> (pystr \<times> pystr) option" where
  "c_string [] = None"
| "c_string (c # s) =
     (if c = 34 then Some ([], s)
      else if c = 10 then None
      else if c = 92 then
        (case s of
           [] \<Rightarrow> None
         | d # s' \<Rightarrow> if d = 34 \<or> d = 92 then map_option (\<lambda>(a, r). (d # a, r)) (c_string s') else None)
      else map_option (\<lambda>(a, r). (c # a, r)) (c_string s))"

lemma esc_simps [simp]:
  "esc [] = []"
  "esc (c # s) = (if c = 92 then [92, 92] else if c = 34 then [92, 34] else [c]) @ esc s"
  by (simp_all add: esc_def replace_char_def)

lemma c_string_esc: "10 \<notin> set s \<Longrightarrow> c_string (esc s @ 34 # rest) = Some (s, rest)"
  by (induction s) auto

lemma c_string_plain: "10 \<notin> set s \<Longrightarrow> 34 \<notin> set s \<Longrightarrow> 92 \<notin> set s \<Longrightarrow> c_string (s @ 34 # rest) = Some (s, rest)"
  by (induction s) auto

lemma strip_prefix_append [simp]: "strip_prefix p (p @ s) = Some s"
  by (induction p) auto

lemma strip_prefix_length: "strip_prefix p s = Some r \<Longrightarrow> length r \<le> length s"
  by (induction p s rule: strip_prefix.induct) (auto split: if_splits)

text \<open>The numbers of an array up to its closing brace.\<close>

definition c_byte :: "pystr \<Rightarrow> (byte \<times> pystr) option" where
  "c_byte s =
     (case strip_prefix [48, 120] s of
        Some (h # l # r) \<Rightarrow>
          (case (hex_val h, hex_val l) of (Some a, Some b) \<Rightarrow> Some (word_of_nat (16 * a + b), r) | _ \<Rightarrow> None)
      | _ \<Rightarrow> None)"

lemma c_byte_length: "c_byte s = Some (x, r) \<Longrightarrow> length r < length s"
  by (auto simp: c_byte_def split: option.splits list.splits dest: strip_prefix_length)

function c_bytes :: "pystr \<Rightarrow> (bytes \<times> pystr) option" where
  "c_bytes s =
     (case c_byte s of
        None \<Rightarrow> None
      | Some (x, r) \<Rightarrow>
          (case strip_prefix [44, 32] r of
             Some r' \<Rightarrow> map_option (\<lambda>(bs, r''). (x # bs, r'')) (c_bytes r')
           | None \<Rightarrow> map_option (\<lambda>r'. ([x], r')) (strip_prefix [125, 59] r)))"
  by auto
termination
  by (relation "measure length") (auto dest!: c_byte_length strip_prefix_length)

declare c_bytes.simps [simp del]

lemma c_byte_hex: "c_byte ([48, 120] @ hex [x] @ rest) = Some (x, rest)"
proof -
  have n: "unat x < 256" using unsigned_less [of x, where ?'a = nat] by simp
  then have "unat x div 16 < 16" "unat x mod 16 < 16" by simp_all
  moreover have "(word_of_nat (16 * (unat x div 16) + unat x mod 16) :: byte) = x" by simp
  ultimately show ?thesis by (simp add: c_byte_def hex_def hex_val_digit del: of_nat_add of_nat_mult)
qed

lemma c_bytes_join:
  "b \<noteq> [] \<Longrightarrow> c_bytes (comma_join (map (\<lambda>x. [48, 120] @ hex [x]) b) @ [125, 59] @ rest) = Some (b, rest)"
proof (induction b)
  case (Cons x b)
  show ?case
  proof (cases b)
    case Nil
    then show ?thesis using c_byte_hex [of x "[125, 59] @ rest"] by (simp add: c_bytes.simps)
  next
    case (Cons y c)
    with Cons.IH have IH: "c_bytes (comma_join (map (\<lambda>x. [48, 120] @ hex [x]) b) @ [125, 59] @ rest) = Some (b, rest)" by simp
    have "comma_join (map (\<lambda>x. [48, 120] @ hex [x]) (x # b)) =
        [48, 120] @ hex [x] @ [44, 32] @ comma_join (map (\<lambda>x. [48, 120] @ hex [x]) b)" by (simp add: Cons)
    then show ?thesis
      using c_byte_hex [of x "[44, 32] @ comma_join (map (\<lambda>x. [48, 120] @ hex [x]) b) @ [125, 59] @ rest"] IH
      by (simp add: c_bytes.simps [of "_ # _"])
  qed
qed simp

definition upto_newline :: "pystr \<Rightarrow> pystr \<times> pystr" where
  "upto_newline s = (takeWhile (\<lambda>c. c \<noteq> 10) s, drop 1 (dropWhile (\<lambda>c. c \<noteq> 10) s))"

lemma upto_newline_eq: "10 \<notin> set s \<Longrightarrow> upto_newline (s @ 10 # rest) = (s, rest)"
  by (induction s) (auto simp: upto_newline_def)

definition read_string :: "string \<Rightarrow> pystr \<Rightarrow> (pystr \<times> pystr) option" where
  "read_string name s =
     Option.bind (strip_prefix (lit name @ [34]) s) (\<lambda>r. Option.bind (c_string r) (\<lambda>(v, r').
       map_option (\<lambda>r''. (v, r'')) (strip_prefix [10] r')))"

definition read_line :: "string \<Rightarrow> pystr \<Rightarrow> (pystr \<times> pystr) option" where
  "read_line name s = map_option upto_newline (strip_prefix (lit name) s)"

definition read_array :: "string \<Rightarrow> pystr \<Rightarrow> (bytes \<times> pystr) option" where
  "read_array name s =
     Option.bind (strip_prefix (lit ''static const uint8_t '' @ lit name @ lit ''[32] = {'') s) (\<lambda>r. Option.bind (c_bytes r) (\<lambda>(v, r').
       map_option (\<lambda>r''. (v, r'')) (strip_prefix [10] r')))"

lemma read_string_escaped: "10 \<notin> set s \<Longrightarrow> read_string name (lit name @ [34] @ esc s @ [34, 10] @ rest) = Some (s, rest)"
  using c_string_esc [of s "10 # rest"] strip_prefix_append [of "lit name @ [34]" "esc s @ 34 # 10 # rest"]
  by (simp add: read_string_def)

lemma read_string_raw:
  assumes "10 \<notin> set s" "34 \<notin> set s" "92 \<notin> set s"
  shows "read_string name (lit name @ [34] @ s @ [34, 10] @ rest) = Some (s, rest)"
  using c_string_plain [OF assms, of "10 # rest"] strip_prefix_append [of "lit name @ [34]" "s @ 34 # 10 # rest"]
  by (simp add: read_string_def)

lemma read_line_eq: "10 \<notin> set s \<Longrightarrow> read_line name (lit name @ s @ [10] @ rest) = Some (s, rest)"
  by (simp add: read_line_def upto_newline_eq)

lemma read_array_eq: "b \<noteq> [] \<Longrightarrow> read_array name (c_array name b @ [10] @ rest) = Some (b, rest)"
proof -
  assume b: "b \<noteq> []"
  have c: "lit ''};'' = [125, 59]" by simp
  show ?thesis
    using c_bytes_join [OF b, of "10 # rest"]
      strip_prefix_append [of "lit ''static const uint8_t '' @ lit name @ lit ''[32] = {''"
        "comma_join (map (\<lambda>x. [48, 120] @ hex [x]) b) @ [125, 59] @ 10 # rest"]
    unfolding read_array_def c_array_def c by simp
qed

text \<open>The network's name and password, the host, the port, the server, the generation, and the two secrets.\<close>

definition read_config :: "pystr \<Rightarrow> (pystr \<times> pystr \<times> pystr \<times> pystr \<times> pystr \<times> pystr \<times> bytes \<times> bytes) option" where
  "read_config s =
     Option.bind (strip_prefix (lit ''// GENERATED by tools/gen_config.py -- do not commit.'' @ [10] @ lit ''#pragma once'' @ [10] @
       lit ''#include <stdint.h>'' @ [10]) s) (\<lambda>r.
     Option.bind (read_string ''#define WIFI_SSID '' r) (\<lambda>(ssid, r).
     Option.bind (read_string ''#define WIFI_PASS '' r) (\<lambda>(wifi_pass, r).
     Option.bind (read_string ''#define SERVER_HOST '' r) (\<lambda>(host, r).
     Option.bind (read_line ''#define SERVER_PORT '' r) (\<lambda>(port, r).
     Option.bind (read_string ''#define SERVER_ID '' r) (\<lambda>(server, r).
     Option.bind (read_line ''#define EPOCH_GENERATION '' r) (\<lambda>(gen, r).
     Option.bind (read_array ''LAM_DEVICE'' r) (\<lambda>(lam_d, r).
     Option.bind (read_array ''LAM_SERVER'' r) (\<lambda>(lam_s, r).
       Some (ssid, wifi_pass, host, port, server, gen, lam_d, lam_s))))))))))"

lemma hex_nat_chars: "10 \<notin> set (hex_nat n)"
proof (induction n rule: hex_nat.induct)
  case (1 n)
  have "hex_digit d \<noteq> 10" for d by (simp add: hex_digit_def)
  with 1 show ?case by (subst hex_nat.simps) auto
qed

lemma int_repr_chars: "10 \<notin> set (int_repr i)"
proof -
  have "10 \<notin> set (nat_digits n)" for n
    by (induction n rule: nat_digits.induct) (subst nat_digits.simps, auto)
  then show ?thesis by (simp add: int_repr_def)
qed

lemma read_config_text:
  assumes "10 \<notin> set ssid" "10 \<notin> set wifi_pass" "10 \<notin> set host" "34 \<notin> set host" "92 \<notin> set host" "lam_d \<noteq> []" "lam_s \<noteq> []"
  shows "read_config (config_text ssid wifi_pass host port gen lam_d lam_s) =
    Some (ssid, wifi_pass, host, int_repr port, TOOL_SERVER, lit ''0x'' @ hex08 (nat gen) @ lit ''u'', lam_d, lam_s)"
proof -
  have g: "10 \<notin> set (lit ''0x'' @ hex08 (nat gen) @ lit ''u'')" using hex_nat_chars by (simp add: hex08_def)
  have i: "10 \<notin> set TOOL_SERVER" "34 \<notin> set TOOL_SERVER" "92 \<notin> set TOOL_SERVER" by (simp_all add: TOOL_SERVER_def)
  have l: "lit ''#define EPOCH_GENERATION 0x'' @ x = lit ''#define EPOCH_GENERATION '' @ lit ''0x'' @ x" for x by simp
  let ?h = "lit ''// GENERATED by tools/gen_config.py -- do not commit.'' @ [10] @ lit ''#pragma once'' @ [10] @ lit ''#include <stdint.h>'' @ [10]"
  have a: "config_text ssid wifi_pass host port gen lam_d lam_s =
      ?h @ lit ''#define WIFI_SSID '' @ [34] @ esc ssid @ [34, 10] @
       lit ''#define WIFI_PASS '' @ [34] @ esc wifi_pass @ [34, 10] @
       lit ''#define SERVER_HOST '' @ [34] @ host @ [34, 10] @
       lit ''#define SERVER_PORT '' @ int_repr port @ [10] @
       lit ''#define SERVER_ID '' @ [34] @ TOOL_SERVER @ [34, 10] @
       lit ''#define EPOCH_GENERATION '' @ (lit ''0x'' @ hex08 (nat gen) @ lit ''u'') @ [10] @
       c_array ''LAM_DEVICE'' lam_d @ [10] @ c_array ''LAM_SERVER'' lam_s @ [10] @ []"
    unfolding config_text_def l by (simp only: append_assoc append_Nil2)
  show ?thesis
    unfolding a read_config_def strip_prefix_append Option.bind.bind_lunit prod.case
      read_string_escaped [OF assms(1)] read_string_escaped [OF assms(2)] read_string_raw [OF assms(3-5)]
      read_line_eq [OF int_repr_chars] read_string_raw [OF i] read_line_eq [OF g] read_array_eq [OF assms(6)] read_array_eq [OF assms(7)]
    by (rule refl)
qed

section \<open>A session of the C client\<close>

text \<open>
  The client as the device of the library: it sends each request on a connection of its own, and reads
  the frame that comes back.  The result is the connections and the fingerprints the client prints.
\<close>

definition client_connection :: "bytes \<Rightarrow> tool_connection" where
  "client_connection msg = \<lparr>tc_socket = \<lparr>sock_in = frame msg, sock_sizes = [], sock_out = []\<rparr>, tc_fault = None\<rparr>"

definition envelope_response :: "bytes \<Rightarrow> bytes option" where
  "envelope_response eb =
     (case parse_envelope eb of
        Inr (JDict kvs) \<Rightarrow>
          (case map_of kvs (lit ''payload'') of
             Some (JStr t) \<Rightarrow> (case ascii_encode t of Inr b \<Rightarrow> Some b | Inl _ \<Rightarrow> None)
           | _ \<Rightarrow> None)
      | _ \<Rightarrow> None)"

definition client_reads :: "prims \<Rightarrow> device_env \<Rightarrow> socket \<Rightarrow> device \<Rightarrow> pystr option \<times> device" where
  "client_reads P env sock d =
     (case recv_frame \<lparr>sock_in = sock_out sock, sock_sizes = [], sock_out = []\<rparr> of
        (Inl _, _) \<Rightarrow> (None, d)
      | (Inr eb, _) \<Rightarrow>
          (case read_response P env True eb d of Inr (Succeeded fp) \<Rightarrow> Some fp | _ \<Rightarrow> None,
           case envelope_response eb of None \<Rightarrow> d | Some b \<Rightarrow> snd (complete_auth P env b d)))"

fun client_session ::
  "prims \<Rightarrow> 'r resolver_ops \<Rightarrow> (bytes \<Rightarrow> exn \<Rightarrow> pystr) \<Rightarrow> pystr \<Rightarrow> handshake_env list \<Rightarrow> device \<Rightarrow> 'r server
     \<Rightarrow> ((server_env \<times> tool_connection) \<times> pystr option) list" where
  "client_session P ops str_of sid [] d s = []"
| "client_session P ops str_of sid (h # hs) d s =
     (case build_auth_request P (he_build h) sid d of
        (Inl _, _) \<Rightarrow> []
      | (Inr msg, d1) \<Rightarrow>
          (case tool_connection_served P ops (he_server h) str_of (client_connection msg) s of
             (_, s1, sock, _) \<Rightarrow>
               (case client_reads P (he_complete h) sock d1 of
                  (fp, d2) \<Rightarrow> ((he_server h, client_connection msg), fp) # client_session P ops str_of sid hs d2 s1)))"

text \<open>\<^verbatim>\<open>printf("RESULT ok epoch=%d m1_bytes=%zu fp=%s\n", i, l, fp)\<close>\<close>

definition result_line :: "nat \<Rightarrow> nat \<Rightarrow> pystr \<Rightarrow> pystr" where
  "result_line i l fp = lit ''RESULT ok epoch='' @ nat_digits i @ lit '' m1_bytes='' @ nat_digits l @ lit '' fp='' @ fp"

lemma client_connection_fault [simp]: "tc_fault (client_connection msg) = None"
  by (simp add: client_connection_def)

lemma tool_once:
  assumes P: "sha256_ok P" "gcm_ok P" and wf: "server_wf linear_wf P s" "device_wf P d"
    and run: "handshake P linear_scan_ops h sid d s = (Inr (key, a), d', s')" "res_session_key a = key"
    and env: "urandom_ok (env_dev_nonce (he_build h))" "urandom_ok (env_dev_gcm (he_build h))"
      "urandom_ok (env_nonce (he_server h))" "urandom_ok (env_gcm (he_server h))"
    and id: "valid_str (cred_identity (ent_credential s))" "length (cred_identity (ent_credential s)) \<le> 1000"
  shows "\<exists>msg d1 sock. build_auth_request P (he_build h) sid d = (Inr msg, d1) \<and>
    tool_connection_served P linear_scan_ops (he_server h) str_of (client_connection msg) s =
      (Inr (), s', sock, [ToolAccepted (take 16 (hex (p_sha256 P key)))]) \<and>
    client_reads P (he_complete h) sock d1 = (Some (take 16 (hex (p_sha256 P key))), d')"
proof -
  obtain msg d1 where b: "build_auth_request P (he_build h) sid d = (Inr msg, d1)"
    using run by (auto simp: handshake_def split: sum.splits prod.splits)
  obtain a1 s1 where h1: "handle_auth_request P linear_scan_ops (he_server h) msg s = (Inr a1, s1)"
    using run b by (auto simp: handshake_def split: sum.splits prod.splits)
  have c: "complete_auth P (he_complete h) (res_response_bytes a) d1 = (Inr key, d')" and a: "a1 = a" "s1 = s'"
    using run b h1 by (auto simp: handshake_def split: sum.splits prod.splits)
  have "cache_ok P d" using wf(2) by (simp add: device_wf_def)
  from build_result [OF this b] obtain k pid n_i m where "requested P (he_build h) sid d msg k pid n_i m" by auto
  from request_length [OF P env(1,2) this] have len: "length msg \<le> MAX_FRAME_BYTES" .
  from linear.handle_accepts [OF wf(1) h1] obtain e where "accepted P linear_scan_ops (he_server h) s msg a1 s1 e" by blast
  from accepted_response [OF P(2) env(3,4) this id] a obtain eb t where
    eb: "build_ok_envelope (res_response_bytes a) = Inr eb" "length eb \<le> MAX_FRAME_BYTES"
      "ascii_encode t = Inr (res_response_bytes a)"
      "parse_envelope eb = Inr (JDict [(lit ''ok'', JBool True), (lit ''payload'', JStr t)])" by blast
  from recv_frame_eq [OF len, of "tc_socket (client_connection msg)" "[]"] obtain sock where
    sock: "recv_frame (tc_socket (client_connection msg)) = (Inr msg, sock)" "sock_out sock = []"
    by (auto simp: client_connection_def)
  let ?sent = "sock\<lparr>sock_out := frame eb\<rparr>"
  have served: "tool_connection_served P linear_scan_ops (he_server h) str_of (client_connection msg) s =
      (Inr (), s', ?sent, [ToolAccepted (take 16 (hex (p_sha256 P key)))])"
    using sock h1 a eb(1,2) run(2) by (simp add: tool_connection_served_def tool_send_def send_frame_eq)
  let ?returned = "\<lparr>sock_in = frame eb, sock_sizes = [], sock_out = []\<rparr>"
  from recv_frame_eq [OF eb(2), of ?returned "[]"] obtain sock' where resp: "recv_frame ?returned = (Inr eb, sock')" by auto
  have "read_response P (he_complete h) True eb d1 = Inr (Succeeded (take 16 (hex (p_sha256 P key))))"
    using eb(3,4) c by (simp add: read_response_def envelope_field_def truthy_def del: lit_Cons)
  moreover have "envelope_response eb = Some (res_response_bytes a)"
    using eb(3,4) by (simp add: envelope_response_def)
  ultimately have "client_reads P (he_complete h) ?sent d1 = (Some (take 16 (hex (p_sha256 P key))), d')"
    using resp c by (simp add: client_reads_def)
  with b served show ?thesis by blast
qed

lemma session_served:
  assumes P: "prims_ok P" and hs: "\<forall>h \<in> set hs. action_ok (dev_session_timeout d) (Run h)"
    and "linked linear_good P F E d s" "1 \<le> epoch_gap d s" "epoch_gap d s \<le> F" "1 \<le> F"
      "device_next d (cred_identity (ent_credential s)) + int (length hs) + F < E"
      "length (cred_identity (ent_credential s)) \<le> 1000"
  shows "\<exists>fps s'. map snd (client_session P linear_scan_ops str_of (cred_identity (ent_credential s)) hs d s) = map Some fps \<and>
    length fps = length hs \<and> (\<forall>fp \<in> set fps. \<exists>key. fp = take 16 (hex (p_sha256 P key))) \<and>
    tool_serve P linear_scan_ops str_of (map fst (client_session P linear_scan_ops str_of (cred_identity (ent_credential s)) hs d s)) s =
      (Inr (), s', map ToolAccepted fps)"
  using assms(2-5,7,8)
proof (induction hs arbitrary: d s)
  case Nil
  then show ?case by simp
next
  case (Cons h hs)
  let ?sid = "cred_identity (ent_credential s)"
  have "device_next d ?sid + F < E" using Cons.prems(5) by simp
  moreover have "action_ok (dev_session_timeout d) (Run h)" using Cons.prems(1) by simp
  ultimately obtain a n_i n_j d' s' where
    run: "handshake P linear_scan_ops h ?sid d s = (Inr (session_key P (pair_root P d s) n_i n_j (device_next d ?sid), a), d', s')"
      "res_session_key a = session_key P (pair_root P d s) n_i n_j (device_next d ?sid)"
    and next_run: "linked linear_good P F E d' s'" "epoch_gap d' s' = 1" "ent_credential d' = ent_credential d"
      "ent_credential s' = ent_credential s" "dev_session_timeout d' = dev_session_timeout d"
      "device_next d' ?sid = device_next d ?sid + 1"
    using linear_cs.run_in_window [OF P Cons.prems(2) _ Cons.prems(3,4)] by blast
  have wf: "server_wf linear_wf P s" "device_wf P d" "valid_str ?sid"
    using Cons.prems(2) linear_cs.good_wf by (auto simp: linked_def server_wf_def paired_def)
  have ok: "sha256_ok P" "gcm_ok P" using P by (simp_all add: prims_ok_def)
  have env: "urandom_ok (env_dev_nonce (he_build h))" "urandom_ok (env_dev_gcm (he_build h))"
    "urandom_ok (env_nonce (he_server h))" "urandom_ok (env_gcm (he_server h))" using Cons.prems(1) by simp_all
  from tool_once [OF ok wf(1,2) run env wf(3) Cons.prems(6), of str_of] obtain fp key msg d1 sock where
    one: "build_auth_request P (he_build h) ?sid d = (Inr msg, d1)"
      "tool_connection_served P linear_scan_ops (he_server h) str_of (client_connection msg) s = (Inr (), s', sock, [ToolAccepted fp])"
      "client_reads P (he_complete h) sock d1 = (Some fp, d')" "fp = take 16 (hex (p_sha256 P key))" by blast
  from Cons.IH [of d' s'] Cons.prems(1,5,6) next_run assms(6) obtain fps s'' where
    "map snd (client_session P linear_scan_ops str_of ?sid hs d' s') = map Some fps" "length fps = length hs"
    "\<forall>fp \<in> set fps. \<exists>key. fp = take 16 (hex (p_sha256 P key))"
    "tool_serve P linear_scan_ops str_of (map fst (client_session P linear_scan_ops str_of ?sid hs d' s')) s' =
      (Inr (), s'', map ToolAccepted fps)" by auto
  with one show ?case by (intro exI [of _ "fp # fps"] exI [of _ s'']) auto
qed

section \<open>Reading the client's output\<close>

lemma strip_prefix_other: "c \<noteq> p \<Longrightarrow> strip_prefix (p # ps) (c # s) = None"
  by simp

lemma split_first_skip: "p \<notin> set a \<Longrightarrow> split_first (p # ps) (a @ p # ps @ b) = Some (a, b)"
proof (induction a)
  case Nil
  have "strip_prefix (p # ps) ((p # ps) @ b) = Some b" by (rule strip_prefix_append)
  then show ?case by simp
next
  case (Cons c a)
  then show ?case by auto
qed

lemma strip_prefix_set: "strip_prefix p s = Some r \<Longrightarrow> set p \<subseteq> set s"
  by (induction p s rule: strip_prefix.induct) (auto split: if_splits)

lemma split_first_none: "x \<in> set sep \<Longrightarrow> x \<notin> set s \<Longrightarrow> split_first sep s = None"
proof (induction s)
  case (Cons c s)
  then show ?case using strip_prefix_set [of sep "c # s"] by (cases "strip_prefix sep (c # s)") auto
qed auto

lemma hex_chars: "c \<in> set (hex b) \<Longrightarrow> c \<in> {48 .. 57} \<or> c \<in> {97 .. 102}"
proof -
  assume c: "c \<in> set (hex b)"
  have d: "hex_digit n \<in> {48 .. 57} \<or> hex_digit n \<in> {97 .. 102}" if "n < 16" for n
    using that by (auto simp: hex_digit_def)
  from c obtain x :: byte where x: "c = hex_digit (unat x div 16) \<or> c = hex_digit (unat x mod 16)" by (auto simp: hex_def)
  have "unat x div 16 < 16" "unat x mod 16 < 16" using unsigned_less [of x, where ?'a = nat] by simp_all
  with x d show ?thesis by metis
qed

lemma line_fp_result:
  assumes "112 \<notin> set fp"
  shows "line_fp (result_line i l fp) = Inr fp" "split_first (lit ''RESULT ok'') (result_line i l fp) \<noteq> None"
proof -
  have n: "102 \<notin> set (nat_digits k)" for k
    by (induction k rule: nat_digits.induct) (subst nat_digits.simps, auto)
  let ?a = "lit ''RESULT ok epoch='' @ nat_digits i @ lit '' m1_bytes='' @ nat_digits l @ [32]"
  have l: "result_line i l fp = ?a @ 102 # [112, 61] @ fp" by (simp add: result_line_def)
  have s: "lit ''fp='' = 102 # [112, 61]" by simp
  have "102 \<notin> set ?a" using n by simp
  from split_first_skip [OF this, of "[112, 61]" fp] have "split_first (lit ''fp='') (result_line i l fp) = Some (?a, fp)"
    unfolding l s .
  moreover have "split_first (lit ''fp='') fp = None" by (rule split_first_none [of 112]) (simp_all add: assms)
  ultimately show "line_fp (result_line i l fp) = Inr fp" by (simp add: line_fp_def del: lit_Cons)
  have "lit ''RESULT ok epoch='' = lit ''RESULT ok'' @ lit '' epoch=''" by simp
  then have "\<exists>r. result_line i l fp = lit ''RESULT ok'' @ r" by (simp add: result_line_def del: lit_Cons)
  then obtain r where "result_line i l fp = lit ''RESULT ok'' @ r" by blast
  moreover have "split_first (lit ''RESULT ok'') (lit ''RESULT ok'' @ r) = Some ([], r)"
    using split_first_skip [of 82 "[]" "lit ''ESULT ok''" r] by simp
  ultimately show "split_first (lit ''RESULT ok'') (result_line i l fp) \<noteq> None" by simp
qed

lemma interop_exit_ok:
  assumes "\<forall>(i, l, fp) \<in> set rs. 112 \<notin> set fp"
  shows "interop_exit (map (\<lambda>(i, l, fp). result_line i l fp) rs) 0 (map (\<lambda>(i, l, fp). ToolAccepted fp) rs) (int (length rs)) = Inr 0"
proof -
  have "result_fps (map (\<lambda>(i, l, fp). result_line i l fp) rs) = Inr (map (snd \<circ> snd) rs)"
    using assms
  proof (induction rs)
    case (Cons r rs)
    obtain i l fp where r: "r = (i, l, fp)" by (cases r)
    with Cons show ?case using line_fp_result [of fp i l] by (simp del: lit_Cons)
  qed simp
  moreover have "accepted_fps (map (\<lambda>(i, l, fp). ToolAccepted fp) rs) = map (snd \<circ> snd) rs"
    by (induction rs) (auto simp: accepted_fps_def)
  ultimately show ?thesis by (simp add: interop_exit_def)
qed

section \<open>The header is text\<close>

lemma comma_join_ascii: "\<forall>x \<in> set xs. is_ascii x \<Longrightarrow> is_ascii (comma_join xs)"
  by (induction xs rule: comma_join.induct) auto

lemma c_array_ascii: "is_ascii (lit name) \<Longrightarrow> is_ascii (c_array name b)"
  using hex_ascii by (simp add: c_array_def comma_join_ascii)

lemma hex08_ascii: "is_ascii (hex08 n)"
proof -
  have "is_ascii (hex_nat k)" for k
  proof (induction k rule: hex_nat.induct)
    case (1 k)
    have "hex_digit j < 128" if "j < 16" for j using that by (rule hex_digit_ascii)
    with 1 show ?case by (subst hex_nat.simps) simp
  qed
  then have "is_ascii (hex_nat n)" by blast
  then show ?thesis by (auto simp: hex08_def is_ascii_def)
qed

lemma config_text_valid:
  assumes "valid_str ssid" "valid_str wifi_pass" "valid_str host"
  shows "valid_str (config_text ssid wifi_pass host port gen lam_d lam_s)"
proof -
  have e: "valid_str (esc s)" if "valid_str s" for s using that by (induction s) auto
  have a: "valid_str (c_array ''LAM_DEVICE'' b)" "valid_str (c_array ''LAM_SERVER'' b)" "valid_str (hex08 n)" "valid_str (int_repr i)"
    "valid_str TOOL_SERVER" for b n i
    by (simp_all add: is_ascii_valid c_array_ascii hex08_ascii int_repr_ascii TOOL_SERVER_def)
  show ?thesis unfolding config_text_def using e assms a by simp
qed

text \<open>The generator on a working master: the text of the header holds the pair's two secrets.\<close>

lemma gen_config_eq:
  assumes "\<forall>v. p_ec_point P v \<noteq> []" "config_master master_file new_enrollment fresh = (Inr master, f)"
    and "valid_str ssid" "valid_str wifi_pass" "valid_str host"
  shows "\<exists>d s b. tool_enroll P master = Inr (d, s) \<and> paired d s \<and>
    gen_config P ssid wifi_pass host port new_enrollment master_file fresh = (Inr b, f) \<and>
    utf8_decode b = Inr (config_text ssid wifi_pass host port
      (int_from_bytes (take 4 (p_sha256 P (be_bytes 32 (nat (cred_lam d)))))) (be_bytes 32 (nat (cred_lam d))) (be_bytes 32 (nat (cred_lam s))))"
proof -
  from tool_enrolled [OF assms(1), of master] obtain d s where
    e: "tool_enroll P master = Inr (d, s)" "paired d s" "cred_identity s = TOOL_SERVER" by blast
  then have "map_of (cred_peer_secrets d) TOOL_SERVER = Some (cred_lam s)"
    "int_to_bytes 32 (cred_lam d) = Inr (be_bytes 32 (nat (cred_lam d)))"
    "int_to_bytes 32 (cred_lam s) = Inr (be_bytes 32 (nat (cred_lam s)))"
    by (auto simp: paired_def valid_lam_def int_to_bytes_def)
  with e assms(2) config_text_valid [OF assms(3-5)] show ?thesis
    by (simp add: gen_config_def Let_def utf8_encode_def utf8_decode_chars)
qed

section \<open>Oversized frames\<close>

text \<open>
  \<^verbatim>\<open>recv_frame\<close> raises \<^verbatim>\<open>ValueError\<close> when the length prefix exceeds the limit.  The server node catches it;
  the thread of \<^verbatim>\<open>interop.py\<close> does not, so that four bytes end it.
\<close>

lemma oversized_frame_raises:
  assumes "sock_in s = be_bytes LENGTH_PREFIX_SIZE n @ rest" "MAX_FRAME_BYTES < n" "n < 2 ^ 32"
  shows "\<exists>s'. recv_frame s = (Inl ValueError, s')"
proof -
  have l: "LENGTH_PREFIX_SIZE \<le> length (sock_in s)" by (simp add: assms(1))
  from recv_exact_enough [OF l, of "[]"] obtain s1 where
    "recv_exact s LENGTH_PREFIX_SIZE [] = (Inr (be_bytes LENGTH_PREFIX_SIZE n), s1)" by (auto simp: assms(1))
  moreover have "nat (int_from_bytes (be_bytes LENGTH_PREFIX_SIZE n)) = n"
    using assms(3) by (subst int_from_be_bytes) (simp_all add: LENGTH_PREFIX_SIZE_def)
  ultimately show ?thesis using assms(2) by (simp add: recv_frame_def)
qed

lemma oversized_frame_ends_thread:
  assumes "sock_in (tc_socket c) = be_bytes LENGTH_PREFIX_SIZE n @ rest" "MAX_FRAME_BYTES < n" "n < 2 ^ 32"
  shows "tool_serve P ops str_of ((env, c) # cs) s = (Inl ValueError, s, [])"
    and "\<exists>sock. handle_connection P ops env str_of \<lparr>conn_socket = tc_socket c, conn_broken = broken\<rparr> s = (Inr (), s, sock, [TransportFailed ValueError])"
  using oversized_frame_raises [OF assms]
  by (auto simp: tool_connection_served_def handle_connection_def)

end
