(* ===== verification/CostModel.thy ===== *)
theory CostModel
  imports CostForms "HOL-Library.Product_Lexorder"
begin

text \<open>
  What \<^verbatim>\<open>main\<close> of \<^verbatim>\<open>resolution_costs.py\<close> does with the measured rows: its checks and their summary, and
  the cost model of the simulation, which takes closed forms where there are any and interpolates the
  measurements elsewhere.  Floating-point numbers are reals here, without rounding.
\<close>

section \<open>Checks and summary\<close>

record measured =
  m_strategy :: string
  m_n :: int
  m_row :: cost_row
  m_depth :: nat

text \<open>The largest relative deviation from the closed forms, if no check fails.\<close>

fun check_exact :: "measured list \<Rightarrow> rat \<Rightarrow> exn + rat" where
  "check_exact [] worst = Inr worst"
| "check_exact (r # rs) worst =
     (if m_strategy r \<notin> set EXACT then check_exact rs worst
      else case check_row (m_strategy r) (m_n r) (m_row r) of
        Inl x \<Rightarrow> Inl x
      | Inr _ \<Rightarrow>
          (case closed (m_strategy r) (m_n r) of
             Inl x \<Rightarrow> Inl x
           | Inr (h, _) \<Rightarrow> check_exact rs (max worst (\<bar>row_honest_mean (m_row r) - h\<bar> / max h 1))))"

fun check_trees :: "measured list \<Rightarrow> exn + unit" where
  "check_trees [] = Inr ()"
| "check_trees (r # rs) =
     (if m_strategy r \<noteq> ''MW'' then check_trees rs
      else case check_tree_row (m_row r) (m_depth r) of Inl x \<Rightarrow> Inl x | Inr _ \<Rightarrow> check_trees rs)"

text \<open>The rainbow tables' costs relative to \<open>S\<close> to the power of two thirds: smallest and largest.\<close>

definition tm_rows :: "measured list \<Rightarrow> measured list" where
  "tm_rows ms = filter (\<lambda>r. m_strategy r = ''TM'' \<and> 10 \<le> m_n r) ms"

definition tm_ratios :: "(cost_row \<Rightarrow> real) \<Rightarrow> measured list \<Rightarrow> exn + real \<times> real" where
  "tm_ratios column ms =
     (let ks = map (\<lambda>r. column (m_row r) / real_of_int (m_n r * LIFETIME) powr (2 / 3)) (tm_rows ms)
      in if ks = [] then Inl ValueError else Inr (Min (set ks), Max (set ks)))"

definition tm_misses :: "int \<Rightarrow> measured list \<Rightarrow> int \<times> int" where
  "tm_misses samples ms =
     ((\<Sum>r \<leftarrow> tm_rows ms. row_misses (m_row r)),
      (\<Sum>r \<leftarrow> tm_rows ms. if m_n r \<le> 2000 then samples else samples div 4))"

definition summary :: "int \<Rightarrow> measured list \<Rightarrow> exn + rat \<times> (real \<times> real) \<times> (real \<times> real) \<times> int \<times> int" where
  "summary samples ms =
     (case check_exact ms 0 of
        Inl x \<Rightarrow> Inl x
      | Inr worst \<Rightarrow>
          (case check_trees ms of
             Inl x \<Rightarrow> Inl x
           | Inr _ \<Rightarrow>
               (case tm_ratios (\<lambda>row. of_rat (row_honest_mean row)) ms of
                  Inl x \<Rightarrow> Inl x
                | Inr ks \<Rightarrow>
                    (case tm_ratios (\<lambda>row. of_int (row_state_bytes row)) ms of
                       Inl x \<Rightarrow> Inl x
                     | Inr km \<Rightarrow> Inr (worst, ks, km, tm_misses samples ms)))))"

section \<open>Interpolation\<close>

definition column :: "string \<Rightarrow> cost_row \<Rightarrow> real option" where
  "column key row =
     (if key = ''honest_mean'' then Some (of_rat (row_honest_mean row))
      else if key = ''forged'' then Some (of_rat (row_forged row))
      else if key = ''state_bytes'' then Some (of_int (row_state_bytes row))
      else if key = ''extra_m1_bits'' then Some (of_int (row_extra_m1_bits row))
      else None)"

definition points :: "measured list \<Rightarrow> string \<Rightarrow> string \<Rightarrow> (int \<times> real) list option" where
  "points ms s key =
     map_option sort (those (map (\<lambda>r. map_option (Pair (m_n r)) (column key (m_row r))) (filter (\<lambda>r. m_strategy r = s) ms)))"

text \<open>Between two points: on a line if a value is not positive, else on a line in logarithmic scales.\<close>

definition between :: "int \<Rightarrow> real \<Rightarrow> int \<Rightarrow> real \<Rightarrow> int \<Rightarrow> exn + real" where
  "between a va b vb n =
     (if va \<le> 0 \<or> vb \<le> 0 then
        if a = b then Inl ZeroDivisionError else Inr (va + (vb - va) * of_int (n - a) / of_int (b - a))
      else if n \<le> 0 \<or> a \<le> 0 \<or> b \<le> 0 then Inl ValueError
      else if a = b then Inl ZeroDivisionError
      else let t = (ln (of_int n) - ln (of_int a)) / (ln (of_int b) - ln (of_int a))
           in Inr (exp (ln va + t * (ln vb - ln va))))"

fun segment :: "(int \<times> real) list \<Rightarrow> int \<Rightarrow> (exn + real) option" where
  "segment ((a, va) # (b, vb) # pts) n =
     (if a \<le> n \<and> n \<le> b then Some (between a va b vb n) else segment ((b, vb) # pts) n)"
| "segment _ n = None"

text \<open>Beyond the last point: the power law through the last two.\<close>

definition beyond :: "(int \<times> real) list \<Rightarrow> int \<Rightarrow> exn + real" where
  "beyond pts n =
     (case rev pts of
        (b, vb) # (a, va) # _ \<Rightarrow>
          if vb \<le> 0 \<or> va \<le> 0 \<or> b \<le> 0 \<or> a \<le> 0 then Inl ValueError
          else if a = b then Inl ZeroDivisionError
          else let slope = (ln vb - ln va) / (ln (of_int b) - ln (of_int a))
               in Inr (vb * (of_int n / of_int b) powr slope)
      | _ \<Rightarrow> Inl IndexError)"

definition interp :: "(int \<times> real) list \<Rightarrow> string \<Rightarrow> int \<Rightarrow> exn + real" where
  "interp pts key n =
     (case pts of
        [] \<Rightarrow> Inl IndexError
      | (a, va) # _ \<Rightarrow>
          if n \<le> a then
            if key \<noteq> ''extra_m1_bits'' \<and> n < a then
              if a = 0 then Inl ZeroDivisionError else Inr (va * (of_int n / of_int a))
            else Inr va
          else (case segment pts n of Some v \<Rightarrow> v | None \<Rightarrow> beyond pts n))"

definition interp_measured :: "measured list \<Rightarrow> string \<Rightarrow> string \<Rightarrow> int \<Rightarrow> exn + real" where
  "interp_measured ms s key n = (case points ms s key of None \<Rightarrow> Inl KeyError | Some pts \<Rightarrow> interp pts key n)"

section \<open>The rows of the model\<close>

type_synonym model_row = "real \<times> real \<times> int \<times> real \<times> int"

text \<open>Honest and forged probes, probes per epoch, state, and extra bits of the first message.\<close>

definition model_row :: "measured list \<Rightarrow> string \<Rightarrow> nat \<Rightarrow> exn + model_row" where
  "model_row ms s n =
     (if s \<in> set EXACT then
        (case closed s (int n) of
           Inl x \<Rightarrow> Inl x
         | Inr (h, f, e, b, x) \<Rightarrow> Inr (of_rat h, of_int f, e, of_int b, x))
      else if n = 0 then Inr (0, 0, 0, 0, 0)
      else case (interp_measured ms s ''honest_mean'' (int n), interp_measured ms s ''forged'' (int n)) of
             (Inr h, Inr f) \<Rightarrow>
               if s = ''MW'' then Inr (h, f, 0, of_int (tree_model_state n), tree_model_extra n)
               else (case interp_measured ms s ''state_bytes'' (int n) of
                       Inl x \<Rightarrow> Inl x
                     | Inr b \<Rightarrow> Inr (h, f, 0, b, 0))
           | (Inl x, _) \<Rightarrow> Inl x
           | (_, Inl x) \<Rightarrow> Inl x)"

definition MODEL_STRATEGIES :: "string list" where
  "MODEL_STRATEGIES = [''O1'', ''O2'', ''O3'', ''O4'', ''TM'', ''CR'', ''MW'']"

fun model_rows :: "measured list \<Rightarrow> (string \<times> nat) list \<Rightarrow> exn + (string \<times> nat \<times> model_row) list" where
  "model_rows ms [] = Inr []"
| "model_rows ms ((s, n) # todo) =
     (case model_row ms s n of
        Inl x \<Rightarrow> Inl x
      | Inr row \<Rightarrow> (case model_rows ms todo of Inl x \<Rightarrow> Inl x | Inr rows \<Rightarrow> Inr ((s, n, row) # rows)))"

definition cost_model :: "measured list \<Rightarrow> nat \<Rightarrow> exn + (string \<times> nat \<times> model_row) list" where
  "cost_model ms n_max = model_rows ms (List.product MODEL_STRATEGIES [0 ..< Suc n_max])"

section \<open>What a passed check means\<close>

lemma check_exact_worst: "check_exact ms w = Inr worst \<Longrightarrow> w \<le> worst"
proof (induction ms arbitrary: w)
  case (Cons r ms)
  then show ?case by (fastforce split: if_splits sum.splits prod.splits)
qed simp

lemma check_exact_sound:
  assumes "check_exact ms w = Inr worst" "r \<in> set ms" "m_strategy r \<in> set EXACT"
  shows "check_row (m_strategy r) (m_n r) (m_row r) = Inr () \<and>
    (\<exists>h f e b x. closed (m_strategy r) (m_n r) = Inr (h, f, e, b, x) \<and> \<bar>row_honest_mean (m_row r) - h\<bar> \<le> worst * max h 1)"
  using assms
proof (induction ms arbitrary: w)
  case (Cons q ms)
  show ?case
  proof (cases "r = q")
    case True
    with Cons.prems obtain h f e b x where c: "check_row (m_strategy q) (m_n q) (m_row q) = Inr ()"
      "closed (m_strategy q) (m_n q) = Inr (h, f, e, b, x)"
      "check_exact ms (max w (\<bar>row_honest_mean (m_row q) - h\<bar> / max h 1)) = Inr worst"
      by (auto split: sum.splits prod.splits)
    have "\<bar>row_honest_mean (m_row q) - h\<bar> / max h 1 \<le> worst" using check_exact_worst [OF c(3)] by simp
    then have "\<bar>row_honest_mean (m_row q) - h\<bar> \<le> worst * max h 1" by (simp add: pos_divide_le_eq)
    with c True show ?thesis by blast
  next
    case False
    with Cons show ?thesis by (auto split: if_splits sum.splits prod.splits)
  qed
qed simp

lemma check_trees_sound:
  "check_trees ms = Inr u \<Longrightarrow> r \<in> set ms \<Longrightarrow> m_strategy r = ''MW'' \<Longrightarrow> check_tree_row (m_row r) (m_depth r) = Inr ()"
proof (induction ms)
  case (Cons q ms)
  then show ?case by (auto split: if_splits sum.splits)
qed simp

lemma summary_checks:
  assumes "summary samples ms = Inr (worst, rest)"
  shows "check_exact ms 0 = Inr worst" "check_trees ms = Inr ()"
  using assms by (auto simp: summary_def split: sum.splits)

lemma check_row_passed:
  assumes "check_row s n row = Inr ()" "s \<in> set EXACT" "closed s n = Inr (h, f, e, b, x)"
  shows "row_forged row = of_int f \<and> (s \<in> {''O2'', ''O4''} \<longrightarrow> \<bar>row_honest_mean row - h\<bar> \<le> 1 / 10 ^ 9)"
proof -
  have "(of_rat \<bar>row_honest_mean row - h\<bar> :: real) \<le> of_rat (1 / 10 ^ 9) \<longleftrightarrow> \<bar>row_honest_mean row - h\<bar> \<le> 1 / 10 ^ 9"
    by (rule of_rat_less_eq)
  then have "(of_rat \<bar>row_honest_mean row - h\<bar> :: real) \<le> 1 / 10 ^ 9 \<longleftrightarrow> \<bar>row_honest_mean row - h\<bar> \<le> 1 / 10 ^ 9"
    by (simp only: of_rat_divide of_rat_power of_rat_numeral_eq of_rat_1)
  then show ?thesis using assms(1) unfolding check_row_def assms(3)
    by (auto simp: assms(2) split: if_splits option.splits)
qed

section \<open>The interpolated values\<close>

text \<open>At least two points, in strictly increasing order, with positive coordinates.\<close>

definition good_points :: "(int \<times> real) list \<Rightarrow> bool" where
  "good_points pts \<longleftrightarrow> sorted_wrt (\<lambda>p q. fst p < fst q) pts \<and> 2 \<le> length pts \<and> (\<forall>p \<in> set pts. 1 \<le> fst p \<and> 0 < snd p)"

definition on_power_law :: "real \<Rightarrow> real \<Rightarrow> int \<times> real \<Rightarrow> bool" where
  "on_power_law c p q \<longleftrightarrow> snd q = c * of_int (fst q) powr p"

text \<open>What an interpolated value promises: positive, exact at the points and on power laws, between its neighbours.\<close>

definition interpolates :: "(int \<times> real) list \<Rightarrow> int \<Rightarrow> real \<Rightarrow> bool" where
  "interpolates pts n v \<longleftrightarrow> 0 < v \<and> (\<forall>u. (n, u) \<in> set pts \<longrightarrow> v = u) \<and>
    (\<forall>i. Suc i < length pts \<longrightarrow> fst (pts ! i) \<le> n \<longrightarrow> n \<le> fst (pts ! Suc i) \<longrightarrow>
       min (snd (pts ! i)) (snd (pts ! Suc i)) \<le> v \<and> v \<le> max (snd (pts ! i)) (snd (pts ! Suc i))) \<and>
    (\<forall>c p. (\<forall>q \<in> set pts. on_power_law c p q) \<longrightarrow> v = c * of_int n powr p)"

lemma ln_power_law:
  assumes "on_power_law c p (m, u)" "1 \<le> m" "0 < u"
  shows "0 < c" "ln u = ln c + p * ln (of_int m)"
proof -
  have "0 < real_of_int m powr p" using assms(2) by simp
  moreover have "u = c * real_of_int m powr p" using assms(1) by (simp add: on_power_law_def)
  ultimately show "0 < c" using assms(3) by (simp add: zero_less_mult_iff)
  then show "ln u = ln c + p * ln (of_int m)"
    using assms(2) \<open>u = c * real_of_int m powr p\<close> by (simp add: ln_mult ln_powr)
qed

lemma power_law_exp: "0 < (c :: real) \<Longrightarrow> 0 < x \<Longrightarrow> exp (ln c + p * ln x) = c * x powr p"
proof -
  assume c: "0 < c" and x: "0 < x"
  have "exp (ln c + p * ln x) = exp (ln c) * exp (p * ln x)" by (rule exp_add)
  also have "\<dots> = c * x powr p" unfolding exp_ln [OF c] using x by (simp add: powr_def)
  finally show ?thesis .
qed

lemma convex_min_max:
  fixes A B t :: real
  assumes "0 \<le> t" "t \<le> 1"
  shows "min A B \<le> A + t * (B - A)" "A + t * (B - A) \<le> max A B"
proof -
  have "min A B \<le> A + t * (B - A) \<and> A + t * (B - A) \<le> max A B"
  proof (cases "A \<le> B")
    case True
    have "0 \<le> t * (B - A)" "t * (B - A) \<le> B - A"
      by (rule mult_nonneg_nonneg mult_left_le_one_le; use True assms in simp)+
    with min_absorb1 [OF True] max_absorb2 [OF True] show ?thesis by linarith
  next
    case False
    have "0 \<le> t * (A - B)" "t * (A - B) \<le> A - B"
      by (rule mult_nonneg_nonneg mult_left_le_one_le; use False assms in simp)+
    moreover have "t * (B - A) = - (t * (A - B))" by (simp add: algebra_simps)
    moreover have "min A B = B" "max A B = A" using False by simp_all
    ultimately show ?thesis by linarith
  qed
  then show "min A B \<le> A + t * (B - A)" "A + t * (B - A) \<le> max A B" by blast+
qed

text \<open>A segment with positive values is a line in logarithmic scales.\<close>

lemma between_eq:
  assumes "1 \<le> a" "a < b" "a \<le> n" "n \<le> b" "0 < va" "0 < vb"
  shows "\<exists>t. 0 \<le> t \<and> t \<le> 1 \<and> between a va b vb n = Inr (exp (ln va + t * (ln vb - ln va))) \<and>
    t * (ln (of_int b) - ln (of_int a)) = ln (of_int n) - ln (of_int a) \<and> (n = a \<longrightarrow> t = 0) \<and> (n = b \<longrightarrow> t = 1)"
proof -
  let ?l = "\<lambda>x. ln (real_of_int x)"
  let ?t = "(?l n - ?l a) / (?l b - ?l a)"
  have d: "0 < ?l b - ?l a" using assms(1,2) by simp
  have o: "?l a \<le> ?l n" "?l n \<le> ?l b" using assms(1-4) by simp_all
  have "between a va b vb n = Inr (exp (ln va + ?t * (ln vb - ln va)))"
    using assms by (simp add: between_def Let_def)
  moreover have "0 \<le> ?t" "?t \<le> 1" using d o by (simp_all add: divide_le_eq)
  moreover have "?t * (?l b - ?l a) = ?l n - ?l a" using d by simp
  moreover have "n = a \<longrightarrow> ?t = 0" "n = b \<longrightarrow> ?t = 1" using d by simp_all
  ultimately show ?thesis by blast
qed

lemma between_value:
  assumes "1 \<le> a" "a < b" "a \<le> n" "n \<le> b" "0 < va" "0 < vb"
  shows "\<exists>v. between a va b vb n = Inr v \<and> min va vb \<le> v \<and> v \<le> max va vb \<and> (n = a \<longrightarrow> v = va) \<and> (n = b \<longrightarrow> v = vb) \<and>
    (\<forall>c p. on_power_law c p (a, va) \<longrightarrow> on_power_law c p (b, vb) \<longrightarrow> v = c * of_int n powr p)"
proof -
  from between_eq [OF assms] obtain t where t: "0 \<le> t" "t \<le> 1" "between a va b vb n = Inr (exp (ln va + t * (ln vb - ln va)))"
    "t * (ln (of_int b) - ln (of_int a)) = ln (of_int n) - ln (of_int a)" "n = a \<longrightarrow> t = 0" "n = b \<longrightarrow> t = 1" by blast
  let ?x = "ln va + t * (ln vb - ln va)"
  note mm = convex_min_max [OF t(1,2), of "ln va" "ln vb"]
  have "exp (min (ln va) (ln vb)) = min va vb" "exp (max (ln va) (ln vb)) = max va vb"
    using assms(5,6) by (simp_all add: min_def max_def)
  with mm have "min va vb \<le> exp ?x" "exp ?x \<le> max va vb" by (metis exp_le_cancel_iff)+
  moreover have "n = a \<longrightarrow> exp ?x = va" "n = b \<longrightarrow> exp ?x = vb" using t(5,6) assms(5,6) by simp_all
  moreover have "exp ?x = c * of_int n powr p" if pl: "on_power_law c p (a, va)" "on_power_law c p (b, vb)" for c p
  proof -
    have "1 \<le> b" "0 < real_of_int n" using assms(1-3) by simp_all
    note la = ln_power_law [OF pl(1) assms(1,5)] and lb = ln_power_law [OF pl(2) \<open>1 \<le> b\<close> assms(6)]
    have "?x = ln c + p * ln (of_int a) + p * (t * (ln (of_int b) - ln (of_int a)))"
      unfolding la(2) lb(2) by (simp add: algebra_simps)
    also have "\<dots> = ln c + p * ln (of_int n)" unfolding t(4) by (simp add: algebra_simps)
    finally show ?thesis using power_law_exp [OF la(1) \<open>0 < real_of_int n\<close>, of p] by simp
  qed
  ultimately show ?thesis using t(3) by blast
qed

lemma segment_found:
  assumes "sorted_wrt (\<lambda>p q. fst p < fst q) pts" "pts \<noteq> []" "fst (hd pts) < n" "n \<le> fst (last pts)"
  shows "\<exists>i. Suc i < length pts \<and> fst (pts ! i) \<le> n \<and> n \<le> fst (pts ! Suc i) \<and>
    segment pts n = Some (between (fst (pts ! i)) (snd (pts ! i)) (fst (pts ! Suc i)) (snd (pts ! Suc i)) n)"
  using assms
proof (induction pts n rule: segment.induct)
  case (1 a va b vb pts n)
  show ?case
  proof (cases "n \<le> b")
    case True
    with 1(4) show ?thesis by (intro exI [of _ 0]) simp
  next
    case False
    with 1 obtain i where "Suc i < length ((b, vb) # pts)" "fst (((b, vb) # pts) ! i) \<le> n" "n \<le> fst (((b, vb) # pts) ! Suc i)"
      "segment ((b, vb) # pts) n = Some (between (fst (((b, vb) # pts) ! i)) (snd (((b, vb) # pts) ! i))
         (fst (((b, vb) # pts) ! Suc i)) (snd (((b, vb) # pts) ! Suc i)) n)" by auto
    with False show ?thesis by (intro exI [of _ "Suc i"]) simp
  qed
qed (auto)

lemma segment_none: "sorted_wrt (\<lambda>p q. fst p < fst q) pts \<Longrightarrow> \<forall>p \<in> set pts. fst p < n \<Longrightarrow> segment pts n = None"
  by (induction pts n rule: segment.induct) auto

text \<open>The last two points.\<close>

lemma rev_last_two:
  "2 \<le> length pts \<Longrightarrow> \<exists>rest. rev pts = last pts # pts ! (length pts - 2) # rest"
proof -
  assume l: "2 \<le> length pts"
  then obtain x y rest where r: "rev pts = x # y # rest" by (cases "rev pts"; cases "tl (rev pts)") auto
  then have p: "pts = rev rest @ [y, x]" by (metis append_Cons append_Nil append_assoc rev.simps(2) rev_rev_ident)
  then have "last pts = x" "pts ! (length pts - 2) = y" by (simp_all add: nth_append)
  with r show ?thesis by simp
qed

lemma beyond_value:
  assumes "good_points pts" "fst (last pts) < n"
  shows "\<exists>v. beyond pts n = Inr v \<and> 0 < v \<and> (\<forall>c p. (\<forall>q \<in> set pts. on_power_law c p q) \<longrightarrow> v = c * of_int n powr p)"
proof -
  from assms(1) have g: "sorted_wrt (\<lambda>p q. fst p < fst q) pts" "2 \<le> length pts" "\<forall>p \<in> set pts. 1 \<le> fst p \<and> 0 < snd p"
    by (simp_all add: good_points_def)
  obtain a va b vb where ab: "pts ! (length pts - 2) = (a, va)" "last pts = (b, vb)" by fastforce
  from rev_last_two [OF g(2)] ab obtain rest where r: "rev pts = (b, vb) # (a, va) # rest" by auto
  have mem: "(b, vb) \<in> set pts" "(a, va) \<in> set pts" using r by (metis list.set_intros set_rev)+
  have "pts ! (length pts - 1) = (b, vb)" using ab(2) g(2) by (metis last_conv_nth list.size(3) not_numeral_le_zero)
  with sorted_wrt_nth_less [OF g(1), of "length pts - 2" "length pts - 1"] g(2) ab(1) have lt: "a < b" by simp
  have pos: "1 \<le> a" "0 < va" "0 < vb" "1 \<le> b" "b < n" using g(3) mem assms(2) ab(2) by auto
  let ?l = "\<lambda>x. ln (real_of_int x)"
  have d: "0 < ?l b - ?l a" using pos(1) lt by simp
  have eq: "beyond pts n = Inr (vb * (of_int n / of_int b) powr ((ln vb - ln va) / (?l b - ?l a)))"
    using pos lt by (simp add: beyond_def r Let_def)
  have "0 < vb * (of_int n / of_int b) powr ((ln vb - ln va) / (?l b - ?l a))" using pos by simp
  moreover have "vb * (of_int n / of_int b) powr ((ln vb - ln va) / (?l b - ?l a)) = c * of_int n powr p"
    if pl: "\<forall>q \<in> set pts. on_power_law c p q" for c p
  proof -
    have pab: "on_power_law c p (a, va)" "on_power_law c p (b, vb)" using pl mem by blast+
    note la = ln_power_law [OF pab(1) pos(1,2)] and lb = ln_power_law [OF pab(2) pos(4,3)]
    have "ln vb - ln va = p * (?l b - ?l a)" unfolding la(2) lb(2) by (simp add: algebra_simps)
    then have s: "(ln vb - ln va) / (?l b - ?l a) = p" using d by simp
    have "vb = c * of_int b powr p" using pab(2) by (simp add: on_power_law_def)
    then show ?thesis unfolding s using pos by (simp add: powr_divide)
  qed
  ultimately show ?thesis using eq by blast
qed

lemma strict_index:
  assumes "sorted_wrt (\<lambda>p q. fst p < fst q) (pts :: (int \<times> real) list)" "Suc i < length pts" "j < length pts"
    and "fst (pts ! i) \<le> fst (pts ! j)" "fst (pts ! j) \<le> fst (pts ! Suc i)"
  shows "j = i \<or> j = Suc i"
proof (rule ccontr)
  assume "\<not> (j = i \<or> j = Suc i)"
  then consider "j < i" | "Suc i < j" by linarith
  then show False
  proof cases
    case 1
    with sorted_wrt_nth_less [OF assms(1) 1] assms(2,4) show ?thesis by simp
  next
    case 2
    with sorted_wrt_nth_less [OF assms(1) 2] assms(3,5) show ?thesis by simp
  qed
qed

text \<open>From the first point on the interpolation returns and keeps this promise.\<close>

lemma interp_value:
  assumes g: "good_points pts" and n: "fst (hd pts) \<le> n"
  shows "\<exists>v. interp pts key n = Inr v \<and> interpolates pts n v"
proof -
  from g have so: "sorted_wrt (\<lambda>p q. fst p < fst q) pts" and len: "2 \<le> length pts"
    and pos: "\<forall>p \<in> set pts. 1 \<le> fst p \<and> 0 < snd p" by (simp_all add: good_points_def)
  from len have ne: "pts \<noteq> []" by auto
  have lastn: "last pts = pts ! (length pts - 1)" "length pts - 1 < length pts" using ne by (simp_all add: last_conv_nth)
  have less: "fst (pts ! i) < fst (pts ! j)" if "i < j" "j < length pts" for i j
    using sorted_wrt_nth_less [OF so that] .
  consider (first) "n = fst (hd pts)" | (inside) "fst (hd pts) < n" "n \<le> fst (last pts)" | (out) "fst (last pts) < n"
    using n by linarith
  then show ?thesis
  proof cases
    case first
    obtain a va rest where p: "pts = (a, va) # rest" using ne by (cases pts) auto
    then have a: "n = a" "interp pts key n = Inr va" "0 < va" "1 \<le> a" using first pos by (simp_all add: interp_def)
    have only: "i = 0" if "i < length pts" "fst (pts ! i) \<le> n" for i
      using that less [of 0 i] a(1) p by (cases i) auto
    have "va = u" if "(n, u) \<in> set pts" for u
      using that only by (metis a(1) fst_conv in_set_conv_nth nth_Cons_0 order_refl p snd_conv)
    moreover have "min (snd (pts ! i)) (snd (pts ! Suc i)) \<le> va \<and> va \<le> max (snd (pts ! i)) (snd (pts ! Suc i))"
      if "Suc i < length pts" "fst (pts ! i) \<le> n" for i using only [of i] that p by simp
    moreover have "va = c * of_int n powr q" if "\<forall>x \<in> set pts. on_power_law c q x" for c q
      using that p a(1) by (simp add: on_power_law_def)
    ultimately show ?thesis using a unfolding interpolates_def by blast
  next
    case inside
    from segment_found [OF so ne inside] obtain i where i: "Suc i < length pts" "fst (pts ! i) \<le> n" "n \<le> fst (pts ! Suc i)"
      "segment pts n = Some (between (fst (pts ! i)) (snd (pts ! i)) (fst (pts ! Suc i)) (snd (pts ! Suc i)) n)" by blast
    have m: "pts ! i \<in> set pts" "pts ! Suc i \<in> set pts" using i(1) by simp_all
    then have ps: "1 \<le> fst (pts ! i)" "0 < snd (pts ! i)" "0 < snd (pts ! Suc i)" using pos by blast+
    have lt: "fst (pts ! i) < fst (pts ! Suc i)" using less i(1) by simp
    from between_value [OF ps(1) lt i(2,3) ps(2,3)] obtain v where
      v: "between (fst (pts ! i)) (snd (pts ! i)) (fst (pts ! Suc i)) (snd (pts ! Suc i)) n = Inr v"
      "min (snd (pts ! i)) (snd (pts ! Suc i)) \<le> v" "v \<le> max (snd (pts ! i)) (snd (pts ! Suc i))"
      "n = fst (pts ! i) \<longrightarrow> v = snd (pts ! i)" "n = fst (pts ! Suc i) \<longrightarrow> v = snd (pts ! Suc i)"
      "\<forall>c p. on_power_law c p (pts ! i) \<longrightarrow> on_power_law c p (pts ! Suc i) \<longrightarrow> v = c * of_int n powr p" by auto
    obtain a va rest where p: "pts = (a, va) # rest" using ne by (cases pts) auto
    have r: "interp pts key n = Inr v" using inside(1) i(4) v(1) unfolding interp_def p by simp
    have "0 < v" using v(2) ps(2,3) by linarith
    have hit: "v = snd (pts ! j)" if j: "j < length pts" "fst (pts ! j) = n" for j
    proof -
      have "j = i \<or> j = Suc i" using strict_index [OF so i(1) j(1)] i(2,3) j(2) by simp
      with v(4,5) j(2) show ?thesis by auto
    qed
    have "v = u" if "(n, u) \<in> set pts" for u using that hit by (metis fst_conv in_set_conv_nth snd_conv)
    moreover have "min (snd (pts ! j)) (snd (pts ! Suc j)) \<le> v \<and> v \<le> max (snd (pts ! j)) (snd (pts ! Suc j))"
      if j: "Suc j < length pts" "fst (pts ! j) \<le> n" "n \<le> fst (pts ! Suc j)" for j
    proof (cases "j = i")
      case True
      with v(2,3) show ?thesis by simp
    next
      case False
      have "fst (pts ! j) = n \<or> fst (pts ! Suc j) = n"
      proof (rule ccontr)
        assume "\<not> ?thesis"
        then have "fst (pts ! j) < n" "n < fst (pts ! Suc j)" using j by auto
        moreover from False have "j < i \<or> i < j" by auto
        then have "fst (pts ! Suc j) \<le> fst (pts ! i) \<or> fst (pts ! Suc i) \<le> fst (pts ! j)"
          using less [of "Suc j" i] less [of "Suc i" j] i(1) j(1) by (cases "Suc j = i"; cases "Suc i = j") auto
        ultimately show False using i(2,3) by linarith
      qed
      with hit [of j] hit [of "Suc j"] j(1) show ?thesis by auto
    qed
    moreover have "v = c * of_int n powr q" if "\<forall>x \<in> set pts. on_power_law c q x" for c q using v(6) that m by blast
    ultimately show ?thesis using r \<open>0 < v\<close> unfolding interpolates_def by blast
  next
    case out
    from beyond_value [OF g out] obtain v where v: "beyond pts n = Inr v" "0 < v"
      "\<forall>c p. (\<forall>q \<in> set pts. on_power_law c p q) \<longrightarrow> v = c * of_int n powr p" by blast
    have all: "fst p < n" if "p \<in> set pts" for p
    proof -
      from that obtain j where j: "j < length pts" "p = pts ! j" by (auto simp: in_set_conv_nth)
      then have "j = length pts - 1 \<or> j < length pts - 1" by linarith
      then have "fst p \<le> fst (last pts)" using less [of j "length pts - 1"] lastn j(2) by auto
      with out show ?thesis by simp
    qed
    then have "segment pts n = None" by (intro segment_none [OF so]) blast
    moreover obtain a va rest where p: "pts = (a, va) # rest" using ne by (cases pts) auto
    moreover have "a < n" using all [of "(a, va)"] p by simp
    ultimately have "interp pts key n = Inr v" using v(1) by (simp add: interp_def)
    moreover have "\<not> n \<le> fst (pts ! Suc i)" if "Suc i < length pts" for i using all [of "pts ! Suc i"] that by simp
    moreover have "(n, u) \<notin> set pts" for u using all by fastforce
    ultimately show ?thesis using v(2,3) unfolding interpolates_def by blast
  qed
qed

section \<open>The model is complete\<close>

text \<open>The columns the model interpolates, and when the measurements suffice for it.\<close>

definition interpolated :: "(string \<times> string) list" where
  "interpolated = [(''TM'', ''honest_mean''), (''TM'', ''forged''), (''TM'', ''state_bytes''), (''MW'', ''honest_mean''), (''MW'', ''forged'')]"

definition model_ready :: "measured list \<Rightarrow> bool" where
  "model_ready ms \<longleftrightarrow> (\<forall>(s, key) \<in> set interpolated. \<exists>pts. points ms s key = Some pts \<and> good_points pts \<and> fst (hd pts) = 1)"

text \<open>A row as it should be: the closed form, zeros, or interpolated measurements.\<close>

definition column_ok :: "measured list \<Rightarrow> string \<Rightarrow> string \<Rightarrow> nat \<Rightarrow> real \<Rightarrow> bool" where
  "column_ok ms s key n v \<longleftrightarrow> (\<exists>pts. points ms s key = Some pts \<and> interpolates pts (int n) v)"

definition row_ok :: "measured list \<Rightarrow> string \<Rightarrow> nat \<Rightarrow> model_row \<Rightarrow> bool" where
  "row_ok ms s n row = (case row of (h, f, e, b, x) \<Rightarrow>
     if s \<in> set EXACT then \<exists>h' f' b'. closed s (int n) = Inr (h', f', e, b', x) \<and> h = of_rat h' \<and> f = of_int f' \<and> b = of_int b'
     else if n = 0 then row = (0, 0, 0, 0, 0)
     else column_ok ms s ''honest_mean'' n h \<and> column_ok ms s ''forged'' n f \<and> e = 0 \<and>
       (if s = ''MW'' then b = of_int (tree_model_state n) \<and> x = tree_model_extra n
        else column_ok ms s ''state_bytes'' n b \<and> x = 0))"

lemma interp_measured_value:
  assumes "model_ready ms" "(s, key) \<in> set interpolated" "1 \<le> n"
  shows "\<exists>v. interp_measured ms s key (int n) = Inr v \<and> column_ok ms s key n v"
proof -
  from assms(1,2) obtain pts where p: "points ms s key = Some pts" "good_points pts" "fst (hd pts) = 1"
    by (auto simp: model_ready_def)
  from interp_value [OF p(2), of "int n" key] p(3) assms(3) obtain v where "interp pts key (int n) = Inr v" "interpolates pts (int n) v"
    by auto
  with p(1) show ?thesis by (auto simp: interp_measured_def column_ok_def)
qed

lemma closed_exact: "s \<in> set EXACT \<Longrightarrow> closed s n \<noteq> Inl x"
  by (auto simp: EXACT_def closed_def)

lemma model_row_ok:
  assumes ready: "model_ready ms" and s: "s \<in> set MODEL_STRATEGIES"
  shows "\<exists>row. model_row ms s n = Inr row \<and> row_ok ms s n row"
proof (cases "s \<in> set EXACT")
  case True
  from closed_exact [OF True, of "int n"] obtain h f e b x where "closed s (int n) = Inr (h, f, e, b, x)"
    by (cases "closed s (int n)") auto
  with True show ?thesis by (simp add: model_row_def row_ok_def)
next
  case False
  with s have s: "s = ''TM'' \<or> s = ''MW''" by (auto simp: MODEL_STRATEGIES_def EXACT_def)
  show ?thesis
  proof (cases "n = 0")
    case True
    with False show ?thesis by (simp add: model_row_def row_ok_def)
  next
    case n: False
    then have n1: "1 \<le> n" by simp
    have "(s, ''honest_mean'') \<in> set interpolated" "(s, ''forged'') \<in> set interpolated" using s by (auto simp: interpolated_def)
    from this [THEN interp_measured_value [OF ready _ n1]] obtain h f where
      hf: "interp_measured ms s ''honest_mean'' (int n) = Inr h" "column_ok ms s ''honest_mean'' n h"
        "interp_measured ms s ''forged'' (int n) = Inr f" "column_ok ms s ''forged'' n f" by blast
    show ?thesis
    proof (cases "s = ''MW''")
      case True
      with False n hf show ?thesis by (simp add: model_row_def row_ok_def)
    next
      case mw: False
      with s have "(s, ''state_bytes'') \<in> set interpolated" by (auto simp: interpolated_def)
      from interp_measured_value [OF ready this n1] obtain b where
        "interp_measured ms s ''state_bytes'' (int n) = Inr b" "column_ok ms s ''state_bytes'' n b" by blast
      with False n mw hf show ?thesis by (simp add: model_row_def row_ok_def)
    qed
  qed
qed

lemma model_rows_ok:
  assumes "model_ready ms" "\<forall>(s, n) \<in> set todo. s \<in> set MODEL_STRATEGIES"
  shows "\<exists>rows. model_rows ms todo = Inr rows \<and> map (\<lambda>(s, n, row). (s, n)) rows = todo \<and> (\<forall>(s, n, row) \<in> set rows. row_ok ms s n row)"
  using assms(2)
proof (induction todo)
  case (Cons t todo)
  obtain s n where t: "t = (s, n)" by (cases t)
  from model_row_ok [OF assms(1), of s n] Cons.prems t obtain row where "model_row ms s n = Inr row" "row_ok ms s n row" by auto
  moreover from Cons obtain rows where "model_rows ms todo = Inr rows" "map (\<lambda>(s, n, row). (s, n)) rows = todo"
    "\<forall>(s, n, row) \<in> set rows. row_ok ms s n row" by auto
  ultimately show ?case by (simp add: t)
qed simp

end
