(* ===== verification/ComponentProperties.thy ===== *)
theory ComponentProperties
  imports ToyCosts ToyRuns CTools CostModel
begin

text \<open>
  The properties of single components: the wire formats, the transport, the credential files, the
  session log, the time-memory table, the cost measurement and its model, and the tools of the C port.  Each is followed by an
  instance at concrete inputs where it has hypotheses.
\<close>

section \<open>Messages\<close>

text \<open>
  C26: every first message, and every second message whose server name is a JSON value that the writer
  can represent, can be written and is read back, and a second message never as a first one.
\<close>

theorem messages_roundtrip:
  assumes "json_ok (m2_server_id m')"
  shows "\<exists>b b'. message1_to_bytes m = Inr b \<and> message1_from_bytes b = Inr m \<and>
    message2_to_bytes m' = Inr b' \<and> message2_from_bytes b' = Inr m' \<and> message1_from_bytes b' = Inl MessageFormatError"
proof -
  obtain b where b: "message1_to_bytes m = Inr b" using message1_to_bytes_total by blast
  obtain b' where b': "message2_to_bytes m' = Inr b'" using message2_to_bytes_total [OF assms] by blast
  note r = message2_from_to_bytes [OF assms b']
  have "message1_from_bytes b' = Inl MessageFormatError"
  proof (cases "message1_from_bytes b'")
    case (Inl x)
    then show ?thesis using message1_from_bytes_error by simp
  next
    case (Inr n)
    from message_kinds_disjoint [OF this] r show ?thesis by simp
  qed
  with b b' r message1_from_to_bytes [OF b] show ?thesis by blast
qed

definition toy_message2 :: message2 where
  "toy_message2 = \<lparr>m2_server_id = JStr srv_id, m2_gcm_nonce = [1, 2], m2_ciphertext = [3], m2_tag = []\<rparr>"

theorem messages_roundtrip_witness:
  "\<exists>b b'. message1_to_bytes (toy_message1 [7]) = Inr b \<and> message1_from_bytes b = Inr (toy_message1 [7]) \<and>
     message2_to_bytes toy_message2 = Inr b' \<and> message2_from_bytes b' = Inr toy_message2"
proof -
  have "json_ok (m2_server_id toy_message2)" by (simp add: toy_message2_def valid_str_def lit_def)
  from messages_roundtrip [OF this, of "toy_message1 [7]"] show ?thesis by blast
qed

text \<open>
  C27: whatever bytes arrive, the readers of both messages return a message or raise
  \<^verbatim>\<open>MessageFormatError\<close> and nothing else, and no bytes are both a first and a second message.
\<close>

theorem message_reader_errors:
  "message1_from_bytes b \<in> insert (Inl MessageFormatError) (range Inr) \<and>
   message2_from_bytes b \<in> insert (Inl MessageFormatError) (range Inr) \<and>
   Inl MessageFormatError \<in> {map_sum id (\<lambda>_. ()) (message1_from_bytes b), map_sum id (\<lambda>_. ()) (message2_from_bytes b)}"
proof (intro conjI)
  show "message1_from_bytes b \<in> insert (Inl MessageFormatError) (range Inr)"
    using message1_from_bytes_error by (cases "message1_from_bytes b") auto
  show "message2_from_bytes b \<in> insert (Inl MessageFormatError) (range Inr)"
    using message2_from_bytes_error by (cases "message2_from_bytes b") auto
  show "Inl MessageFormatError \<in> {map_sum id (\<lambda>_. ()) (message1_from_bytes b), map_sum id (\<lambda>_. ()) (message2_from_bytes b)}"
    using message_kinds_disjoint message1_from_bytes_error message2_from_bytes_error
    by (cases "message1_from_bytes b"; cases "message2_from_bytes b") auto
qed

section \<open>Transport and files\<close>

lemma recv_frame_truncated:
  assumes "length p \<le> MAX_FRAME_BYTES" "k < length (frame p)" "sock_in s = take k (frame p)"
  shows "fst (recv_frame s) = Inl ConnectionError"
proof (cases "k < LENGTH_PREFIX_SIZE")
  case True
  then have "length (sock_in s) < LENGTH_PREFIX_SIZE" by (simp add: assms(3))
  from recv_exact_closed [OF this, of "[]"] show ?thesis
    by (cases "recv_exact s LENGTH_PREFIX_SIZE []") (auto simp: recv_frame_def)
next
  case False
  then have k: "LENGTH_PREFIX_SIZE \<le> length (sock_in s)" using assms(2) by (simp add: assms(3))
  from recv_exact_enough [OF k, of "[]"] False obtain s1 where s1:
    "recv_exact s LENGTH_PREFIX_SIZE [] = (Inr (be_bytes LENGTH_PREFIX_SIZE (length p)), s1)"
    "sock_in s1 = take (k - LENGTH_PREFIX_SIZE) p" by (auto simp: assms(3) frame_def)
  have len: "nat (int_from_bytes (be_bytes LENGTH_PREFIX_SIZE (length p))) = length p"
    using assms(1) by (subst int_from_be_bytes) (simp_all add: LENGTH_PREFIX_SIZE_def MAX_FRAME_BYTES_def)
  have "length (sock_in s1) < length p" using assms(2) False by (simp add: s1(2) frame_def)
  from recv_exact_closed [OF this, of "[]"] show ?thesis using s1 len assms(1) by (simp add: recv_frame_def)
qed

lemma send_frames_eq:
  "\<forall>p \<in> set ps. length p \<le> MAX_FRAME_BYTES \<Longrightarrow>
     sock_out (fold (\<lambda>p s. snd (send_frame s p)) ps s) = sock_out s @ concat (map frame ps)"
  by (induction ps arbitrary: s) (simp_all add: send_frame_eq)

text \<open>
  C28: frames of at most the limit, sent one after another, are read back in order however the stream
  is cut into chunks and whatever follows them; a frame whose stream closes early raises
  \<^verbatim>\<open>ConnectionError\<close>, and a longer payload is refused by the sender.
\<close>

theorem frames_read_back:
  assumes "\<forall>p \<in> set ps. length p \<le> MAX_FRAME_BYTES"
  shows "(\<exists>wire. sock_out (fold (\<lambda>p s. snd (send_frame s p)) ps s) = sock_out s @ wire \<and>
      recv_frames (length ps) \<lparr>sock_in = wire @ rest, sock_sizes = sizes, sock_out = out\<rparr> = map Inr ps) \<and>
    (\<forall>p \<in> set ps. \<forall>k \<in> {..< length (frame p)}.
      fst (recv_frame \<lparr>sock_in = take k (frame p), sock_sizes = sizes, sock_out = out\<rparr>) = Inl ConnectionError) \<and>
    send_frame s (replicate (Suc MAX_FRAME_BYTES) 0) = (Inl ValueError, s)"
proof (intro conjI ballI)
  show "\<exists>wire. sock_out (fold (\<lambda>p s. snd (send_frame s p)) ps s) = sock_out s @ wire \<and>
      recv_frames (length ps) \<lparr>sock_in = wire @ rest, sock_sizes = sizes, sock_out = out\<rparr> = map Inr ps"
    using send_frames_eq [OF assms, of s] recv_frames_eq [OF assms, where rest = rest] by auto
  show "fst (recv_frame \<lparr>sock_in = take k (frame p), sock_sizes = sizes, sock_out = out\<rparr>) = Inl ConnectionError"
    if "p \<in> set ps" "k \<in> {..< length (frame p)}" for p k
    using recv_frame_truncated [of p k] that assms by simp
  show "send_frame s (replicate (Suc MAX_FRAME_BYTES) 0) = (Inl ValueError, s)"
    by (rule send_frame_too_long) simp
qed

theorem frames_read_back_witness:
  "\<exists>wire. sock_out (fold (\<lambda>p s. snd (send_frame s p)) [[1, 2], []] \<lparr>sock_in = [], sock_sizes = [], sock_out = []\<rparr>) = wire \<and>
      recv_frames 2 \<lparr>sock_in = wire @ [9], sock_sizes = [1, 3], sock_out = []\<rparr> = [Inr [1, 2], Inr []]"
  using frames_read_back [of "[[1, 2], []]" "\<lparr>sock_in = [], sock_sizes = [], sock_out = []\<rparr>" "[9]" "[1, 3]" "[]"]
  by (simp add: MAX_FRAME_BYTES_def del: replicate_Suc recv_frames.simps) (simp add: numeral_2_eq_2 del: recv_frames.simps)

text \<open>
  C29: a credential is saved with owner-only permissions and loaded back; whatever the permissions have
  become in between, loading gives the same credential and leaves a file only its owner can use.
\<close>

theorem credential_file:
  assumes "cred_storable c"
  shows "\<exists>f. keystore_save c old = Inr f \<and> kf_mode f = PRIVATE_FILE_MODE \<and>
    keystore_load (Some f) = (Some (Inr c), Some f) \<and>
    (\<forall>m. \<exists>f'. keystore_load (Some (f\<lparr>kf_mode := m\<rparr>)) = (Some (Inr c), Some f') \<and>
       and (kf_mode f') GROUP_OTHER_BITS = 0 \<and> kf_content f' = kf_content f)"
proof -
  from keystore_roundtrip [OF assms, of old] obtain f where f: "keystore_save c old = Inr f"
    "kf_mode f = PRIVATE_FILE_MODE" "keystore_load (Some f) = (Some (Inr c), Some f)" by blast
  have "\<exists>f'. keystore_load (Some (f\<lparr>kf_mode := m\<rparr>)) = (Some (Inr c), Some f') \<and>
       and (kf_mode f') GROUP_OTHER_BITS = 0 \<and> kf_content f' = kf_content f" for m
  proof -
    have "fst (keystore_load (Some (f\<lparr>kf_mode := m\<rparr>))) = Some (Inr c)"
      using f(3) by (auto simp: keystore_load_def Let_def)
    then obtain f' where l: "keystore_load (Some (f\<lparr>kf_mode := m\<rparr>)) = (Some (Inr c), Some f')"
      by (auto simp: keystore_load_def Let_def)
    from keystore_load_private [OF this] l show ?thesis by simp
  qed
  with f show ?thesis by blast
qed

theorem credential_file_witness:
  "\<exists>f. keystore_save dev_cred None = Inr f \<and> fst (keystore_load (Some (f\<lparr>kf_mode := 0x1B6\<rparr>))) = Some (Inr dev_cred)"
proof -
  have "cred_storable dev_cred"
    by (simp add: cred_storable_def dev_cred_def valid_str_def lit_def nat_digits.simps)
  from credential_file [OF this, of None] show ?thesis by (metis fst_conv)
qed

section \<open>The session log\<close>

text \<open>
  C30: after any sequence of log operations, a peer is on the block list exactly if the history holds a
  block of it or a failure that completes an unbroken streak of the maximal length, and its last
  accepted epoch is the largest one the history accepted, or -1.
\<close>

theorem log_history:
  "(is_blocked (log_run (new_session_log m f l) evs) p \<longleftrightarrow> history_blocks m p evs) \<and>
   last_epoch (log_run (new_session_log m f l) evs) p = history_last p evs"
  by (simp add: is_blocked_def log_run_blocked log_run_last)

section \<open>The time-memory trade-off\<close>

text \<open>
  C31: attaching precomputes tables of chains, one hash per step of each, and afterwards the strategy
  resolves the pseudonym of an enrolled device and epoch below the lifetime exactly if a chain covers
  it and the epoch is fresh; a miss raises \<^verbatim>\<open>UnknownPeerError\<close>, a stale epoch \<^verbatim>\<open>ReplayDetected\<close>, and
  the lookup hashes at most tables times the squared chain length.
\<close>

theorem time_memory_resolves:
  assumes "valid_peers ps" "ps \<noteq> []" "0 < tm_lifetime r" "tm_lifetime r \<le> 256 ^ 8" "sample_ok (tm_rng r)"
    and "tm_chain_length_arg r = Some tau" "0 \<le> tau" "tm_chains_per_table_arg r = Some c" "0 \<le> c" "0 \<le> tm_n_tables r"
    and "no_collisions P ps (tm_lifetime r)" "i < length ps" "0 \<le> e" "e < tm_lifetime r"
  shows "\<exists>r' r''. tm_attach P now ps sl r = (Inr (), r') \<and>
    precompute_probes r' = precompute_probes r + tm_n_tables r * (min c (int (length ps) * tm_lifetime r) * tau) \<and>
    tm_resolve P now' ps sl' (pseudonym P (snd (ps ! i)) e) r' =
      (if \<not> covered P ps (tm_lifetime r) tau (tm_ends r') (int i * tm_lifetime r + e) then Inl UnknownPeerError
       else if is_stale_epoch sl' (fst (ps ! i)) e then Inl (ReplayDetected (fst (ps ! i)) e)
       else Inr (fst (ps ! i), e), r'') \<and>
    probes r'' \<le> probes r + tm_n_tables r * (tau * tau)"
proof -
  from tm_attach_eq [OF assms(1-10), of P now sl] obtain r' where r': "tm_attach P now ps sl r = (Inr (), r')"
    "tm_built P ps (tm_lifetime r) tau (min c (int (length ps) * tm_lifetime r)) r'"
    "int (length (tm_ends r')) = tm_n_tables r" "tm_chain_length r' = Inr tau" "probes r' = probes r"
    "precompute_probes r' = precompute_probes r + tm_n_tables r * (min c (int (length ps) * tm_lifetime r) * tau)"
    by blast
  then have b: "tm_ready P ps r'" "tm_lifetime r' = tm_lifetime r" "tables_ok P ps (tm_lifetime r') tau (tm_ends r')"
    by (simp_all add: tm_built_def)
  from tm_resolve_eq [OF b(1) r'(4) assms(7) b(3) _ assms(12,13), of now' sl'] assms(11,14) r' b(2)
  show ?thesis by (auto simp: costs_def)
qed

definition toy_tm :: time_memory where
  "toy_tm = new_time_memory 4 1 (Some 2) (Some 3) (\<lambda>k n m. [0 .. m - 1])"

theorem time_memory_resolves_witness:
  "\<exists>r'. tm_attach toy 0 toy_sec (new_session_log 3 8 16) toy_tm = (Inr (), r') \<and> precompute_probes r' = 6 \<and>
    fst (tm_resolve toy 0 toy_sec (new_session_log 3 8 16) (pseudonym toy 2 2) r') =
      (if covered toy toy_sec 4 2 (tm_ends r') 6 then Inr (device_name 1, 2) else Inl UnknownPeerError)"
proof -
  have v: "valid_peers toy_sec" "no_collisions toy toy_sec 4" "toy_sec \<noteq> []"
    using toy_enrolment [of 4] by (simp_all add: enrolment_ok_def) (simp add: toy_sec_eq)
  have t: "0 < tm_lifetime toy_tm" "tm_lifetime toy_tm \<le> 256 ^ 8" "sample_ok (tm_rng toy_tm)" "tm_lifetime toy_tm = 4"
    "tm_chain_length_arg toy_tm = Some 2" "tm_chains_per_table_arg toy_tm = Some 3" "tm_n_tables toy_tm = 1"
    "probes toy_tm = 0" "precompute_probes toy_tm = 0"
    by (simp_all add: toy_tm_def new_time_memory_def sample_ok_def)
  have s: "\<not> is_stale_epoch (new_session_log 3 8 16) p 2" for p
    by (simp add: is_stale_epoch_def new_session_log_def last_epoch_def)
  have n: "toy_sec ! 1 = (device_name 1, 2)" by (simp add: toy_sec_eq)
  from time_memory_resolves [OF v(1,3) t(1-3,5) _ t(6), where P = toy and i = 1 and e = 2 and now = 0 and now' = 0 and
      sl = "new_session_log 3 8 16" and sl' = "new_session_log 3 8 16"] t(4,7-9) v(2)
  obtain r' r'' where "tm_attach toy 0 toy_sec (new_session_log 3 8 16) toy_tm = (Inr (), r')" "precompute_probes r' = 6"
    "tm_resolve toy 0 toy_sec (new_session_log 3 8 16) (pseudonym toy (snd (toy_sec ! 1)) 2) r' =
      (if \<not> covered toy toy_sec 4 2 (tm_ends r') 6 then Inl UnknownPeerError
       else if is_stale_epoch (new_session_log 3 8 16) (fst (toy_sec ! 1)) 2 then Inl (ReplayDetected (fst (toy_sec ! 1)) 2)
       else Inr (fst (toy_sec ! 1), 2), r'')" by auto
  then show ?thesis by (simp add: s n del: One_nat_def)
qed

text \<open>\<^verbatim>\<open>-(-2 * S // c)\<close> rounds the quotient up.\<close>

lemma ceiling_quotient:
  fixes c S :: int
  assumes "0 < c"
  shows "2 * S \<le> - (-2 * S div c) * c" "(- (-2 * S div c) - 1) * c < 2 * S"
proof -
  obtain q k where qk: "q = -2 * S div c" "k = -2 * S mod c" by blast
  have "c * q + k = -2 * S" unfolding qk by (rule mult_div_mod_eq)
  moreover have "0 \<le> k" "k < c" using assms by (simp_all add: qk)
  ultimately show "2 * S \<le> - (-2 * S div c) * c" "(- (-2 * S div c) - 1) * c < 2 * S"
    unfolding qk(1) [symmetric] by (simp_all add: algebra_simps)
qed

text \<open>
  C32: the default parameters: the chain length is the integer nearest to the cube root of the number of
  points, and at least one; the chains of a table, times that length, cover the points twice, with less
  than one chain to spare.
\<close>

theorem default_parameters:
  assumes "tm_chain_length_arg r = None" "tm_chains_per_table_arg r = None" "0 < tm_space r"
  shows "\<exists>c m. tm_chain_length r = Inr (int c) \<and> tm_chains_per_table r = Inr m \<and> 1 \<le> c \<and>
    (2 * c - 1) ^ 3 \<le> 8 * nat (tm_space r) \<and> 8 * nat (tm_space r) < (2 * c + 1) ^ 3 \<and>
    2 * tm_space r \<le> m * int c \<and> (m - 1) * int c < 2 * tm_space r"
proof -
  let ?S = "nat (tm_space r)" and ?c = "cube_root_from (nat (tm_space r)) 0"
  from cube_root_nearest [of 0 ?S ?c] have n: "?c = 0 \<or> (2 * ?c - 1) ^ 3 \<le> 8 * ?S" "8 * ?S < (2 * ?c + 1) ^ 3" by simp_all
  have c: "1 \<le> ?c"
  proof (rule ccontr)
    assume "\<not> 1 \<le> ?c"
    then have "?c = 0" by simp
    with n(2) assms(3) show False by simp
  qed
  let ?m = "- (-2 * tm_space r div int ?c)"
  have q: "2 * tm_space r \<le> ?m * int ?c \<and> (?m - 1) * int ?c < 2 * tm_space r"
    using ceiling_quotient [of "int ?c" "tm_space r"] c by simp
  have "1 \<le> ?m"
  proof (rule ccontr)
    assume "\<not> 1 \<le> ?m"
    then have "?m * int ?c \<le> 0" by (intro mult_nonpos_nonneg) auto
    with q assms(3) show False by linarith
  qed
  then have "tm_chain_length r = Inr (int ?c)" "tm_chains_per_table r = Inr ?m"
    using assms c by (simp_all add: tm_chain_length_def tm_chains_per_table_def max_def)
  with n c q show ?thesis by (intro exI [of _ ?c] exI [of _ ?m]) auto
qed

text \<open>The script's population of five devices and a lifetime of 128 epochs.\<close>

theorem default_parameters_witness:
  "\<exists>c m. tm_chain_length ((new_time_memory 128 6 None None (\<lambda>k n m. []))\<lparr>tm_peers := [[], [], [], [], []]\<rparr>) = Inr (int c) \<and>
     (2 * c - 1) ^ 3 \<le> 5120 \<and> 5120 < (2 * c + 1) ^ 3 \<and> 1280 \<le> m * int c"
  using default_parameters [of "(new_time_memory 128 6 None None (\<lambda>k n m. []))\<lparr>tm_peers := [[], [], [], [], []]\<rparr>"]
  by (auto simp: new_time_memory_def tm_space_def)

section \<open>The cost table\<close>

text \<open>
  Measuring the counter strategies in the steady state, with every device drawn equally often,
  succeeds without a miss and gives exactly the closed form in every column.  Under O1 no honest
  resolution costs more than all candidates of the other devices and one look-back; under O2 the table
  was filled with one hash per device and epoch of the tolerance.  Both rows pass the script's checks.
\<close>

theorem cost_of_counter_strategies:
  assumes "enrolment_ok P sec E" "fair_draws P sec E draws pids" "STEADY + int (length draws) + FORWARD < E"
  shows "\<exists>row row'. run_linear P sec draws pids = Inr row \<and> row_is ''O1'' (length sec) row \<and>
    row_honest_max row \<le> (int (length sec) - 1) * W1 + (LOOKBACK + 2) \<and> check_row ''O1'' (int (length sec)) row = Inr () \<and>
    run_table P sec draws pids = Inr row' \<and> row_is ''O2'' (length sec) row' \<and>
    row_precompute row' = FORWARD * int (length sec) \<and> check_row ''O2'' (int (length sec)) row' = Inr ()"
proof -
  from linear_row [OF assms(1-3)] obtain row where r: "run_linear P sec draws pids = Inr row" "row_is ''O1'' (length sec) row"
    "row_honest_max row \<le> (int (length sec) - 1) * W1 + (LOOKBACK + 2)" by blast
  from table_row [OF assms(1-3)] obtain row' where r': "run_table P sec draws pids = Inr row'" "row_is ''O2'' (length sec) row'"
    "row_precompute row' = FORWARD * int (length sec)" by blast
  from r(3) have "check_row ''O1'' (int (length sec)) row = Inr ()" by (intro row_is_checked [OF r(2)]) simp
  moreover have "check_row ''O2'' (int (length sec)) row' = Inr ()" by (rule row_is_checked [OF r'(2)]) simp
  ultimately show ?thesis using r r' by blast
qed

lemma toy_horizons: "STEADY + int (length toy_draws) + FORWARD < 1000" "STEADY + 1 < 1000" "STEADY + 2 < 1000"
  by (simp_all add: STEADY_def FORWARD_def toy_draws_def)

lemmas toy_bench = toy_enrolment [of 1000, simplified] toy_fair [of 1000]

theorem cost_of_counter_strategies_witness:
  "\<exists>row row'. run_linear toy toy_sec toy_draws [toy_forged] = Inr row \<and> row_honest_mean row = 61 / 2 \<and> row_forged row = 50 \<and>
     run_table toy toy_sec toy_draws [toy_forged] = Inr row' \<and> row_honest_mean row' = 1 \<and> row_forged row' = 0"
  using cost_of_counter_strategies [OF toy_bench toy_horizons(1)]
  by (auto simp: row_is_def closed_def W1_def LOOKBACK_def FORWARD_def)

text \<open>
  The same for the clock strategies, over a window of twice the drift and one epochs.  Under O4
  resolving costs no hash, honest or forged; attaching hashes the window of every device, and moving to
  the next epoch costs one hash per device.
\<close>

theorem cost_of_clock_strategies:
  assumes "enrolment_ok P sec E" "fair_draws P sec E draws pids" "STEADY + 2 < E"
  shows "\<exists>row row'. run_clock P sec draws pids = Inr row \<and> row_is ''O3'' (length sec) row \<and>
    row_honest_max row \<le> (int (length sec) - 1) * WT + 1 \<and> check_row ''O3'' (int (length sec)) row = Inr () \<and>
    run_clock_table P sec draws pids = Inr row' \<and> row_is ''O4'' (length sec) row' \<and>
    row_precompute row' = WT * int (length sec) \<and> check_row ''O4'' (int (length sec)) row' = Inr ()"
proof -
  from assms(3) have "STEADY + 1 < E" by simp
  from clock_row [OF assms(1,2) this] obtain row where r: "run_clock P sec draws pids = Inr row" "row_is ''O3'' (length sec) row"
    "row_honest_max row \<le> (int (length sec) - 1) * WT + 1" by blast
  from clock_table_row [OF assms(1-3)] obtain row' where r': "run_clock_table P sec draws pids = Inr row'"
    "row_is ''O4'' (length sec) row'" "row_precompute row' = WT * int (length sec)" by blast
  from r(3) have "check_row ''O3'' (int (length sec)) row = Inr ()" by (intro row_is_checked [OF r(2)]) simp
  moreover have "check_row ''O4'' (int (length sec)) row' = Inr ()" by (rule row_is_checked [OF r'(2)]) simp
  ultimately show ?thesis using r r' by blast
qed

theorem cost_of_clock_strategies_witness:
  "\<exists>row row'. run_clock toy toy_sec toy_draws [toy_forged] = Inr row \<and> row_honest_mean row = 5 / 2 \<and> row_forged row = 6 \<and>
     run_clock_table toy toy_sec toy_draws [toy_forged] = Inr row' \<and> row_honest_mean row' = 0 \<and> row_epoch_probes row' = 2"
  using cost_of_clock_strategies [OF toy_bench toy_horizons(3)]
  by (auto simp: row_is_def closed_def WT_def DRIFT_def)

text \<open>
  The randomized hash lock answers every draw with the right device and gives the closed form's
  row, if no two devices share a tag under the drawn values and the forged tag is nobody's.
\<close>

theorem cost_of_hash_lock:
  assumes "valid_peers sec" "balanced (map fst sec) (map fst draws)"
    and "\<forall>d \<in> set draws. tags_distinct P sec (snd d R_BYTES)" "forged_lock_tag P sec r tag"
  shows "\<exists>row. run_lock P sec draws r tag = Inr row \<and> row_is ''CR'' (length sec) row \<and> row_honest_max row \<le> int (length sec) \<and>
    check_row ''CR'' (int (length sec)) row = Inr ()"
proof -
  from lock_row [OF assms(1-4)] obtain row where r: "run_lock P sec draws r tag = Inr row" "row_is ''CR'' (length sec) row"
    "row_honest_max row \<le> int (length sec)" by blast
  from r(3) have "check_row ''CR'' (int (length sec)) row = Inr ()" by (intro row_is_checked [OF r(2)]) simp
  with r show ?thesis by blast
qed

theorem cost_of_hash_lock_witness:
  "\<exists>row. run_lock toy toy_sec [(device_name 0, zeros), (device_name 1, zeros)] (zeros R_BYTES) toy_forged = Inr row \<and>
     row_honest_mean row = 3 / 2 \<and> row_forged row = 2"
proof -
  have "valid_peers toy_sec" using toy_bench(1) by (simp add: enrolment_ok_def)
  from cost_of_hash_lock [OF this _ _ toy_tags(2), of "[(device_name 0, zeros), (device_name 1, zeros)]"] toy_balanced toy_tags(1)
  show ?thesis by (auto simp: row_is_def closed_def)
qed

text \<open>
  The key tree answers every draw with the right device at the cost of at most its branching factor
  per level, a forged message costs at most one level, and the keys it stores and the bits it adds are
  those of the cost model.
\<close>

theorem cost_of_key_tree:
  assumes "new_key_tree P names (int DELTA) seed = Inr t0" "names \<noteq> []" "draws \<noteq> []"
    and "\<forall>d \<in> set draws. fst d < length names \<and> \<not> siblings_collide P (snd d R_BYTES) t0"
    and "\<forall>c \<in> set (children_of [] t0). node_tag P r t0 [c] \<noteq> tag"
  shows "\<exists>row. run_tree P seed names draws r tag = Inr (row, cost_tree_depth (length names)) \<and>
    row_state_bytes row = tree_model_state (length names) \<and> row_extra_m1_bits row = tree_model_extra (length names) \<and>
    row_honest_max row \<le> int DELTA * int (cost_tree_depth (length names)) \<and> row_forged row \<le> of_nat DELTA \<and>
    check_tree_row row (cost_tree_depth (length names)) = Inr ()"
  using tree_row [OF assms] by (auto simp: check_tree_row_def)

theorem cost_of_key_tree_witness:
  "\<exists>row. run_tree toy (zeros 32) toy_names [(0, zeros), (1, zeros)] (zeros R_BYTES) toy_forged = Inr (row, cost_tree_depth 2) \<and>
     row_extra_m1_bits row = tree_model_extra 2"
proof -
  have n: "toy_names \<noteq> []" "length toy_names = 2" by (simp_all add: toy_names_def)
  have f: "\<forall>c \<in> set (children_of [] toy_tree). node_tag toy (zeros R_BYTES) toy_tree [c] \<noteq> toy_forged"
    using toy_node_tags(2,3) by (simp add: toy_children del: One_nat_def)
  from cost_of_key_tree [OF toy_new_tree n(1) _ _ f, of "[(0, zeros), (1, zeros)]"] toy_siblings n(2)
  show ?thesis by auto
qed

section \<open>The cost model\<close>

text \<open>
  C37: what a finished summary says.  If no check of the script failed, every measured row of a strategy with a
  closed form has exactly the closed form's forged probes, its honest mean is within 1e-9 of the closed form
  under O2 and O4, and deviates by at most the reported largest relative deviation under any; and every row of the
  key tree stays within its bounds.
\<close>

theorem cost_checks_sound:
  assumes "summary samples ms = Inr (worst, rest)" "r \<in> set ms"
  shows "(m_strategy r \<in> set EXACT \<longrightarrow> (\<exists>h f e b x. closed (m_strategy r) (m_n r) = Inr (h, f, e, b, x) \<and> row_forged (m_row r) = of_int f \<and>
      \<bar>row_honest_mean (m_row r) - h\<bar> \<le> worst * max h 1 \<and>
      (m_strategy r \<in> {''O2'', ''O4''} \<longrightarrow> \<bar>row_honest_mean (m_row r) - h\<bar> \<le> 1 / 10 ^ 9))) \<and>
    (m_strategy r = ''MW'' \<longrightarrow> row_honest_max (m_row r) \<le> int DELTA * int (m_depth r) \<and> row_forged (m_row r) \<le> of_nat DELTA)"
proof (intro conjI impI)
  note c = summary_checks [OF assms(1)]
  show "\<exists>h f e b x. closed (m_strategy r) (m_n r) = Inr (h, f, e, b, x) \<and> row_forged (m_row r) = of_int f \<and>
      \<bar>row_honest_mean (m_row r) - h\<bar> \<le> worst * max h 1 \<and>
      (m_strategy r \<in> {''O2'', ''O4''} \<longrightarrow> \<bar>row_honest_mean (m_row r) - h\<bar> \<le> 1 / 10 ^ 9)" if "m_strategy r \<in> set EXACT"
  proof -
    from check_exact_sound [OF c(1) assms(2) that] obtain h f e b x where
      ok: "check_row (m_strategy r) (m_n r) (m_row r) = Inr ()" "closed (m_strategy r) (m_n r) = Inr (h, f, e, b, x)"
      "\<bar>row_honest_mean (m_row r) - h\<bar> \<le> worst * max h 1" by blast
    from check_row_passed [OF ok(1) that ok(2)] ok(2,3) show ?thesis by blast
  qed
  show "row_honest_max (m_row r) \<le> int DELTA * int (m_depth r)" "row_forged (m_row r) \<le> of_nat DELTA" if "m_strategy r = ''MW''"
    using check_trees_sound [OF c(2) assms(2) that] by (simp_all add: check_tree_row_def split: if_splits)
qed

definition toy_measurement :: "string \<Rightarrow> int \<Rightarrow> rat \<Rightarrow> rat \<Rightarrow> int \<Rightarrow> measured" where
  "toy_measurement s n h f b = \<lparr>m_strategy = s, m_n = n, m_row = \<lparr>row_honest_mean = h, row_honest_max = 1, row_forged = f,
     row_misses = 0, row_precompute = 0, row_epoch_probes = 0, row_state_bytes = b, row_extra_m1_bits = 0, row_honest_se = None\<rparr>,
     m_depth = 1\<rparr>"

definition toy_measured :: "measured list" where
  "toy_measured = [toy_measurement ''O2'' 1 1 0 (TABLE_ENTRY_BYTES * FORWARD + COUNTER_BYTES),
     toy_measurement ''TM'' 1 2 4 8, toy_measurement ''TM'' 10 20 30 40, toy_measurement ''MW'' 1 1 1 0, toy_measurement ''MW'' 10 5 10 0]"

lemmas toy_measured_defs = toy_measured_def toy_measurement_def

theorem cost_checks_sound_witness:
  "\<exists>worst rest h f e b x. summary 200 toy_measured = Inr (worst, rest) \<and> closed ''O2'' 1 = Inr (h, f, e, b, x) \<and> \<bar>1 - h\<bar> \<le> worst * max h 1"
proof -
  have e: "check_exact toy_measured 0 = Inr 0" "check_trees toy_measured = Inr ()"
    by (simp_all add: toy_measured_defs EXACT_def check_row_def closed_def check_tree_row_def DELTA_def)
  have "tm_rows toy_measured = [toy_measurement ''TM'' 10 20 30 40]" by (simp add: tm_rows_def toy_measured_defs)
  then obtain rest where s: "summary 200 toy_measured = Inr (0, rest)" using e by (simp add: summary_def tm_ratios_def)
  have "toy_measurement ''O2'' 1 1 0 (TABLE_ENTRY_BYTES * FORWARD + COUNTER_BYTES) \<in> set toy_measured" by (simp add: toy_measured_def)
  from cost_checks_sound [OF s this] obtain h f e b x where "closed ''O2'' 1 = Inr (h, f, e, b, x)" "\<bar>1 - h\<bar> \<le> 0 * max h 1"
    by (auto simp: toy_measurement_def EXACT_def)
  with s show ?thesis by blast
qed

text \<open>
  C38: the cost model of the simulation.  If the rainbow tables and the key tree were measured at two or more
  sizes, the smallest being one, with positive costs, the model has exactly one row for each strategy and each
  size up to the limit: the closed form where there is one, zeros at size zero, and else costs that equal the measurement at
  every measured size, lie between the neighbouring measurements elsewhere, and follow any power law
  the measurements follow; the key tree's state and message bits are those of its cost formula.
\<close>

theorem cost_model_complete:
  assumes "model_ready ms"
  shows "\<exists>rows. cost_model ms n_max = Inr rows \<and> map (\<lambda>(s, n, row). (s, n)) rows = List.product MODEL_STRATEGIES [0 ..< Suc n_max] \<and>
    (\<forall>(s, n, row) \<in> set rows. row_ok ms s n row)"
  unfolding cost_model_def by (rule model_rows_ok [OF assms]) auto

theorem cost_model_complete_witness:
  "\<exists>rows. cost_model toy_measured 10 = Inr rows \<and> length rows = 77"
proof -
  have p: "points toy_measured ''TM'' ''honest_mean'' = Some [(1, 2), (10, 20)]" "points toy_measured ''TM'' ''forged'' = Some [(1, 4), (10, 30)]"
    "points toy_measured ''TM'' ''state_bytes'' = Some [(1, 8), (10, 40)]" "points toy_measured ''MW'' ''honest_mean'' = Some [(1, 1), (10, 5)]"
    "points toy_measured ''MW'' ''forged'' = Some [(1, 1), (10, 10)]"
    by (simp_all add: points_def toy_measured_defs column_def)
  have g: "good_points [(1, v), (10, w)]" if "0 < v" "0 < w" for v w using that by (simp add: good_points_def)
  have "model_ready toy_measured" by (simp add: model_ready_def interpolated_def p g)
  from cost_model_complete [OF this, of 10] obtain rows where r: "cost_model toy_measured 10 = Inr rows"
    "map (\<lambda>(s, n, row). (s, n)) rows = List.product MODEL_STRATEGIES [0 ..< Suc 10]" by blast
  from arg_cong [OF r(2), of length] have "length rows = 77" by (simp add: MODEL_STRATEGIES_def)
  with r(1) show ?thesis by blast
qed

section \<open>The tools of the C port\<close>




text \<open>
  C40: the interoperability run.  A device in step with the server that authenticates any number of
  times, each on its own connection, ends every handshake with the fingerprint of the key the server
  logged for it, in order, and the thread is still serving; and the tool, given lines in the client's format
  with these fingerprints and an exit code of 0, exits with 0.
\<close>

theorem interop_session:
  assumes "prims_ok P" "\<forall>h \<in> set hs. action_ok (dev_session_timeout d) (Run h)" "linked linear_good P F E d s"
    and "1 \<le> epoch_gap d s" "epoch_gap d s \<le> F" "device_next d (cred_identity (ent_credential s)) + int (length hs) + F < E"
    and "length (cred_identity (ent_credential s)) \<le> 1000"
  shows "\<exists>fps s'. map snd (client_session P linear_scan_ops str_of (cred_identity (ent_credential s)) hs d s) = map Some fps \<and>
    length fps = length hs \<and> tool_serve P linear_scan_ops str_of (map fst (client_session P linear_scan_ops str_of (cred_identity (ent_credential s)) hs d s)) s =
      (Inr (), s', map ToolAccepted fps) \<and>
    interop_exit (map2 (\<lambda>(i, l) fp. result_line i l fp) (map (\<lambda>i. (i, size_of i)) [0 ..< length hs]) fps) 0
      (map ToolAccepted fps) (int (length hs)) = Inr 0"
proof -
  from assms(4,5) have "1 \<le> F" by simp
  from session_served [OF assms(1-5) this assms(6,7), of str_of] obtain fps s' where
    f: "map snd (client_session P linear_scan_ops str_of (cred_identity (ent_credential s)) hs d s) = map Some fps"
    "length fps = length hs" "\<forall>fp \<in> set fps. \<exists>key. fp = take 16 (hex (p_sha256 P key))"
    "tool_serve P linear_scan_ops str_of (map fst (client_session P linear_scan_ops str_of (cred_identity (ent_credential s)) hs d s)) s =
      (Inr (), s', map ToolAccepted fps)" by blast
  let ?rs = "map (\<lambda>i. (i, size_of i, fps ! i)) [0 ..< length hs]"
  have "112 \<notin> set fp" if "fp \<in> set fps" for fp
    using f(3) that hex_chars [of 112] set_take_subset by fastforce
  then have "interop_exit (map (\<lambda>(i, l, fp). result_line i l fp) ?rs) 0 (map (\<lambda>(i, l, fp). ToolAccepted fp) ?rs) (int (length ?rs)) = Inr 0"
    using f(2) by (intro interop_exit_ok) auto
  moreover have "map (\<lambda>(i, l, fp). ToolAccepted fp) ?rs = map ToolAccepted fps"
    using f(2) by (intro nth_equalityI) auto
  moreover have "map (\<lambda>(i, l, fp). result_line i l fp) ?rs =
      map2 (\<lambda>(i, l) fp. result_line i l fp) (map (\<lambda>i. (i, size_of i)) [0 ..< length hs]) fps"
    using f(2) by (intro nth_equalityI) auto
  ultimately show ?thesis using f by auto
qed

theorem interop_session_witness:
  "\<exists>fp fp' s'. tool_serve toy linear_scan_ops (\<lambda>_ _. [])
      (map fst (client_session toy linear_scan_ops (\<lambda>_ _. []) srv_id [toy_run, toy_run] toy_device (toy_server new_resolver)))
      (toy_server new_resolver) = (Inr (), s', [ToolAccepted fp, ToolAccepted fp']) \<and>
    interop_exit [result_line 0 300 fp, result_line 1 300 fp'] 0 [ToolAccepted fp, ToolAccepted fp'] 2 = Inr 0"
proof -
  let ?cs = "client_session toy linear_scan_ops (\<lambda>_ _. []) (cred_identity (ent_credential (toy_server new_resolver))) [toy_run, toy_run]
    toy_device (toy_server new_resolver)"
  have h: "\<forall>h \<in> set [toy_run, toy_run]. action_ok (dev_session_timeout toy_device) (Run h)" using toy_action by simp
  have b: "device_next toy_device (cred_identity (ent_credential (toy_server new_resolver))) + int (length [toy_run, toy_run]) + 8 < 100"
    "length (cred_identity (ent_credential (toy_server new_resolver))) \<le> 1000" by simp_all
  from interop_session [OF toy_ok h toy_scan_linked toy_ready(2,3) b, of "\<lambda>_ _. []" "\<lambda>_. 300"] obtain fps s' where
    r: "length fps = length [toy_run, toy_run]" "tool_serve toy linear_scan_ops (\<lambda>_ _. []) (map fst ?cs) (toy_server new_resolver) = (Inr (), s', map ToolAccepted fps)"
    "interop_exit (map2 (\<lambda>(i, l) fp. result_line i l fp) (map (\<lambda>i. (i, 300)) [0 ..< length [toy_run, toy_run]]) fps) 0
      (map ToolAccepted fps) (int (length [toy_run, toy_run])) = Inr 0" by blast
  from r(1) obtain fp fp' where "fps = [fp, fp']" by (auto simp: length_Suc_conv)
  with r(2,3) show ?thesis unfolding toy_names by auto
qed

end
