(* ===== verification/CostTradeoff.thy ===== *)
theory CostTradeoff
  imports CostForms
begin

text \<open>
  The measurement of the time-memory trade-off with its default parameters.  It has no closed form: here
  is what every run of it returns, and that each of its columns the cost model interpolates is positive.
\<close>

section \<open>Attaching with the default parameters\<close>

definition default_chain :: "int \<Rightarrow> int" where
  "default_chain S = max 1 (int (cube_root_from (nat S) 0))"

definition default_chains :: "int \<Rightarrow> int" where
  "default_chains S = max 1 (- (-2 * S div default_chain S))"

lemma default_chain_two: "4 \<le> S \<Longrightarrow> 2 \<le> default_chain S"
proof -
  assume S: "4 \<le> S"
  let ?c = "cube_root_from (nat S) 0"
  have "8 * nat S < (2 * ?c + 1) ^ 3" using cube_root_nearest [of 0 "nat S" ?c] by simp
  moreover have "32 \<le> 8 * nat S" using S by simp
  ultimately have b: "32 < (2 * ?c + 1) ^ 3" by linarith
  have "\<not> ?c \<le> 1"
  proof
    assume "?c \<le> 1"
    then have "(2 * ?c + 1) ^ 3 \<le> 3 ^ 3" by (intro power_mono) simp_all
    with b show False by simp
  qed
  then show ?thesis by (simp add: default_chain_def)
qed

lemma default_args:
  assumes "tm_chain_length_arg r = None" "tm_chains_per_table_arg r = None" "0 \<le> tm_space r"
  shows "tm_chain_length r = Inr (default_chain (tm_space r))" "tm_chains_per_table r = Inr (default_chains (tm_space r))"
  using assms by (auto simp: tm_chain_length_def tm_chains_per_table_def default_chain_def default_chains_def max_def)

lemma default_attach:
  assumes "valid_peers sec" "sec \<noteq> []" "sample_ok rng" "0 < L" "L \<le> 256 ^ 8"
  shows "\<exists>r. tm_attach P now sec sl (new_time_memory L 6 None None rng) = (Inr (), r) \<and>
    tm_ready P sec r \<and> tm_lifetime r = L \<and> tm_chain_length r = Inr (default_chain (int (length sec) * L)) \<and>
    tables_ok P sec L (default_chain (int (length sec) * L)) (tm_ends r) \<and> length (tm_ends r) = 6 \<and>
    precompute_probes r = 6 * (min (default_chains (int (length sec) * L)) (int (length sec) * L) * default_chain (int (length sec) * L))"
proof -
  let ?S = "int (length sec) * L" and ?r = "(new_time_memory L 6 None None rng)\<lparr>tm_peers := map fst sec, tm_lams := map snd sec, tm_ends := []\<rparr>"
  have sp: "tm_space ?r = ?S" "0 \<le> ?S" using assms(4) by (simp_all add: tm_space_def new_time_memory_def)
  have a: "tm_chain_length_arg ?r = None" "tm_chains_per_table_arg ?r = None" "tm_rng ?r = rng" "precompute_probes ?r = 0"
    by (simp_all add: new_time_memory_def)
  note c = default_args [OF a(1,2), unfolded sp(1), OF sp(2)]
  have b: "tm_built P sec L (default_chain ?S) (min (default_chains ?S) ?S) ?r"
    using assms by (simp add: tm_built_def tm_ready_def tables_ok_def new_time_memory_def)
  have z: "0 \<le> default_chains ?S" "0 \<le> default_chain ?S" by (simp_all add: default_chains_def default_chain_def)
  have m: "min (default_chains ?S) ?S = min (default_chains ?S) (tm_space ?r)" by (simp only: sp(1))
  have s: "sample_ok (tm_rng ?r)" using assms(3) a(3) by simp
  from tm_build_eq [OF b c(2) m z s, of 6] obtain r where
    r: "tm_build P (default_chain ?S) (map int [length (tm_ends ?r) ..< length (tm_ends ?r) + 6]) ?r = (Inr (), r)"
      "tm_built P sec L (default_chain ?S) (min (default_chains ?S) ?S) r" "length (tm_ends r) = length (tm_ends ?r) + 6"
      "tm_chain_length r = tm_chain_length ?r"
      "precompute_probes r = precompute_probes ?r + int 6 * (min (default_chains ?S) ?S * default_chain ?S)" by blast
  have "map int [length (tm_ends ?r) ..< length (tm_ends ?r) + 6] = [0 .. tm_n_tables ?r - 1]"
    using map_int_upto [of 6] by (simp add: new_time_memory_def)
  then have "tm_attach P now sec sl (new_time_memory L 6 None None rng) = (Inr (), r)"
    using r(1) c(1) by (simp add: tm_attach_def Let_def)
  with r(2-5) c(1) a(4) show ?thesis by (auto simp: tm_built_def)
qed

section \<open>The loops\<close>

text \<open>The tables stay as built, and every device's counter is ahead of the log and \<open>k\<close> draws from the horizon.\<close>

definition tm_bench ::
  "prims \<Rightarrow> int \<Rightarrow> peers \<Rightarrow> nat \<Rightarrow> (pystr \<rightharpoonup> int) \<Rightarrow> session_log \<Rightarrow> time_memory \<Rightarrow> bool" where
  "tm_bench P E sec k nxt sl r \<longleftrightarrow>
     tm_ready P sec r \<and> tm_lifetime r = LIFETIME \<and> tm_chain_length r = Inr (default_chain (int (length sec) * LIFETIME)) \<and>
     tables_ok P sec LIFETIME (default_chain (int (length sec) * LIFETIME)) (tm_ends r) \<and> length (tm_ends r) = 6 \<and>
     (\<forall>p \<in> fst ` set sec. \<exists>e. nxt p = Some e \<and> 0 \<le> e \<and> last_epoch sl p \<le> e \<and> e + int k < E)"

text \<open>The bound of a lookup: the tables times the squared chain length.\<close>

definition tm_bound :: "nat \<Rightarrow> int" where
  "tm_bound n = 6 * (default_chain (int n * LIFETIME) * default_chain (int n * LIFETIME))"

lemma tm_chain_length_cong:
  "tm_space a = tm_space b \<Longrightarrow> tm_chain_length_arg a = tm_chain_length_arg b \<Longrightarrow> tm_chain_length a = tm_chain_length b"
  by (simp only: tm_chain_length_def)

lemma tm_bench_lookup:
  assumes "tm_bench P E sec k nxt sl r"
  shows "\<exists>r'. 0 < probes r' \<and> probes r' \<le> tm_bound (length sec) \<and> precompute_probes r' = 0 \<and> same_tables r' r \<and>
    (tm_resolve P now sec sl pid (reset_counters r) = (Inl UnknownPeerError, r') \<or>
     (\<exists>i < length sec. \<exists>e. 0 \<le> e \<and> e < LIFETIME \<and> pseudonym P (snd (sec ! i)) e = pid \<and>
        tm_resolve P now sec sl pid (reset_counters r) =
          (if is_stale_epoch sl (fst (sec ! i)) e then Inl (ReplayDetected (fst (sec ! i)) e) else Inr (fst (sec ! i), e), r')))"
proof -
  let ?t = "default_chain (int (length sec) * LIFETIME)" and ?r = "reset_counters r"
  have b: "tm_ready P sec r" "tm_lifetime r = LIFETIME" "tm_chain_length r = Inr ?t" "tables_ok P sec LIFETIME ?t (tm_ends r)"
    "length (tm_ends r) = 6" using assms unfolding tm_bench_def by blast+
  have "sec \<noteq> []" using b(1) by (simp add: tm_ready_def)
  then have "1 \<le> int (length sec)" by (cases sec) auto
  then have t: "2 \<le> ?t" by (intro default_chain_two) (simp add: LIFETIME_def)
  have e: "tm_ends r \<noteq> []" using b(5) by auto
  have "tm_space ?r = tm_space r" by (simp add: reset_counters_def tm_space_def)
  then have "tm_chain_length ?r = tm_chain_length r" by (rule tm_chain_length_cong) (simp add: reset_counters_def)
  then have r: "tm_ready P sec ?r" "tm_lifetime ?r = LIFETIME" "tm_chain_length ?r = Inr ?t" "tables_ok P sec LIFETIME ?t (tm_ends ?r)"
    "tm_ends ?r = tm_ends r" "probes ?r = 0" "precompute_probes ?r = 0" "same_tables ?r r"
    using b by (simp_all add: reset_counters_def tm_ready_def same_tables_def)
  have "0 \<le> ?t" using t by simp
  from tm_resolve_any [OF r(1-3) this r(4), of now sl pid] obtain r' where
    r': "costs (int (length (tm_ends ?r)) * (?t * ?t)) ?r r'" "2 \<le> ?t \<and> tm_ends ?r \<noteq> [] \<longrightarrow> probes ?r < probes r'"
    and res: "tm_resolve P now sec sl pid ?r = (Inl UnknownPeerError, r') \<or>
     (\<exists>i < length sec. \<exists>e. 0 \<le> e \<and> e < LIFETIME \<and> pseudonym P (snd (sec ! i)) e = pid \<and>
        tm_resolve P now sec sl pid ?r = (if is_stale_epoch sl (fst (sec ! i)) e then Inl (ReplayDetected (fst (sec ! i)) e)
          else Inr (fst (sec ! i), e), r'))" by blast
  have "0 < probes r'" "probes r' \<le> tm_bound (length sec)" "precompute_probes r' = 0" "same_tables r' r"
    using r' r t e b(5) same_tables_trans [of r' ?r r] by (auto simp: costs_def tm_bound_def)
  with res show ?thesis by blast
qed

lemma tm_bench_next:
  assumes "tm_bench P E sec k nxt sl r" "same_tables r' r"
    and "\<forall>p \<in> fst ` set sec. \<exists>e. nxt' p = Some e \<and> 0 \<le> e \<and> last_epoch sl' p \<le> e \<and> e + int k' < E"
  shows "tm_bench P E sec k' nxt' sl' r'"
proof -
  have "tm_space r' = tm_space r" using assms(2) by (simp add: same_tables_def tm_space_def)
  then have "tm_chain_length r' = tm_chain_length r" using assms(2) by (intro tm_chain_length_cong) (simp_all add: same_tables_def)
  moreover have "tm_ready P sec r' = tm_ready P sec r" by (rule tm_ready_same [OF assms(2)])
  ultimately show ?thesis using assms by (simp add: tm_bench_def same_tables_def)
qed

text \<open>One honest sample: a hit is the right device and epoch, and is accepted; else it is a miss.\<close>

lemma tm_sample:
  assumes ok: "enrolment_ok P sec E" and L: "LIFETIME \<le> E" and b: "tm_bench P E sec (Suc k) nxt sl r" and p: "p \<in> fst ` set sec"
  shows "\<exists>e missed r' sl'. nxt p = Some e \<and> sample_once P now time_memory_ops sec p (e + 1) n sl (reset_counters r) = (Inr missed, r', sl') \<and>
    0 < probes r' \<and> probes r' \<le> tm_bound (length sec) \<and> precompute_probes r' = 0 \<and> tm_bench P E sec k (nxt(p \<mapsto> e + 1)) sl' r' \<and>
    (LIFETIME \<le> e + 1 \<longrightarrow> missed)"
proof -
  have v: "valid_peers sec" "no_collisions P sec E" "E \<le> 256 ^ 8" using ok by (simp_all add: enrolment_ok_def)
  from name_pos_split [OF v(1) p] obtain lam where lam: "(p, lam) \<in> set sec" "map_of sec p = Some lam" by metis
  from b p obtain e where e: "nxt p = Some e" "0 \<le> e" "last_epoch sl p \<le> e" "e + int (Suc k) < E" unfolding tm_bench_def by blast
  have e1: "0 \<le> e + 1" "e + 1 < E" using e by simp_all
  let ?pid = "pseudonym P lam (e + 1)"
  have "valid_epoch (e + 1)" using e1 order.strict_trans2 [OF e1(2) v(3)] by (simp add: valid_epoch_def)
  moreover have "valid_lam lam" using v(1) lam(1) by (auto simp: valid_peers_def)
  ultimately have h: "h2_pseudonym P lam (e + 1) = Inr ?pid" by (simp add: h2_pseudonym_valid)
  from tm_bench_lookup [OF b, of now ?pid] obtain r' where
    c: "0 < probes r'" "probes r' \<le> tm_bound (length sec)" "precompute_probes r' = 0" and s: "same_tables r' r"
    and res: "tm_resolve P now sec sl ?pid (reset_counters r) = (Inl UnknownPeerError, r') \<or>
     (\<exists>i < length sec. \<exists>e'. 0 \<le> e' \<and> e' < LIFETIME \<and> pseudonym P (snd (sec ! i)) e' = ?pid \<and>
        tm_resolve P now sec sl ?pid (reset_counters r) =
          (if is_stale_epoch sl (fst (sec ! i)) e' then Inl (ReplayDetected (fst (sec ! i)) e') else Inr (fst (sec ! i), e'), r'))" by blast
  have ahead: "\<exists>d. (nxt(p \<mapsto> e + 1)) q = Some d \<and> 0 \<le> d \<and> last_epoch sl q \<le> d \<and> d + int k < E" if "q \<in> fst ` set sec" for q
  proof (cases "q = p")
    case False
    from b that obtain d where "nxt q = Some d" "0 \<le> d" "last_epoch sl q \<le> d" "d + int (Suc k) < E" unfolding tm_bench_def by blast
    with False show ?thesis by auto
  qed (use e in auto)
  from res show ?thesis
  proof
    assume m: "tm_resolve P now sec sl ?pid (reset_counters r) = (Inl UnknownPeerError, r')"
    have "sample_once P now time_memory_ops sec p (e + 1) n sl (reset_counters r) = (Inr True, r', sl)"
      by (simp add: sample_once_def lam h m time_memory_ops_def)
    moreover have "tm_bench P E sec k (nxt(p \<mapsto> e + 1)) sl r'" by (rule tm_bench_next [OF b s]) (use ahead in blast)
    ultimately show ?thesis using c e(1) by blast
  next
    assume "\<exists>i < length sec. \<exists>e'. 0 \<le> e' \<and> e' < LIFETIME \<and> pseudonym P (snd (sec ! i)) e' = ?pid \<and>
        tm_resolve P now sec sl ?pid (reset_counters r) =
          (if is_stale_epoch sl (fst (sec ! i)) e' then Inl (ReplayDetected (fst (sec ! i)) e') else Inr (fst (sec ! i), e'), r')"
    then obtain i e' where i: "i < length sec" "0 \<le> e'" "e' < LIFETIME" "pseudonym P (snd (sec ! i)) e' = ?pid"
      and r: "tm_resolve P now sec sl ?pid (reset_counters r) =
          (if is_stale_epoch sl (fst (sec ! i)) e' then Inl (ReplayDetected (fst (sec ! i)) e') else Inr (fst (sec ! i), e'), r')" by blast
    have mem: "(fst (sec ! i), snd (sec ! i)) \<in> set sec" using i(1) by simp
    have "e' < E" using i(3) L by simp
    from no_collisionsD [OF v(2) mem lam(1) i(2) this e1 i(4)] have same: "fst (sec ! i) = p" "e' = e + 1" by simp_all
    have "\<not> is_stale_epoch sl p (e + 1)" using e(3) by (simp add: is_stale_epoch_def)
    with r same have hit: "tm_resolve P now sec sl ?pid (reset_counters r) = (Inr (p, e + 1), r')" by simp
    let ?sl = "accept_epoch sl p (e + 1)"
    have "sample_once P now time_memory_ops sec p (e + 1) n sl (reset_counters r) = (Inr False, r', ?sl)"
      by (rule sample_once_hit [OF lam(2) h]) (simp_all add: time_memory_ops_def hit base_accept_def)
    moreover have "last_epoch ?sl q = (if q = p then e + 1 else last_epoch sl q)" for q
      using e(3) by (auto simp: accept_epoch_def last_epoch_def)
    then have "tm_bench P E sec k (nxt(p \<mapsto> e + 1)) ?sl r'"
      by (intro tm_bench_next [OF b s]) (use ahead in fastforce)
    moreover have "\<not> LIFETIME \<le> e + 1" using i(3) same(2) by simp
    ultimately show ?thesis using c e(1) by blast
  qed
qed

lemma tm_honest_loop:
  assumes ok: "enrolment_ok P sec E" and L: "LIFETIME \<le> E"
  shows "tm_bench P E sec (length draws + k) nxt sl r \<Longrightarrow> \<forall>d \<in> set draws. fst d \<in> fst ` set sec \<Longrightarrow>
    \<exists>honest misses r' sl' nxt'. honest_loop P now time_memory_ops sec tm_epoch draws nxt sl r = (Inr (honest, misses), r', sl') \<and>
      length honest = length draws \<and> (\<forall>h \<in> set honest. 0 < h \<and> h \<le> tm_bound (length sec)) \<and>
      0 \<le> misses \<and> misses \<le> int (length draws) \<and> tm_bench P E sec k nxt' sl' r'"
proof (induction draws arbitrary: nxt sl r)
  case Nil
  then show ?case by auto
next
  case (Cons d draws)
  obtain p n where d: "d = (p, n)" by (cases d)
  have p: "p \<in> fst ` set sec" using Cons.prems(2) d by simp
  have b: "tm_bench P E sec (Suc (length draws + k)) nxt sl r" using Cons.prems(1) by simp
  from tm_sample [OF ok L b p, of now n] obtain e missed r1 sl1 where
    s: "nxt p = Some e" "sample_once P now time_memory_ops sec p (e + 1) n sl (reset_counters r) = (Inr missed, r1, sl1)"
      "0 < probes r1" "probes r1 \<le> tm_bound (length sec)" "precompute_probes r1 = 0"
    and b1: "tm_bench P E sec (length draws + k) (nxt(p \<mapsto> e + 1)) sl1 r1" by blast
  have "\<forall>d \<in> set draws. fst d \<in> fst ` set sec" using Cons.prems(2) by simp
  from Cons.IH [OF b1 this] obtain honest misses r2 sl2 nxt2 where
    l: "honest_loop P now time_memory_ops sec tm_epoch draws (nxt(p \<mapsto> e + 1)) sl1 r1 = (Inr (honest, misses), r2, sl2)"
      "length honest = length draws" "\<forall>h \<in> set honest. 0 < h \<and> h \<le> tm_bound (length sec)" "0 \<le> misses" "misses \<le> int (length draws)"
      "tm_bench P E sec k nxt2 sl2 r2" by blast
  let ?h = "probes r1 + precompute_probes r1" and ?m = "(if missed then 1 else 0) + misses"
  have "honest_loop P now time_memory_ops sec tm_epoch (d # draws) nxt sl r = (Inr (?h # honest, ?m), r2, sl2)"
    using s(1,2) l(1) by (simp add: d tm_epoch_def)
  moreover have "length (?h # honest) = length (d # draws)" "\<forall>h \<in> set (?h # honest). 0 < h \<and> h \<le> tm_bound (length sec)"
    "0 \<le> ?m" "?m \<le> int (length (d # draws))" using s(3-5) l(2-5) by simp_all
  ultimately show ?case using l(6) by blast
qed

text \<open>
  A single device runs past its lifetime: every draw beyond it is a miss, which is what the script measures
  at one device, where two hundred draws start below sixty-four.
\<close>

lemma one_device_misses:
  assumes ok: "enrolment_ok P [(p, lam)] E" and L: "LIFETIME \<le> E"
  shows "tm_bench P E [(p, lam)] (length draws) nxt sl r \<Longrightarrow> \<forall>d \<in> set draws. fst d = p \<Longrightarrow> nxt p = Some e \<Longrightarrow>
    honest_loop P now time_memory_ops [(p, lam)] tm_epoch draws nxt sl r = (Inr (honest, misses), s) \<Longrightarrow>
    min (int (length draws)) (e + int (length draws) + 1 - LIFETIME) \<le> misses"
proof (induction draws arbitrary: nxt sl r e honest misses)
  case Nil
  then show ?case by simp
next
  case (Cons d draws)
  obtain n where d: "d = (p, n)" using Cons.prems(2) by (cases d) simp
  have b: "tm_bench P E [(p, lam)] (Suc (length draws)) nxt sl r" and p: "p \<in> fst ` set [(p, lam)]" using Cons.prems(1) by simp_all
  from tm_sample [OF ok L b p, of now n] Cons.prems(3) obtain missed r1 sl1 where
    s: "sample_once P now time_memory_ops [(p, lam)] p (e + 1) n sl (reset_counters r) = (Inr missed, r1, sl1)" "LIFETIME \<le> e + 1 \<longrightarrow> missed"
    and b1: "tm_bench P E [(p, lam)] (length draws) (nxt(p \<mapsto> e + 1)) sl1 r1" by auto
  have te: "tm_epoch nxt sl p = Inr (e + 1, nxt(p \<mapsto> e + 1))" using Cons.prems(3) by (simp add: tm_epoch_def)
  from Cons.prems(4) s(1) obtain honest' misses' where
    l: "honest_loop P now time_memory_ops [(p, lam)] tm_epoch draws (nxt(p \<mapsto> e + 1)) sl1 r1 = (Inr (honest', misses'), s)"
      "misses = (if missed then 1 else 0) + misses'" by (auto simp: d te split: prod.splits sum.splits)
  have "\<forall>d \<in> set draws. fst d = p" using Cons.prems(2) by simp
  from Cons.IH [OF b1 this _ l(1), of "e + 1"] s(2) show ?case unfolding l(2) by (auto split: if_splits)
qed

lemma tm_forged_loop:
  assumes L: "LIFETIME \<le> E"
  shows "tm_bench P E sec k nxt sl r \<Longrightarrow> \<forall>pid \<in> set pids. unenrolled P sec E pid \<Longrightarrow>
    \<exists>forged r'. forged_loop P now time_memory_ops sec pids sl r = (Inr forged, r') \<and> length forged = length pids \<and>
      (\<forall>h \<in> set forged. 0 < h \<and> h \<le> tm_bound (length sec)) \<and> tm_bench P E sec k nxt sl r'"
proof (induction pids arbitrary: r)
  case Nil
  then show ?case by auto
next
  case (Cons pid pids)
  from tm_bench_lookup [OF Cons.prems(1), of now pid] obtain r1 where
    c: "0 < probes r1" "probes r1 \<le> tm_bound (length sec)" and s: "same_tables r1 r"
    and res: "tm_resolve P now sec sl pid (reset_counters r) = (Inl UnknownPeerError, r1) \<or>
     (\<exists>i < length sec. \<exists>e. 0 \<le> e \<and> e < LIFETIME \<and> pseudonym P (snd (sec ! i)) e = pid)" by blast
  have "\<not> (\<exists>i < length sec. \<exists>e. 0 \<le> e \<and> e < LIFETIME \<and> pseudonym P (snd (sec ! i)) e = pid)"
    using Cons.prems(2) L by (force simp: unenrolled_def)
  with res have m: "tm_resolve P now sec sl pid (reset_counters r) = (Inl UnknownPeerError, r1)" by blast
  have b1: "tm_bench P E sec k nxt sl r1"
    by (rule tm_bench_next [OF Cons.prems(1) s]) (use Cons.prems(1) in \<open>auto simp: tm_bench_def\<close>)
  from Cons.IH [OF b1] Cons.prems(2) obtain forged r2 where
    "forged_loop P now time_memory_ops sec pids sl r1 = (Inr forged, r2)" "length forged = length pids"
    "\<forall>h \<in> set forged. 0 < h \<and> h \<le> tm_bound (length sec)" "tm_bench P E sec k nxt sl r2" by auto
  with m c show ?case by (auto simp: time_memory_ops_def)
qed

section \<open>The row\<close>

text \<open>Every run of the trade-off: costs positive and bounded, and nothing per epoch or on the air.\<close>

lemma time_memory_measured:
  assumes ok: "enrolment_ok P sec E" and d: "draws_ok P sec E draws pids" and rng: "sample_ok rng"
    and nxt: "\<forall>p \<in> fst ` set sec. \<exists>e. nxt p = Some e \<and> 0 \<le> e \<and> e + int (length draws) < E" and L: "LIFETIME \<le> E"
  shows "\<exists>row. run_time_memory P rng nxt sec draws pids = Inr row \<and> 0 < row_honest_mean row \<and>
    row_honest_max row \<le> tm_bound (length sec) \<and> 0 < row_forged row \<and> row_forged row \<le> of_int (tm_bound (length sec)) \<and>
    0 \<le> row_misses row \<and> row_misses row \<le> int (length draws) \<and> 0 < row_state_bytes row \<and>
    row_epoch_probes row = 0 \<and> row_extra_m1_bits row = 0 \<and>
    row_precompute row = 6 * (min (default_chains (int (length sec) * LIFETIME)) (int (length sec) * LIFETIME) *
      default_chain (int (length sec) * LIFETIME))"
proof -
  let ?sl = "steady_log (map fst sec) (-1)"
  note ne = draws_nonempty [OF d]
  have v: "valid_peers sec" using ok by (simp add: enrolment_ok_def)
  have "0 < LIFETIME" "LIFETIME \<le> 256 ^ 8" by (simp_all add: LIFETIME_def)
  from default_attach [OF v _ rng this, of P 0 ?sl] ne obtain r where
    at: "tm_attach P 0 sec ?sl (new_time_memory LIFETIME 6 None None rng) = (Inr (), r)"
    and r: "tm_ready P sec r" "tm_lifetime r = LIFETIME" "tm_chain_length r = Inr (default_chain (int (length sec) * LIFETIME))"
      "tables_ok P sec LIFETIME (default_chain (int (length sec) * LIFETIME)) (tm_ends r)" "length (tm_ends r) = 6"
    and pre: "precompute_probes r = 6 * (min (default_chains (int (length sec) * LIFETIME)) (int (length sec) * LIFETIME) *
      default_chain (int (length sec) * LIFETIME))" by blast
  have le: "last_epoch ?sl p = -1" for p by simp
  have b: "tm_bench P E sec (length draws + 0) nxt ?sl r" using r nxt unfolding tm_bench_def le by fastforce
  have mem: "\<forall>d \<in> set draws. fst d \<in> fst ` set sec" and un: "\<forall>pid \<in> set pids. unenrolled P sec E pid"
    using d by (simp_all add: draws_ok_def)
  from tm_honest_loop [OF ok L b mem, of 0] obtain honest misses r1 sl1 nxt1 where
    h: "honest_loop P 0 time_memory_ops sec tm_epoch draws nxt ?sl r = (Inr (honest, misses), r1, sl1)" "length honest = length draws"
      "\<forall>h \<in> set honest. 0 < h \<and> h \<le> tm_bound (length sec)" "0 \<le> misses" "misses \<le> int (length draws)" "tm_bench P E sec 0 nxt1 sl1 r1"
    by blast
  from tm_forged_loop [OF L h(6) un, of 0] obtain forged r2 where
    f: "forged_loop P 0 time_memory_ops sec pids sl1 r1 = (Inr forged, r2)" "length forged = length pids"
      "\<forall>h \<in> set forged. 0 < h \<and> h \<le> tm_bound (length sec)" "tm_bench P E sec 0 nxt1 sl1 r2" by blast
  have hf: "honest \<noteq> []" "forged \<noteq> []" using h(2) f(2) ne by auto
  have "tm_peers r2 = map fst sec" using f(4) by (simp add: tm_bench_def tm_ready_def)
  moreover have "0 \<le> (\<Sum>e \<leftarrow> tm_ends r2. int (length e))" by (rule sum_list_nonneg) auto
  moreover have "0 < int (length sec)" using ne by simp
  moreover have "tm_storage_bytes sec r2 = CHAIN_RECORD_BYTES * (\<Sum>e \<leftarrow> tm_ends r2. int (length e)) + COUNTER_BYTES * int (length (tm_peers r2))"
    by (simp add: tm_storage_bytes_def)
  ultimately have st: "0 < tm_storage_bytes sec r2"
    by (simp only: CHAIN_RECORD_BYTES_def COUNTER_BYTES_def length_map)
  have "run_time_memory P rng nxt sec draws pids =
      cost_row_of False honest forged misses (precompute_probes r) 0 (tm_storage_bytes sec r2) 0"
    using at h(1) f(1) by (simp add: run_time_memory_def run_wire_def measure_wire_def time_memory_ops_def)
  moreover have "Max (set honest) \<le> tm_bound (length sec)" using hf h(3) by simp
  ultimately show ?thesis
    using hf h(4,5) st pre mean_within [OF hf(1) h(3)] mean_within [OF hf(2) f(3)] by (simp add: cost_row_of_def)
qed

end
