(* ===== verification/CostRun.thy ===== *)
theory CostRun
  imports CostTradeoff CostModel
begin

text \<open>
  \<^verbatim>\<open>run\<close> and \<^verbatim>\<open>main\<close> of \<^verbatim>\<open>resolution_costs.py\<close>: the measurements of all seven strategies at one number of
  devices, and at every number of the grid, with the summary and the cost model made of them.  What
  \<^verbatim>\<open>rng\<close> and \<^verbatim>\<open>os.urandom\<close> return is the record \<open>run_choices\<close>.
\<close>

section \<open>The script\<close>

definition GRID :: "bool \<Rightarrow> nat list" where
  "GRID quick = (if quick then [1, 10, 100, 500] else [1, 2, 5, 10, 20, 50, 100, 200, 300, 500, 700, 1000, 2000, 5000, 10000])"

definition N_MAX :: nat where
  "N_MAX = 10000"

definition SAMPLES :: "bool \<Rightarrow> nat" where
  "SAMPLES quick = (if quick then 60 else 200)"

definition FORGED :: nat where
  "FORGED = 5"

definition samples_at :: "bool \<Rightarrow> nat \<Rightarrow> nat" where
  "samples_at quick n = (if n \<le> 2000 then SAMPLES quick else SAMPLES quick div 4)"

text \<open>The \<open>k\<close>-th draw and nonce and the \<open>k\<close>-th forged pseudonym of a strategy, and so on.\<close>

record run_choices =
  rc_secret :: "nat \<Rightarrow> bytes"
  rc_draw :: "string \<Rightarrow> nat \<Rightarrow> pystr \<times> bytes"
  rc_pid :: "string \<Rightarrow> nat \<Rightarrow> bytes"
  rc_next :: "pystr \<Rightarrow> int"
  rc_lock :: "nat \<Rightarrow> pystr \<times> urandom"
  rc_lock_forged :: "bytes \<times> bytes"
  rc_leaf :: "nat \<Rightarrow> nat \<times> urandom"
  rc_leaf_forged :: "bytes \<times> bytes"

definition draws_of :: "run_choices \<Rightarrow> string \<Rightarrow> nat \<Rightarrow> (pystr \<times> bytes) list" where
  "draws_of c s k = map (rc_draw c s) [0 ..< k]"

definition pids_of :: "run_choices \<Rightarrow> string \<Rightarrow> bytes list" where
  "pids_of c s = map (rc_pid c s) [0 ..< FORGED]"

definition TREE_SEED :: bytes where
  "TREE_SEED = map word_of_nat (lit ''tree'')"

definition start_epochs :: "run_choices \<Rightarrow> pystr list \<Rightarrow> pystr \<rightharpoonup> int" where
  "start_epochs c names = (\<lambda>p. if p \<in> set names then Some (rc_next c p) else None)"

definition measured_as :: "string \<Rightarrow> nat \<Rightarrow> exn + cost_row \<Rightarrow> exn + measured" where
  "measured_as s n res = map_sum id (\<lambda>row. \<lparr>m_strategy = s, m_n = int n, m_row = row, m_depth = 0\<rparr>) res"

definition measured_tree :: "nat \<Rightarrow> exn + cost_row \<times> nat \<Rightarrow> exn + measured" where
  "measured_tree n res = map_sum id (\<lambda>(row, depth). \<lparr>m_strategy = ''MW'', m_n = int n, m_row = row, m_depth = depth\<rparr>) res"

definition run :: "prims \<Rightarrow> (nat \<Rightarrow> int \<Rightarrow> int \<Rightarrow> int list) \<Rightarrow> bool \<Rightarrow> run_choices \<Rightarrow> nat \<Rightarrow> exn + measured list" where
  "run P rng quick c n =
     (let sec = cost_peers (rc_secret c) n; names = map fst sec; all = SAMPLES quick; some = samples_at quick n
      in map_raise id
        [measured_as ''O1'' n (run_linear P sec (draws_of c ''O1'' some) (pids_of c ''O1'')),
         measured_as ''O2'' n (run_table P sec (draws_of c ''O2'' all) (pids_of c ''O2'')),
         measured_as ''O3'' n (run_clock P sec (draws_of c ''O3'' some) (pids_of c ''O3'')),
         measured_as ''O4'' n (run_clock_table P sec (draws_of c ''O4'' all) (pids_of c ''O4'')),
         measured_as ''TM'' n (run_time_memory P rng (start_epochs c names) sec (draws_of c ''TM'' some) (pids_of c ''TM'')),
         measured_as ''CR'' n (run_lock P sec (map (rc_lock c) [0 ..< some]) (fst (rc_lock_forged c)) (snd (rc_lock_forged c))),
         measured_tree n (run_tree P TREE_SEED names (map (rc_leaf c) [0 ..< all]) (fst (rc_leaf_forged c)) (snd (rc_leaf_forged c)))])"

type_synonym cost_report = "measured list \<times> (rat \<times> (real \<times> real) \<times> (real \<times> real) \<times> int \<times> int) \<times> (string \<times> nat \<times> model_row) list"

definition cost_main ::
  "prims \<Rightarrow> (nat \<Rightarrow> int \<Rightarrow> int \<Rightarrow> int list) \<Rightarrow> bool \<Rightarrow> nat list \<Rightarrow> (nat \<Rightarrow> run_choices) \<Rightarrow> exn + cost_report" where
  "cost_main P rng quick grid ch =
     (case map_raise (\<lambda>n. run P rng quick (ch n) n) grid of
        Inl x \<Rightarrow> Inl x
      | Inr rows \<Rightarrow>
          let ms = concat rows
          in case summary (int (SAMPLES quick)) ms of
               Inl x \<Rightarrow> Inl x
             | Inr s \<Rightarrow> (case cost_model ms N_MAX of Inl x \<Rightarrow> Inl x | Inr model \<Rightarrow> Inr (ms, s, model)))"

section \<open>One number of devices\<close>

text \<open>All epochs that any of the measurements uses are below this.\<close>

definition HORIZON :: int where
  "HORIZON = 512"

text \<open>
  What a run needs of the random values: secrets of 32 bytes without colliding pseudonyms, draws of the
  enrolled devices with fresh nonces, forged values that are nobody's, and no colliding tags.
\<close>

definition run_ok :: "prims \<Rightarrow> bool \<Rightarrow> run_choices \<Rightarrow> nat \<Rightarrow> bool" where
  "run_ok P quick c n \<longleftrightarrow>
     (let sec = cost_peers (rc_secret c) n; some = samples_at quick n
      in 0 < n \<and> (\<forall>i < n. length (rc_secret c i) = 32) \<and> no_collisions P sec HORIZON \<and>
         (\<forall>s \<in> {''O1'', ''O3'', ''TM''}. draws_ok P sec HORIZON (draws_of c s some) (pids_of c s)) \<and>
         (\<forall>s \<in> {''O2'', ''O4''}. draws_ok P sec HORIZON (draws_of c s (SAMPLES quick)) (pids_of c s)) \<and>
         (\<forall>q \<in> set sec. 0 \<le> rc_next c (fst q) \<and> rc_next c (fst q) < LIFETIME div 2) \<and>
         (\<forall>k < some. fst (rc_lock c k) \<in> fst ` set sec \<and> tags_distinct P sec (snd (rc_lock c k) R_BYTES)) \<and>
         forged_lock_tag P sec (fst (rc_lock_forged c)) (snd (rc_lock_forged c)) \<and>
         (case new_key_tree P (map fst sec) (int DELTA) TREE_SEED of
            Inl _ \<Rightarrow> False
          | Inr t \<Rightarrow>
              (\<forall>k < SAMPLES quick. fst (rc_leaf c k) < n \<and> \<not> siblings_collide P (snd (rc_leaf c k) R_BYTES) t) \<and>
              (\<forall>d \<in> set (children_of [] t). node_tag P (fst (rc_leaf_forged c)) t [d] \<noteq> snd (rc_leaf_forged c))))"

text \<open>How far the sample's mean position lets the honest mean of a strategy deviate from its closed form.\<close>

definition deviation :: "bool \<Rightarrow> run_choices \<Rightarrow> nat \<Rightarrow> string \<Rightarrow> rat" where
  "deviation quick c n s =
     (let sec = cost_peers (rc_secret c) n; some = samples_at quick n
      in if s = ''O1'' then of_int W1 * excess sec (map fst (draws_of c s some))
         else if s = ''O3'' then of_int WT * excess sec (map fst (draws_of c s some))
         else if s = ''CR'' then excess sec (map (\<lambda>k. fst (rc_lock c k)) [0 ..< some])
         else 0)"

definition row_good :: "bool \<Rightarrow> run_choices \<Rightarrow> nat \<Rightarrow> measured \<Rightarrow> bool" where
  "row_good quick c n m \<longleftrightarrow>
     (if m_strategy m \<in> set EXACT
      then row_measures (m_strategy m) n (deviation quick c n (m_strategy m)) (m_row m) \<and> max_bound (m_strategy m) (int n) (m_row m)
      else 0 < row_honest_mean (m_row m) \<and> 0 < row_forged (m_row m) \<and>
        (if m_strategy m = ''MW''
         then m_depth m = cost_tree_depth n \<and> check_tree_row (m_row m) (m_depth m) = Inr () \<and>
           row_state_bytes (m_row m) = tree_model_state n \<and> row_extra_m1_bits (m_row m) = tree_model_extra n
         else 0 < row_state_bytes (m_row m) \<and> row_honest_max (m_row m) \<le> tm_bound n \<and> row_forged (m_row m) \<le> of_int (tm_bound n) \<and>
           0 \<le> row_misses (m_row m) \<and> row_misses (m_row m) \<le> int (samples_at quick n)))"

definition RUN_ORDER :: "string list" where
  "RUN_ORDER = [''O1'', ''O2'', ''O3'', ''O4'', ''TM'', ''CR'', ''MW'']"

lemma samples_bound: "samples_at quick n \<le> 200" "SAMPLES quick \<le> 200" "0 < samples_at quick n" "0 < SAMPLES quick"
  by (auto simp: samples_at_def SAMPLES_def)

lemma horizons:
  "k \<le> 200 \<Longrightarrow> STEADY + int k + FORWARD < HORIZON" "STEADY + 1 < HORIZON" "STEADY + 2 < HORIZON" "HORIZON \<le> 256 ^ 8" "LIFETIME \<le> HORIZON"
  by (simp_all add: STEADY_def FORWARD_def HORIZON_def LIFETIME_def)

lemma run_rows:
  assumes ok: "run_ok P quick c n" and rng: "sample_ok rng"
  shows "\<exists>rows. run P rng quick c n = Inr rows \<and> map m_strategy rows = RUN_ORDER \<and> (\<forall>m \<in> set rows. m_n m = int n \<and> row_good quick c n m)"
proof -
  define sec where "sec = cost_peers (rc_secret c) n"
  let ?some = "samples_at quick n" and ?all = "SAMPLES quick"
  have len: "length sec = n" by (simp add: sec_def)
  have n: "0 < n" and secret: "\<forall>i < n. length (rc_secret c i) = 32" and nc: "no_collisions P sec HORIZON"
    and some: "\<forall>s \<in> {''O1'', ''O3'', ''TM''}. draws_ok P sec HORIZON (draws_of c s ?some) (pids_of c s)"
    and all: "\<forall>s \<in> {''O2'', ''O4''}. draws_ok P sec HORIZON (draws_of c s ?all) (pids_of c s)"
    and nxt: "\<forall>q \<in> set sec. 0 \<le> rc_next c (fst q) \<and> rc_next c (fst q) < LIFETIME div 2"
    and lock: "\<forall>k < ?some. fst (rc_lock c k) \<in> fst ` set sec \<and> tags_distinct P sec (snd (rc_lock c k) R_BYTES)"
      "forged_lock_tag P sec (fst (rc_lock_forged c)) (snd (rc_lock_forged c))"
    using ok by (auto simp: run_ok_def Let_def sec_def)
  from ok obtain t where t: "new_key_tree P (map fst sec) (int DELTA) TREE_SEED = Inr t"
    "\<forall>k < ?all. fst (rc_leaf c k) < n \<and> \<not> siblings_collide P (snd (rc_leaf c k) R_BYTES) t"
    "\<forall>d \<in> set (children_of [] t). node_tag P (fst (rc_leaf_forged c)) t [d] \<noteq> snd (rc_leaf_forged c)"
    by (auto simp: run_ok_def Let_def sec_def split: sum.splits)
  have en: "enrolment_ok P sec HORIZON" using cost_peers_enrolment [OF secret] nc horizons(4) by (simp add: sec_def)
  then have v: "valid_peers sec" by (simp add: enrolment_ok_def)
  have ld: "length (draws_of c s k) = k" for s k by (simp add: draws_of_def)
  note b = samples_bound(1,3) [of quick n] samples_bound(2,4) [of quick]
  have hz: "STEADY + int (length (draws_of c s k)) + FORWARD < HORIZON" if "k \<le> 200" for s k
    unfolding ld by (rule horizons(1) [OF that])
  from linear_measured [OF en _ hz [OF b(1)], of "''O1''" "pids_of c ''O1''"] some obtain o1 where
    o1: "run_linear P sec (draws_of c ''O1'' ?some) (pids_of c ''O1'') = Inr o1"
      "row_good quick c n \<lparr>m_strategy = ''O1'', m_n = int n, m_row = o1, m_depth = 0\<rparr>"
    by (auto simp: row_good_def EXACT_def deviation_def len sec_def)
  from table_measured [OF en _ hz [OF b(3)], of "''O2''" "pids_of c ''O2''"] all obtain o2 where
    o2: "run_table P sec (draws_of c ''O2'' ?all) (pids_of c ''O2'') = Inr o2"
      "row_good quick c n \<lparr>m_strategy = ''O2'', m_n = int n, m_row = o2, m_depth = 0\<rparr>"
    by (auto simp: row_good_def EXACT_def deviation_def len sec_def)
  from clock_measured [OF en _ horizons(2), of "draws_of c ''O3'' ?some" "pids_of c ''O3''"] some obtain o3 where
    o3: "run_clock P sec (draws_of c ''O3'' ?some) (pids_of c ''O3'') = Inr o3"
      "row_good quick c n \<lparr>m_strategy = ''O3'', m_n = int n, m_row = o3, m_depth = 0\<rparr>"
    by (auto simp: row_good_def EXACT_def deviation_def len sec_def)
  from clock_table_measured [OF en _ horizons(3), of "draws_of c ''O4'' ?all" "pids_of c ''O4''"] all obtain o4 where
    o4: "run_clock_table P sec (draws_of c ''O4'' ?all) (pids_of c ''O4'') = Inr o4"
      "row_good quick c n \<lparr>m_strategy = ''O4'', m_n = int n, m_row = o4, m_depth = 0\<rparr>"
    by (auto simp: row_good_def EXACT_def deviation_def len sec_def)
  have start: "\<forall>p \<in> fst ` set sec. \<exists>e. start_epochs c (map fst sec) p = Some e \<and> 0 \<le> e \<and> e + int (length (draws_of c ''TM'' ?some)) < HORIZON"
  proof
    fix p assume p: "p \<in> fst ` set sec"
    then have "0 \<le> rc_next c p" "rc_next c p < 64" using nxt by (auto simp: LIFETIME_def)
    with p b(1) show "\<exists>e. start_epochs c (map fst sec) p = Some e \<and> 0 \<le> e \<and> e + int (length (draws_of c ''TM'' ?some)) < HORIZON"
      by (auto simp: start_epochs_def ld HORIZON_def)
  qed
  from time_memory_measured [OF en _ rng start horizons(5), of "pids_of c ''TM''"] some obtain tm where
    tm: "run_time_memory P rng (start_epochs c (map fst sec)) sec (draws_of c ''TM'' ?some) (pids_of c ''TM'') = Inr tm"
      "row_good quick c n \<lparr>m_strategy = ''TM'', m_n = int n, m_row = tm, m_depth = 0\<rparr>"
    by (auto simp: row_good_def EXACT_def len ld)
  have "map (rc_lock c) [0 ..< ?some] \<noteq> []" "\<forall>d \<in> set (map (rc_lock c) [0 ..< ?some]). fst d \<in> fst ` set sec"
    "\<forall>d \<in> set (map (rc_lock c) [0 ..< ?some]). tags_distinct P sec (snd d R_BYTES)" using lock(1) b(2) by auto
  from lock_measured [OF v this lock(2)] obtain cr where
    cr: "run_lock P sec (map (rc_lock c) [0 ..< ?some]) (fst (rc_lock_forged c)) (snd (rc_lock_forged c)) = Inr cr"
      "row_good quick c n \<lparr>m_strategy = ''CR'', m_n = int n, m_row = cr, m_depth = 0\<rparr>"
    by (auto simp: row_good_def EXACT_def deviation_def len sec_def comp_def)
  have ne: "map fst sec \<noteq> []" "map (rc_leaf c) [0 ..< ?all] \<noteq> []" using n len b(4) by auto
  have "\<forall>d \<in> set (map (rc_leaf c) [0 ..< ?all]). fst d < length (map fst sec) \<and> \<not> siblings_collide P (snd d R_BYTES) t"
    using t(2) by (auto simp: len)
  from tree_row [OF t(1) ne this t(3)] obtain mw where
    mw: "run_tree P TREE_SEED (map fst sec) (map (rc_leaf c) [0 ..< ?all]) (fst (rc_leaf_forged c)) (snd (rc_leaf_forged c)) =
        Inr (mw, cost_tree_depth n)"
      "row_good quick c n \<lparr>m_strategy = ''MW'', m_n = int n, m_row = mw, m_depth = cost_tree_depth n\<rparr>"
    by (auto simp: row_good_def EXACT_def check_tree_row_def len)
  show ?thesis
    using o1 o2 o3 o4 tm cr mw
    by (simp add: run_def Let_def RUN_ORDER_def measured_as_def measured_tree_def flip: sec_def)
qed

section \<open>The grid\<close>

text \<open>What the script's grids have: increasing sizes from one on, some of them large enough for the ratios.\<close>

definition good_grid :: "nat list \<Rightarrow> bool" where
  "good_grid grid \<longleftrightarrow> sorted_wrt (<) grid \<and> 2 \<le> length grid \<and> hd grid = 1 \<and> (\<exists>n \<in> set grid. 10 \<le> n)"

lemma script_grid_good: "good_grid (GRID quick)"
  by (simp add: good_grid_def GRID_def)

definition rows_good :: "bool \<Rightarrow> (nat \<Rightarrow> run_choices) \<Rightarrow> nat \<Rightarrow> measured list \<Rightarrow> bool" where
  "rows_good quick ch n rows \<longleftrightarrow> map m_strategy rows = RUN_ORDER \<and> (\<forall>m \<in> set rows. m_n m = int n \<and> row_good quick (ch n) n m)"

lemma grid_rows:
  assumes "\<forall>n \<in> set grid. run_ok P quick (ch n) n" "sample_ok rng"
  shows "\<exists>rss. map_raise (\<lambda>n. run P rng quick (ch n) n) grid = Inr rss \<and> list_all2 (rows_good quick ch) grid rss"
  using assms(1)
proof (induction grid)
  case (Cons n grid)
  from run_rows [of P quick "ch n" n rng] Cons.prems assms(2) obtain rows where
    "run P rng quick (ch n) n = Inr rows" "rows_good quick ch n rows" by (auto simp: rows_good_def)
  with Cons show ?case by auto
qed simp

text \<open>Every strategy has one row per size.\<close>

lemma filter_one:
  "distinct (map f xs) \<Longrightarrow> s \<in> f ` set xs \<Longrightarrow> \<exists>m \<in> set xs. f m = s \<and> filter (\<lambda>x. f x = s) xs = [m]"
proof (induction xs)
  case (Cons x xs)
  show ?case
  proof (cases "f x = s")
    case True
    with Cons.prems have "\<forall>y \<in> set xs. f y \<noteq> s" by (auto simp: image_iff)
    then have "filter (\<lambda>x. f x = s) xs = []" by (simp add: filter_empty_conv)
    with True show ?thesis by simp
  next
    case False
    with Cons show ?thesis by auto
  qed
qed simp

lemma strategy_rows:
  assumes "list_all2 (rows_good quick ch) grid rss" "s \<in> set RUN_ORDER"
  shows "list_all2 (\<lambda>n m. m_strategy m = s \<and> m_n m = int n \<and> row_good quick (ch n) n m) grid (filter (\<lambda>r. m_strategy r = s) (concat rss))"
  using assms(1)
proof (induction rule: list_all2_induct)
  case (Cons n grid rows rss)
  have o: "map m_strategy rows = RUN_ORDER" and g: "\<forall>m \<in> set rows. m_n m = int n \<and> row_good quick (ch n) n m"
    using Cons.hyps(1) by (simp_all add: rows_good_def)
  have "distinct (map m_strategy rows)" unfolding o by (simp add: RUN_ORDER_def)
  moreover have "s \<in> m_strategy ` set rows" using assms(2) o by (metis set_map)
  ultimately obtain m where "m \<in> set rows" "m_strategy m = s" "filter (\<lambda>r. m_strategy r = s) rows = [m]" using filter_one by metis
  with g Cons.IH show ?case by simp
qed simp

lemma sorted_by_fst: "sorted_wrt (\<lambda>p q :: int \<times> real. fst p < fst q) pts \<Longrightarrow> sort pts = pts"
  by (intro sorted_sort_id) (auto simp: less_eq_prod_def elim!: sorted_wrt_mono_rel [rotated])

lemma points_good:
  assumes grid: "good_grid grid" and rows: "list_all2 (\<lambda>n m. m_n m = int n \<and> 0 < g (m_row m)) grid (filter (\<lambda>r. m_strategy r = s) ms)"
    and col: "\<And>row. column key row = Some (g row)"
  shows "\<exists>pts. points ms s key = Some pts \<and> good_points pts \<and> fst (hd pts) = 1"
proof -
  let ?fs = "filter (\<lambda>r. m_strategy r = s) ms" and ?pts = "map (\<lambda>r. (m_n r, g (m_row r))) (filter (\<lambda>r. m_strategy r = s) ms)"
  have len: "length ?fs = length grid" and nth: "\<And>i. i < length grid \<Longrightarrow> m_n (?fs ! i) = int (grid ! i) \<and> 0 < g (m_row (?fs ! i))"
    using rows by (simp_all add: list_all2_conv_all_nth)
  have g: "sorted_wrt (<) grid" "2 \<le> length grid" "hd grid = 1" using grid by (simp_all add: good_grid_def)
  have srt: "sorted_wrt (\<lambda>p q. fst p < fst q) ?pts" using g(1) nth len by (simp add: sorted_wrt_iff_nth_less)
  have "1 \<le> grid ! i" if "i < length grid" for i
  proof (cases i)
    case 0
    with g(2,3) show ?thesis by (cases grid) auto
  next
    case (Suc j)
    with g(1) that have "grid ! 0 < grid ! i" by (simp add: sorted_wrt_iff_nth_less)
    then show ?thesis by simp
  qed
  then have "1 \<le> fst p \<and> 0 < snd p" if "p \<in> set ?pts" for p
  proof -
    from that obtain m where m: "m \<in> set ?fs" "p = (m_n m, g (m_row m))" by auto
    from m(1) obtain i where "i < length grid" "m = ?fs ! i" using len by (metis in_set_conv_nth)
    with nth [of i] m(2) \<open>\<And>i. i < length grid \<Longrightarrow> 1 \<le> grid ! i\<close> [of i] show ?thesis by simp
  qed
  then have "good_points ?pts" using srt g(2) len unfolding good_points_def by auto
  moreover have "those (map (\<lambda>r. map_option (Pair (m_n r)) (column key (m_row r))) fs) = Some (map (\<lambda>r. (m_n r, g (m_row r))) fs)" for fs
    by (induction fs) (simp_all add: col)
  from this [of ?fs] have "points ms s key = Some ?pts" by (simp only: points_def option.map sorted_by_fst [OF srt])
  moreover have "hd ?pts = ?pts ! 0" "0 < length grid" using g(2) len by (cases ?fs; auto)+
  then have "fst (hd ?pts) = 1" using nth [of 0] g(2,3) len by (simp add: hd_conv_nth)
  ultimately show ?thesis by blast
qed

lemma rows_model_ready:
  assumes "good_grid grid" "list_all2 (rows_good quick ch) grid rss"
  shows "model_ready (concat rss)"
proof -
  have pos: "list_all2 (\<lambda>n m. m_n m = int n \<and> 0 < g (m_row m)) grid (filter (\<lambda>r. m_strategy r = s) (concat rss))"
    if "s \<in> {''TM'', ''MW''}" "\<And>quick c n m. m_strategy m = s \<Longrightarrow> row_good quick c n m \<Longrightarrow> 0 < g (m_row m)" for s and g :: "cost_row \<Rightarrow> real"
  proof (rule list_all2_mono [OF strategy_rows [OF assms(2)]])
    show "s \<in> set RUN_ORDER" using that(1) by (auto simp: RUN_ORDER_def)
  qed (use that(2) in blast)
  have tm: "list_all2 (\<lambda>n m. m_n m = int n \<and> 0 < real_of_rat (row_honest_mean (m_row m))) grid (filter (\<lambda>r. m_strategy r = ''TM'') (concat rss))"
    "list_all2 (\<lambda>n m. m_n m = int n \<and> 0 < real_of_rat (row_forged (m_row m))) grid (filter (\<lambda>r. m_strategy r = ''TM'') (concat rss))"
    "list_all2 (\<lambda>n m. m_n m = int n \<and> 0 < real_of_int (row_state_bytes (m_row m))) grid (filter (\<lambda>r. m_strategy r = ''TM'') (concat rss))"
    and mw: "list_all2 (\<lambda>n m. m_n m = int n \<and> 0 < real_of_rat (row_honest_mean (m_row m))) grid (filter (\<lambda>r. m_strategy r = ''MW'') (concat rss))"
    "list_all2 (\<lambda>n m. m_n m = int n \<and> 0 < real_of_rat (row_forged (m_row m))) grid (filter (\<lambda>r. m_strategy r = ''MW'') (concat rss))"
    by (rule pos; simp add: row_good_def EXACT_def)+
  have c: "column ''honest_mean'' row = Some (real_of_rat (row_honest_mean row))" "column ''forged'' row = Some (real_of_rat (row_forged row))"
    "column ''state_bytes'' row = Some (real_of_int (row_state_bytes row))" for row
    by (simp_all add: column_def)
  from points_good [OF assms(1) tm(1) c(1)] points_good [OF assms(1) tm(2) c(2)] points_good [OF assms(1) tm(3) c(3)]
    points_good [OF assms(1) mw(1) c(1)] points_good [OF assms(1) mw(2) c(2)] show ?thesis
    by (simp add: model_ready_def interpolated_def)
qed

section \<open>The whole script\<close>

text \<open>Whether the sampling deviation of a row is one the script tolerates.\<close>

definition in_tolerance :: "bool \<Rightarrow> (nat \<Rightarrow> run_choices) \<Rightarrow> measured \<Rightarrow> bool" where
  "in_tolerance quick ch m \<longleftrightarrow> (m_strategy m \<in> set EXACT \<longrightarrow>
     tolerated (m_strategy m) (deviation quick (ch (nat (m_n m))) (nat (m_n m)) (m_strategy m)) (m_row m))"

lemma check_exact_all:
  assumes "\<forall>r \<in> set ms. m_strategy r \<in> set EXACT \<longrightarrow>
    check_row (m_strategy r) (m_n r) (m_row r) = (if T r then Inr () else Inl AssertionError)"
  shows "if \<forall>r \<in> set ms. m_strategy r \<in> set EXACT \<longrightarrow> T r then \<exists>w'. check_exact ms w = Inr w' else check_exact ms w = Inl AssertionError"
  using assms
proof (induction ms arbitrary: w)
  case (Cons r ms)
  show ?case
  proof (cases "m_strategy r \<in> set EXACT")
    case False
    with Cons show ?thesis by simp
  next
    case True
    then obtain h rest where c: "closed (m_strategy r) (m_n r) = Inr (h, rest)" using closed_exact by (metis obj_sumE surj_pair)
    from Cons.prems True have k: "check_row (m_strategy r) (m_n r) (m_row r) = (if T r then Inr () else Inl AssertionError)" by simp
    have "\<forall>r \<in> set ms. m_strategy r \<in> set EXACT \<longrightarrow>
      check_row (m_strategy r) (m_n r) (m_row r) = (if T r then Inr () else Inl AssertionError)" using Cons.prems by simp
    note IH = Cons.IH [OF this, of "max w (\<bar>row_honest_mean (m_row r) - h\<bar> / max h 1)"]
    from IH k c True show ?thesis by (cases "T r") (simp_all split: if_splits)
  qed
qed simp

lemma check_trees_all:
  "\<forall>r \<in> set ms. m_strategy r = ''MW'' \<longrightarrow> check_tree_row (m_row r) (m_depth r) = Inr () \<Longrightarrow> check_trees ms = Inr ()"
  by (induction ms) auto

lemma good_rows_checked:
  assumes "list_all2 (rows_good quick ch) grid rss" "m \<in> set (concat rss)"
  shows "m_strategy m \<in> set EXACT \<Longrightarrow> check_row (m_strategy m) (m_n m) (m_row m) = (if in_tolerance quick ch m then Inr () else Inl AssertionError)"
    and "m_strategy m = ''MW'' \<Longrightarrow> check_tree_row (m_row m) (m_depth m) = Inr ()"
proof -
  from assms(2) obtain rows where "rows \<in> set rss" "m \<in> set rows" by auto
  with assms(1) obtain n where n: "m_n m = int n" "row_good quick (ch n) n m"
    unfolding list_all2_conv_all_nth rows_good_def by (metis in_set_conv_nth)
  show "check_row (m_strategy m) (m_n m) (m_row m) = (if in_tolerance quick ch m then Inr () else Inl AssertionError)" if e: "m_strategy m \<in> set EXACT"
  proof -
    have g: "row_measures (m_strategy m) n (deviation quick (ch n) n (m_strategy m)) (m_row m)" "max_bound (m_strategy m) (int n) (m_row m)"
      using n(2) e by (simp_all add: row_good_def)
    from row_measures_checked [OF g e] e n(1) show ?thesis by (simp add: in_tolerance_def)
  qed
  show "check_tree_row (m_row m) (m_depth m) = Inr ()" if "m_strategy m = ''MW''"
    using n(2) that unfolding row_good_def by (simp add: EXACT_def del: One_nat_def) metis
qed

text \<open>The summary of good rows fails by a sampling deviation and by nothing else.\<close>

lemma good_summary:
  assumes "good_grid grid" "list_all2 (rows_good quick ch) grid rss"
  shows "if \<forall>m \<in> set (concat rss). in_tolerance quick ch m then \<exists>s. summary samples (concat rss) = Inr s
    else summary samples (concat rss) = Inl AssertionError"
proof -
  let ?ms = "concat rss"
  have k: "\<forall>m \<in> set ?ms. m_strategy m \<in> set EXACT \<longrightarrow>
      check_row (m_strategy m) (m_n m) (m_row m) = (if in_tolerance quick ch m then Inr () else Inl AssertionError)"
    using good_rows_checked(1) [OF assms(2)] by blast
  have w: "(\<forall>m \<in> set ?ms. m_strategy m \<in> set EXACT \<longrightarrow> in_tolerance quick ch m) \<longleftrightarrow> (\<forall>m \<in> set ?ms. in_tolerance quick ch m)"
    by (auto simp: in_tolerance_def)
  note ce = check_exact_all [OF k, of 0, unfolded w]
  have ct: "check_trees ?ms = Inr ()" using good_rows_checked(2) [OF assms(2)] by (intro check_trees_all) blast
  have "\<exists>m. m \<in> set (tm_rows ?ms)"
  proof -
    from assms(1) obtain i where i: "i < length grid" "10 \<le> grid ! i" unfolding good_grid_def by (metis in_set_conv_nth)
    let ?fs = "filter (\<lambda>r. m_strategy r = ''TM'') ?ms"
    have "''TM'' \<in> set RUN_ORDER" by (simp add: RUN_ORDER_def)
    from strategy_rows [OF assms(2) this] i have "i < length ?fs" "10 \<le> m_n (?fs ! i)" by (simp_all add: list_all2_conv_all_nth)
    with nth_mem [of i ?fs] have "?fs ! i \<in> set (tm_rows ?ms)" by (simp add: tm_rows_def del: set_concat)
    then show ?thesis by blast
  qed
  then have "tm_ratios col ?ms \<in> range Inr" for col by (auto simp: tm_ratios_def Let_def)
  then obtain ks km where "tm_ratios (\<lambda>row. of_rat (row_honest_mean row)) ?ms = Inr ks"
    "tm_ratios (\<lambda>row. of_int (row_state_bytes row)) ?ms = Inr km" by (metis imageE)
  with ce ct show ?thesis by (auto simp: summary_def split: if_splits)
qed

end
