(* ===== verification/ToyCostRun.thy ===== *)
theory ToyCostRun
  imports CostRun ToyCosts
begin

text \<open>
  Concrete random values for a whole run of the cost script under the toy primitives: the \<open>i\<close>-th device has
  the secret \<open>i + 1\<close>, every measurement draws the devices in turn, and nothing forged is anyone's.
\<close>

section \<open>Devices\<close>

lemma small_bytes:
  assumes "x < 256"
  shows "be_bytes 32 x = replicate 31 0 @ [word_of_nat x]"
proof -
  have z: "be_bytes n 0 = replicate n 0" for n by (induction n) (simp_all add: replicate_append_same)
  have "be_bytes (Suc 31) x = be_bytes 31 0 @ [word_of_nat x]" using assms by (simp only: be_bytes.simps) simp
  then show ?thesis by (simp add: z)
qed

lemma toy_secrets: "i < 255 \<Longrightarrow> int_from_bytes (toy_secret i) = int (Suc i)"
  using small_bytes [of "Suc i"] int_from_be_bytes [of "Suc i" 32] by (simp add: toy_secret_def)

definition toy_devices :: "nat \<Rightarrow> peers" where
  "toy_devices n = cost_peers toy_secret n"

lemma toy_devices_eq: "n \<le> 10 \<Longrightarrow> toy_devices n = map (\<lambda>i. (device_name i, int (Suc i))) [0 ..< n]"
  by (auto simp: toy_devices_def cost_peers_def toy_secrets)

lemma small_pseudonym:
  assumes "i < 255"
  shows "pseudonym toy (int (Suc i)) e = replicate 23 0 @ word_of_nat (Suc i) # be_bytes 8 (nat e)"
  using small_bytes [of "Suc i"] assms by (simp add: toy_pseudonym drop_Cons' flip: of_nat_Suc)

lemma small_words: "i < 255 \<Longrightarrow> j < 255 \<Longrightarrow> (word_of_nat (Suc i) :: 8 word) = word_of_nat (Suc j) \<longleftrightarrow> i = j"
proof -
  assume "i < 255" "j < 255"
  then have "unat (word_of_nat (Suc i) :: 8 word) = Suc i" "unat (word_of_nat (Suc j) :: 8 word) = Suc j"
    by (simp_all add: unat_of_nat del: of_nat_Suc)
  then show ?thesis by (metis nat.inject)
qed

lemma toy_devices_distinct: "n \<le> 10 \<Longrightarrow> E \<le> 256 ^ 8 \<Longrightarrow> no_collisions toy (toy_devices n) E"
proof -
  assume n: "n \<le> 10" and E: "E \<le> 256 ^ 8"
  have one: "distinct (map (pseudonym toy lam) [0 .. E - 1])" for lam
    using toy_no_collisions [OF E, of undefined lam] by (simp add: no_collisions_def)
  have "no_collisions toy (map (\<lambda>i. (device_name i, int (Suc i))) is) E" if "distinct is" "\<forall>i \<in> set is. i < 255" for "is"
    using that
  proof (induction "is")
    case Nil
    then show ?case by (simp add: no_collisions_def)
  next
    case (Cons i js)
    have "pseudonym toy (int (Suc i)) e \<noteq> pseudonym toy (int (Suc j)) f" if "j \<in> set js" for j e f
    proof -
      have "i < 255" "j < 255" "i \<noteq> j" using Cons.prems that by auto
      with small_words [of i j] show ?thesis unfolding small_pseudonym [OF \<open>i < 255\<close>] small_pseudonym [OF \<open>j < 255\<close>]
        by (simp del: of_nat_Suc)
    qed
    with Cons one [of "int (Suc i)"] show ?case by (auto simp: no_collisions_Cons simp del: of_nat_Suc)
  qed
  from this [of "[0 ..< n]"] n show ?thesis by (simp add: toy_devices_eq)
qed

lemma toy_unenrolled: "n \<le> 10 \<Longrightarrow> unenrolled toy (toy_devices n) E toy_forged"
proof -
  assume n: "n \<le> 10"
  have "pseudonym toy (int (Suc i)) e \<noteq> toy_forged" if "i < 255" for i e
  proof -
    have "(replicate 23 0 @ word_of_nat (Suc i) # be_bytes 8 (nat e)) ! 0 = (0 :: 8 word)" by (simp only: nth_append) simp
    moreover have "toy_forged ! 0 = 255" "(0 :: 8 word) \<noteq> 255" by (simp_all add: toy_forged_def)
    ultimately show ?thesis unfolding small_pseudonym [OF that] by metis
  qed
  with n show ?thesis by (auto simp: unenrolled_def toy_devices_eq simp del: of_nat_Suc)
qed

section \<open>The hash lock\<close>

lemma small_lock_key: "i < 255 \<Longrightarrow> lock_key (int (Suc i)) = replicate 31 0 @ [word_of_nat (Suc i)]"
  using small_bytes [of "Suc i"] by (simp add: lock_key_def nat_int del: of_nat_Suc)

lemma toy_devices_tags: "n \<le> 10 \<Longrightarrow> tags_distinct toy (toy_devices n) (zeros R_BYTES)"
proof -
  assume n: "n \<le> 10"
  have "keyed_hash toy (lock_key (int (Suc i))) (zeros R_BYTES) = keyed_hash toy (lock_key (int (Suc j))) (zeros R_BYTES) \<longleftrightarrow> i = j"
    if "i < 255" "j < 255" for i j
    using small_words [OF that] by (simp add: small_lock_key that toy_keyed_hash zeros_length del: of_nat_Suc)
  then show ?thesis using n by (simp add: tags_distinct_def toy_devices_eq distinct_map inj_on_def comp_def del: of_nat_Suc)
qed

lemma toy_devices_forged: "n \<le> 10 \<Longrightarrow> forged_lock_tag toy (toy_devices n) (zeros R_BYTES) toy_forged"
  by (simp add: forged_lock_tag_def toy_devices_eq toy_hash_forged lock_key_def)

section \<open>The key tree\<close>

text \<open>The key of a node is the hash of the seed and its written form.\<close>

definition keys_hashed :: "prims \<Rightarrow> bytes \<Rightarrow> key_tree \<Rightarrow> bool" where
  "keys_hashed P seed t \<longleftrightarrow> (\<forall>node k. map_of (kt_key t) node = Some k \<longrightarrow> k = p_sha256 P (seed @ map word_of_nat (tuple_repr node)))"

lemma keys_hashed_add: "keys_hashed P seed t \<Longrightarrow> keys_hashed P seed (add_node P seed node t)"
  by (auto simp: keys_hashed_def add_node_def update_conv)

lemma keys_hashed_peer: "keys_hashed P seed t \<Longrightarrow> keys_hashed P seed (add_peer P seed i t)"
proof -
  have "keys_hashed P seed t \<Longrightarrow> keys_hashed P seed (fold (\<lambda>l. add_node P seed (f l)) ls t)" for f :: "nat \<Rightarrow> node" and ls
    by (induction ls arbitrary: t) (simp_all add: keys_hashed_add)
  then show "keys_hashed P seed t \<Longrightarrow> ?thesis" by (simp add: add_peer_def Let_def del: upt_Suc)
qed

lemma new_tree_keys: "new_key_tree P names delta seed = Inr t \<Longrightarrow> keys_hashed P seed t"
proof -
  have f: "keys_hashed P seed (fold (add_peer P seed) is t)" if "keys_hashed P seed t" for "is" t
    using that by (induction "is" arbitrary: t) (simp_all add: keys_hashed_peer)
  have z: "keys_hashed P seed t" if "kt_key t = []" for t using that by (simp add: keys_hashed_def)
  assume "new_key_tree P names delta seed = Inr t"
  then have "t = fold (add_peer P seed) [0 ..< length names] \<lparr>kt_peers = names, kt_delta = nat delta,
      kt_depth = tree_depth (nat delta) (length names), kt_probes = 0, kt_key = [], kt_children = []\<rparr>"
    by (simp add: new_key_tree_def split: if_splits)
  then show ?thesis using f [OF z] by simp
qed

lemma toy_leaf_keys:
  assumes "i < 10"
  shows "length (keep_last 32 (TREE_SEED @ map word_of_nat (tuple_repr [i]))) = 32"
    "keep_last 32 (TREE_SEED @ map word_of_nat (tuple_repr [i])) ! (16 + 13) = word_of_nat (48 + i)"
proof -
  let ?x = "TREE_SEED @ map word_of_nat (tuple_repr [i])"
  have s: "TREE_SEED = [116, 114, 101, 101]" by (simp add: TREE_SEED_def)
  have "nat_digits i = [48 + i]" using assms by (subst nat_digits.simps) simp
  then have r: "tuple_repr [i] = [40, 48 + i, 44, 41]" by (simp add: tuple_repr_def)
  have "map word_of_nat [40, 48 + i, 44, 41] = [40 :: 8 word, word_of_nat (48 + i), 44, 41]" by simp
  then have x: "?x = [116, 114, 101, 101, 40, word_of_nat (48 + i), 44, 41]" unfolding s r by simp
  have "replicate 32 0 @ ?x = replicate 8 0 @ (replicate 24 0 @ ?x)" by (simp only: append_assoc [symmetric] replicate_add [symmetric]) simp
  then have "keep_last 32 ?x = replicate 24 0 @ ?x" unfolding keep_last_def by (simp only: last_n_append length_append length_replicate x) simp
  then show "length (keep_last 32 ?x) = 32" "keep_last 32 ?x ! (16 + 13) = word_of_nat (48 + i)"
    unfolding x by (simp_all add: nth_append del: of_nat_add)
qed

lemma toy_grown_tree:
  assumes n: "0 < n" "n \<le> 10"
  shows "\<exists>t. new_key_tree toy (map fst (toy_devices n)) (int DELTA) TREE_SEED = Inr t \<and> \<not> siblings_collide toy (zeros R_BYTES) t \<and>
    (\<forall>d \<in> set (children_of [] t). node_tag toy (zeros R_BYTES) t [d] \<noteq> toy_forged)"
proof -
  obtain t where t: "new_key_tree toy (map fst (toy_devices n)) (int DELTA) TREE_SEED = Inr t"
    by (simp add: new_key_tree_def DELTA_def)
  have len: "length (map fst (toy_devices n)) = n" by (simp add: toy_devices_def)
  have d: "tree_depth 32 n = 1" using n by (simp add: tree_depth_def ceil_log.simps)
  have nd: "nat (int DELTA) = 32" by (simp add: DELTA_def)
  note ok = new_key_tree_ok [OF t, unfolded len nd]
  have inv: "tree_inv 32 1 (tree_nodes 32 1 {..< n}) t" using ok(5) by (simp only: ok(2,3) d)
  have path: "tree_path 32 1 i = [i]" if "i < n" for i using n that by (simp add: tree_path_def)
  have "node \<in> {[i] | i. i < n}" if "node \<in> tree_nodes 32 1 {..< n}" for node
    using that path by (auto simp: tree_nodes_def le_Suc_eq)
  then have child: "node = [] \<and> c < n" if "c \<in> set (children_of node t)" for node c
    using inv that by (fastforce simp: tree_inv_def)
  have key: "map_of (kt_key t) [c] = Some (keep_last 32 (TREE_SEED @ map word_of_nat (tuple_repr [c])))"
    if "c \<in> set (children_of [] t)" for c
  proof -
    from children_keys [OF inv that] obtain k where k: "map_of (kt_key t) [c] = Some k" by auto
    with new_tree_keys [OF t] show ?thesis by (simp add: keys_hashed_def toy_def)
  qed
  have c10: "c < 10" if "c \<in> set (children_of [] t)" for c using child [OF that] n by simp
  have "\<not> siblings_collide toy (zeros R_BYTES) t"
  proof
    assume "siblings_collide toy (zeros R_BYTES) t"
    then obtain node c e where ce: "c \<noteq> e" "c \<in> set (children_of node t)" "e \<in> set (children_of node t)"
      "node_tag toy (zeros R_BYTES) t (node @ [c]) = node_tag toy (zeros R_BYTES) t (node @ [e])" by (auto simp: siblings_collide_def)
    then have m: "c \<in> set (children_of [] t)" "e \<in> set (children_of [] t)" "node = []" using child by metis+
    have "unat (word_of_nat (48 + c) :: 8 word) = 48 + c" "unat (word_of_nat (48 + e) :: 8 word) = 48 + e"
      using c10 [OF m(1)] c10 [OF m(2)] by (simp_all add: unat_of_nat del: of_nat_add)
    then have "(word_of_nat (48 + c) :: 8 word) \<noteq> word_of_nat (48 + e)" using ce(1) by (metis add_left_cancel)
    with toy_leaf_keys [OF c10 [OF m(1)]] toy_leaf_keys [OF c10 [OF m(2)]]
      toy_hash_differs [of "keep_last 32 (TREE_SEED @ map word_of_nat (tuple_repr [c]))" "keep_last 32 (TREE_SEED @ map word_of_nat (tuple_repr [e]))" 13]
    have "keyed_hash toy (keep_last 32 (TREE_SEED @ map word_of_nat (tuple_repr [c]))) (zeros R_BYTES) \<noteq>
      keyed_hash toy (keep_last 32 (TREE_SEED @ map word_of_nat (tuple_repr [e]))) (zeros R_BYTES)" by simp
    with ce(4) m(3) show False by (simp add: node_tag_def key [OF m(1)] key [OF m(2)])
  qed
  moreover have "node_tag toy (zeros R_BYTES) t [c] \<noteq> toy_forged" if "c \<in> set (children_of [] t)" for c
    using toy_hash_forged [OF toy_leaf_keys(1) [OF c10 [OF that]]] by (simp add: node_tag_def key [OF that])
  ultimately show ?thesis using t by blast
qed

section \<open>The whole run\<close>

definition toy_choices :: "nat \<Rightarrow> run_choices" where
  "toy_choices n = \<lparr>rc_secret = toy_secret, rc_draw = (\<lambda>s k. (device_name (k mod n), be_bytes 16 k)), rc_pid = (\<lambda>s k. toy_forged),
     rc_next = (\<lambda>p. 0), rc_lock = (\<lambda>k. (device_name (k mod n), zeros)), rc_lock_forged = (zeros R_BYTES, toy_forged),
     rc_leaf = (\<lambda>k. (k mod n, zeros)), rc_leaf_forged = (zeros R_BYTES, toy_forged)\<rparr>"

lemma toy_device_mem: "n \<le> 10 \<Longrightarrow> i < n \<Longrightarrow> device_name i \<in> fst ` set (toy_devices n)"
  by (force simp: toy_devices_eq image_iff)

lemma toy_draws_ok:
  assumes "0 < n" "n \<le> 10" "0 < k" "k \<le> 200"
  shows "draws_ok toy (toy_devices n) HORIZON (draws_of (toy_choices n) s k) (pids_of (toy_choices n) s)"
proof -
  have "x = y" if "be_bytes 16 x = be_bytes 16 y" "x < k" "y < k" for x y
    using be_bytes_inject [of "int x" 16 "int y"] that assms(4) by simp
  then have "distinct (map (be_bytes 16) [0 ..< k])" by (simp add: distinct_map inj_on_def)
  then show ?thesis
    using assms toy_unenrolled [OF assms(2)] toy_device_mem [OF assms(2)]
    by (simp add: draws_ok_def draws_of_def pids_of_def toy_choices_def FORGED_def comp_def del: lit_Cons)
qed

lemma toy_run_ok:
  assumes "0 < n" "n \<le> 10"
  shows "run_ok toy quick (toy_choices n) n"
proof -
  from toy_grown_tree [OF assms] obtain t where t: "new_key_tree toy (map fst (toy_devices n)) (int DELTA) TREE_SEED = Inr t"
    "\<not> siblings_collide toy (zeros R_BYTES) t" "\<forall>d \<in> set (children_of [] t). node_tag toy (zeros R_BYTES) t [d] \<noteq> toy_forged" by blast
  have sec: "cost_peers (rc_secret (toy_choices n)) n = toy_devices n" by (simp add: toy_choices_def toy_devices_def)
  show ?thesis
    unfolding run_ok_def sec Let_def
    using assms t toy_devices_distinct [OF assms(2) horizons(4)] toy_devices_tags [OF assms(2)] toy_devices_forged [OF assms(2)]
      toy_draws_ok [OF assms] samples_bound toy_device_mem [OF assms(2)]
    by (simp add: toy_choices_def toy_secret_def LIFETIME_def)
qed

text \<open>Sixty draws in turn of one or ten devices deviate from no closed form.\<close>

lemma toy_excess:
  assumes "n = 1 \<or> n = 10"
  shows "excess (toy_devices n) (map (\<lambda>k. device_name (k mod n)) [0 ..< 60]) = 0"
proof -
  have n: "0 < n" "n \<le> 10" using assms by auto
  then have e: "map (name_pos (toy_devices n)) (map fst (toy_devices n)) = [0 ..< length (toy_devices n)]"
    using name_pos_names [of "toy_devices n"] by (simp add: toy_devices_eq distinct_map inj_on_def device_name_inject comp_def)
  have pos: "name_pos (toy_devices n) (device_name i) = i" if "i < n" for i
    using arg_cong [OF e, of "\<lambda>l. l ! i"] that n by (simp add: toy_devices_eq)
  have "map (\<lambda>p. int (name_pos (toy_devices n) p)) (map (\<lambda>k. device_name (k mod n)) [0 ..< 60]) = map (\<lambda>k. int (k mod n)) [0 ..< 60]"
    using n by (simp add: pos)
  moreover have "sum_list (map (\<lambda>k. int (k mod n)) [0 ..< 60]) = 30 * (int n - 1)"
    using assms by (auto simp: upt_rec)
  ultimately show ?thesis
    using n by (simp add: excess_def mean_def toy_devices_def del: map_map)
qed

lemma toy_deviation: "n = 1 \<or> n = 10 \<Longrightarrow> deviation True (toy_choices n) n s = 0"
proof -
  assume n: "n = 1 \<or> n = 10"
  have sec: "cost_peers (rc_secret (toy_choices n)) n = toy_devices n" by (simp add: toy_choices_def toy_devices_def)
  have k: "samples_at True n = 60" using n by (auto simp: samples_at_def SAMPLES_def)
  have d: "map fst (draws_of (toy_choices n) s 60) = map (\<lambda>k. device_name (k mod n)) [0 ..< 60]"
    "map (\<lambda>k. fst (rc_lock (toy_choices n) k)) [0 ..< 60] = map (\<lambda>k. device_name (k mod n)) [0 ..< 60]" for s
    by (simp_all add: draws_of_def toy_choices_def comp_def)
  show ?thesis unfolding deviation_def sec Let_def k d toy_excess [OF n] by simp
qed

lemma toy_in_tolerance:
  assumes "n = 1 \<or> n = 10" "rows_good True toy_choices n rows" "m \<in> set rows"
  shows "in_tolerance True toy_choices m"
  using assms(2,3) no_deviation_tolerated [of "m_strategy m" n _ "m_row m"] toy_deviation [OF assms(1)]
  by (fastforce simp: rows_good_def row_good_def in_tolerance_def)

lemma toy_sample: "sample_ok (\<lambda>k n m. [0 .. m - 1])"
  by (simp add: sample_ok_def)

end
