(* ===== verification/Literals.thy ===== *)
theory Literals
  imports Nodes
begin

text \<open>
  What Python's \<^verbatim>\<open>int\<close>, \<^verbatim>\<open>float\<close> and \<^verbatim>\<open>str.split\<close> make of a piece of ASCII text, and how numbers are
  written with a fixed number of decimals.  A float is the rational its literal denotes; \<^verbatim>\<open>inf\<close>, \<^verbatim>\<open>nan\<close> and
  literals beyond the largest float are outside the model (\<open>None\<close>).
\<close>

section \<open>Splitting\<close>

definition starts_with :: "pystr \<Rightarrow> pystr \<Rightarrow> bool" where
  "starts_with p s \<longleftrightarrow> take (length p) s = p"

definition ends_with :: "pystr \<Rightarrow> pystr \<Rightarrow> bool" where
  "ends_with p s \<longleftrightarrow> last_n (length p) s = p"

fun contains :: "pystr \<Rightarrow> pystr \<Rightarrow> bool" where
  "contains p [] \<longleftrightarrow> p = []"
| "contains p (c # s) \<longleftrightarrow> starts_with p (c # s) \<or> contains p s"

definition non_space :: "nat \<Rightarrow> bool" where
  "non_space c \<longleftrightarrow> \<not> str_space c"

function words :: "pystr \<Rightarrow> pystr list" where
  "words s =
     (let t = dropWhile str_space s
      in if t = [] then [] else takeWhile non_space t # words (dropWhile non_space t))"
  by pat_completeness auto
termination
proof (relation "measure length")
  fix s t :: pystr assume t: "t = dropWhile str_space s" "t \<noteq> []"
  then have "\<not> str_space (hd t)" using hd_dropWhile [of str_space s] by simp
  with t(2) have "length (dropWhile non_space t) < length t"
    by (cases t) (simp_all add: non_space_def length_dropWhile_le le_imp_less_Suc)
  also have "\<dots> \<le> length s" using t(1) length_dropWhile_le by simp
  finally show "(dropWhile non_space t, s) \<in> measure length" by simp
qed simp

declare words.simps [simp del]

section \<open>Numbers\<close>

text \<open>Digits with single underscores between them, as \<^verbatim>\<open>int\<close> and \<^verbatim>\<open>float\<close> accept them.\<close>

fun digit_group :: "pystr \<Rightarrow> pystr option" where
  "digit_group [] = None"
| "digit_group [d] = (if is_digit d then Some [d] else None)"
| "digit_group (d # e # s) =
     (if \<not> is_digit d then None
      else map_option (Cons d) (if e = 95 then digit_group s else digit_group (e # s)))"

definition sign_of :: "pystr \<Rightarrow> bool \<times> pystr" where
  "sign_of s = (case s of c # t \<Rightarrow> if c = 45 then (True, t) else if c = 43 then (False, t) else (False, s) | [] \<Rightarrow> (False, []))"

definition py_int :: "pystr \<Rightarrow> exn + int" where
  "py_int s =
     (let (neg, t) = sign_of (strip s)
      in case digit_group t of
           None \<Rightarrow> Inl ValueError
         | Some ds \<Rightarrow> if 4300 < length ds then Inl ValueError
                      else Inr (if neg then - int (digits_val ds) else int (digits_val ds)))"

definition lower_ascii :: "pystr \<Rightarrow> pystr" where
  "lower_ascii s = map (\<lambda>c. if 65 \<le> c \<and> c \<le> 90 then c + 32 else c) s"

text \<open>The digits before and after the point; one side may be missing.\<close>

definition mantissa :: "pystr \<Rightarrow> (pystr \<times> pystr) option" where
  "mantissa s =
     (let a = takeWhile (\<lambda>c. c \<noteq> 46) s; b = dropWhile (\<lambda>c. c \<noteq> 46) s
      in if b = [] \<or> b = [46] then map_option (\<lambda>ds. (ds, [])) (digit_group a)
         else if a = [] then map_option (Pair []) (digit_group (tl b))
         else case (digit_group a, digit_group (tl b)) of (Some ds, Some fs) \<Rightarrow> Some (ds, fs) | _ \<Rightarrow> None)"

definition exponent :: "pystr \<Rightarrow> int option" where
  "exponent s =
     (if s = [] then Some 0
      else let (neg, t) = sign_of (tl s)
           in map_option (\<lambda>ds. if neg then - int (digits_val ds) else int (digits_val ds)) (digit_group t))"

definition scale10 :: "int \<Rightarrow> rat" where
  "scale10 e = (if 0 \<le> e then 10 ^ nat e else 1 / 10 ^ nat (- e))"

definition py_float :: "pystr \<Rightarrow> (exn + rat) option" where
  "py_float s =
     (let (neg, t) = sign_of (strip s); is_e = (\<lambda>c. c = 101 \<or> c = 69)
      in if lower_ascii t \<in> {lit ''inf'', lit ''infinity'', lit ''nan''} then None
         else case (mantissa (takeWhile (\<lambda>c. \<not> is_e c) t), exponent (dropWhile (\<lambda>c. \<not> is_e c) t)) of
             (Some (ds, fs), Some e) \<Rightarrow>
               let v = rat_of_nat (digits_val (ds @ fs)) * scale10 (e - int (length fs))
               in if 2 ^ 1024 \<le> v then None else Some (Inr (if neg then - v else v))
           | _ \<Rightarrow> Some (Inl ValueError))"

text \<open>\<^verbatim>\<open>format(x, ".df")\<close>: the nearest decimal, an exact tie going to the even digit.\<close>

definition round_even :: "rat \<Rightarrow> int" where
  "round_even x =
     (let f = \<lfloor>x\<rfloor>; r = x - of_int f
      in if r < 1 / 2 then f else if 1 / 2 < r then f + 1 else if even f then f else f + 1)"

fun thousands :: "pystr \<Rightarrow> pystr" where
  "thousands (a # b # c # d # s) = a # b # c # 44 # thousands (d # s)"
| "thousands s = s"

text \<open>\<open>grouped\<close> puts a comma before every third digit of the integer part.\<close>

definition fixed :: "bool \<Rightarrow> nat \<Rightarrow> rat \<Rightarrow> pystr" where
  "fixed grouped d x =
     (let k = nat (round_even (\<bar>x\<bar> * 10 ^ d)); w = nat_digits (k div 10 ^ d); f = nat_digits (k mod 10 ^ d)
      in (if x < 0 then [45] else []) @ (if grouped then rev (thousands (rev w)) else w) @
         (if d = 0 then [] else 46 # replicate (d - length f) 48 @ f))"

section \<open>Reading back what is written\<close>

lemma round_even_near: "\<bar>of_int (round_even x) - x\<bar> \<le> 1 / 2"
proof -
  have "of_int \<lfloor>x\<rfloor> \<le> x" "x < of_int \<lfloor>x\<rfloor> + 1" by linarith+
  then show ?thesis unfolding round_even_def Let_def by auto
qed

lemma digit_group_digits: "ds \<noteq> [] \<Longrightarrow> \<forall>d \<in> set ds. is_digit d \<Longrightarrow> digit_group ds = Some ds"
proof (induction ds rule: digit_group.induct)
  case (3 d e s)
  then have "e \<noteq> 95" by (auto simp: is_digit_def)
  with 3 show ?case by simp
qed simp_all

lemma strip_digits:
  assumes "\<forall>c \<in> set s. \<not> str_space c"
  shows "strip s = s"
proof -
  have d: "dropWhile str_space t = t" if "\<forall>c \<in> set t. \<not> str_space c" for t
    using that by (cases t) simp_all
  have "dropWhile str_space (rev s) = rev s" by (rule d) (simp add: assms)
  with d [OF assms] show ?thesis by (simp add: strip_def)
qed

lemma digit_not_space: "is_digit d \<Longrightarrow> \<not> str_space d"
  by (auto simp: is_digit_def str_space_def)

text \<open>\<^verbatim>\<open>int(str(i)) == i\<close>, within Python's limit on digits.\<close>

lemma py_int_repr:
  assumes "length (nat_digits (nat \<bar>i\<bar>)) \<le> 4300"
  shows "py_int (int_repr i) = Inr i"
proof -
  let ?ds = "nat_digits (nat \<bar>i\<bar>)"
  have d: "\<forall>d \<in> set ?ds. is_digit d" using nat_digits_set by blast
  then have g: "digit_group ?ds = Some ?ds" by (simp add: digit_group_digits)
  have hd: "is_digit (hd ?ds)" by (rule nat_digits_hd_digit)
  have ns: "\<forall>c \<in> set ?ds. \<not> str_space c" using d digit_not_space by blast
  have "\<not> str_space 45" by (simp add: str_space_def)
  with ns have "\<forall>c \<in> set (int_repr i). \<not> str_space c" by (cases "i < 0") (simp_all add: int_repr_def)
  then have s: "strip (int_repr i) = int_repr i" by (rule strip_digits)
  have "sign_of (int_repr i) = (i < 0, ?ds)"
    using hd by (cases ?ds) (auto simp: sign_of_def int_repr_def is_digit_def)
  with s g assms show ?thesis by (simp add: py_int_def)
qed

end
