(* ===== verification/Collect.thy ===== *)
theory Collect
  imports Literals "HOL-Library.Multiset" "HOL-Library.List_Lexorder" "HOL-Library.Product_Lexorder" "HOL-Library.Option_ord"
begin

text \<open>
  The collector of the simulation's results (\<^verbatim>\<open>evaluation/resolution/sim/collect.py\<close>): it reads the \<^verbatim>\<open>.sca\<close>
  files of a directory line by line and makes one row of each.  The directory is a list of names and
  texts; the written table is the list of its rows.  Files that are not ASCII and scalars that are not
  finite are outside the model (\<open>None\<close>).
\<close>

section \<open>One file\<close>

text \<open>Text mode: every line end is read as a newline, and a line keeps its own.\<close>

fun universal_newlines :: "pystr \<Rightarrow> pystr" where
  "universal_newlines [] = []"
| "universal_newlines [c] = [if c = 13 then 10 else c]"
| "universal_newlines (c # d # s) =
     (if c = 13 then 10 # (if d = 10 then universal_newlines s else universal_newlines (d # s))
      else c # universal_newlines (d # s))"

fun file_lines :: "pystr \<Rightarrow> pystr list" where
  "file_lines [] = []"
| "file_lines (c # s) =
     (if c = 10 then [10] # file_lines s else case file_lines s of [] \<Rightarrow> [[c]] | l # ls \<Rightarrow> (c # l) # ls)"

record sca_run =
  sr_config :: "pystr option"
  sr_N :: "int option"
  sr_rep :: "int option"
  sr_core :: "pystr \<rightharpoonup> rat"
  sr_servers :: "pystr \<rightharpoonup> rat list"

definition new_sca_run :: sca_run where
  "new_sca_run = \<lparr>sr_config = None, sr_N = None, sr_rep = None, sr_core = Map.empty,
     sr_servers = [lit ''enrolled'' \<mapsto> [], lit ''state_bytes'' \<mapsto> [], lit ''busy_ms'' \<mapsto> []]\<rparr>"

text \<open>\<^verbatim>\<open>line.split()[2]\<close>\<close>

definition third_word :: "pystr \<Rightarrow> exn + pystr" where
  "third_word line = (case words line of _ # _ # w # _ \<Rightarrow> Inr w | _ \<Rightarrow> Inl IndexError)"

definition third_int :: "pystr \<Rightarrow> exn + int" where
  "third_int line = (case third_word line of Inl x \<Rightarrow> Inl x | Inr w \<Rightarrow> py_int w)"

text \<open>
  \<^verbatim>\<open>re.match(r"scalar (\S+) (\S+) (\S+)", line)\<close>.  A run of characters that are not white space is
  followed by a blank only if the run is as long as possible.
\<close>

definition take_field :: "pystr \<Rightarrow> (pystr \<times> pystr) option" where
  "take_field s =
     (let w = takeWhile non_space s; r = dropWhile non_space s
      in if w = [] \<or> r = [] \<or> hd r \<noteq> 32 then None else Some (w, tl r))"

definition scalar_match :: "pystr \<Rightarrow> (pystr \<times> pystr \<times> pystr) option" where
  "scalar_match line =
     (case strip_prefix (lit ''scalar '') line of
        None \<Rightarrow> None
      | Some s \<Rightarrow> (case take_field s of
          None \<Rightarrow> None
        | Some (m, s') \<Rightarrow> (case take_field s' of
            None \<Rightarrow> None
          | Some (name, s'') \<Rightarrow>
              let val = takeWhile non_space s'' in if val = [] then None else Some (m, name, val))))"

definition put_scalar :: "pystr \<Rightarrow> pystr \<Rightarrow> rat \<Rightarrow> sca_run \<Rightarrow> sca_run" where
  "put_scalar m name val r =
     (if ends_with (lit ''.core'') m then r\<lparr>sr_core := (sr_core r)(name \<mapsto> val)\<rparr>
      else if contains (lit ''.servers['') m then
        (case sr_servers r name of
           None \<Rightarrow> r
         | Some vals \<Rightarrow> r\<lparr>sr_servers := (sr_servers r)(name \<mapsto> vals @ [val])\<rparr>)
      else r)"

definition sca_line :: "pystr \<Rightarrow> sca_run \<Rightarrow> (exn + sca_run) option" where
  "sca_line line r =
     (if starts_with (lit ''attr configname '') line then
        Some (case third_word line of Inl x \<Rightarrow> Inl x | Inr w \<Rightarrow> Inr (r\<lparr>sr_config := Some w\<rparr>))
      else if starts_with (lit ''itervar N '') line then
        Some (case third_int line of Inl x \<Rightarrow> Inl x | Inr i \<Rightarrow> Inr (r\<lparr>sr_N := Some i\<rparr>))
      else if starts_with (lit ''attr repetition '') line then
        Some (case third_int line of Inl x \<Rightarrow> Inl x | Inr i \<Rightarrow> Inr (r\<lparr>sr_rep := Some i\<rparr>))
      else if starts_with (lit ''scalar '') line then
        (case scalar_match line of
           None \<Rightarrow> Some (Inl AttributeError)
         | Some (m, name, val) \<Rightarrow>
             (case py_float val of
                None \<Rightarrow> None
              | Some (Inl x) \<Rightarrow> Some (Inl x)
              | Some (Inr v) \<Rightarrow> Some (Inr (put_scalar m name v r))))
      else Some (Inr r))"

fun sca_lines :: "pystr list \<Rightarrow> sca_run \<Rightarrow> (exn + sca_run) option" where
  "sca_lines [] r = Some (Inr r)"
| "sca_lines (l # ls) r =
     (case sca_line l r of
        None \<Rightarrow> None
      | Some (Inl x) \<Rightarrow> Some (Inl x)
      | Some (Inr r') \<Rightarrow> sca_lines ls r')"

definition read_sca :: "pystr \<Rightarrow> (exn + sca_run) option" where
  "read_sca text = (if is_ascii text then sca_lines (file_lines (universal_newlines text)) new_sca_run else None)"

section \<open>The rows\<close>

record sim_row =
  sim_config :: "pystr option"
  sim_N :: "int option"
  sim_rep :: "int option"
  sim_latency_mean :: "rat option"
  sim_latency_p95 :: "rat option"
  sim_completed :: "rat option"
  sim_unreachable :: "rat option"
  sim_probes :: "rat option"
  sim_kbit :: "rat option"
  sim_servers :: nat
  sim_mean_enrolled :: rat
  sim_max_enrolled :: rat
  sim_mean_state :: rat
  sim_max_state :: rat
  sim_busy_max :: rat

definition server_values :: "sca_run \<Rightarrow> string \<Rightarrow> rat list" where
  "server_values r name = (case sr_servers r (lit name) of None \<Rightarrow> [] | Some vals \<Rightarrow> vals)"

text \<open>\<^verbatim>\<open>max(xs or [0])\<close>\<close>

definition max_or_0 :: "rat list \<Rightarrow> rat" where
  "max_or_0 xs = (if xs = [] then 0 else Max (set xs))"

definition sim_row_of :: "sca_run \<Rightarrow> sim_row" where
  "sim_row_of r =
     (let enrolled = server_values r ''enrolled''; state_bytes = server_values r ''state_bytes'';
          busy_ms = server_values r ''busy_ms''; ns = rat_of_nat (if enrolled = [] then 1 else length enrolled)
      in \<lparr>sim_config = sr_config r, sim_N = sr_N r, sim_rep = sr_rep r,
          sim_latency_mean = sr_core r (lit ''latency_mean_ms''), sim_latency_p95 = sr_core r (lit ''latency_p95_ms''),
          sim_completed = sr_core r (lit ''sessions_completed''), sim_unreachable = sr_core r (lit ''sessions_unreachable''),
          sim_probes = sr_core r (lit ''resolution_probes_total''), sim_kbit = sr_core r (lit ''kbit_on_air''),
          sim_servers = length enrolled, sim_mean_enrolled = sum_list enrolled / ns, sim_max_enrolled = max_or_0 enrolled,
          sim_mean_state = sum_list state_bytes / ns, sim_max_state = max_or_0 state_bytes,
          sim_busy_max = max_or_0 busy_ms\<rparr>)"

text \<open>\<^verbatim>\<open>sorted(glob("*.sca"))\<close>; the pattern skips hidden files.\<close>

definition sca_files :: "(pystr \<times> pystr) list \<Rightarrow> (pystr \<times> pystr) list" where
  "sca_files dir = sort_key fst (filter (\<lambda>(name, _). ends_with (lit ''.sca'') name \<and> hd name \<noteq> 46) dir)"

fun collect_rows :: "(pystr \<times> pystr) list \<Rightarrow> (exn + sim_row list) option" where
  "collect_rows [] = Some (Inr [])"
| "collect_rows ((name, text) # fs) =
     (case read_sca text of
        None \<Rightarrow> None
      | Some (Inl x) \<Rightarrow> Some (Inl x)
      | Some (Inr r) \<Rightarrow>
          (case collect_rows fs of
             None \<Rightarrow> None
           | Some (Inl x) \<Rightarrow> Some (Inl x)
           | Some (Inr rows) \<Rightarrow> Some (Inr (sim_row_of r # rows))))"

text \<open>
  \<^verbatim>\<open>rows.sort(key=...)\<close>.  The first components in which two keys differ are compared, and \<^verbatim>\<open>None\<close> is not
  ordered with anything else; a sort cannot avoid comparing some such pair if there is one.
\<close>

definition sim_key :: "sim_row \<Rightarrow> pystr option \<times> int option \<times> int option" where
  "sim_key r = (sim_config r, sim_N r, sim_rep r)"

definition ordered_values :: "'a option \<Rightarrow> 'a option \<Rightarrow> bool" where
  "ordered_values a b \<longleftrightarrow> (a = None \<longleftrightarrow> b = None)"

fun ordered_keys :: "'a option \<times> 'b option \<times> 'c option \<Rightarrow> 'a option \<times> 'b option \<times> 'c option \<Rightarrow> bool" where
  "ordered_keys (c, n, k) (c', n', k') \<longleftrightarrow>
     (if c \<noteq> c' then ordered_values c c' else if n \<noteq> n' then ordered_values n n' else ordered_values k k')"

definition sort_rows :: "sim_row list \<Rightarrow> exn + sim_row list" where
  "sort_rows rows =
     (if \<forall>a \<in> set rows. \<forall>b \<in> set rows. ordered_keys (sim_key a) (sim_key b) then Inr (sort_key sim_key rows)
      else Inl TypeError)"

text \<open>The field names of the table are those of its first row.\<close>

definition collect :: "(pystr \<times> pystr) list \<Rightarrow> (exn + sim_row list) option" where
  "collect dir =
     (case collect_rows (sca_files dir) of
        None \<Rightarrow> None
      | Some (Inl x) \<Rightarrow> Some (Inl x)
      | Some (Inr rows) \<Rightarrow>
          Some (case sort_rows rows of
              Inl x \<Rightarrow> Inl x
            | Inr [] \<Rightarrow> Inl IndexError
            | Inr (r # rs) \<Rightarrow> Inr (r # rs)))"

section \<open>What a file says\<close>

text \<open>
  The reference: a file as the list of its scalars and attributes, in order.  The last value of an
  attribute or of a scalar of the core counts, and all values of the servers.
\<close>

definition sca_scalars :: "pystr list \<Rightarrow> (pystr \<times> pystr \<times> rat) list" where
  "sca_scalars ls = List.map_filter (\<lambda>l. case scalar_match l of
      Some (m, name, val) \<Rightarrow> (case py_float val of Some (Inr v) \<Rightarrow> Some (m, name, v) | _ \<Rightarrow> None)
    | None \<Rightarrow> None) ls"

definition attribute :: "string \<Rightarrow> (pystr \<Rightarrow> exn + 'a) \<Rightarrow> pystr list \<Rightarrow> 'a list" where
  "attribute pre get ls = List.map_filter (\<lambda>l. if starts_with (lit pre) l then
      (case get l of Inr v \<Rightarrow> Some v | Inl _ \<Rightarrow> None) else None) ls"

definition core_scalars :: "(pystr \<times> pystr \<times> rat) list \<Rightarrow> (pystr \<times> rat) list" where
  "core_scalars sc = map snd (filter (\<lambda>(m, _). ends_with (lit ''.core'') m) sc)"

definition server_scalars :: "pystr \<Rightarrow> (pystr \<times> pystr \<times> rat) list \<Rightarrow> rat list" where
  "server_scalars name sc = map (\<lambda>(_, _, v). v) (filter (\<lambda>(m, n, _).
      \<not> ends_with (lit ''.core'') m \<and> contains (lit ''.servers['') m \<and> n = name) sc)"

definition last_or :: "'a option \<Rightarrow> 'a list \<Rightarrow> 'a option" where
  "last_or d xs = (if xs = [] then d else Some (last xs))"

definition sca_spec :: "pystr \<Rightarrow> sca_run" where
  "sca_spec text =
     (let ls = file_lines (universal_newlines text); sc = sca_scalars ls
      in \<lparr>sr_config = last_or None (attribute ''attr configname '' third_word ls),
          sr_N = last_or None (attribute ''itervar N '' third_int ls),
          sr_rep = last_or None (attribute ''attr repetition '' third_int ls),
          sr_core = map_of (rev (core_scalars sc)),
          sr_servers = (\<lambda>name. if name \<in> {lit ''enrolled'', lit ''state_bytes'', lit ''busy_ms''}
            then Some (server_scalars name sc) else None)\<rparr>)"

lemma last_or_Cons: "last_or d (x # xs) = last_or (Some x) xs"
  by (simp add: last_or_def)

lemma spec_Nil [simp]:
  "sca_scalars [] = []" "attribute pre get [] = []" "core_scalars [] = []" "server_scalars name [] = []" "last_or d [] = d"
  by (simp_all add: sca_scalars_def attribute_def core_scalars_def server_scalars_def last_or_def List.map_filter_def)

lemma attribute_Cons:
  "attribute pre get (l # ls) = (case (starts_with (lit pre) l, get l) of
     (True, Inr v) \<Rightarrow> v # attribute pre get ls | _ \<Rightarrow> attribute pre get ls)"
  by (simp add: attribute_def List.map_filter_def split: sum.split)

lemma sca_scalars_Cons:
  "sca_scalars (l # ls) = (case scalar_match l of
      Some (m, name, val) \<Rightarrow> (case py_float val of Some (Inr v) \<Rightarrow> (m, name, v) # sca_scalars ls | _ \<Rightarrow> sca_scalars ls)
    | None \<Rightarrow> sca_scalars ls)"
  by (simp add: sca_scalars_def List.map_filter_def split: option.split sum.split)

lemma starts_with_iff: "starts_with p s \<longleftrightarrow> (\<exists>t. s = p @ t)"
  by (auto simp: starts_with_def) (metis append_take_drop_id)

lemma strip_prefix_Some: "strip_prefix p s = Some t \<Longrightarrow> s = p @ t"
  by (induction p s rule: strip_prefix.induct) (auto split: if_splits)

lemma scalar_match_prefix: "scalar_match l = Some x \<Longrightarrow> starts_with (lit ''scalar '') l"
  by (auto simp: scalar_match_def starts_with_iff split: option.splits dest: strip_prefix_Some)

text \<open>A line is at most one of the four kinds.\<close>

lemma line_kinds:
  "starts_with (lit ''attr configname '') l \<Longrightarrow> \<not> starts_with (lit ''itervar N '') l \<and>
     \<not> starts_with (lit ''attr repetition '') l \<and> \<not> starts_with (lit ''scalar '') l"
  "starts_with (lit ''itervar N '') l \<Longrightarrow> \<not> starts_with (lit ''attr repetition '') l \<and> \<not> starts_with (lit ''scalar '') l"
  "starts_with (lit ''attr repetition '') l \<Longrightarrow> \<not> starts_with (lit ''scalar '') l"
  by (auto simp: starts_with_iff)

text \<open>How one line moves each field, in the terms of the reference.\<close>

definition reads_as :: "pystr list \<Rightarrow> sca_run \<Rightarrow> sca_run \<Rightarrow> bool" where
  "reads_as ls r r' \<longleftrightarrow>
     sr_config r' = last_or (sr_config r) (attribute ''attr configname '' third_word ls) \<and>
     sr_N r' = last_or (sr_N r) (attribute ''itervar N '' third_int ls) \<and>
     sr_rep r' = last_or (sr_rep r) (attribute ''attr repetition '' third_int ls) \<and>
     sr_core r' = sr_core r ++ map_of (rev (core_scalars (sca_scalars ls))) \<and>
     sr_servers r' = (\<lambda>name. map_option (\<lambda>xs. xs @ server_scalars name (sca_scalars ls)) (sr_servers r name))"

lemma put_scalar_reads:
  assumes "scalar_match l = Some (m, name, val)" "py_float val = Some (Inr v)"
  shows "reads_as [l] r (put_scalar m name v r)"
proof -
  have s: "starts_with (lit ''scalar '') l" using assms(1) scalar_match_prefix by blast
  then have n: "\<not> starts_with (lit ''attr configname '') l" "\<not> starts_with (lit ''itervar N '') l"
    "\<not> starts_with (lit ''attr repetition '') l" using line_kinds by blast+
  have sc: "sca_scalars [l] = [(m, name, v)]" using assms by (simp add: sca_scalars_Cons)
  show ?thesis using n unfolding reads_as_def sc
    by (auto simp: put_scalar_def attribute_Cons core_scalars_def server_scalars_def fun_eq_iff map_add_def option.map_ident
        simp del: lit_Cons split: option.split)
qed

lemma sca_line_reads:
  assumes "sca_line l r = Some (Inr r')"
  shows "reads_as [l] r r'"
proof (cases "starts_with (lit ''scalar '') l")
  case True
  then have n: "\<not> starts_with (lit ''attr configname '') l" "\<not> starts_with (lit ''itervar N '') l"
    "\<not> starts_with (lit ''attr repetition '') l" using line_kinds by blast+
  with assms True obtain m name val v where "scalar_match l = Some (m, name, val)" "py_float val = Some (Inr v)"
    "r' = put_scalar m name v r"
    by (auto simp: sca_line_def simp del: lit_Cons split: option.splits sum.splits)
  with put_scalar_reads show ?thesis by blast
next
  case False
  then have sc: "sca_scalars [l] = []"
    using scalar_match_prefix [of l] by (auto simp: sca_scalars_Cons simp del: lit_Cons split: option.split)
  have id: "(\<lambda>name. map_option (\<lambda>xs :: rat list. xs) (sr_servers r name)) = sr_servers r" by (simp add: fun_eq_iff option.map_ident)
  from assms False line_kinds [of l] show ?thesis unfolding reads_as_def sc
    by (auto simp: sca_line_def attribute_Cons last_or_Cons id simp del: lit_Cons split: if_splits sum.splits)
qed

lemma scalars_append: "sca_scalars (ks @ ls) = sca_scalars ks @ sca_scalars ls" "attribute pre get (ks @ ls) = attribute pre get ks @ attribute pre get ls"
  "core_scalars (sc @ sc') = core_scalars sc @ core_scalars sc'" "server_scalars name (sc @ sc') = server_scalars name sc @ server_scalars name sc'"
  "last_or d (xs @ ys) = last_or (last_or d xs) ys"
  by (simp_all add: sca_scalars_def attribute_def core_scalars_def server_scalars_def last_or_def List.map_filter_def)

lemma reads_as_trans: "reads_as ks r r1 \<Longrightarrow> reads_as ls r1 r2 \<Longrightarrow> reads_as (ks @ ls) r r2"
  by (simp add: reads_as_def scalars_append option.map_comp comp_def map_add_assoc)

lemma sca_lines_reads: "sca_lines ls r = Some (Inr r') \<Longrightarrow> reads_as ls r r'"
proof (induction ls arbitrary: r)
  case Nil
  then show ?case by (simp add: reads_as_def fun_eq_iff option.map_ident)
next
  case (Cons l ls)
  then obtain r1 where r1: "sca_line l r = Some (Inr r1)" "sca_lines ls r1 = Some (Inr r')"
    by (auto split: option.splits sum.splits)
  from reads_as_trans [OF sca_line_reads [OF r1(1)] Cons.IH [OF r1(2)]] show ?case by simp
qed

text \<open>Reading a file gives what the reference says.\<close>

lemma read_sca_spec:
  assumes "read_sca text = Some (Inr r)"
  shows "r = sca_spec text"
proof -
  from assms have "sca_lines (file_lines (universal_newlines text)) new_sca_run = Some (Inr r)"
    by (simp add: read_sca_def split: if_splits)
  from sca_lines_reads [OF this] show ?thesis
    by (auto simp: reads_as_def new_sca_run_def sca_spec_def Let_def fun_eq_iff simp del: lit_Cons
        intro!: sca_run.equality)
qed

section \<open>The table\<close>

lemma collect_rows_spec:
  "collect_rows fs = Some (Inr rows) \<Longrightarrow> rows = map (\<lambda>(_, text). sim_row_of (sca_spec text)) fs"
proof (induction fs arbitrary: rows)
  case (Cons x fs)
  obtain name body where x: "x = (name, body)" by (cases x)
  from Cons.prems obtain r rs where r: "read_sca body = Some (Inr r)" "collect_rows fs = Some (Inr rs)" "rows = sim_row_of r # rs"
    by (auto simp: x split: option.splits sum.splits)
  with Cons.IH [OF r(2)] read_sca_spec [OF r(1)] show ?case by (simp add: x)
qed simp

lemma collect_spec:
  assumes "collect dir = Some (Inr rows)"
  shows "rows = sort_key sim_key (map (\<lambda>(_, text). sim_row_of (sca_spec text)) (sca_files dir))" "rows \<noteq> []"
proof -
  from assms obtain rs where rs: "collect_rows (sca_files dir) = Some (Inr rs)" "sort_rows rs = Inr rows" "rows \<noteq> []"
    by (auto simp: collect_def split: option.splits sum.splits list.splits)
  then show "rows = sort_key sim_key (map (\<lambda>(_, text). sim_row_of (sca_spec text)) (sca_files dir))" "rows \<noteq> []"
    using collect_rows_spec [OF rs(1)] by (auto simp: sort_rows_def split: if_splits)
qed

text \<open>A mean lies between the smallest and the largest value.\<close>

lemma mean_bounds:
  fixes xs :: "rat list"
  assumes "xs \<noteq> []"
  shows "Min (set xs) \<le> sum_list xs / of_nat (length xs)" "sum_list xs / of_nat (length xs) \<le> Max (set xs)"
proof -
  have "of_nat (length xs) * Min (set xs) \<le> sum_list xs"
    using sum_list_mono [of xs "\<lambda>x. Min (set xs)" id] by (simp add: sum_list_triv)
  moreover have "sum_list xs \<le> of_nat (length xs) * Max (set xs)"
    using sum_list_mono [of xs id "\<lambda>x. Max (set xs)"] by (simp add: sum_list_triv)
  ultimately show "Min (set xs) \<le> sum_list xs / of_nat (length xs)" "sum_list xs / of_nat (length xs) \<le> Max (set xs)"
    using assms by (simp_all add: field_simps)
qed

lemma row_mean_below_max:
  assumes "0 < sim_servers (sim_row_of r)"
  shows "sim_mean_enrolled (sim_row_of r) \<le> sim_max_enrolled (sim_row_of r)"
  using assms mean_bounds(2) [of "server_values r ''enrolled''"] by (auto simp: sim_row_of_def Let_def max_or_0_def)

end
