(* ===== verification/Figures.thy ===== *)
theory Figures
  imports Collect CostModel
begin

text \<open>
  The numbers behind the figures and the ranked table of the paper (\<^verbatim>\<open>paper/make_figs.py\<close>), from the rows
  of the collector and the measured rows of \<open>CostModel\<close>.  What only lays out a plot or decorates a line of
  TeX is left out.
\<close>

section \<open>Reading the results\<close>

definition PAPER_SESSION_MS :: rat where
  "PAPER_SESSION_MS = 2 * (2 * (32 / 100) + 2 * (56 / 10))"

definition PAPER_SERVER_BITS :: rat where
  "PAPER_SERVER_BITS = 320"

definition T_H :: rat where
  "T_H = 32 / 100"

text \<open>The dictionary \<^verbatim>\<open>S\<close>, in its order: name, short label, origin, time and space in TeX.\<close>

record fig_label =
  fl_name :: string
  fl_short :: string
  fl_origin :: string
  fl_time :: string
  fl_space :: string

definition tex :: "string \<Rightarrow> string \<Rightarrow> string" where
  "tex command arg = CHR 0x5C # command @ arg"

definition S :: "(string \<times> fig_label) list" where
  "S =
     [(''O2'', \<lparr>fl_name = ''Counter + precomputed table'', fl_short = ''O2'', fl_origin = ''ours'',
        fl_time = ''$O(1)$'', fl_space = ''$O(NF)$''\<rparr>),
      (''O4'', \<lparr>fl_name = ''Clock + per-epoch table'', fl_short = ''O4'', fl_origin = tex ''cite'' ''{tsudik}'',
        fl_time = ''$O(1)$, $+O(N)$/epoch'', fl_space = ''$O(NW_t)$''\<rparr>),
      (''MW'', \<lparr>fl_name = ''Key tree'', fl_short = ''MW'', fl_origin = tex ''cite'' ''{molnar}'',
        fl_time = ''$O('' @ tex ''delta'' [] @ tex ''log_'' [] @ tex ''delta'' '' N)$'', fl_space = ''$O(N)$''\<rparr>),
      (''CR'', \<lparr>fl_name = ''Randomized hash lock'', fl_short = ''CR'', fl_origin = tex ''cite'' ''{weis}'',
        fl_time = ''$O(N)$'', fl_space = ''$O(N)$''\<rparr>),
      (''O3'', \<lparr>fl_name = ''Clock + linear scan'', fl_short = ''O3'', fl_origin = ''ours'',
        fl_time = ''$O(NW_t)$'', fl_space = ''$O(N)$''\<rparr>),
      (''TM'', \<lparr>fl_name = ''Rainbow time-memory trade-off'', fl_short = ''TM'', fl_origin = tex ''cite'' ''{avoine05,ado05}'',
        fl_time = ''$O((Nm)^{2/3})$'', fl_space = ''$O((Nm)^{2/3})$''\<rparr>),
      (''O1'', \<lparr>fl_name = ''Counter + linear scan'', fl_short = ''O1'', fl_origin = tex ''cite'' ''{ohkubo}'',
        fl_time = ''$O(NW)$'', fl_space = ''$O(N)$''\<rparr>)]"

definition FIG_STRATEGIES :: "string list" where
  "FIG_STRATEGIES = [''O2'', ''O4'', ''MW'', ''CR'', ''O3'', ''TM'', ''O1'']"

lemma S_keys: "map fst S = FIG_STRATEGIES"
  by (simp add: S_def FIG_STRATEGIES_def)

text \<open>
  The rows grouped by configuration and size.  In the table \<^verbatim>\<open>None\<close> is the empty text, which is a
  configuration but neither an integer nor a float.
\<close>

type_synonym sims = "((pystr \<times> int) \<times> sim_row) list"

definition cell_float :: "rat option \<Rightarrow> exn + rat" where
  "cell_float c = (case c of None \<Rightarrow> Inl ValueError | Some v \<Rightarrow> Inr v)"

definition cell_text :: "pystr option \<Rightarrow> pystr" where
  "cell_text c = (case c of None \<Rightarrow> [] | Some s \<Rightarrow> s)"

definition group_sims :: "sim_row list \<Rightarrow> exn + sims" where
  "group_sims rows =
     map_raise (\<lambda>r. case sim_N r of None \<Rightarrow> Inl ValueError | Some n \<Rightarrow> Inr ((cell_text (sim_config r), n), r)) rows"

definition group :: "sims \<Rightarrow> pystr \<Rightarrow> int \<Rightarrow> sim_row list" where
  "group g cfg n = map snd (filter (\<lambda>x. fst x = (cfg, n)) g)"

definition NS :: "sims \<Rightarrow> int list" where
  "NS g = sorted_list_of_set (set (map (\<lambda>x. snd (fst x)) g))"

text \<open>\<^verbatim>\<open>st.mean\<close>; its \<^verbatim>\<open>StatisticsError\<close> is a \<^verbatim>\<open>ValueError\<close>.\<close>

definition mean_of :: "rat list \<Rightarrow> exn + rat" where
  "mean_of v = (if v = [] then Inl ValueError else Inr (sum_list v / rat_of_nat (length v)))"

definition completed :: "sim_row \<Rightarrow> bool" where
  "completed r \<longleftrightarrow> 0 < (case sim_completed r of None \<Rightarrow> 0 | Some v \<Rightarrow> v)"

definition latency :: "sims \<Rightarrow> pystr \<Rightarrow> int \<Rightarrow> exn + rat \<times> rat \<times> rat" where
  "latency g cfg n =
     (case map_raise (\<lambda>r. cell_float (sim_latency_mean r)) (filter completed (group g cfg n)) of
        Inl x \<Rightarrow> Inl x
      | Inr v \<Rightarrow> (case mean_of v of Inl x \<Rightarrow> Inl x | Inr m \<Rightarrow> Inr (m, Min (set v), Max (set v))))"

definition mean_latency :: "sims \<Rightarrow> pystr \<Rightarrow> int \<Rightarrow> exn + rat" where
  "mean_latency g cfg n = (case latency g cfg n of Inl x \<Rightarrow> Inl x | Inr (m, _) \<Rightarrow> Inr m)"

text \<open>The configurations with and without adversaries.\<close>

definition with_adversaries :: "string \<Rightarrow> pystr" where
  "with_adversaries s = lit (''R_'' @ s)"

definition honest_only :: "string \<Rightarrow> pystr" where
  "honest_only s = lit (''H_'' @ s)"

definition store_kb :: "sims \<Rightarrow> string \<Rightarrow> int \<Rightarrow> exn + rat" where
  "store_kb g s n =
     (case mean_of (map (\<lambda>r. sim_mean_enrolled r * PAPER_SERVER_BITS / 8 + sim_mean_state r) (group g (with_adversaries s) n)) of
        Inl x \<Rightarrow> Inl x
      | Inr m \<Rightarrow> Inr (m / 1024))"

definition meas :: "measured list \<Rightarrow> string \<Rightarrow> (cost_row \<Rightarrow> rat) \<Rightarrow> int list \<times> rat list" where
  "meas ms s col =
     (let rows = sort (map (\<lambda>r. (m_n r, col (m_row r))) (filter (\<lambda>r. m_strategy r = s) ms))
      in (map fst rows, map snd rows))"

section \<open>The ranked table\<close>

definition TN :: "int list" where
  "TN = [10, 100, 500, 1000]"

definition ranking :: "sims \<Rightarrow> exn + string list" where
  "ranking g =
     (case map_raise (\<lambda>s. mean_latency g (with_adversaries s) 1000) FIG_STRATEGIES of
        Inl x \<Rightarrow> Inl x
      | Inr keys \<Rightarrow> Inr (map snd (sort_key fst (zip keys FIG_STRATEGIES))))"

definition fmt_ms :: "rat \<Rightarrow> pystr" where
  "fmt_ms x = (if 1000 \<le> x then fixed True 0 x else if 100 \<le> x then fixed False 1 x else fixed False 2 x)"

definition fmt_kb :: "rat \<Rightarrow> pystr" where
  "fmt_kb x = (if 10 \<le> x then fixed False 1 x else fixed False 2 x)"

record ranked_line =
  rl_rank :: nat
  rl_strategy :: string
  rl_latency :: "rat list"
  rl_storage :: "rat list"
  rl_latency_noadv :: "rat list"
  rl_cells :: "pystr list"

definition ranked_line_of :: "sims \<Rightarrow> nat \<times> string \<Rightarrow> exn + ranked_line" where
  "ranked_line_of g = (\<lambda>(rank, s).
     case map_raise (mean_latency g (with_adversaries s)) TN of
       Inl x \<Rightarrow> Inl x
     | Inr t \<Rightarrow>
         (case map_raise (store_kb g s) TN of
            Inl x \<Rightarrow> Inl x
          | Inr m \<Rightarrow>
              (case map_raise (mean_latency g (honest_only s)) TN of
                 Inl x \<Rightarrow> Inl x
               | Inr h \<Rightarrow> Inr \<lparr>rl_rank = rank, rl_strategy = s, rl_latency = t, rl_storage = m, rl_latency_noadv = h,
                   rl_cells = [fixed False 2 PAPER_SESSION_MS] @ map fmt_ms t @
                     [fixed False 2 (PAPER_SERVER_BITS / 8 / 1024)] @ map fmt_kb m\<rparr>)))"

definition ranked_table :: "sims \<Rightarrow> exn + ranked_line list" where
  "ranked_table g =
     (case ranking g of
        Inl x \<Rightarrow> Inl x
      | Inr order \<Rightarrow> map_raise (ranked_line_of g) (zip [1 ..< Suc (length order)] order))"

text \<open>The rows as TeX.\<close>

fun join_with :: "pystr \<Rightarrow> pystr list \<Rightarrow> pystr" where
  "join_with sep [] = []"
| "join_with sep [x] = x"
| "join_with sep (x # xs) = x @ sep @ join_with sep xs"

definition ranked_text :: "ranked_line \<Rightarrow> exn + pystr" where
  "ranked_text l =
     (case map_of S (rl_strategy l) of
        None \<Rightarrow> Inl KeyError
      | Some i \<Rightarrow>
          Inr (join_with (lit '' & '')
            ([nat_digits (rl_rank l), lit (fl_short i), lit (fl_name i) @ lit '' '' @ lit (if fl_origin i = ''ours'' then [] else fl_origin i),
              lit (fl_time i), lit (fl_space i)] @ rl_cells l) @ [32, 92, 92]))"

definition ranked_tex :: "ranked_line list \<Rightarrow> exn + pystr" where
  "ranked_tex table =
     (case map_raise ranked_text table of
        Inl x \<Rightarrow> Inl x
      | Inr lines \<Rightarrow> Inr (lit (tex ''def'' [] @ tex ''rankedrows'' ''{%'') @ [10] @ join_with [10] lines @ [10, 125, 10]))"

section \<open>The summary\<close>

definition mean_column :: "(sim_row \<Rightarrow> rat) \<Rightarrow> sims \<Rightarrow> int \<Rightarrow> exn + rat" where
  "mean_column col g n = mean_of (map col (group g (with_adversaries ''O1'') n))"

definition seed_spread :: "sims \<Rightarrow> string \<Rightarrow> exn + rat" where
  "seed_spread g s =
     (case latency g (with_adversaries s) 1000 of Inl x \<Rightarrow> Inl x | Inr (_, lo, hi) \<Rightarrow> Inr (hi - lo))"

text \<open>\<^verbatim>\<open>{n: {...} for n, hh, ff, bb in zip(ns, h, f, b)}\<close>\<close>

definition single_server :: "measured list \<Rightarrow> string \<Rightarrow> int \<rightharpoonup> rat \<times> rat \<times> rat" where
  "single_server ms s =
     (let (ns, h) = meas ms s row_honest_mean; f = snd (meas ms s row_forged);
          b = snd (meas ms s (\<lambda>r. of_int (row_state_bytes r)))
      in map_of (rev (zip ns (zip h (zip f b)))))"

record fig_summary =
  fs_table :: "ranked_line list"
  fs_tex :: pystr
  fs_none :: "rat list"
  fs_enrolled :: "rat list"
  fs_servers :: "rat list"
  fs_spread :: "rat list"
  fs_single :: "(int \<rightharpoonup> rat \<times> rat \<times> rat) list"

definition fig_summary :: "sims \<Rightarrow> measured list \<Rightarrow> exn + fig_summary" where
  "fig_summary g ms =
     (case ranked_table g of
        Inl x \<Rightarrow> Inl x
      | Inr table \<Rightarrow>
          (case ranked_tex table of
             Inl x \<Rightarrow> Inl x
           | Inr out \<Rightarrow>
               (case map_raise (mean_latency g (with_adversaries ''none'')) (NS g) of
                  Inl x \<Rightarrow> Inl x
                | Inr none \<Rightarrow>
                    (case map_raise (mean_column sim_mean_enrolled g) (NS g) of
                       Inl x \<Rightarrow> Inl x
                     | Inr enrolled \<Rightarrow>
                         (case map_raise (mean_column (\<lambda>r. of_nat (sim_servers r)) g) (NS g) of
                            Inl x \<Rightarrow> Inl x
                          | Inr servers \<Rightarrow>
                              (case map_raise (seed_spread g) FIG_STRATEGIES of
                                 Inl x \<Rightarrow> Inl x
                               | Inr spread \<Rightarrow> Inr \<lparr>fs_table = table, fs_tex = out, fs_none = none, fs_enrolled = enrolled,
                                   fs_servers = servers, fs_spread = spread,
                                   fs_single = map (single_server ms) FIG_STRATEGIES\<rparr>))))))"

section \<open>The series of the plots\<close>

text \<open>Probes against the size, on logarithmic axes: only positive values are drawn.\<close>

definition probe_series :: "measured list \<Rightarrow> (cost_row \<Rightarrow> rat) \<Rightarrow> string \<Rightarrow> (int \<times> rat) list" where
  "probe_series ms col s = (let (ns, ys) = meas ms s col in filter (\<lambda>(n, x). 0 < x) (zip ns ys))"

definition latency_series :: "sims \<Rightarrow> pystr \<Rightarrow> exn + (int \<times> rat \<times> rat \<times> rat) list" where
  "latency_series g cfg =
     map_raise (\<lambda>n. case latency g cfg n of Inl x \<Rightarrow> Inl x | Inr v \<Rightarrow> Inr (n, v)) (NS g)"

definition storage_series :: "measured list \<Rightarrow> string \<Rightarrow> (int \<times> rat) list" where
  "storage_series ms s =
     (let (ns, b) = meas ms s (\<lambda>r. of_int (row_state_bytes r))
      in map (\<lambda>(n, x). (n, (of_int n * PAPER_SERVER_BITS / 8 + x) / 1024)) (zip ns b))"

text \<open>The point of a strategy in the time-memory plane at a thousand devices; half a probe stands for none.\<close>

definition plane_point :: "measured list \<Rightarrow> string \<Rightarrow> exn + rat \<times> rat" where
  "plane_point ms s =
     (case filter (\<lambda>r. m_strategy r = s \<and> m_n r = 1000) ms of
        [] \<Rightarrow> Inl KeyError
      | rows \<Rightarrow> let row = m_row (last rows)
                in Inr ((1000 * PAPER_SERVER_BITS / 8 + of_int (row_state_bytes row)) / 1024,
                        max (row_honest_mean row) (1 / 2) * T_H))"

end
