(* ===== verification/Printed.thy ===== *)
theory Printed
  imports Literals
begin

text \<open>
  Reading printed figures: the value of a number as it stands in a table, with its commas, its sign and its
  decimals, and the columns of a row of TeX.  \<open>fixed\<close> prints a number that reads back within half a unit of its
  last digit.
\<close>

section \<open>A printed number\<close>

definition shown :: "pystr \<Rightarrow> rat option" where
  "shown s =
     (let (neg, t) = sign_of (filter (\<lambda>c. c \<noteq> 44) s)
      in map_option (\<lambda>(ds, fs). (if neg then - 1 else 1) * rat_of_nat (digits_val (ds @ fs)) / 10 ^ length fs) (mantissa t))"

text \<open>\<open>prints d x s\<close>: the text shows \<open>x\<close>, rounded at its \<open>d\<close>-th decimal.\<close>

definition prints :: "nat \<Rightarrow> rat \<Rightarrow> pystr \<Rightarrow> bool" where
  "prints d x s \<longleftrightarrow> (\<exists>v. shown s = Some v \<and> \<bar>v - x\<bar> \<le> 1 / (2 * 10 ^ d)) \<and>
     length (drop 1 (dropWhile (\<lambda>c. c \<noteq> 46) s)) = d"

definition figure_char :: "nat \<Rightarrow> bool" where
  "figure_char c \<longleftrightarrow> is_digit c \<or> c \<in> {44, 45, 46}"

lemma digits_val_append: "digits_val (a @ b) = digits_val a * 10 ^ length b + digits_val b"
proof (induction b rule: rev_induct)
  case Nil
  then show ?case by (simp add: digits_val_def)
next
  case (snoc x b)
  have "digits_val (a @ b @ [x]) = digits_val (a @ b) * 10 + (x - 48)" using digits_val_snoc [of "a @ b" x] by simp
  with snoc show ?case by (simp add: digits_val_snoc algebra_simps)
qed

lemma digits_val_zeros: "digits_val (replicate n 48) = 0"
proof (induction n)
  case (Suc n)
  have "digits_val (replicate n 48 @ [48]) = 0" using Suc by (simp add: digits_val_snoc)
  then show ?case by (simp add: replicate_append_same)
qed (simp add: digits_val_def)

lemma padded:
  assumes "m < 10 ^ d" "0 < d"
  defines "s \<equiv> replicate (d - length (nat_digits m)) 48 @ nat_digits m"
  shows "length s = d" "digits_val s = m" "\<forall>c \<in> set s. is_digit c" "s \<noteq> []"
proof -
  have "length (nat_digits m) \<le> d" by (rule nat_digits_length [OF assms(1,2)])
  then show "length s = d" by (simp add: s_def)
  then show "s \<noteq> []" using assms(2) by auto
  show "digits_val s = m" by (simp add: s_def digits_val_append digits_val_zeros)
  show "\<forall>c \<in> set s. is_digit c" by (auto simp: s_def nat_digits_set is_digit_def dest: nat_digits_set)
qed

lemma thousands_set: "c \<in> set (thousands s) \<Longrightarrow> c = 44 \<or> c \<in> set s"
  by (induction s rule: thousands.induct) auto

lemma thousands_filter: "44 \<notin> set s \<Longrightarrow> filter (\<lambda>c. c \<noteq> 44) (thousands s) = s"
  by (induction s rule: thousands.induct) auto

text \<open>The integer part, with or without its commas.\<close>

lemma integer_part:
  fixes grouped :: bool and n :: nat
  defines "w \<equiv> (if grouped then rev (thousands (rev (nat_digits n))) else nat_digits n)"
  shows "filter (\<lambda>c. c \<noteq> 44) w = nat_digits n" "\<forall>c \<in> set w. is_digit c \<or> c = 44"
proof -
  have d: "\<forall>c \<in> set (nat_digits n). is_digit c" using nat_digits_set by blast
  then have c: "44 \<notin> set (nat_digits n)" by (auto simp: is_digit_def)
  then have f: "filter (\<lambda>c. c \<noteq> 44) (nat_digits n) = nat_digits n" by (induction "nat_digits n") (auto simp: filter_id_conv)
  show "filter (\<lambda>c. c \<noteq> 44) w = nat_digits n"
    using c f by (simp add: w_def thousands_filter flip: rev_filter)
  show "\<forall>c \<in> set w. is_digit c \<or> c = 44" using d by (auto simp: w_def dest: thousands_set)
qed

lemma mantissa_digits:
  assumes "\<forall>c \<in> set ds. is_digit c" "ds \<noteq> []"
  shows "mantissa ds = Some (ds, [])"
proof -
  have no: "46 \<notin> set ds" using assms(1) by (auto simp: is_digit_def)
  then have t: "takeWhile (\<lambda>c. c \<noteq> 46) ds = ds" "dropWhile (\<lambda>c. c \<noteq> 46) ds = []" by (induction ds) auto
  show ?thesis unfolding mantissa_def Let_def t using assms by (simp add: digit_group_digits)
qed

lemma point_split:
  assumes "46 \<notin> set ds"
  shows "takeWhile (\<lambda>c. c \<noteq> 46) (ds @ 46 # fs) = ds" "dropWhile (\<lambda>c. c \<noteq> 46) (ds @ 46 # fs) = 46 # fs"
  using assms by (induction ds) auto

lemma mantissa_decimal:
  assumes "\<forall>c \<in> set ds. is_digit c" "ds \<noteq> []" "\<forall>c \<in> set fs. is_digit c" "fs \<noteq> []"
  shows "mantissa (ds @ 46 # fs) = Some (ds, fs)"
proof -
  have "46 \<notin> set ds" using assms(1) by (auto simp: is_digit_def)
  note p = point_split [OF this, of fs]
  show ?thesis unfolding mantissa_def Let_def p using assms by (simp add: digit_group_digits)
qed

lemma round_even_nonneg: "0 \<le> x \<Longrightarrow> 0 \<le> round_even x"
  unfolding round_even_def Let_def by (simp del: of_int_floor_cancel)

lemma fixed_shown:
  "shown (fixed grouped d x) = Some ((if x < 0 then - 1 else 1) * of_int (round_even (\<bar>x\<bar> * 10 ^ d)) / 10 ^ d)"
  "\<forall>c \<in> set (fixed grouped d x). figure_char c"
  "length (drop 1 (dropWhile (\<lambda>c. c \<noteq> 46) (fixed grouped d x))) = d"
proof -
  define k where "k = nat (round_even (\<bar>x\<bar> * 10 ^ d))"
  let ?w = "if grouped then rev (thousands (rev (nat_digits (k div 10 ^ d)))) else nat_digits (k div 10 ^ d)"
  let ?sign = "if x < 0 then [45] else [] :: pystr"
  define s where "s = replicate (d - length (nat_digits (k mod 10 ^ d))) 48 @ nat_digits (k mod 10 ^ d)"
  have fx: "fixed grouped d x = ?sign @ ?w @ (if d = 0 then [] else 46 # s)" unfolding fixed_def Let_def k_def s_def by (rule refl)
  note w = integer_part [of grouped "k div 10 ^ d"]
  have s: "length s = d \<and> digits_val s = k mod 10 ^ d \<and> (\<forall>c \<in> set s. is_digit c) \<and> s \<noteq> []" if "d \<noteq> 0"
    using padded [of "k mod 10 ^ d" d, folded s_def] that by simp
  have "0 \<le> round_even (\<bar>x\<bar> * 10 ^ d)" by (rule round_even_nonneg) simp
  then have k: "rat_of_nat k = of_int (round_even (\<bar>x\<bar> * 10 ^ d))" unfolding k_def by (rule of_nat_nat)
  let ?n = "nat_digits (k div 10 ^ d)"
  have n: "\<forall>c \<in> set ?n. is_digit c" "?n \<noteq> []" "is_digit (hd ?n)" using nat_digits_set nat_digits_hd_digit by auto
  have filt: "filter (\<lambda>c. c \<noteq> 44) (fixed grouped d x) = ?sign @ ?n @ (if d = 0 then [] else 46 # s)"
  proof -
    have "filter (\<lambda>c. c \<noteq> 44) s = s" if "d \<noteq> 0" using s [OF that] by (auto simp: filter_id_conv is_digit_def)
    then show ?thesis unfolding fx filter_append w(1) by simp
  qed
  have sign: "sign_of (?sign @ ?n @ r) = (x < 0, ?n @ r)" for r
    using n(2,3) by (cases ?n) (auto simp: sign_of_def is_digit_def)
  have "mantissa (?n @ (if d = 0 then [] else 46 # s)) = Some (?n, if d = 0 then [] else s)"
    using mantissa_digits [OF n(1,2)] mantissa_decimal [OF n(1,2)] s by (cases "d = 0") simp_all
  moreover have "digits_val (?n @ (if d = 0 then [] else s)) = k" "length (if d = 0 then [] else s) = d"
    using s by (cases "d = 0"; simp add: digits_val_append digits_val_zeros [of 0, simplified] div_mult_mod_eq)+
  ultimately show "shown (fixed grouped d x) = Some ((if x < 0 then - 1 else 1) * of_int (round_even (\<bar>x\<bar> * 10 ^ d)) / 10 ^ d)"
    by (simp add: shown_def filt sign k)
  show "\<forall>c \<in> set (fixed grouped d x). figure_char c"
  proof
    fix c assume "c \<in> set (fixed grouped d x)"
    then have "c \<in> set ?sign \<or> c \<in> set ?w \<or> (d \<noteq> 0 \<and> (c = 46 \<or> c \<in> set s))" unfolding fx by (auto split: if_splits)
    with w(2) s show "figure_char c" unfolding figure_char_def by (auto split: if_splits)
  qed
  have no: "46 \<notin> set (?sign @ ?w)"
  proof
    assume "46 \<in> set (?sign @ ?w)"
    then have "46 \<in> set ?w" by (simp split: if_splits)
    with w(2) show False by (auto simp only: is_digit_def)
  qed
  show "length (drop 1 (dropWhile (\<lambda>c. c \<noteq> 46) (fixed grouped d x))) = d"
  proof (cases "d = 0")
    case True
    then have "fixed grouped d x = ?sign @ ?w" unfolding fx by simp
    with no have "46 \<notin> set (fixed grouped d x)" by (simp only:) simp
    then have "dropWhile (\<lambda>c. c \<noteq> 46) (fixed grouped d x) = []" unfolding dropWhile_eq_Nil_conv by metis
    then have "length (drop 1 (dropWhile (\<lambda>c. c \<noteq> 46) (fixed grouped d x))) = 0" by (simp only: drop_Nil list.size)
    with True show ?thesis by (simp only:)
  next
    case False
    have "fixed grouped d x = (?sign @ ?w) @ 46 # s" unfolding fx using False by simp
    with point_split(2) [OF no, of s] s [OF False] show ?thesis by simp
  qed
qed

lemma fixed_prints: "prints d x (fixed grouped d x)"
proof -
  let ?r = "rat_of_int (round_even (\<bar>x\<bar> * 10 ^ d))"
  have "\<bar>?r - \<bar>x\<bar> * 10 ^ d\<bar> \<le> 1 / 2" by (rule round_even_near)
  then have "\<bar>?r - \<bar>x\<bar> * 10 ^ d\<bar> / 10 ^ d \<le> (1 / 2) / 10 ^ d" by (intro divide_right_mono) simp_all
  moreover have "\<bar>?r - \<bar>x\<bar> * 10 ^ d\<bar> / 10 ^ d = \<bar>(?r - \<bar>x\<bar> * 10 ^ d) / 10 ^ d\<bar>" by simp
  moreover have "(?r - \<bar>x\<bar> * 10 ^ d) / 10 ^ d = ?r / 10 ^ d - \<bar>x\<bar>" by (simp add: field_simps)
  ultimately have "\<bar>?r / 10 ^ d - \<bar>x\<bar>\<bar> \<le> 1 / (2 * 10 ^ d)" by simp
  then have "\<bar>(if x < 0 then - 1 else 1) * ?r / 10 ^ d - x\<bar> \<le> 1 / (2 * 10 ^ d)" by (auto simp: abs_if split: if_splits)
  with fixed_shown [where grouped = grouped and d = d and x = x] show ?thesis by (auto simp: prints_def)
qed

section \<open>The columns of a row\<close>

lemma space_32: "str_space 32"
  by (simp add: str_space_def)

lemma drop_space_end: "dropWhile str_space (s @ [32]) = (if \<forall>c \<in> set s. str_space c then [] else dropWhile str_space s @ [32])"
  by (induction s) (simp_all add: space_32)

lemma strip_pad [simp]:
  "strip (32 # s) = strip s"
  "strip (s @ [32]) = strip s"
proof -
  show "strip (32 # s) = strip s" by (simp add: strip_def space_32)
  show "strip (s @ [32]) = strip s"
  proof (cases "\<forall>c \<in> set s. str_space c")
    case True
    then have "dropWhile str_space s = []" by (induction s) simp_all
    moreover from True have "dropWhile str_space (s @ [32]) = []" unfolding drop_space_end by (rule if_P)
    ultimately show ?thesis unfolding strip_def by (simp only:)
  next
    case False
    then have "dropWhile str_space (s @ [32]) = dropWhile str_space s @ [32]" by (simp add: drop_space_end)
    then show ?thesis by (simp add: strip_def space_32)
  qed
qed

text \<open>A row of TeX: the columns between the \<^verbatim>\<open>&\<close>, without the two backslashes that end it and the blanks around them.\<close>

definition columns :: "pystr \<Rightarrow> pystr list" where
  "columns row = map strip (split_on 38 (butlast (butlast row)))"

end
