(* ===== verification/Figures_Complete.thy ===== *)
theory Figures_Complete
  imports Figures Printed
begin

text \<open>
  What the paper's numbers are: from the simulator's files to the mean, the least and the largest latency
  of a configuration, and the ranked table.
\<close>

section \<open>The latency of a configuration\<close>

definition stats_of :: "rat option list \<Rightarrow> exn + rat \<times> rat \<times> rat" where
  "stats_of cs =
     (if cs = [] \<or> None \<in> set cs then Inl ValueError
      else let v = map the cs in Inr (sum_list v / of_nat (length v), Min (set v), Max (set v)))"

lemma map_raise_cells:
  "map_raise (\<lambda>r. cell_float (c r)) rs =
     (if None \<in> set (map c rs) then Inl ValueError else Inr (map the (map c rs)))"
  by (induction rs) (auto simp: cell_float_def split: option.split)

lemma latency_stats: "latency g cfg n = stats_of (map sim_latency_mean (filter completed (group g cfg n)))"
  by (simp add: latency_def map_raise_cells stats_of_def mean_of_def)

lemma stats_of_mset:
  assumes "mset xs = mset ys"
  shows "stats_of xs = stats_of ys"
proof -
  have s: "set xs = set ys" "length xs = length ys" using mset_eq_setD [OF assms] mset_eq_length [OF assms] by simp_all
  have "mset (map the xs) = mset (map the ys)" using assms by simp
  then have "sum_list (map the xs) = sum_list (map the ys)" by (metis sum_mset_sum_list)
  with s show ?thesis by (auto simp: stats_of_def Let_def)
qed

lemma stats_bounds:
  assumes "stats_of cs = Inr (m, lo, hi)"
  shows "lo \<le> m" "m \<le> hi"
  using assms mean_bounds [of "map the cs"] by (auto simp: stats_of_def Let_def split: if_splits)

lemma group_sims_filter:
  assumes "group_sims rows = Inr g"
  shows "group g cfg n = filter (\<lambda>r. cell_text (sim_config r) = cfg \<and> sim_N r = Some n) rows"
  using assms unfolding group_sims_def
proof (induction rows arbitrary: g)
  case Nil
  then show ?case by (simp add: group_def)
next
  case (Cons r rows)
  then obtain k g' where k: "sim_N r = Some k" "g = ((cell_text (sim_config r), k), r) # g'"
    "map_raise (\<lambda>r. case sim_N r of None \<Rightarrow> Inl ValueError | Some n \<Rightarrow> Inr ((cell_text (sim_config r), n), r)) rows = Inr g'"
    by (auto split: option.splits sum.splits)
  from Cons.IH [OF k(3)] k(1,2) show ?case by (auto simp: group_def)
qed

text \<open>The runs of a configuration among the files of a directory, and the latencies they report.\<close>

definition runs_of :: "(pystr \<times> pystr) list \<Rightarrow> pystr \<Rightarrow> int \<Rightarrow> sca_run list" where
  "runs_of dir cfg n = filter (\<lambda>r. cell_text (sr_config r) = cfg \<and> sr_N r = Some n \<and>
     0 < (case sr_core r (lit ''sessions_completed'') of None \<Rightarrow> 0 | Some v \<Rightarrow> v)) (map (\<lambda>(_, body). sca_spec body) (sca_files dir))"

lemma sim_row_fields:
  "sim_config (sim_row_of r) = sr_config r" "sim_N (sim_row_of r) = sr_N r"
  "sim_latency_mean (sim_row_of r) = sr_core r (lit ''latency_mean_ms'')"
  "sim_completed (sim_row_of r) = sr_core r (lit ''sessions_completed'')"
  by (simp_all add: sim_row_of_def Let_def del: lit_Cons)

lemma latency_of_files:
  assumes c: "collect dir = Some (Inr rows)" and g: "group_sims rows = Inr g"
  shows "latency g cfg n = stats_of (map (\<lambda>r. sr_core r (lit ''latency_mean_ms'')) (runs_of dir cfg n))"
proof -
  let ?runs = "map (\<lambda>(_, body). sca_spec body) (sca_files dir)"
  have rows: "rows = sort_key sim_key (map sim_row_of ?runs)"
    using collect_spec(1) [OF c] by (simp add: case_prod_unfold comp_def)
  let ?P = "\<lambda>r. cell_text (sim_config r) = cfg \<and> sim_N r = Some n \<and> completed r"
  have "filter completed (group g cfg n) = filter ?P rows" by (simp add: group_sims_filter [OF g] conj_ac)
  then have "mset (filter completed (group g cfg n)) = mset (filter ?P (map sim_row_of ?runs))"
    by (simp add: rows mset_filter)
  also have "filter ?P (map sim_row_of ?runs) = map sim_row_of (runs_of dir cfg n)"
    by (simp add: runs_of_def filter_map comp_def sim_row_fields completed_def del: lit_Cons)
  finally have "mset (map sim_latency_mean (filter completed (group g cfg n))) =
      mset (map (\<lambda>r. sr_core r (lit ''latency_mean_ms'')) (runs_of dir cfg n))"
    by (simp add: image_mset.compositionality comp_def sim_row_fields del: lit_Cons)
  with stats_of_mset show ?thesis by (simp add: latency_stats)
qed

section \<open>The ranked table\<close>

lemma mean_latency_Inr: "mean_latency g cfg n = Inr m \<longleftrightarrow> (\<exists>lo hi. latency g cfg n = Inr (m, lo, hi))"
  by (auto simp: mean_latency_def split: sum.split)

lemma ranking_sorted:
  assumes "ranking g = Inr order"
  shows "mset order = mset FIG_STRATEGIES" "length order = 7"
    "\<exists>keys. list_all2 (\<lambda>s k. mean_latency g (with_adversaries s) 1000 = Inr k) order keys \<and> sorted keys"
proof -
  from assms obtain keys where k: "map_raise (\<lambda>s. mean_latency g (with_adversaries s) 1000) FIG_STRATEGIES = Inr keys"
    "order = map snd (sort_key fst (zip keys FIG_STRATEGIES))" by (auto simp: ranking_def split: sum.splits)
  let ?z = "sort_key fst (zip keys FIG_STRATEGIES)"
  from k(1) have l: "list_all2 (\<lambda>s k. mean_latency g (with_adversaries s) 1000 = Inr k) FIG_STRATEGIES keys"
    by (simp add: map_raise_iff)
  then have len: "length keys = length FIG_STRATEGIES" by (simp add: list_all2_lengthD)
  have "mset order = image_mset snd (mset (zip keys FIG_STRATEGIES))" by (simp add: k(2))
  also have "\<dots> = mset (map snd (zip keys FIG_STRATEGIES))" by simp
  finally show m: "mset order = mset FIG_STRATEGIES" using len by simp
  then show "length order = 7" using mset_eq_length [OF m] by (simp add: FIG_STRATEGIES_def)
  have "\<forall>(k, s) \<in> set ?z. mean_latency g (with_adversaries s) 1000 = Inr k"
    using l by (auto simp: list_all2_conv_all_nth set_zip)
  then have "list_all2 (\<lambda>s k. mean_latency g (with_adversaries s) 1000 = Inr k) order (map fst ?z)"
    by (simp add: k(2) list_all2_map1 list_all2_map2 list_all2_same case_prod_unfold)
  moreover have "sorted (map fst ?z)" by simp
  ultimately show "\<exists>keys. list_all2 (\<lambda>s k. mean_latency g (with_adversaries s) 1000 = Inr k) order keys \<and> sorted keys" by blast
qed

text \<open>
  What the figures of the paper should be, said over the rows of the collector: the mean latency of the runs
  that completed a session, and the mean of 320 bits for each enrolled device and eight for each byte of state,
  in units of 1024 bytes.
\<close>

definition is_mean :: "rat \<Rightarrow> rat list \<Rightarrow> bool" where
  "is_mean m v \<longleftrightarrow> v \<noteq> [] \<and> m * of_nat (length v) = sum_list v"

definition latency_is :: "sims \<Rightarrow> pystr \<Rightarrow> int \<Rightarrow> rat \<Rightarrow> bool" where
  "latency_is g cfg n t \<longleftrightarrow>
     (\<forall>r \<in> set (filter completed (group g cfg n)). sim_latency_mean r \<noteq> None) \<and>
     is_mean t (map (\<lambda>r. the (sim_latency_mean r)) (filter completed (group g cfg n)))"

definition storage_is :: "sims \<Rightarrow> pystr \<Rightarrow> int \<Rightarrow> rat \<Rightarrow> bool" where
  "storage_is g cfg n m \<longleftrightarrow> is_mean (8 * 1024 * m) (map (\<lambda>r. 320 * sim_mean_enrolled r + 8 * sim_mean_state r) (group g cfg n))"

lemma mean_latency_is: "mean_latency g cfg n = Inr t \<longleftrightarrow> latency_is g cfg n t"
proof -
  have none: "None \<in> set (map f rs) \<longleftrightarrow> \<not> (\<forall>r \<in> set rs. f r \<noteq> None)" for f :: "sim_row \<Rightarrow> rat option" and rs
    by (induction rs) auto
  have "of_nat (length rs) \<noteq> (0 :: rat)" if "rs \<noteq> []" for rs :: "sim_row list" using that by simp
  then show ?thesis
    unfolding mean_latency_def latency_stats stats_of_def Let_def latency_is_def is_mean_def none
    by (auto simp: comp_def nonzero_divide_eq_eq nonzero_eq_divide_eq simp del: of_nat_eq_0_iff set_filter split: sum.splits if_splits)
qed

lemma store_kb_is: "store_kb g s n = Inr m \<longleftrightarrow> storage_is g (with_adversaries s) n m"
proof -
  let ?rows = "group g (with_adversaries s) n"
  have "8 * sum_list (map (\<lambda>r. sim_mean_enrolled r * PAPER_SERVER_BITS / 8 + sim_mean_state r) rs) =
      sum_list (map (\<lambda>r. 320 * sim_mean_enrolled r + 8 * sim_mean_state r) rs)" for rs
    by (induction rs) (simp_all add: PAPER_SERVER_BITS_def)
  from this [of ?rows] show ?thesis
    by (auto simp: store_kb_def mean_of_def storage_is_def is_mean_def field_simps)
qed

text \<open>
  A latency is printed without decimals from a thousand on, with one from a hundred on and with two below; a
  storage with one from ten on and with two below.  A line prints ten cells: the duration of a session, the
  latency at every size, the storage of one enrolled device, and the storage at every size.
\<close>

definition prints_latency :: "sims \<Rightarrow> pystr \<Rightarrow> int \<Rightarrow> pystr \<Rightarrow> bool" where
  "prints_latency g cfg n cell \<longleftrightarrow>
     (\<exists>t. latency_is g cfg n t \<and> prints (if 1000 \<le> t then 0 else if 100 \<le> t then 1 else 2) t cell)"

definition prints_storage :: "sims \<Rightarrow> pystr \<Rightarrow> int \<Rightarrow> pystr \<Rightarrow> bool" where
  "prints_storage g cfg n cell \<longleftrightarrow> (\<exists>m. storage_is g cfg n m \<and> prints (if 10 \<le> m then 1 else 2) m cell)"

definition cells_true :: "sims \<Rightarrow> string \<Rightarrow> pystr list \<Rightarrow> bool" where
  "cells_true g s cs \<longleftrightarrow>
     (\<exists>session ts enrolled ms. cs = session # ts @ enrolled # ms \<and>
        prints 2 (2368 / 100) session \<and> list_all2 (prints_latency g (with_adversaries s)) TN ts \<and>
        prints 2 (40 / 1024) enrolled \<and> list_all2 (prints_storage g (with_adversaries s)) TN ms)"

text \<open>What a line of the table, and what the summary keeps of it, says of its strategy.\<close>

definition line_true :: "sims \<Rightarrow> ranked_line \<Rightarrow> bool" where
  "line_true g l \<longleftrightarrow>
     list_all2 (latency_is g (with_adversaries (rl_strategy l))) TN (rl_latency l) \<and>
     list_all2 (storage_is g (with_adversaries (rl_strategy l))) TN (rl_storage l) \<and>
     list_all2 (latency_is g (honest_only (rl_strategy l))) TN (rl_latency_noadv l) \<and>
     cells_true g (rl_strategy l) (rl_cells l)"

lemma fmt_ms_prints: "latency_is g cfg n t \<Longrightarrow> prints_latency g cfg n (fmt_ms t)"
  unfolding prints_latency_def by (rule exI [of _ t]) (simp add: fmt_ms_def fixed_prints)

lemma fmt_kb_prints: "storage_is g cfg n m \<Longrightarrow> prints_storage g cfg n (fmt_kb m)"
  unfolding prints_storage_def by (rule exI [of _ m]) (simp add: fmt_kb_def fixed_prints)

lemma fmt_chars: "\<forall>x \<in> set (fmt_ms t). figure_char x" "\<forall>x \<in> set (fmt_kb t). figure_char x"
  using fixed_shown(2) by (simp_all add: fmt_ms_def fmt_kb_def)

lemma ranked_line_true:
  assumes "ranked_line_of g (k, s) = Inr l"
  shows "rl_rank l = k \<and> rl_strategy l = s \<and> line_true g l \<and> (\<forall>c \<in> set (rl_cells l). \<forall>x \<in> set c. figure_char x)"
proof -
  from assms obtain t m h where v: "map_raise (mean_latency g (with_adversaries s)) TN = Inr t"
    "map_raise (store_kb g s) TN = Inr m" "map_raise (mean_latency g (honest_only s)) TN = Inr h"
    and l: "rl_rank l = k" "rl_strategy l = s" "rl_latency l = t" "rl_storage l = m" "rl_latency_noadv l = h"
      "rl_cells l = fixed False 2 PAPER_SESSION_MS # map fmt_ms t @ fixed False 2 (PAPER_SERVER_BITS / 8 / 1024) # map fmt_kb m"
    by (auto simp: ranked_line_of_def split: sum.splits)
  have la: "list_all2 (latency_is g (with_adversaries s)) TN t" "list_all2 (storage_is g (with_adversaries s)) TN m"
    "list_all2 (latency_is g (honest_only s)) TN h"
    using v by (simp_all add: map_raise_iff mean_latency_is store_kb_is)
  have "list_all2 (prints_latency g (with_adversaries s)) TN (map fmt_ms t)"
    using la(1) by (auto simp: list_all2_map2 intro: fmt_ms_prints elim: list_all2_mono)
  moreover have "list_all2 (prints_storage g (with_adversaries s)) TN (map fmt_kb m)"
    using la(2) by (auto simp: list_all2_map2 intro: fmt_kb_prints elim: list_all2_mono)
  moreover have "prints 2 (2368 / 100) (fixed False 2 PAPER_SESSION_MS)"
    using fixed_prints [of 2 PAPER_SESSION_MS False] by (simp add: PAPER_SESSION_MS_def)
  moreover have "prints 2 (40 / 1024) (fixed False 2 (PAPER_SERVER_BITS / 8 / 1024))"
    using fixed_prints [of 2 "PAPER_SERVER_BITS / 8 / 1024" False] by (simp add: PAPER_SERVER_BITS_def)
  ultimately have "cells_true g s (rl_cells l)" unfolding cells_true_def l(6) by blast
  moreover have "\<forall>c \<in> set (rl_cells l). \<forall>x \<in> set c. figure_char x"
    unfolding l(6) using fixed_shown(2) fmt_chars by auto
  ultimately show ?thesis using la l by (simp add: line_true_def)
qed

lemma ranked_table_sound:
  assumes "ranked_table g = Inr table"
  shows "mset (map rl_strategy table) = mset FIG_STRATEGIES" "map rl_rank table = [1 ..< 8]"
    "\<forall>l \<in> set table. line_true g l \<and> (\<forall>c \<in> set (rl_cells l). \<forall>x \<in> set c. figure_char x)" "sorted (map (\<lambda>l. rl_latency l ! 3) table)"
proof -
  from assms obtain order where o: "ranking g = Inr order" "map_raise (ranked_line_of g) (zip [1 ..< Suc (length order)] order) = Inr table"
    by (auto simp: ranked_table_def split: sum.splits)
  note r = ranking_sorted [OF o(1)]
  have "list_all2 (\<lambda>x l. ranked_line_of g x = Inr l) (zip [1 ..< 8] order) table"
    using o(2) r(2) by (simp add: map_raise_iff eval_nat_numeral)
  then have len: "length table = 7" and l: "\<And>i. i < 7 \<Longrightarrow> ranked_line_of g ([1 ..< 8] ! i, order ! i) = Inr (table ! i)"
    using r(2) by (simp_all add: list_all2_conv_all_nth)
  have t: "rl_rank (table ! i) = [1 ..< 8] ! i \<and> rl_strategy (table ! i) = order ! i \<and> line_true g (table ! i) \<and>
      (\<forall>c \<in> set (rl_cells (table ! i)). \<forall>x \<in> set c. figure_char x)" if "i < 7" for i
    by (rule ranked_line_true [OF l [OF that]])
  have "map rl_strategy table = order" using t r(2) len by (intro nth_equalityI) simp_all
  with r(1) show "mset (map rl_strategy table) = mset FIG_STRATEGIES" by simp
  show "map rl_rank table = [1 ..< 8]" using t len by (intro nth_equalityI) simp_all
  show "\<forall>l \<in> set table. line_true g l \<and> (\<forall>c \<in> set (rl_cells l). \<forall>x \<in> set c. figure_char x)" using t len by (metis in_set_conv_nth)
  from r(3) obtain keys where k: "list_all2 (\<lambda>s k. mean_latency g (with_adversaries s) 1000 = Inr k) order keys" "sorted keys" by blast
  have "rl_latency (table ! i) ! 3 = keys ! i" if "i < 7" for i
  proof -
    have "mean_latency g (with_adversaries (order ! i)) 1000 = Inr (keys ! i)" using k(1) that r(2) by (simp add: list_all2_conv_all_nth)
    moreover have "list_all2 (\<lambda>n t. mean_latency g (with_adversaries (order ! i)) n = Inr t) TN (rl_latency (table ! i))"
      using t [OF that] by (auto simp: line_true_def mean_latency_is)
    then have "mean_latency g (with_adversaries (order ! i)) (TN ! 3) = Inr (rl_latency (table ! i) ! 3)"
      by (rule list_all2_nthD) (simp add: TN_def)
    ultimately show ?thesis by (simp add: TN_def)
  qed
  then have "map (\<lambda>l. rl_latency l ! 3) table = keys"
    using len r(2) list_all2_lengthD [OF k(1)] by (intro nth_equalityI) simp_all
  with k(2) show "sorted (map (\<lambda>l. rl_latency l ! 3) table)" by simp
qed

text \<open>The table exists as soon as every configuration it needs has a completed run and every run a latency.\<close>

definition covers :: "sims \<Rightarrow> bool" where
  "covers g \<longleftrightarrow> (\<forall>s \<in> set FIG_STRATEGIES. \<forall>n \<in> set TN. \<forall>cfg \<in> {with_adversaries s, honest_only s}.
     (\<exists>r \<in> set (group g cfg n). completed r) \<and> (\<forall>r \<in> set (group g cfg n). sim_latency_mean r \<noteq> None))"

lemma covered_latency:
  assumes "covers g" "s \<in> set FIG_STRATEGIES" "n \<in> set TN" "cfg \<in> {with_adversaries s, honest_only s}"
  shows "mean_latency g cfg n \<in> range Inr" "group g cfg n \<noteq> []"
proof -
  from assms have c: "\<exists>r \<in> set (group g cfg n). completed r" "\<forall>r \<in> set (group g cfg n). sim_latency_mean r \<noteq> None"
    unfolding covers_def by blast+
  then have "filter completed (group g cfg n) \<noteq> []" "None \<notin> set (map sim_latency_mean (filter completed (group g cfg n)))"
    by (auto simp: filter_empty_conv)
  then show "mean_latency g cfg n \<in> range Inr" by (simp add: mean_latency_def latency_stats stats_of_def Let_def del: set_map)
  from c(1) show "group g cfg n \<noteq> []" by auto
qed

lemma ranked_table_total:
  assumes "covers g"
  shows "\<exists>table. ranked_table g = Inr table"
proof -
  have "1000 \<in> set TN" by (simp add: TN_def)
  then have "\<forall>s \<in> set FIG_STRATEGIES. mean_latency g (with_adversaries s) 1000 \<in> range Inr"
    using covered_latency(1) [OF assms] by blast
  from map_raise_total [OF this] obtain order where o: "ranking g = Inr order" by (auto simp: ranking_def)
  have "ranked_line_of g (k, s) \<in> range Inr" if "s \<in> set FIG_STRATEGIES" for k s
  proof -
    have "\<forall>n \<in> set TN. mean_latency g (with_adversaries s) n \<in> range Inr" "\<forall>n \<in> set TN. mean_latency g (honest_only s) n \<in> range Inr"
      using covered_latency(1) [OF assms that] by blast+
    moreover have "\<forall>n \<in> set TN. store_kb g s n \<in> range Inr"
      using covered_latency(2) [OF assms that] by (simp add: store_kb_def mean_of_def)
    ultimately obtain u v w where "map_raise (mean_latency g (with_adversaries s)) TN = Inr u"
      "map_raise (store_kb g s) TN = Inr v" "map_raise (mean_latency g (honest_only s)) TN = Inr w"
      using map_raise_total by metis
    then show ?thesis by (simp add: ranked_line_of_def)
  qed
  moreover have "set order = set FIG_STRATEGIES" using mset_eq_setD [OF ranking_sorted(1) [OF o]] .
  ultimately have "\<forall>x \<in> set (zip [1 ..< Suc (length order)] order). ranked_line_of g x \<in> range Inr"
    by (auto dest: set_zip_rightD)
  from map_raise_total [OF this] o show ?thesis by (simp add: ranked_table_def)
qed

section \<open>The written table\<close>

text \<open>The columns a line should have before its figures.\<close>

definition line_labels :: "ranked_line \<Rightarrow> pystr list" where
  "line_labels l =
     (case map_of S (rl_strategy l) of
        None \<Rightarrow> []
      | Some i \<Rightarrow>
          [nat_digits (rl_rank l), lit (fl_short i),
           lit (fl_name i) @ (if fl_origin i = ''ours'' then [] else 32 # lit (fl_origin i)), lit (fl_time i), lit (fl_space i)])"

text \<open>The rows between the first and the last line of the file.\<close>

definition tex_rows :: "pystr \<Rightarrow> pystr list" where
  "tex_rows out = drop 1 (butlast (butlast (split_on 10 out)))"

lemma join_Cons: "join_with sep (x # xs) = (if xs = [] then x else x @ sep @ join_with sep xs)"
  by (cases xs) simp_all

lemma split_lines:
  assumes "ps \<noteq> []" "\<forall>p \<in> set ps. 10 \<notin> set p"
  shows "split_on 10 (join_with [10] ps @ 10 # t) = ps @ split_on 10 t"
  using assms by (induction ps) (auto simp: join_Cons split_on_first)

lemma columns_join:
  assumes "ps \<noteq> []" "\<forall>p \<in> set ps. 38 \<notin> set p"
  shows "columns (join_with (lit '' & '') ps @ [32, 92, 92]) = map strip ps"
proof -
  have "map strip (split_on 38 (pre @ join_with [32, 38, 32] ps @ [32])) = map strip ps" if "pre \<in> {[], [32]}" for pre
    using assms that
  proof (induction ps arbitrary: pre)
    case (Cons x xs)
    have x: "strip (pre @ x @ [32]) = strip x" using Cons(4) strip_pad [of x] strip_pad [of "x @ [32]"] by auto
    from Cons(3,4) have no: "38 \<notin> set (pre @ x @ [32])" by auto
    show ?case
    proof (cases "xs = []")
      case True
      with x no show ?thesis by (simp add: split_on_plain)
    next
      case False
      with Cons.prems Cons.IH [of "[32]"] have "map strip (split_on 38 ([32] @ join_with [32, 38, 32] xs @ [32])) = map strip xs" by (simp del: split_on.simps)
      moreover have "pre @ join_with [32, 38, 32] (x # xs) @ [32] =
          (pre @ x @ [32]) @ 38 # [32] @ join_with [32, 38, 32] xs @ [32]" using False by (simp add: join_Cons)
      ultimately show ?thesis by (simp only: split_on_first [OF no] list.map x)
    qed
  qed simp
  from this [of "[]"] show ?thesis by (simp add: columns_def butlast_append lit_def)
qed

lemma strip_ends:
  assumes "s \<noteq> []" "\<not> str_space (hd s)" "\<not> str_space (last s)"
  shows "strip s = s"
proof -
  have "dropWhile str_space t = t" if "t \<noteq> []" "\<not> str_space (hd t)" for t using that by (cases t) simp_all
  from this [of s] this [of "rev s"] assms show ?thesis by (simp add: strip_def hd_rev)
qed

text \<open>The labels have neither blanks at their ends nor a character that separates columns or rows.\<close>

definition label_ok :: "pystr \<Rightarrow> bool" where
  "label_ok s \<longleftrightarrow> s \<noteq> [] \<and> \<not> str_space (hd s) \<and> \<not> str_space (last s) \<and> 10 \<notin> set s \<and> 38 \<notin> set s"

lemma labels_ok:
  "list_all (\<lambda>(s, i). label_ok (lit (fl_short i)) \<and> label_ok (lit (fl_name i)) \<and> label_ok (lit (fl_origin i)) \<and>
     label_ok (lit (fl_time i)) \<and> label_ok (lit (fl_space i))) S"
  by (simp add: S_def tex_def label_ok_def lit_def str_space_def)

lemma label_strip: "label_ok s \<Longrightarrow> strip s = s"
  by (simp add: label_ok_def strip_ends)

lemma label_chars: "label_ok s \<Longrightarrow> 10 \<notin> set s \<and> 38 \<notin> set s"
  by (simp add: label_ok_def)

lemma label_pair: "label_ok a \<Longrightarrow> label_ok b \<Longrightarrow> label_ok (a @ 32 # b)"
  by (simp add: label_ok_def)

lemma figure_cell:
  assumes "\<forall>x \<in> set c. figure_char x"
  shows "strip c = c" "10 \<notin> set c" "38 \<notin> set c"
proof -
  have "\<not> str_space x" if "figure_char x" for x using that by (auto simp: figure_char_def str_space_def is_digit_def)
  with assms show "strip c = c" by (intro strip_digits) blast
  show "10 \<notin> set c" "38 \<notin> set c" using assms by (auto simp: figure_char_def is_digit_def)
qed

lemma join_no: "x \<notin> set sep \<Longrightarrow> \<forall>p \<in> set ps. x \<notin> set p \<Longrightarrow> x \<notin> set (join_with sep ps)"
  by (induction ps) (auto simp: join_Cons)

lemma ranked_text_columns:
  assumes "ranked_text l = Inr row" and c: "\<forall>c \<in> set (rl_cells l). \<forall>x \<in> set c. figure_char x"
  shows "columns row = line_labels l @ rl_cells l" "10 \<notin> set row"
proof -
  from assms(1) obtain i where i: "map_of S (rl_strategy l) = Some i" by (auto simp: ranked_text_def split: option.splits)
  have ok: "label_ok (lit (fl_short i)) \<and> label_ok (lit (fl_name i)) \<and> label_ok (lit (fl_origin i)) \<and>
     label_ok (lit (fl_time i)) \<and> label_ok (lit (fl_space i))"
    using labels_ok map_of_SomeD [OF i] unfolding list_all_iff by fast
  let ?name = "lit (fl_name i) @ (if fl_origin i = ''ours'' then [] else 32 # lit (fl_origin i))"
  let ?written = "lit (fl_name i) @ lit '' '' @ lit (if fl_origin i = ''ours'' then [] else fl_origin i)"
  let ?rank = "nat_digits (rl_rank l)"
  let ?parts = "[?rank, lit (fl_short i), ?written, lit (fl_time i), lit (fl_space i)] @ rl_cells l"
  have row: "row = join_with (lit '' & '') ?parts @ [32, 92, 92]" using assms(1) i by (simp add: ranked_text_def)
  have name: "label_ok ?name" using ok label_pair by auto
  have w: "?written = (if fl_origin i = ''ours'' then ?name @ [32] else ?name)" by (simp add: lit_def)
  have sw: "strip ?written = ?name" unfolding w using label_strip [OF name] by auto
  have rank: "\<forall>x \<in> set ?rank. figure_char x" by (auto simp: figure_char_def dest: nat_digits_set)
  note rank = figure_cell [OF this]
  have cells: "strip c = c \<and> 10 \<notin> set c \<and> 38 \<notin> set c" if "c \<in> set (rl_cells l)" for c
    using figure_cell c that by blast
  have nw: "10 \<notin> set ?written \<and> 38 \<notin> set ?written" unfolding w using label_chars [OF name] by auto
  have no: "\<forall>p \<in> set ?parts. 38 \<notin> set p" "\<forall>p \<in> set ?parts. 10 \<notin> set p"
    using ok label_chars rank nw cells by (simp_all del: set_append)
  have "columns row = map strip ?parts" unfolding row by (rule columns_join) (use no(1) in simp_all)
  also have "\<dots> = [?rank, lit (fl_short i), ?name, lit (fl_time i), lit (fl_space i)] @ rl_cells l"
    using ok label_strip rank sw cells by (simp add: map_idI)
  also have "\<dots> = line_labels l @ rl_cells l" by (simp add: line_labels_def i)
  finally show "columns row = line_labels l @ rl_cells l" .
  have "10 \<notin> set (join_with (lit '' & '') ?parts)" by (rule join_no [OF _ no(2)]) (simp add: lit_def)
  then show "10 \<notin> set row" unfolding row by simp
qed

lemma written_rows:
  assumes "ranked_tex table = Inr out" "table \<noteq> []" "\<forall>l \<in> set table. \<forall>c \<in> set (rl_cells l). \<forall>x \<in> set c. figure_char x"
  shows "map columns (tex_rows out) = map (\<lambda>l. line_labels l @ rl_cells l) table"
proof -
  let ?head = "lit (tex ''def'' [] @ tex ''rankedrows'' ''{%'')"
  from assms(1) obtain rows where r: "map_raise ranked_text table = Inr rows" "out = ?head @ [10] @ join_with [10] rows @ [10, 125, 10]"
    by (auto simp: ranked_tex_def split: sum.splits)
  have l: "list_all2 (\<lambda>l row. ranked_text l = Inr row) table rows" using r(1) by (simp add: map_raise_iff)
  then have c: "list_all2 (\<lambda>l row. columns row = line_labels l @ rl_cells l \<and> 10 \<notin> set row) table rows"
    using ranked_text_columns assms(3) by (auto elim!: list.rel_mono_strong)
  then have no: "\<forall>row \<in> set rows. 10 \<notin> set row" by (auto simp: list_all2_conv_all_nth in_set_conv_nth)
  have ne: "rows \<noteq> []" using list_all2_lengthD [OF l] assms(2) by auto
  have head: "10 \<notin> set ?head" by (simp add: tex_def lit_def)
  have "out = ?head @ 10 # (join_with [10] rows @ 10 # [125, 10])" by (simp add: r(2))
  then have "split_on 10 out = ?head # split_on 10 (join_with [10] rows @ 10 # [125, 10])"
    by (simp only: split_on_first [OF head])
  also have "\<dots> = ?head # rows @ [[125], []]" unfolding split_lines [OF ne no] by simp
  finally have "tex_rows out = rows" by (simp add: tex_rows_def butlast_append)
  with c show ?thesis by (auto simp: list_all2_conv_all_nth intro: nth_equalityI)
qed

text \<open>A table that exists can be written.\<close>

lemma ranked_tex_total:
  assumes "ranked_table g = Inr table"
  shows "\<exists>out. ranked_tex table = Inr out"
proof -
  have "set (map rl_strategy table) = fst ` set S"
    using mset_eq_setD [OF ranked_table_sound(1) [OF assms]] S_keys by (metis set_map)
  then have "\<forall>l \<in> set table. ranked_text l \<in> range Inr"
    by (fastforce simp: ranked_text_def image_iff map_of_eq_None_iff split: option.split)
  from map_raise_total [OF this] show ?thesis by (auto simp: ranked_tex_def)
qed

end
