(* ===== verification/ToyFigures.thy ===== *)
theory ToyFigures
  imports Figures_Complete
begin

text \<open>
  A small directory of simulation results, and a table of rows in which every configuration has one run,
  for the witnesses.
\<close>

section \<open>One file\<close>

definition toy_lines :: "string list" where
  "toy_lines = [''attr configname R_O2'', ''itervar N 10'', ''scalar Net.core latency_mean_ms 25'',
     ''scalar Net.core sessions_completed 3'', ''scalar Net.servers[0] enrolled 4'']"

definition toy_text :: pystr where
  "toy_text = concat (map (\<lambda>l. lit l @ [10]) toy_lines)"

definition toy_dir :: "(pystr \<times> pystr) list" where
  "toy_dir = [(lit ''notes.txt'', []), (lit ''a.sca'', toy_text)]"

lemma toy_file: "is_ascii toy_text" "file_lines (universal_newlines toy_text) = map (\<lambda>l. lit l @ [10]) toy_lines"
  by (simp_all add: toy_text_def toy_lines_def is_ascii_def)

lemmas line_reading =
  sca_line_def starts_with_def third_word_def third_int_def words.simps str_space_def non_space_def py_int_def strip_def sign_of_def
  is_digit_def digits_val_def

lemmas scalar_reading =
  scalar_match_def take_field_def py_float_def mantissa_def exponent_def scale10_def lower_ascii_def put_scalar_def ends_with_def last_n_def

lemma toy_line_reads:
  "sca_line (lit ''attr configname R_O2'' @ [10]) r = Some (Inr (r\<lparr>sr_config := Some (lit ''R_O2'')\<rparr>))"
  "sca_line (lit ''itervar N 10'' @ [10]) r = Some (Inr (r\<lparr>sr_N := Some 10\<rparr>))"
  "sca_line (lit ''scalar Net.core latency_mean_ms 25'' @ [10]) r =
     Some (Inr (r\<lparr>sr_core := (sr_core r)(lit ''latency_mean_ms'' \<mapsto> 25)\<rparr>))"
  "sca_line (lit ''scalar Net.core sessions_completed 3'' @ [10]) r =
     Some (Inr (r\<lparr>sr_core := (sr_core r)(lit ''sessions_completed'' \<mapsto> 3)\<rparr>))"
  "sr_servers r (lit ''enrolled'') = Some vs \<Longrightarrow> sca_line (lit ''scalar Net.servers[0] enrolled 4'' @ [10]) r =
     Some (Inr (r\<lparr>sr_servers := (sr_servers r)(lit ''enrolled'' \<mapsto> vs @ [4])\<rparr>))"
  by (simp_all add: line_reading scalar_reading)

definition toy_sca :: sca_run where
  "toy_sca = \<lparr>sr_config = Some (lit ''R_O2''), sr_N = Some 10, sr_rep = None,
     sr_core = [lit ''latency_mean_ms'' \<mapsto> 25, lit ''sessions_completed'' \<mapsto> 3],
     sr_servers = [lit ''enrolled'' \<mapsto> [4], lit ''state_bytes'' \<mapsto> [], lit ''busy_ms'' \<mapsto> []]\<rparr>"

lemma toy_read: "read_sca toy_text = Some (Inr toy_sca)"
  by (simp add: read_sca_def toy_file toy_lines_def toy_line_reads new_sca_run_def toy_sca_def fun_upd_twist fun_upd_def fun_eq_iff del: lit_Cons)

lemma toy_sca_files: "sca_files toy_dir = [(lit ''a.sca'', toy_text)]"
  by (simp add: sca_files_def toy_dir_def ends_with_def last_n_def del: lit_Cons) (simp add: lit_def)

lemma toy_collect: "collect toy_dir = Some (Inr [sim_row_of toy_sca])"
  by (simp add: collect_def toy_sca_files toy_read sort_rows_def ordered_values_def sim_key_def)

lemma toy_group: "group_sims [sim_row_of toy_sca] = Inr [((lit ''R_O2'', 10), sim_row_of toy_sca)]"
  by (simp add: group_sims_def sim_row_fields toy_sca_def cell_text_def del: lit_Cons)

lemma toy_runs: "runs_of toy_dir (lit ''R_O2'') 10 = [toy_sca]"
proof -
  have "map (\<lambda>(_, body). sca_spec body) (sca_files toy_dir) = [toy_sca]"
    using read_sca_spec [OF toy_read] by (simp add: toy_sca_files del: lit_Cons)
  then show ?thesis unfolding runs_of_def by (simp add: toy_sca_def cell_text_def del: lit_Cons)
qed

section \<open>A full table\<close>

definition toy_configs :: "pystr list" where
  "toy_configs = map with_adversaries FIG_STRATEGIES @ map honest_only FIG_STRATEGIES"

definition toy_sims :: sims where
  "toy_sims = map (\<lambda>k. (k, sim_row_of toy_sca)) (List.product toy_configs TN)"

lemma toy_covers: "covers toy_sims"
proof -
  let ?row = "sim_row_of toy_sca"
  have row: "completed ?row" "sim_latency_mean ?row \<noteq> None"
    by (simp_all add: completed_def sim_row_fields toy_sca_def del: lit_Cons)
  have only: "r = ?row" if "r \<in> set (group toy_sims cfg n)" for r cfg n
    using that by (auto simp: group_def toy_sims_def)
  have "?row \<in> set (group toy_sims cfg n)" if "cfg \<in> set toy_configs" "n \<in> set TN" for cfg n
    using that by (force simp: group_def toy_sims_def image_iff)
  moreover have "cfg \<in> set toy_configs" if "s \<in> set FIG_STRATEGIES" "cfg \<in> {with_adversaries s, honest_only s}" for s cfg
    using that by (auto simp: toy_configs_def)
  ultimately show ?thesis unfolding covers_def using row only by metis
qed

end
