(* ===== verification/ScriptProperties.thy ===== *)
theory ScriptProperties
  imports ComponentProperties ToyCostRun ToyFigures
begin

text \<open>
  The properties of the evaluation scripts as wholes: the cost script from its first measurement to its
  cost model, and the way from the simulator's files to the paper's ranked table.
\<close>

section \<open>The cost script\<close>

text \<open>
  C33: one run of the cost script.  Over any increasing grid of sizes from one on, and for random values
  without collisions, every measurement succeeds.  Each size has one row per strategy; forged probes,
  precomputation per epoch, state and message bits of the five exact strategies are their closed forms, the
  honest means of O2 and O4 too, and those of O1, O3 and CR differ from it by exactly the strategy's
  window times the distance of the drawn devices' mean position from the middle.  The script then fails
  with \<^verbatim>\<open>AssertionError\<close> exactly if such a deviation is beyond four standard errors; otherwise it
  ends with the complete cost model of these measurements.
\<close>

theorem cost_script_outcome:
  assumes "good_grid grid" "\<forall>n \<in> set grid. run_ok P quick (ch n) n" "sample_ok rng"
  shows "\<exists>rss. map_raise (\<lambda>n. run P rng quick (ch n) n) grid = Inr rss \<and> list_all2 (rows_good quick ch) grid rss \<and>
    (if \<forall>m \<in> set (concat rss). in_tolerance quick ch m
     then \<exists>s model. cost_main P rng quick grid ch = Inr (concat rss, s, model) \<and>
       map (\<lambda>(s, n, row). (s, n)) model = List.product MODEL_STRATEGIES [0 ..< Suc N_MAX] \<and>
       (\<forall>(s, n, row) \<in> set model. row_ok (concat rss) s n row)
     else cost_main P rng quick grid ch = Inl AssertionError)"
proof -
  from grid_rows [OF assms(2,3)] obtain rss where r: "map_raise (\<lambda>n. run P rng quick (ch n) n) grid = Inr rss"
    "list_all2 (rows_good quick ch) grid rss" by blast
  from model_rows_ok [OF rows_model_ready [OF assms(1) r(2)], of "List.product MODEL_STRATEGIES [0 ..< Suc N_MAX]"] obtain model where
    model: "cost_model (concat rss) N_MAX = Inr model" "map (\<lambda>(s, n, row). (s, n)) model = List.product MODEL_STRATEGIES [0 ..< Suc N_MAX]"
      "\<forall>(s, n, row) \<in> set model. row_ok (concat rss) s n row" unfolding cost_model_def by auto
  note summary = good_summary [OF assms(1) r(2), of "int (SAMPLES quick)"]
  show ?thesis
  proof (cases "\<forall>m \<in> set (concat rss). in_tolerance quick ch m")
    case False
    then have "cost_main P rng quick grid ch = Inl AssertionError" using summary r(1) by (simp add: cost_main_def del: set_concat)
    with r False show ?thesis by (simp del: set_concat)
  next
    case True
    with summary obtain s where "summary (int (SAMPLES quick)) (concat rss) = Inr s" by (auto simp del: set_concat)
    with r(1) model(1) have "cost_main P rng quick grid ch = Inr (concat rss, s, model)" by (simp add: cost_main_def Let_def)
    with model(2,3) have "\<exists>s model. cost_main P rng quick grid ch = Inr (concat rss, s, model) \<and>
       map (\<lambda>(s, n, row). (s, n)) model = List.product MODEL_STRATEGIES [0 ..< Suc N_MAX] \<and>
       (\<forall>(s, n, row) \<in> set model. row_ok (concat rss) s n row)" by blast
    then show ?thesis by (intro exI [of _ rss] conjI r) (simp only: if_P [OF True])
  qed
qed

theorem cost_script_outcome_witness:
  "\<exists>ms s model. cost_main toy (\<lambda>k n m. [0 .. m - 1]) True [1, 10] toy_choices = Inr (ms, s, model) \<and> length model = 7 * Suc N_MAX"
proof -
  have g: "good_grid [1, 10]" "\<forall>n \<in> set [1, 10]. run_ok toy True (toy_choices n) n" by (simp_all add: good_grid_def toy_run_ok)
  from cost_script_outcome [OF g toy_sample] obtain rss where
    r: "list_all2 (rows_good True toy_choices) [1, 10] rss"
    and main: "if \<forall>m \<in> set (concat rss). in_tolerance True toy_choices m
     then \<exists>s model. cost_main toy (\<lambda>k n m. [0 .. m - 1]) True [1, 10] toy_choices = Inr (concat rss, s, model) \<and>
       map (\<lambda>(s, n, row). (s, n)) model = List.product MODEL_STRATEGIES [0 ..< Suc N_MAX] \<and>
       (\<forall>(s, n, row) \<in> set model. row_ok (concat rss) s n row)
     else cost_main toy (\<lambda>k n m. [0 .. m - 1]) True [1, 10] toy_choices = Inl AssertionError" by blast
  from r obtain r1 r10 where rs: "rss = [r1, r10]" "rows_good True toy_choices 1 r1" "rows_good True toy_choices 10 r10"
    by (auto simp: list_all2_Cons1)
  then have all: "\<forall>m \<in> set (concat rss). in_tolerance True toy_choices m" using toy_in_tolerance by fastforce
  obtain s model where m: "cost_main toy (\<lambda>k n m. [0 .. m - 1]) True [1, 10] toy_choices = Inr (concat rss, s, model)"
    "map (\<lambda>(s, n, row). (s, n)) model = List.product MODEL_STRATEGIES [0 ..< Suc N_MAX]"
    using main unfolding if_P [OF all] by blast
  from arg_cong [OF m(2), of length] have "length model = 7 * Suc N_MAX" by (simp add: MODEL_STRATEGIES_def)
  with m(1) show ?thesis by blast
qed

section \<open>The figures\<close>

text \<open>
  C34: from the simulator's files to a latency.  If the collector finishes, its table has one row per result
  file, made of what the reference reading finds in that file, in the order of configuration, size and
  repetition; and the latency the figures show for a configuration and size is the mean, the least and the
  greatest of what the runs with completed sessions report, or a \<^verbatim>\<open>ValueError\<close> if there are none or one
  reports nothing.
\<close>

theorem collected_latency:
  assumes "collect dir = Some (Inr rows)" "group_sims rows = Inr g"
  shows "mset rows = mset (map (\<lambda>(_, text). sim_row_of (sca_spec text)) (sca_files dir)) \<and> sorted (map sim_key rows) \<and>
    latency g cfg n = stats_of (map (\<lambda>r. sr_core r (lit ''latency_mean_ms'')) (runs_of dir cfg n))"
  using collect_spec(1) [OF assms(1)] latency_of_files [OF assms] by (simp del: lit_Cons)

theorem collected_latency_witness:
  "\<exists>rows g. collect toy_dir = Some (Inr rows) \<and> group_sims rows = Inr g \<and> latency g (lit ''R_O2'') 10 = Inr (25, 25, 25)"
  using collected_latency [OF toy_collect toy_group, of "lit ''R_O2''" 10] toy_collect toy_group
  by (simp add: toy_runs stats_of_def del: lit_Cons) (simp add: toy_sca_def del: lit_Cons)

text \<open>
  C35: the ranked table.  If every configuration and size of the table has a run with completed sessions and no
  run without a latency, the table exists and can be written: each strategy once, numbered from one on, in the order of its
  mean latency at a thousand devices.  Reading the written file back, the columns of row i are the labels of its
  strategy and ten figures: the duration of a session; at every size, the mean latency of the completed runs with
  adversaries; the storage of one enrolled device; and at every size the mean storage of those configurations.  Every
  printed figure is within half a unit of its last digit of the number it stands for.  The numbers kept for the
  summary are these means, with the latencies without adversaries, and a mean lies between the least and the greatest
  latency of its runs.
\<close>

theorem ranked_table_faithful:
  assumes "covers g"
  shows "\<exists>table out. ranked_table g = Inr table \<and> mset (map rl_strategy table) = mset FIG_STRATEGIES \<and>
    map rl_rank table = [1 ..< 8] \<and> sorted (map (\<lambda>l. rl_latency l ! 3) table) \<and> (\<forall>l \<in> set table. line_true g l) \<and>
    ranked_tex table = Inr out \<and> map columns (tex_rows out) = map (\<lambda>l. line_labels l @ rl_cells l) table \<and>
    (\<forall>cfg n m lo hi. latency g cfg n = Inr (m, lo, hi) \<longrightarrow> lo \<le> m \<and> m \<le> hi)"
proof -
  from ranked_table_total [OF assms] obtain table where t: "ranked_table g = Inr table" by blast
  note s = ranked_table_sound [OF t]
  from ranked_tex_total [OF t] obtain out where out: "ranked_tex table = Inr out" by blast
  have "table \<noteq> []" using arg_cong [OF s(2), of length] by auto
  from written_rows [OF out this] s(3) have "map columns (tex_rows out) = map (\<lambda>l. line_labels l @ rl_cells l) table" by blast
  with t s out stats_bounds show ?thesis unfolding latency_stats by blast
qed

theorem ranked_table_faithful_witness:
  "\<exists>table out. ranked_table toy_sims = Inr table \<and> map rl_rank table = [1, 2, 3, 4, 5, 6, 7] \<and>
     (\<forall>l \<in> set table. line_true toy_sims l) \<and> ranked_tex table = Inr out \<and> length (tex_rows out) = 7"
proof -
  from ranked_table_faithful [OF toy_covers] obtain table out where t: "ranked_table toy_sims = Inr table"
    "map rl_rank table = [1 ..< 8]" "\<forall>l \<in> set table. line_true toy_sims l" "ranked_tex table = Inr out"
    "map columns (tex_rows out) = map (\<lambda>l. line_labels l @ rl_cells l) table" by blast
  have "length (tex_rows out) = length table" using arg_cong [OF t(5), of length] by simp
  moreover have "length table = 7" using arg_cong [OF t(2), of length] by simp
  moreover have "map rl_rank table = [1, 2, 3, 4, 5, 6, 7]" using t(2) by (simp add: upt_rec)
  ultimately have "length (tex_rows out) = 7" "map rl_rank table = [1, 2, 3, 4, 5, 6, 7]" by (simp_all only:)
  with t show ?thesis by (intro exI [of _ table] exI [of _ out]) (simp only: simp_thms)
qed

end
