(* ===== verification/Transport_Loop.thy ===== *)
theory Transport_Loop
  imports Transport
begin

text \<open>
  The receiving loop of \<^verbatim>\<open>demo/_transport.py\<close> over any socket whatsoever: a \<open>while\<close> loop that might not
  end, so that its model is partial, and a proof that it always ends.
\<close>

text \<open>\<^verbatim>\<open>_recv_exact\<close>, where \<open>recv\<close> is the call \<^verbatim>\<open>sock.recv\<close> of a socket of any kind.\<close>

partial_function (option) recv_loop ::
  "(int \<Rightarrow> 's \<Rightarrow> bytes \<times> 's) \<Rightarrow> 's \<Rightarrow> int \<Rightarrow> bytes list \<Rightarrow> ((exn + bytes) \<times> 's) option" where
  "recv_loop recv s remaining chunks =
     (if 0 < remaining then
        (let (chunk, s') = recv remaining s
         in if chunk = [] then Some (Inl ConnectionError, s')
            else recv_loop recv s' (remaining - int (length chunk)) (chunks @ [chunk]))
      else Some (Inr (concat chunks), s))"

text \<open>A socket that counts the calls.\<close>

definition counted :: "(int \<Rightarrow> 's \<Rightarrow> bytes \<times> 's) \<Rightarrow> int \<Rightarrow> 's \<times> nat \<Rightarrow> bytes \<times> 's \<times> nat" where
  "counted recv k = (\<lambda>(s, calls). case recv k s of (chunk, s') \<Rightarrow> (chunk, s', Suc calls))"

definition never_more :: "(int \<Rightarrow> 's \<Rightarrow> bytes \<times> 's) \<Rightarrow> bool" where
  "never_more recv \<longleftrightarrow> (\<forall>k s. 0 < k \<longrightarrow> int (length (fst (recv k s))) \<le> k)"

lemma recv_loop_ends:
  "\<exists>r s' c. recv_loop (counted recv) (s, calls) n chunks = Some (r, s', c) \<and> c \<le> calls + nat n \<and>
     (r = Inl ConnectionError \<or> (\<exists>bs. r = Inr bs \<and> int (length (concat chunks)) + n \<le> int (length bs) \<and>
        (never_more recv \<and> 0 \<le> n \<longrightarrow> int (length bs) = int (length (concat chunks)) + n)))"
proof (induction "nat n" arbitrary: s calls n chunks rule: less_induct)
  case less
  show ?case
  proof (cases "0 < n")
    case False
    then show ?thesis by (simp add: recv_loop.simps)
  next
    case True
    obtain chunk s1 where r: "recv n s = (chunk, s1)" by fastforce
    show ?thesis
    proof (cases "chunk = []")
      case e: True
      with True r show ?thesis by (simp add: recv_loop.simps counted_def) 
    next
      case False
      let ?n = "n - int (length chunk)" and ?cs = "chunks @ [chunk]"
      have pos: "0 < length chunk" using False by simp
      then have lt: "nat ?n < nat n" using True by linarith
      from less.hyps [OF this, of s1 "Suc calls" ?cs] obtain q s' c where
        q: "recv_loop (counted recv) (s1, Suc calls) ?n ?cs = Some (q, s', c)" "c \<le> Suc calls + nat ?n"
          "q = Inl ConnectionError \<or> (\<exists>bs. q = Inr bs \<and> int (length (concat ?cs)) + ?n \<le> int (length bs) \<and>
            (never_more recv \<and> 0 \<le> ?n \<longrightarrow> int (length bs) = int (length (concat ?cs)) + ?n))" by blast
      have step: "recv_loop (counted recv) (s, calls) n chunks = Some (q, s', c)"
        using q(1) True False r by (subst recv_loop.simps) (simp add: counted_def)
      have c: "c \<le> calls + nat n" using q(2) lt by linarith
      have len: "int (length (concat ?cs)) + ?n = int (length (concat chunks)) + n" by simp
      have "0 \<le> ?n" if "never_more recv"
      proof -
        from that True have "int (length (fst (recv n s))) \<le> n" unfolding never_more_def by blast
        with r show ?thesis by simp
      qed
      with q(3) have "q = Inl ConnectionError \<or> (\<exists>bs. q = Inr bs \<and> int (length (concat chunks)) + n \<le> int (length bs) \<and>
            (never_more recv \<and> 0 \<le> n \<longrightarrow> int (length bs) = int (length (concat chunks)) + n))" unfolding len by blast
      with step c show ?thesis by blast
    qed
  qed
qed

text \<open>On the sockets of \<open>Transport\<close> it is the function defined there.\<close>

lemma recv_loop_socket:
  "recv_loop (\<lambda>k. sock_recv (nat k)) s n chunks = Some (recv_exact s (nat n) chunks)"
proof (induction "nat n" arbitrary: s n chunks rule: less_induct)
  case less
  show ?case
  proof (cases "0 < n")
    case False
    then show ?thesis by (simp add: recv_loop.simps recv_exact.simps)
  next
    case True
    obtain chunk s1 where r: "sock_recv (nat n) s = (chunk, s1)" by fastforce
    show ?thesis
    proof (cases "chunk = []")
      case e: True
      with True r show ?thesis by (simp add: recv_loop.simps recv_exact.simps)
    next
      case False
      let ?n = "n - int (length chunk)"
      have "0 < length chunk" using False by simp
      then have "nat ?n < nat n" using True by linarith
      from less.hyps [OF this, of s1 "chunks @ [chunk]"]
      have "recv_loop (\<lambda>k. sock_recv (nat k)) s n chunks = Some (recv_exact s1 (nat ?n) (chunks @ [chunk]))"
        using True False r by (subst recv_loop.simps) simp
      moreover have "recv_exact s (nat n) chunks = recv_exact s1 (nat n - length chunk) (chunks @ [chunk])"
        using True False r by (subst recv_exact.simps) simp
      moreover have "nat ?n = nat n - length chunk" by (simp add: nat_diff_distrib')
      ultimately show ?thesis by simp
    qed
  qed
qed

lemma sock_recv_never_more: "never_more (\<lambda>k. sock_recv (nat k))"
  by (auto simp: never_more_def sock_recv_def Let_def min_le_iff_disj le_nat_iff split: list.split)

text \<open>
  C36: receiving ends.  Whatever socket it is given, and whatever that socket does, \<^verbatim>\<open>_recv_exact\<close> returns
  after at most as many calls of \<^verbatim>\<open>recv\<close> as bytes were asked for: either with \<^verbatim>\<open>ConnectionError\<close> or with
  at least that many bytes, and exactly that many if the socket never returns more than it was asked for.  On the
  sockets of the model the loop is \<open>recv_exact\<close>.
\<close>

theorem receiving_ends:
  "\<exists>r s' c. recv_loop (counted recv) (s, 0) n [] = Some (r, s', c) \<and> c \<le> nat n \<and>
    (r = Inl ConnectionError \<or> (\<exists>bs. r = Inr bs \<and> n \<le> int (length bs) \<and> (never_more recv \<and> 0 \<le> n \<longrightarrow> int (length bs) = n))) \<and>
    (\<forall>sock m. recv_loop (\<lambda>k. sock_recv (nat k)) sock m [] = Some (recv_exact sock (nat m) []))"
  using recv_loop_ends [of recv s 0 n "[]"] recv_loop_socket by simp

theorem receiving_ends_witness:
  "\<exists>r s' c. recv_loop (counted (\<lambda>k. sock_recv (nat k))) (\<lparr>sock_in = [1, 2, 3], sock_sizes = [1], sock_out = []\<rparr>, 0) 2 [] = Some (r, s', c) \<and>
     c \<le> 2 \<and> (r = Inl ConnectionError \<or> (\<exists>bs. r = Inr bs \<and> length bs = 2))"
  using receiving_ends [of "\<lambda>k. sock_recv (nat k)" "\<lparr>sock_in = [1, 2, 3], sock_sizes = [1], sock_out = []\<rparr>" 2] sock_recv_never_more
  by fastforce

end
