(* ===== verification/Population.thy ===== *)
theory Population
  imports Sync
begin

text \<open>
  Many devices at one server.  A schedule says whose first message is lost, who completes a run, and
  which foreign bytes arrive in between.  What a device sees depends on its own part of the schedule
  alone: the outcomes of its runs are those of the abstract gap counter of \<open>Sync\<close>.
\<close>

section \<open>Schedules\<close>

datatype event =
    Of nat action
  | Noise server_env bytes

fun population ::
  "prims \<Rightarrow> 'r resolver_ops \<Rightarrow> pystr \<Rightarrow> event list \<Rightarrow> device list \<Rightarrow> 'r server
     \<Rightarrow> (nat \<times> (exn + bytes \<times> auth_result)) list \<times> device list \<times> 'r server" where
  "population P ops sid [] ds s = ([], ds, s)"
| "population P ops sid (Of i (Drop env) # evs) ds s =
     population P ops sid evs (ds[i := snd (build_auth_request P env sid (ds ! i))]) s"
| "population P ops sid (Of i (Run h) # evs) ds s =
     (let (r, d', s') = handshake P ops h sid (ds ! i) s; (rs, ds', s'') = population P ops sid evs (ds[i := d']) s'
      in ((i, r) # rs, ds', s''))"
| "population P ops sid (Noise env msg # evs) ds s = population P ops sid evs ds (snd (handle_auth_request P ops env msg s))"

definition results_of :: "nat \<Rightarrow> (nat \<times> 'a) list \<Rightarrow> 'a list" where
  "results_of i rs = map snd (filter (\<lambda>r. fst r = i) rs)"

fun actions_of :: "nat \<Rightarrow> event list \<Rightarrow> action list" where
  "actions_of i [] = []"
| "actions_of i (Of j a # evs) = (if i = j then a # actions_of i evs else actions_of i evs)"
| "actions_of i (Noise env msg # evs) = actions_of i evs"

lemma results_of_simps [simp]:
  "results_of i [] = []"
  "results_of i ((j, r) # rs) = (if j = i then r # results_of i rs else results_of i rs)"
  by (simp_all add: results_of_def)

text \<open>
  Foreign bytes when they arrive.  They are harmless unless they show a pseudonym the server would still accept and
  either open to its plaintext, which makes them the device's own message, or are one failure too many.  So they may
  be no message at all, a replay of whatever was accepted before, or a forgery under a pseudonym that was
  overheard, as long as the failures counted against that device stay below the limit.
\<close>

definition unauthentic :: "prims \<Rightarrow> 'r server \<Rightarrow> pystr \<Rightarrow> int \<Rightarrow> message1 \<Rightarrow> bool" where
  "unauthentic P s p e m \<longleftrightarrow> (\<forall>k pt. root_of P (ent_credential s) p = Inr k \<longrightarrow>
     aead_decrypt P k (m1_gcm_nonce m) (m1_ciphertext m) (m1_tag m) [] = Inr pt \<longrightarrow>
     take 32 pt \<noteq> m1_pid m \<or> int_from_bytes (last_n 8 pt) \<noteq> e)"

definition spare_attempt :: "'r server \<Rightarrow> pystr \<Rightarrow> bool" where
  "spare_attempt s p \<longleftrightarrow> (case failed_attempts (srv_log s) p of None \<Rightarrow> 0 | Some c \<Rightarrow> c) + 1 < max_attempts (srv_log s)"

definition harmless :: "prims \<Rightarrow> int \<Rightarrow> 'r server \<Rightarrow> bytes \<Rightarrow> bool" where
  "harmless P F s msg \<longleftrightarrow> (\<forall>m. message1_from_bytes msg = Inr m \<longrightarrow>
     (\<forall>(p, lam) \<in> set (srv_peers s). \<forall>e. last_epoch (srv_log s) p < e \<longrightarrow> e \<le> last_epoch (srv_log s) p + F \<longrightarrow>
        m1_pid m = pseudonym P lam e \<longrightarrow> unauthentic P s p e m \<and> spare_attempt s p))"

text \<open>A schedule whose steps have proper randomness and whose foreign bytes are harmless when their turn comes.\<close>

fun traffic_ok :: "prims \<Rightarrow> 'r resolver_ops \<Rightarrow> int \<Rightarrow> pystr \<Rightarrow> event list \<Rightarrow> device list \<Rightarrow> 'r server \<Rightarrow> bool" where
  "traffic_ok P ops F sid [] ds s \<longleftrightarrow> True"
| "traffic_ok P ops F sid (Of i (Drop env) # evs) ds s \<longleftrightarrow>
     i < length ds \<and> action_ok (dev_session_timeout (ds ! i)) (Drop env) \<and>
     traffic_ok P ops F sid evs (ds[i := snd (build_auth_request P env sid (ds ! i))]) s"
| "traffic_ok P ops F sid (Of i (Run h) # evs) ds s \<longleftrightarrow>
     i < length ds \<and> action_ok (dev_session_timeout (ds ! i)) (Run h) \<and>
     (let (r, d', s') = handshake P ops h sid (ds ! i) s in traffic_ok P ops F sid evs (ds[i := d']) s')"
| "traffic_ok P ops F sid (Noise env msg # evs) ds s \<longleftrightarrow>
     harmless P F s msg \<and> traffic_ok P ops F sid evs ds (snd (handle_auth_request P ops env msg s))"

text \<open>Every device is in step with the server, up to a gap, and has \<open>n\<close> epochs to go.\<close>

definition populated :: "'r good_state \<Rightarrow> prims \<Rightarrow> int \<Rightarrow> int \<Rightarrow> nat \<Rightarrow> device list \<Rightarrow> 'r server \<Rightarrow> bool" where
  "populated good P F E n ds s \<longleftrightarrow> distinct (map (\<lambda>d. cred_identity (ent_credential d)) ds) \<and>
     (\<forall>d \<in> set ds. linked good P F E d s \<and> 1 \<le> epoch_gap d s \<and>
        device_next d (cred_identity (ent_credential s)) + int n + F < E)"

section \<open>One step seen by the others\<close>

text \<open>Nothing that \<open>q\<close> can notice changes between the two servers.\<close>

definition same_for :: "pystr \<Rightarrow> 'r server \<Rightarrow> 'r server \<Rightarrow> bool" where
  "same_for q s s' \<longleftrightarrow> same_setup s s' \<and> last_epoch (srv_log s') q = last_epoch (srv_log s) q \<and>
     is_blocked (srv_log s') q = is_blocked (srv_log s) q"

lemma same_for_linked:
  assumes "same_for (cred_identity (ent_credential d)) s s'" "linked good P F E d s" "linked good P F E d1 s'"
  shows "linked good P F E d s'" "epoch_gap d s' = epoch_gap d s"
  using assms by (auto simp: same_for_def linked_def same_setup_def willing_def coverage_ok_def epoch_gap_def)

lemma same_for_refl [simp]: "same_for q s s"
  by (simp add: same_for_def)

text \<open>What shows no pseudonym of an enrolled device, and what was accepted before, is harmless.\<close>

lemma unknown_harmless:
  "(\<And>m. message1_from_bytes msg = Inr m \<Longrightarrow> \<forall>(p, lam) \<in> set (srv_peers s). \<forall>e. m1_pid m \<noteq> pseudonym P lam e) \<Longrightarrow> harmless P F s msg"
  unfolding harmless_def by blast

lemma replay_harmless:
  assumes nc: "no_collisions P (srv_peers s) E" and hz: "below_horizon (srv_log s) (srv_peers s) F E"
    and m: "message1_from_bytes msg = Inr m" "(p, lam) \<in> set (srv_peers s)" "m1_pid m = pseudonym P lam e"
    and e: "0 \<le> e" "e \<le> last_epoch (srv_log s) p"
  shows "harmless P F s msg"
proof -
  have False if f: "(q, mu) \<in> set (srv_peers s)" "last_epoch (srv_log s) q < f" "f \<le> last_epoch (srv_log s) q + F"
    "pseudonym P lam e = pseudonym P mu f" for q mu f
  proof -
    have "0 \<le> f" "f < E" "e < E" using below_horizonD [OF hz f(1)] below_horizonD [OF hz m(2)] f(2,3) e(2) by linarith+
    from no_collisionsD [OF nc m(2) f(1) e(1) this(3,1,2) f(4)] f(2) e(2) show False by simp
  qed
  with m(1,3) show ?thesis unfolding harmless_def by fastforce
qed

text \<open>A failure that is not the last allowed one blocks nobody.\<close>

lemma spare_fail: "spare_attempt s p \<Longrightarrow> blocked (fail (srv_log s) p) = blocked (srv_log s)"
  by (auto simp: spare_attempt_def record_failure_def Let_def)

lemma same_for_fail:
  assumes "same_setup s s'" "srv_log s' \<in> {srv_log s, fail (srv_log s) p}" "spare_attempt s p"
  shows "same_for q s s'"
proof -
  from assms(2) consider "srv_log s' = srv_log s" | "srv_log s' = fail (srv_log s) p" by blast
  then have "last_epoch (srv_log s') = last_epoch (srv_log s) \<and> blocked (srv_log s') = blocked (srv_log s)"
    by cases (simp, simp only: last_epoch_ops spare_fail [OF assms(3)])
  with assms(1) show ?thesis by (simp add: same_for_def is_blocked_def)
qed

text \<open>A message that is resolved but is not what its pseudonym says costs the device a failure at most.\<close>

lemma unauthentic_rejected:
  assumes m: "message1_from_bytes msg = Inr m" and c: "cache_ok P s" and u: "unauthentic P s p e m"
    and r: "ro_resolve ops P (env_now_resolve env) (srv_peers s) (srv_log s) (m1_pid m) (srv_resolver s) = (Inr (p, e), r')"
  shows "\<exists>x s'. handle_auth_request P ops env msg s = (Inl x, s') \<and> same_setup s s' \<and> cache_ok P s' \<and> srv_resolver s' = r' \<and>
    srv_log s' \<in> {srv_log s, fail (srv_log s) p}"
proof -
  let ?s1 = "s\<lparr>srv_resolver := r'\<rparr>"
  have rp: "resolve_pseudonym P ops (env_now_resolve env) (m1_pid m) s = (Inr (p, e), ?s1)"
    using r by (simp add: resolve_pseudonym_def)
  obtain rk s2 where g: "get_pairwise_root P p ?s1 = (rk, s2)" by fastforce
  have c1: "cache_ok P ?s1" using c by simp
  note rt = root_lookup [OF c1 g]
  have s2: "same_setup s s2" by (rule same_setup_trans [OF same_setup_updates(2) rt(3)])
  have f: "same_setup s (server_failure s2 p)" "cache_ok P (server_failure s2 p)" "srv_resolver (server_failure s2 p) = r'"
    "srv_log (server_failure s2 p) = fail (srv_log s) p"
    "same_setup s (server_failure ?s1 p)" "cache_ok P (server_failure ?s1 p)"
    using s2 rt c by (simp_all add: server_failure_def same_setup_def)
  have dec: "take 32 pt \<noteq> m1_pid m \<or> int_from_bytes (last_n 8 pt) \<noteq> e"
    if "rk = Inr k" "aead_decrypt P k (m1_gcm_nonce m) (m1_ciphertext m) (m1_tag m) [] = Inr pt" for k pt
    using u that rt(1) by (auto simp: unauthentic_def)
  show ?thesis
  proof (cases "is_blocked (srv_log s) p \<or> \<not> coverage_ok s p")
    case True
    then show ?thesis using m rp c f by (auto simp: handle_auth_request_def verify_request_def coverage_ok_def server_failure_def same_setup_def)
  next
    case False
    note unfolded = handle_auth_request_def verify_request_def m rp g
    show ?thesis
    proof (cases rk)
      case (Inl x)
      then show ?thesis using False s2 rt by (auto simp: unfolded coverage_ok_def)
    next
      case (Inr k)
      show ?thesis
      proof (cases "aead_decrypt P k (m1_gcm_nonce m) (m1_ciphertext m) (m1_tag m) []")
        case (Inl x)
        then show ?thesis using False Inr s2 rt f by (auto simp: unfolded coverage_ok_def)
      next
        case pt: (Inr pt)
        then show ?thesis using False Inr s2 rt f dec [OF Inr pt] by (auto simp: unfolded coverage_ok_def Let_def)
      qed
    qed
  qed
qed

context counter_strategy
begin

lemma linked_wf: "linked good P F E d s \<Longrightarrow> server_wf wf P s"
  by (auto simp: linked_def server_wf_def intro: good_wf)

lemma handshake_setup:
  assumes "handshake P ops h sid d s = (r, d', s')" "server_wf wf P s"
  shows "same_setup s s'"
  using assms(1) handle_step(1) [OF assms(2)]
  by (auto simp: handshake_def split: sum.splits prod.splits)

lemma handshake_log:
  assumes "handshake P ops h sid d s = (Inr (k, a), d', s')" "server_wf wf P s"
  shows "\<exists>e. srv_log s' = record_success (accept_epoch (srv_log s) (res_peer_identity a) e) (res_peer_identity a)"
proof -
  from assms(1) obtain msg where "handle_auth_request P ops (he_server h) msg s = (Inr a, s')"
    by (auto simp: handshake_def split: sum.splits prod.splits)
  from handle_accepts [OF assms(2) this] show ?thesis by (auto simp: accepted_def)
qed

text \<open>A run of a linked pair, in and out of the window at once.\<close>

lemma run_step:
  assumes P: "prims_ok P" and l: "linked good P F E d s" and h: "action_ok (dev_session_timeout d) (Run h)"
    and g: "1 \<le> epoch_gap d s" "0 \<le> F" "device_next d (cred_identity (ent_credential s)) + F < E"
  shows "\<exists>r d' s'. handshake P ops h (cred_identity (ent_credential s)) d s = (r, d', s') \<and>
    outcome_matches r (epoch_gap d s \<le> F) \<and> linked good P F E d' s' \<and>
    epoch_gap d' s' = (if epoch_gap d s \<le> F then 1 else epoch_gap d s + 1) \<and>
    ent_credential d' = ent_credential d \<and> dev_session_timeout d' = dev_session_timeout d \<and>
    device_next d' (cred_identity (ent_credential s)) = device_next d (cred_identity (ent_credential s)) + 1 \<and>
    same_setup s s' \<and> (\<forall>q. q \<noteq> cred_identity (ent_credential d) \<longrightarrow> same_for q s s')"
proof (cases "epoch_gap d s \<le> F")
  case True
  from run_in_window [OF P l h g(1) True g(3)] obtain k a d' s' where
    r: "handshake P ops h (cred_identity (ent_credential s)) d s = (Inr (k, a), d', s')" "res_session_key a = k"
      "res_peer_identity a = cred_identity (ent_credential d)" "linked good P F E d' s'" "epoch_gap d' s' = 1"
      "ent_credential d' = ent_credential d" "dev_session_timeout d' = dev_session_timeout d"
      "device_next d' (cred_identity (ent_credential s)) = device_next d (cred_identity (ent_credential s)) + 1" by blast
  note unchanged = handshake_setup [OF r(1) linked_wf [OF l]]
  from handshake_log [OF r(1) linked_wf [OF l]] r(3) obtain e where
    "srv_log s' = record_success (accept_epoch (srv_log s) (cred_identity (ent_credential d)) e) (cred_identity (ent_credential d))"
    by auto
  then have "\<forall>q. q \<noteq> cred_identity (ent_credential d) \<longrightarrow> same_for q s s'"
    using unchanged by (simp add: same_for_def is_blocked_def)
  with r unchanged True show ?thesis by (auto simp: outcome_matches_def)
next
  case False
  then have f: "F < epoch_gap d s" by simp
  from g(2,3) have "device_next d (cred_identity (ent_credential s)) < E" by simp
  from run_out_of_window [OF P l h f g(1) this] obtain d' s' where
    r: "handshake P ops h (cred_identity (ent_credential s)) d s = (Inl UnknownPeerError, d', s')" "srv_log s' = srv_log s"
      "linked good P F E d' s'" "epoch_gap d' s' = epoch_gap d s + 1"
      "ent_credential d' = ent_credential d" "dev_session_timeout d' = dev_session_timeout d"
      "device_next d' (cred_identity (ent_credential s)) = device_next d (cred_identity (ent_credential s)) + 1" by blast
  note unchanged = handshake_setup [OF r(1) linked_wf [OF l]]
  have "same_for q s s'" for q using r(2) unchanged by (simp add: same_for_def)
  with r unchanged False show ?thesis by (auto simp: outcome_matches_def)
qed

lemma linked_later:
  assumes l: "linked good P F E d s" and s': "same_for (cred_identity (ent_credential d)) s s'" "cache_ok P s'"
    and log: "last_epoch (srv_log s') = last_epoch (srv_log s)" "forward_tolerance (srv_log s') = forward_tolerance (srv_log s)"
      "replay_lookback (srv_log s') = replay_lookback (srv_log s)"
    and g: "good P F E (srv_peers s) (srv_log s) (srv_resolver s')"
  shows "linked good P F E d s'"
  using l s' log good_log [OF g log]
  by (auto simp: linked_def same_for_def same_setup_def willing_def coverage_ok_def srv_peers_def below_horizon_def)

lemma noise_step:
  assumes l: "linked good P F E d0 s" and n: "harmless P F s msg"
  shows "\<exists>x s'. handle_auth_request P ops env msg s = (Inl x, s') \<and> (\<forall>d. linked good P F E d s \<longrightarrow> linked good P F E d s') \<and>
    (\<forall>q. same_for q s s')"
proof (cases "message1_from_bytes msg")
  case (Inl x)
  then show ?thesis by (auto simp: handle_auth_request_def verify_request_def)
next
  case (Inr m)
  let ?spec = "counter_spec P F (srv_peers s) (srv_log s) (m1_pid m)"
  from l have g: "good P F E (srv_peers s) (srv_log s) (srv_resolver s)" "below_horizon (srv_log s) (srv_peers s) F E" "cache_ok P s"
    by (simp_all add: linked_def)
  show ?thesis
  proof (cases "\<exists>p e. ?spec p e")
    case True
    then obtain p e where spec: "?spec p e" by blast
    then have u: "unauthentic P s p e m" "spare_attempt s p" using n Inr by (auto simp: counter_spec_def harmless_def)
    from good_resolve [OF g(1,2) spec, of "env_now_resolve env"] obtain r' where
      r: "ro_resolve ops P (env_now_resolve env) (srv_peers s) (srv_log s) (m1_pid m) (srv_resolver s) = (Inr (p, e), r')"
        "good P F E (srv_peers s) (srv_log s) r'" by blast
    from unauthentic_rejected [where env = env, OF Inr g(3) u(1) r(1)] obtain x s' where
      s': "handle_auth_request P ops env msg s = (Inl x, s')" "same_setup s s'" "cache_ok P s'" "srv_resolver s' = r'"
        "srv_log s' \<in> {srv_log s, fail (srv_log s) p}" by blast
    have same: "same_for q s s'" for q by (rule same_for_fail [OF s'(2,5) u(2)])
    have "linked good P F E d s'" if "linked good P F E d s" for d
      by (rule linked_later [OF that same s'(3)]) (use s'(4,5) r(2) in auto)
    with s'(1) same show ?thesis by blast
  next
    case False
    then have "\<forall>p e. \<not> ?spec p e" by blast
    from good_reject [OF g(1,2) this, of "env_now_resolve env"] obtain x r' where
      r: "ro_resolve ops P (env_now_resolve env) (srv_peers s) (srv_log s) (m1_pid m) (srv_resolver s) = (Inl x, r')"
        "good P F E (srv_peers s) (srv_log s) r'" by blast
    then have "handle_auth_request P ops env msg s = (Inl x, s\<lparr>srv_resolver := r'\<rparr>)"
      using Inr by (simp add: handle_auth_request_def verify_request_def resolve_pseudonym_def)
    moreover have "linked good P F E d (s\<lparr>srv_resolver := r'\<rparr>)" if "linked good P F E d s" for d
      using that r(2) by (simp add: linked_def willing_def coverage_ok_def)
    ultimately show ?thesis by (auto simp: same_for_def)
  qed
qed

section \<open>Isolation\<close>

text \<open>The population after device \<open>i\<close> has moved, when the others did not notice.\<close>

lemma populated_update:
  assumes pop: "populated good P F E (Suc n) ds s" and i: "i < length ds" and l: "linked good P F E d' s'"
    and d': "ent_credential d' = ent_credential (ds ! i)" "1 \<le> epoch_gap d' s'"
      "device_next d' (cred_identity (ent_credential s)) = device_next (ds ! i) (cred_identity (ent_credential s)) + 1"
    and s': "same_setup s s'" "\<forall>q. q \<noteq> cred_identity (ent_credential (ds ! i)) \<longrightarrow> same_for q s s'"
  shows "populated good P F E n (ds[i := d']) s'"
    and "j < length ds \<Longrightarrow> j \<noteq> i \<Longrightarrow> epoch_gap (ds ! j) s' = epoch_gap (ds ! j) s"
proof -
  have dist: "distinct (map (\<lambda>d. cred_identity (ent_credential d)) ds)" using pop by (simp add: populated_def)
  have o: "linked good P F E (ds ! j) s' \<and> epoch_gap (ds ! j) s' = epoch_gap (ds ! j) s" if j: "j < length ds" "j \<noteq> i" for j
  proof -
    have "cred_identity (ent_credential (ds ! j)) \<noteq> cred_identity (ent_credential (ds ! i))"
      using dist i j by (auto simp: distinct_conv_nth)
    with s'(2) have "same_for (cred_identity (ent_credential (ds ! j))) s s'" by blast
    moreover have "linked good P F E (ds ! j) s" using pop j by (simp add: populated_def)
    ultimately show ?thesis using same_for_linked l by blast
  qed
  then show "j < length ds \<Longrightarrow> j \<noteq> i \<Longrightarrow> epoch_gap (ds ! j) s' = epoch_gap (ds ! j) s" by blast
  have ids: "map (\<lambda>d. cred_identity (ent_credential d)) (ds[i := d']) = map (\<lambda>d. cred_identity (ent_credential d)) ds"
    using i d'(1) by (simp add: map_update) (metis list_update_id map_update)
  have "linked good P F E d s' \<and> 1 \<le> epoch_gap d s' \<and> device_next d (cred_identity (ent_credential s')) + int n + F < E"
    if "d \<in> set (ds[i := d'])" for d
  proof -
    from that obtain j where j: "j < length ds" "d = ds[i := d'] ! j" by (auto simp: in_set_conv_nth)
    have old: "1 \<le> epoch_gap (ds ! j) s" "device_next (ds ! j) (cred_identity (ent_credential s)) + int (Suc n) + F < E"
      using pop j(1) by (simp_all add: populated_def)
    show ?thesis
      using j i l d'(2,3) o [OF j(1)] old s'(1) by (cases "j = i") (simp_all add: same_setup_def)
  qed
  with dist ids show "populated good P F E n (ds[i := d']) s'" by (simp add: populated_def)
qed

lemma population_isolated:
  assumes P: "prims_ok P" and F: "0 \<le> F" and "ds \<noteq> []"
    and "populated good P F E (length evs) ds s"
    and "traffic_ok P ops F (cred_identity (ent_credential s)) evs ds s" "i < length ds"
  shows "list_all2 outcome_matches (results_of i (fst (population P ops (cred_identity (ent_credential s)) evs ds s)))
     (gap_run F (epoch_gap (ds ! i) s) (actions_of i evs))"
  using assms(3-6)
proof (induction evs arbitrary: ds s)
  case Nil
  then show ?case by simp
next
  case (Cons ev evs)
  let ?sid = "cred_identity (ent_credential s)"
  have sid: "cred_identity (ent_credential s') = ?sid" if "same_setup s s'" for s' :: "'r server"
    using that by (simp add: same_setup_def)
  show ?case
  proof (cases ev)
    case (Noise env msg)
    from Cons.prems(1) have "hd ds \<in> set ds" by simp
    with Cons.prems(2) have l: "linked good P F E (hd ds) s" by (simp add: populated_def)
    have n: "harmless P F s msg" and tail: "traffic_ok P ops F ?sid evs ds (snd (handle_auth_request P ops env msg s))"
      using Cons.prems(3) Noise by simp_all
    from noise_step [OF l n, of env] obtain x s' where s': "handle_auth_request P ops env msg s = (Inl x, s')"
      "\<forall>d. linked good P F E d s \<longrightarrow> linked good P F E d s'" "\<forall>q. same_for q s s'" by blast
    have unchanged: "same_setup s s'" using s'(3) by (simp add: same_for_def)
    have o: "linked good P F E d s' \<and> epoch_gap d s' = epoch_gap d s" if "d \<in> set ds" for d
      using s'(2) spec [OF s'(3), of "cred_identity (ent_credential d)"] Cons.prems(2) that
      by (simp add: populated_def same_for_def same_setup_def epoch_gap_def)
    then have "populated good P F E (length evs) ds s'"
      using Cons.prems(2) unchanged by (auto simp: populated_def same_setup_def)
    from Cons.IH [OF Cons.prems(1) this _ Cons.prems(4)] o Cons.prems(4) tail
    show ?thesis using s'(1) Noise sid [OF unchanged] by simp
  next
    case (Of j a)
    from Cons.prems(3) Of have j: "j < length ds" "action_ok (dev_session_timeout (ds ! j)) a" by (cases a; simp)+
    have pop: "populated good P F E (Suc (length evs)) ds s" using Cons.prems(2) by simp
    then have l: "linked good P F E (ds ! j) s" "1 \<le> epoch_gap (ds ! j) s"
      "device_next (ds ! j) ?sid + int (Suc (length evs)) + F < E" using j(1) by (simp_all add: populated_def)
    then have mem: "(cred_identity (ent_credential (ds ! j)), cred_lam (ent_credential (ds ! j))) \<in> set (srv_peers s)"
      and hz: "below_horizon (srv_log s) (srv_peers s) F E"
      by (auto simp: linked_def paired_def srv_peers_def dest: map_of_SomeD)
    have step: "list_all2 outcome_matches (results_of i (fst (population P ops ?sid evs (ds[j := d']) s')))
        (gap_run F (if i = j then epoch_gap d' s' else epoch_gap (ds ! i) s) (actions_of i evs))"
      if d': "linked good P F E d' s'" "ent_credential d' = ent_credential (ds ! j)" "1 \<le> epoch_gap d' s'"
        "device_next d' ?sid = device_next (ds ! j) ?sid + 1"
        and s': "same_setup s s'" "\<forall>q. q \<noteq> cred_identity (ent_credential (ds ! j)) \<longrightarrow> same_for q s s'"
        and ok: "traffic_ok P ops F ?sid evs (ds[j := d']) s'"
      for d' s'
    proof -
      note pu = populated_update [OF pop j(1) d'(1-4) s']
      from Cons.IH [OF _ pu(1)] ok Cons.prems(1,4) pu(2) [of i] j(1) show ?thesis
        by (auto simp: sid [OF s'(1)])
    qed
    show ?thesis
    proof (cases a)
      case (Drop env)
      have "0 \<le> device_next (ds ! j) ?sid"
        using l(2) below_horizonD(1) [OF hz mem] by (simp add: epoch_gap_def)
      then have "valid_epoch (device_next (ds ! j) ?sid)"
        using l(3) below_horizonD(3) [OF hz mem] F by (simp add: valid_epoch_def)
      from build_of_paired [OF P l(1) this, of env] j(2) Drop obtain msg d' where
        d': "build_auth_request P env ?sid (ds ! j) = (Inr msg, d')" "linked good P F E d' s"
          "device_next d' ?sid = device_next (ds ! j) ?sid + 1" "ent_credential d' = ent_credential (ds ! j)"
          "dev_session_timeout d' = dev_session_timeout (ds ! j)" by auto
      then have "epoch_gap d' s = epoch_gap (ds ! j) s + 1" by (simp add: epoch_gap_def)
      moreover have "traffic_ok P ops F ?sid evs (ds[j := d']) s" using Cons.prems(3) d'(1) by (simp add: Of Drop)
      ultimately show ?thesis using step [OF d'(2,4) _ d'(3)] d'(1) l(2) by (simp add: Of Drop split: if_splits)
    next
      case (Run h)
      have h: "action_ok (dev_session_timeout (ds ! j)) (Run h)" using j(2) Run by simp
      have "device_next (ds ! j) ?sid + F < E" using l(3) by simp
      from run_step [OF P l(1) h l(2) F this] obtain r d' s' where
        r: "handshake P ops h ?sid (ds ! j) s = (r, d', s')" "outcome_matches r (epoch_gap (ds ! j) s \<le> F)" "linked good P F E d' s'"
          "epoch_gap d' s' = (if epoch_gap (ds ! j) s \<le> F then 1 else epoch_gap (ds ! j) s + 1)"
          "ent_credential d' = ent_credential (ds ! j)" "dev_session_timeout d' = dev_session_timeout (ds ! j)"
          "device_next d' ?sid = device_next (ds ! j) ?sid + 1" "same_setup s s'"
          "\<forall>q. q \<noteq> cred_identity (ent_credential (ds ! j)) \<longrightarrow> same_for q s s'" by blast
      have "1 \<le> epoch_gap d' s'" using r(4) l(2) by simp
      moreover have "traffic_ok P ops F ?sid evs (ds[j := d']) s'" using Cons.prems(3) r(1) by (simp add: Of Run)
      ultimately show ?thesis using step [OF r(3,5) _ r(7,8,9)] r(1,2,4)
        by (auto simp: Of Run split_beta)
    qed
  qed
qed

end

end
