(* ===== verification/DeviceRuns.thy ===== *)
theory DeviceRuns
  imports Device
begin

text \<open>
  A device over time: what its owner and the network can do to it, and what its counter and its
  outstanding sessions guarantee over any such history.
\<close>

inductive device_reach :: "prims \<Rightarrow> device \<Rightarrow> device \<Rightarrow> bool" for P d where
  dev_start: "device_reach P d d"
| dev_build: "device_reach P d d' \<Longrightarrow> build_auth_request P env p d' = (res, d'') \<Longrightarrow> device_reach P d d''"
| dev_complete: "device_reach P d d' \<Longrightarrow> complete_auth P env msg d' = (res, d'') \<Longrightarrow> device_reach P d d''"
| dev_coverage: "device_reach P d d' \<Longrightarrow> device_reach P d (d'\<lparr>ent_coverage_predicate := cov\<rparr>)"
| dev_invalidate: "device_reach P d d' \<Longrightarrow> device_reach P d (invalidate_pairwise_root q d')"
| dev_block: "device_reach P d d' \<Longrightarrow> device_reach P d (d'\<lparr>dev_log := block_peer (dev_log d') p\<rparr>)"

lemma invalidate_device [simp]:
  "dev_pending (invalidate_pairwise_root q d) = dev_pending d" "dev_epoch (invalidate_pairwise_root q d) = dev_epoch d"
  "dev_epoch_clock (invalidate_pairwise_root q d) = dev_epoch_clock d"
  by (auto simp: invalidate_pairwise_root_def split: option.split)

lemma device_wf_cong:
  assumes "device_wf P d" "ent_credential d' = ent_credential d" "dev_epoch_clock d' = dev_epoch_clock d"
    "dev_epoch d' = dev_epoch d" "dev_pending d' = dev_pending d" "cache_ok P d'"
  shows "device_wf P d'"
  using assms pending_ok_cong [OF assms(2-4)] by (simp add: device_wf_def)

lemma device_reach_wf:
  "device_reach P d d' \<Longrightarrow> device_wf P d \<Longrightarrow> device_wf P d' \<and> ent_credential d' = ent_credential d"
proof (induction rule: device_reach.induct)
  case (dev_build d' env p res d'')
  then show ?case using build_wf by (metis)
next
  case (dev_complete d' env msg res d'')
  then show ?case using complete_wf by (metis)
next
  case (dev_coverage d' cov)
  then have w: "device_wf P d'" "ent_credential d' = ent_credential d" by blast+
  then have "cache_ok P (d'\<lparr>ent_coverage_predicate := cov\<rparr>)" unfolding device_wf_def cache_ok_def by simp
  with device_wf_cong [OF w(1), of "d'\<lparr>ent_coverage_predicate := cov\<rparr>"] w(2) show ?case by simp
next
  case (dev_invalidate d' q)
  then have w: "device_wf P d'" "ent_credential d' = ent_credential d" by blast+
  then have "cache_ok P (invalidate_pairwise_root q d')" by (simp add: device_wf_def cache_ok_invalidate)
  with device_wf_cong [OF w(1), of "invalidate_pairwise_root q d'"] w(2) show ?case by simp
next
  case (dev_block d' p)
  then show ?case using log_update_wf by simp
qed simp

section \<open>The counter\<close>

definition next_epoch_of :: "device \<Rightarrow> pystr \<Rightarrow> int" where
  "next_epoch_of d p = (case dev_epoch d p of None \<Rightarrow> 0 | Some e \<Rightarrow> e)"

lemma next_epoch_of_counter: "\<not> dev_epoch_clock d \<Longrightarrow> device_epoch env d p = next_epoch_of d p"
  by (simp add: device_epoch_def next_epoch_of_def)

lemma build_counter:
  assumes "device_wf P d" "\<not> dev_epoch_clock d" "build_auth_request P env p d = (res, d')"
  shows "\<not> dev_epoch_clock d'" "next_epoch_of d q \<le> next_epoch_of d' q"
    "res = Inr msg \<Longrightarrow> next_epoch_of d' p = next_epoch_of d p + 1"
proof -
  have c: "cache_ok P d" using assms(1) by (simp add: device_wf_def)
  note e = next_epoch_of_counter [OF assms(2)]
  show "\<not> dev_epoch_clock d'" "next_epoch_of d q \<le> next_epoch_of d' q"
    using build_result [OF c assms(3)] assms(2) e [of env p]
    by (auto simp: after_request_def next_epoch_of_def)
  show "next_epoch_of d' p = next_epoch_of d p + 1" if "res = Inr msg"
    using build_result [OF c assms(3)] assms(2) e [of env p] that
    by (auto simp: after_request_def next_epoch_of_def)
qed

lemma complete_counter:
  assumes "complete_auth P env msg d = (res, d')"
  shows "dev_epoch_clock d' = dev_epoch_clock d" "dev_epoch d' = dev_epoch d"
  using complete_cases [OF assms] by (auto simp: popped_def device_failure_def)

lemma device_reach_counter:
  "device_reach P d d' \<Longrightarrow> device_wf P d \<Longrightarrow> \<not> dev_epoch_clock d \<Longrightarrow>
     \<not> dev_epoch_clock d' \<and> next_epoch_of d p \<le> next_epoch_of d' p"
proof (induction rule: device_reach.induct)
  case (dev_build d' env q res d'')
  then have "device_wf P d'" using device_reach_wf by blast
  from build_counter(1) [OF this _ dev_build.hyps(2)] build_counter(2) [OF this _ dev_build.hyps(2), of p] dev_build show ?case by auto
next
  case (dev_complete d' env msg res d'')
  then show ?case using complete_counter [OF dev_complete.hyps(2)] by (simp add: next_epoch_of_def)
qed (simp_all add: next_epoch_of_def)

text \<open>Two requests of one device to one peer, in any history, carry different epochs in increasing order.\<close>

lemma epochs_strictly_increase:
  assumes wf: "device_wf P d" "\<not> dev_epoch_clock d"
    and a: "build_auth_request P env p d = (Inr msg, d1)" and r: "device_reach P d1 d2"
    and b: "build_auth_request P env' p d2 = (Inr msg', d3)"
  shows "device_epoch env d p < device_epoch env' d2 p"
proof -
  have w1: "device_wf P d1" using build_wf(1) [OF wf(1) a] .
  note c1 = build_counter [OF wf a]
  note c2 = device_reach_counter [OF r w1 c1(1), of p]
  have "device_epoch env' d2 p = next_epoch_of d2 p" using c2 by (simp add: next_epoch_of_counter)
  with c1(3) [OF refl] c2 next_epoch_of_counter [OF wf(2), of env p] show ?thesis by simp
qed

text \<open>The pseudonym on the wire is the one of the epoch the request used.\<close>

lemma built_pseudonym:
  assumes "device_wf P d" "build_auth_request P env p d = (Inr msg, d')"
  shows "\<exists>m. message1_from_bytes msg = Inr m \<and> valid_epoch (device_epoch env d p) \<and>
    m1_pid m = pseudonym P (cred_lam (ent_credential d)) (device_epoch env d p)"
proof -
  have "cache_ok P d" using assms(1) by (simp add: device_wf_def)
  from build_result [OF this assms(2)] obtain k pid n_i m where "requested P env p d msg k pid n_i m" by auto
  then show ?thesis
    using message1_from_to_bytes by (auto simp: requested_def h2_pseudonym_Inr)
qed

section \<open>Outstanding sessions\<close>

text \<open>A response that names a peer uses up the session with it, whatever it carries and however it ends.\<close>

lemma complete_uses_up:
  assumes "complete_auth P env msg d = (res, d')" "message2_from_bytes msg = Inr m" "m2_server_id m = JStr p"
  shows "map_of (dev_pending d') p = None"
proof -
  have "dev_pending d' = AList.delete p (dev_pending d)"
    using assms
    by (auto simp: complete_auth_def pop_pending_def device_failure_def Let_def split: if_splits sum.splits option.splits)
  then show ?thesis by (simp add: delete_conv')
qed

lemma complete_without_pending:
  assumes "message2_from_bytes msg = Inr m" "m2_server_id m = JStr p" "map_of (dev_pending d) p = None"
  shows "fst (complete_auth P env msg d) = Inl UnknownPeerError"
  using assms by (simp add: complete_auth_def pop_pending_def)

end
