(* ===== verification/ToyPopulation.thy ===== *)
theory ToyPopulation
  imports Population DeviceRuns ToyCosts ToyRuns
begin

text \<open>
  Two devices with the secrets 1 and 2 at one server under the toy primitives, and a schedule in which
  one loses a burst of messages while the other authenticates, and three foreign messages arrive: a forgery under a
  pseudonym the server would accept, one of a device it does not know, and a replay.
\<close>

definition toy_member :: "nat \<Rightarrow> device" where
  "toy_member i = toy_device\<lparr>ent_credential := dev_cred\<lparr>cred_identity := device_name i, cred_lam := int (Suc i)\<rparr>\<rparr>"

definition toy_hub :: "'r \<Rightarrow> 'r server" where
  "toy_hub r = (toy_server r)\<lparr>ent_credential := srv_cred\<lparr>cred_peer_secrets := toy_sec\<rparr>\<rparr>"

lemma toy_member_simps [simp]:
  "cred_identity (ent_credential (toy_member i)) = device_name i" "cred_lam (ent_credential (toy_member i)) = int (Suc i)"
  "cred_role (ent_credential (toy_member i)) = lit ''device''" "cred_peer_secrets (ent_credential (toy_member i)) = [(srv_id, 7)]"
  "dev_session_timeout (toy_member i) = 5" "device_next (toy_member i) p = 0" "\<not> dev_epoch_clock (toy_member i)"
  "ent_root_cache (toy_member i) = Map.empty" "dev_pending (toy_member i) = []" "dev_epoch (toy_member i) = Map.empty"
  by (simp_all add: toy_member_def dev_cred_def device_next_def) (simp_all add: toy_device_def)

lemma toy_hub_simps [simp]:
  "cred_identity (ent_credential (toy_hub r)) = srv_id" "cred_lam (ent_credential (toy_hub r)) = 7"
  "cred_role (ent_credential (toy_hub r)) = lit ''server''" "srv_peers (toy_hub r) = toy_sec"
  "srv_log (toy_hub r) = new_session_log 3 8 16" "srv_resolver (toy_hub r) = r" "ent_root_cache (toy_hub r) = Map.empty"
  by (simp_all add: toy_hub_def srv_cred_def srv_peers_def) (simp_all add: toy_server_def)

lemma toy_hub_peers [simp]: "cred_peer_secrets (ent_credential (toy_hub r)) = toy_sec"
  by (simp add: toy_hub_def)

lemma toy_hub_horizon: "below_horizon (new_session_log 3 8 16) toy_sec 8 100"
  by (simp add: below_horizon_def new_session_log_def last_epoch_def)

lemma toy_hub_secrets: "valid_peers toy_sec" "no_collisions toy toy_sec 100"
  using toy_enrolment [of 100] by (simp_all add: enrolment_ok_def)

lemma toy_hub_linked:
  assumes "good toy 8 100 toy_sec (new_session_log 3 8 16) r" "i < 2"
  shows "linked good toy 8 100 (toy_member i) (toy_hub r)"
proof -
  have n: "device_name 0 \<noteq> device_name 1" using device_name_inject [of 0 1] by simp
  from assms(2) consider "i = 0" | "i = 1" by linarith
  then have "map_of toy_sec (device_name i) = Some (int (Suc i))" by cases (use n in \<open>simp_all add: toy_sec_eq\<close>)
  moreover have "valid_lam (int (Suc i))" using assms(2) by (simp add: valid_lam_def)
  ultimately have "paired (ent_credential (toy_member i)) (ent_credential (toy_hub r))"
    by (simp add: paired_def valid_lam_def valid_str_def lit_def)
  moreover have "willing (toy_member i) (toy_hub r)"
    by (simp add: willing_def is_blocked_def coverage_ok_def)
      (simp add: toy_member_def toy_device_def toy_hub_def toy_server_def new_session_log_def SUPPORTED_NONCE_BITS_def)
  ultimately show ?thesis using assms(1) toy_hub_horizon by (simp add: linked_def device_wf_def cache_ok_def)
qed

lemma toy_hub_gap: "epoch_gap (toy_member i) (toy_hub r) = 1"
  by (simp add: epoch_gap_def new_session_log_def last_epoch_def)

text \<open>
  A forgery under the first device's fresh pseudonym and one of a stranger, a burst of eight losses of the first device,
  a run of the second, its message once more, and a run of each.
\<close>

definition toy_guess :: bytes where
  "toy_guess = (case message1_to_bytes ((toy_message1 (zeros 12))\<lparr>m1_pid := pseudonym toy 1 0\<rparr>) of Inr b \<Rightarrow> b | Inl _ \<Rightarrow> [])"

definition toy_repeat :: bytes where
  "toy_repeat = (case fst (build_auth_request toy toy_device_env srv_id (toy_member 1)) of Inr m \<Rightarrow> m | Inl _ \<Rightarrow> [])"

definition toy_traffic :: "event list" where
  "toy_traffic = [Noise toy_server_env toy_guess, Noise toy_server_env (toy_wire (zeros 12))] @
     replicate 8 (Of 0 (Drop toy_device_env)) @
     [Of 1 (Run toy_run), Noise toy_server_env toy_repeat, Of 0 (Run toy_run), Of 1 (Run toy_run)]"

lemma toy_guess_back: "message1_from_bytes toy_guess = Inr ((toy_message1 (zeros 12))\<lparr>m1_pid := pseudonym toy 1 0\<rparr>)"
proof -
  let ?m = "(toy_message1 (zeros 12))\<lparr>m1_pid := pseudonym toy 1 0\<rparr>"
  obtain b where b: "message1_to_bytes ?m = Inr b" using message1_to_bytes_total by blast
  with message1_from_to_bytes [OF b] show ?thesis by (simp add: toy_guess_def)
qed

lemma toy_guess_harmless: "harmless toy F (toy_hub r) toy_guess"
proof -
  have "aead_decrypt toy k (zeros 12) [] [] [] = Inl InvalidTag" if "length k = KEY_LEN" for k
  proof -
    have "keep_last TAG_LEN k \<noteq> []" using keep_last_length [of TAG_LEN k] by (auto simp: TAG_LEN_def simp del: keep_last_length)
    with that show ?thesis by (simp add: aead_decrypt_def toy_def toy_decrypt_def zeros_def last_n_def)
  qed
  moreover have "aead_decrypt toy k n c t x \<notin> range Inr" if "length k \<noteq> KEY_LEN" for k n c t x
    using that by (auto simp: aead_decrypt_def)
  ultimately have "aead_decrypt toy k (zeros 12) [] [] [] \<notin> range Inr" for k by (cases "length k = KEY_LEN") auto
  then have "unauthentic toy (toy_hub r) p e ((toy_message1 (zeros 12))\<lparr>m1_pid := pid\<rparr>)" for p e pid
    unfolding unauthentic_def toy_message1_def by (auto simp: image_iff)
  moreover have "spare_attempt (toy_hub r) p" for p by (simp add: spare_attempt_def new_session_log_def)
  ultimately show ?thesis by (auto simp: harmless_def toy_guess_back)
qed

lemma toy_stranger_harmless: "srv_peers s = toy_sec \<Longrightarrow> harmless toy F s (toy_wire (zeros 12))"
proof (rule unknown_harmless)
  fix m assume s: "srv_peers s = toy_sec" and m: "message1_from_bytes (toy_wire (zeros 12)) = Inr m"
  have "be_bytes 32 (nat 5) ! 31 \<noteq> be_bytes 32 (nat 1) ! 31" "be_bytes 32 (nat 5) ! 31 \<noteq> be_bytes 32 (nat 2) ! 31" by code_simp+
  then have "drop 8 (be_bytes 32 (nat 5)) \<noteq> drop 8 (be_bytes 32 (nat 1))" "drop 8 (be_bytes 32 (nat 5)) \<noteq> drop 8 (be_bytes 32 (nat 2))"
    by code_simp+
  then have "pseudonym toy 5 0 \<noteq> pseudonym toy 1 e" "pseudonym toy 5 0 \<noteq> pseudonym toy 2 e" for e by (simp_all add: toy_pseudonym)
  with m show "\<forall>(p, lam) \<in> set (srv_peers s). \<forall>e. m1_pid m \<noteq> pseudonym toy lam e"
    by (auto simp: s toy_wire_back toy_message1_def toy_sec_eq)
qed

lemma build_timeout: "dev_session_timeout (snd (build_auth_request P env p d)) = dev_session_timeout d"
  by (auto simp: build_auth_request_def get_pairwise_root_def Let_def split: sum.split prod.split option.split)

context counter_strategy
begin

text \<open>The schedule is one in which every foreign message is harmless when it arrives.\<close>

lemma toy_traffic_ok:
  assumes "good toy 8 100 toy_sec (new_session_log 3 8 16) r"
  shows "traffic_ok toy ops 8 srv_id toy_traffic [toy_member 0, toy_member 1] (toy_hub r)"
proof -
  let ?d = "toy_member 1" and ?env = toy_server_env
  have l0: "linked good toy 8 100 ?d (toy_hub r)" by (rule toy_hub_linked [of good, OF assms]) simp
  from noise_step [OF l0 toy_guess_harmless, of ?env] obtain x s1 where
    s1: "handle_auth_request toy ops ?env toy_guess (toy_hub r) = (Inl x, s1)" "linked good toy 8 100 ?d s1"
      "same_for (device_name 1) (toy_hub r) s1" using l0 by auto
  then have p1: "srv_peers s1 = toy_sec" "cred_identity (ent_credential s1) = srv_id"
    by (simp_all add: same_for_def same_setup_def srv_peers_def del: lit_Cons)
  from noise_step [OF s1(2) toy_stranger_harmless [OF p1(1)], of ?env] obtain y s2 where
    s2: "handle_auth_request toy ops ?env (toy_wire (zeros 12)) s1 = (Inl y, s2)" "linked good toy 8 100 ?d s2"
      "same_for (device_name 1) s1 s2" using s1(2) by auto
  then have p2: "srv_peers s2 = toy_sec" "cred_identity (ent_credential s2) = srv_id" "last_epoch (srv_log s2) (device_name 1) = -1"
    using p1 s1(3) by (simp_all add: same_for_def same_setup_def srv_peers_def new_session_log_def last_epoch_def del: lit_Cons)
  then have g: "epoch_gap ?d s2 = 1" by (simp add: epoch_gap_def)
  obtain res d' s3 where run: "handshake toy ops toy_run srv_id ?d s2 = (res, d', s3)" "linked good toy 8 100 d' s3"
    "epoch_gap d' s3 = 1" "ent_credential d' = ent_credential ?d" "dev_session_timeout d' = 5" "device_next d' srv_id = 1"
    "same_setup s2 s3"
    using run_step [OF toy_ok s2(2), of toy_run] toy_action g by (auto simp: p2 simp del: lit_Cons)
  have p3: "srv_peers s3 = toy_sec" "cred_identity (ent_credential s3) = srv_id"
    using run(7) p2 by (simp_all add: same_setup_def srv_peers_def)
  have last: "last_epoch (srv_log s3) (device_name 1) = 0"
    using run(3,4,6) p3 by (simp add: epoch_gap_def del: lit_Cons)
  have dw: "device_wf toy ?d" using l0 by (simp add: linked_def)
  obtain msg d1 where b: "build_auth_request toy toy_device_env srv_id ?d = (Inr msg, d1)"
    using build_of_paired [OF toy_ok l0, of toy_device_env] toy_action by (auto simp: valid_epoch_def simp del: lit_Cons)
  have e0: "device_epoch toy_device_env ?d srv_id = 0" by (simp add: device_epoch_def del: lit_Cons)
  from built_pseudonym [OF dw b] obtain m where m: "message1_from_bytes toy_repeat = Inr m" "m1_pid m = pseudonym toy 2 0"
    using b by (auto simp: toy_repeat_def e0 simp del: lit_Cons One_nat_def)
  have "harmless toy 8 s3 toy_repeat"
  proof (rule replay_harmless [where E = 100, OF _ _ m(1) _ m(2)])
    show "no_collisions toy (srv_peers s3) 100" "below_horizon (srv_log s3) (srv_peers s3) 8 100"
      using run(2) good_basic by (auto simp: linked_def p3)
    show "(device_name 1, 2) \<in> set (srv_peers s3)" by (simp add: p3 toy_sec_eq)
    show "0 \<le> last_epoch (srv_log s3) (device_name 1)" by (simp only: last order_refl)
  qed simp
  then show ?thesis
    using toy_guess_harmless [of 8 r] toy_stranger_harmless [OF p1(1), of 8] s1(1) s2(1) run(1,5) toy_action
    by (simp add: toy_traffic_def numeral_eq_Suc build_timeout case_prod_unfold Let_def del: lit_Cons)
qed

end

lemma toy_populated:
  assumes "good toy 8 100 toy_sec (new_session_log 3 8 16) r"
  shows "populated good toy 8 100 (length toy_traffic) [toy_member 0, toy_member 1] (toy_hub r)"
  using toy_hub_linked [of good r, OF assms] device_name_inject [of 0 1]
  by (simp add: populated_def toy_hub_gap toy_traffic_def)

lemma toy_hub_linear: "linear_good toy 8 100 toy_sec (new_session_log 3 8 16) new_resolver"
  by (simp add: linear_good_def toy_hub_secrets) (simp add: new_session_log_def)

definition toy_hub_table :: counter_table where
  "toy_hub_table = snd (counter_attach toy 0 toy_sec (new_session_log 3 8 16) (new_counter_table None))"

lemma toy_hub_table_good: "table_good toy 8 100 toy_sec (new_session_log 3 8 16) toy_hub_table"
proof -
  have "forward (new_session_log 3 8 16) (new_counter_table None) = 8"
    by (simp add: forward_def new_counter_table_def new_session_log_def)
  from counter_attach_full [OF toy_hub_secrets(2) toy_hub_horizon toy_hub_secrets(1) _ this, of 0] toy_hub_secrets(2)
  show ?thesis by (auto simp: table_good_def toy_hub_table_def toy_hub_secrets)
qed

lemma toy_traffic_actions:
  "gap_run 8 1 (actions_of 0 toy_traffic) = [False]" "gap_run 8 1 (actions_of 1 toy_traffic) = [True, True]"
  by (simp_all add: toy_traffic_def numeral_eq_Suc)

end
