(* ===== verification/LoginGate.thy ===== *)
theory LoginGate
  imports Crypto
begin

text \<open>
  The optional login pre-check (\<^verbatim>\<open>protocol/login_gate.py\<close>): a hash over the device's address and a
  password, compared by the server.  The gate keeps a flag and no other state.
\<close>

record login_request =
  lr_mac_address :: bytes
  lr_login_hash :: bytes

record login_gate =
  lg_enabled :: bool

definition new_login_gate :: "bool \<Rightarrow> login_gate" where
  "new_login_gate enabled = \<lparr>lg_enabled = enabled\<rparr>"

definition compute_login_hash :: "prims \<Rightarrow> bytes \<Rightarrow> bytes \<Rightarrow> bytes" where
  "compute_login_hash P mac_address password = p_sha256 P (mac_address @ password)"

definition login_build_request :: "prims \<Rightarrow> login_gate \<Rightarrow> bytes \<Rightarrow> bytes \<Rightarrow> login_request" where
  "login_build_request P gate mac_address password =
     \<lparr>lr_mac_address = mac_address, lr_login_hash = compute_login_hash P mac_address password\<rparr>"

definition login_verify :: "prims \<Rightarrow> login_gate \<Rightarrow> login_request \<Rightarrow> bytes \<Rightarrow> bool" where
  "login_verify P gate request expected_password \<longleftrightarrow>
     compute_login_hash P (lr_mac_address request) expected_password = lr_login_hash request"

lemma login_accepts: "login_verify P gate (login_build_request P gate mac pwd) pwd"
  by (simp add: login_verify_def login_build_request_def)

text \<open>A wrong password passes only if two inputs of the digest collide.\<close>

lemma login_rejects:
  "login_verify P gate (login_build_request P gate mac pwd) pwd' \<Longrightarrow>
     pwd' = pwd \<or> mac @ pwd' \<noteq> mac @ pwd \<and> p_sha256 P (mac @ pwd') = p_sha256 P (mac @ pwd)"
  by (auto simp: login_verify_def login_build_request_def compute_login_hash_def)

text \<open>
  The address and the password are joined without a separator: moving the boundary between them keeps
  the hash, so a request for one address also passes for another with the complementary password.
\<close>

lemma login_boundary:
  "login_verify P gate \<lparr>lr_mac_address = mac @ x, lr_login_hash = compute_login_hash P mac (x @ pwd)\<rparr> pwd"
  by (simp add: login_verify_def compute_login_hash_def)

text \<open>The flag does not take part in the decision.\<close>

lemma login_flag: "login_verify P (new_login_gate a) req pwd = login_verify P (new_login_gate b) req pwd"
  by (simp add: login_verify_def)

end
