(* ===== verification/ClockTable_Nonce.thy ===== *)
theory ClockTable_Nonce
  imports Server_Runs
begin

text \<open>
  The nonce cache under strategy O4.  \<open>ClockTable.resolve\<close> answers from a table, so a hit is an epoch of the
  current window only if nothing older is left in it.  \<open>_advance\<close> adds the entries of the new epochs one by
  one and a hash may raise in between, after which the table holds entries of epochs that are not in
  \<^verbatim>\<open>_tabled\<close> and are never deleted.  The invariant here bounds those leftovers: they are close to the
  end of the 8-byte epochs, so no later call of \<open>_advance\<close> that succeeds has moved past them.  With it O4
  meets the contract \<open>nonce_resolver\<close>.
\<close>

section \<open>What filling the table adds\<close>

definition entry_epochs :: "clock_table \<Rightarrow> int set" where
  "entry_epochs r = (\<lambda>x. snd (snd x)) ` set (ckt_table r)"

lemma entry_epochs_simps [simp]:
  "entry_epochs (add_precompute n r) = entry_epochs r" "entry_epochs (r\<lparr>ck_nonces := ns\<rparr>) = entry_epochs r"
  by (simp_all add: entry_epochs_def)

definition raises_at :: "prims \<Rightarrow> peers \<Rightarrow> int \<Rightarrow> bool" where
  "raises_at P ps e \<longleftrightarrow> (\<exists>x \<in> set ps. h2_pseudonym P (snd x) e \<in> range Inl)"

lemma raises_at_iff: "raises_at P ps e \<longleftrightarrow> (\<exists>x \<in> set ps. \<not> (valid_lam (snd x) \<and> valid_epoch e))"
proof -
  have "h2_pseudonym P lam e \<in> range Inl \<longleftrightarrow> \<not> (valid_lam lam \<and> valid_epoch e)" for lam
    using h2_pseudonym_Inr [of P lam e] by (cases "h2_pseudonym P lam e") auto
  then show ?thesis by (simp add: raises_at_def)
qed

lemma entry_epochs_update: "entry_epochs (r\<lparr>ckt_table := AList.update h (p, e) (ckt_table r)\<rparr>) \<subseteq> insert e (entry_epochs r)"
  using set_alist_update [of h "(p, e)" "ckt_table r"] by (auto simp: entry_epochs_def)

lemma table_peers_adds:
  assumes "table_peers P e ps r = (res, r')"
  shows "entry_epochs r' \<subseteq> insert e (entry_epochs r)" "ckt_tabled r' = ckt_tabled r" "res \<in> range Inl \<longleftrightarrow> raises_at P ps e"
proof -
  have "entry_epochs r' \<subseteq> insert e (entry_epochs r) \<and> ckt_tabled r' = ckt_tabled r \<and> (res \<in> range Inl \<longleftrightarrow> raises_at P ps e)"
    using assms
  proof (induction ps arbitrary: r)
    case Nil
    then show ?case by (auto simp: raises_at_def)
  next
    case (Cons x ps)
    obtain p lam where x: "x = (p, lam)" by (cases x)
    show ?case
    proof (cases "h2_pseudonym P lam e")
      case (Inl y)
      with Cons.prems show ?thesis by (auto simp: x h2_counted_eq raises_at_def)
    next
      case (Inr h)
      let ?r = "(add_precompute 1 r)\<lparr>ckt_table := AList.update h (p, e) (ckt_table r)\<rparr>"
      from Cons.prems Inr have "table_peers P e ps ?r = (res, r')" by (simp add: x h2_counted_eq)
      from Cons.IH [OF this] entry_epochs_update [where r = "add_precompute 1 r" and h = h and e = e and p = p] Inr show ?thesis
        by (auto simp: x raises_at_def)
    qed
  qed
  then show "entry_epochs r' \<subseteq> insert e (entry_epochs r)" "ckt_tabled r' = ckt_tabled r" "res \<in> range Inl \<longleftrightarrow> raises_at P ps e"
    by simp_all
qed

lemma table_epochs_success:
  "table_epochs P ps es r = (Inr (), r') \<Longrightarrow>
     entry_epochs r' \<subseteq> set es \<union> entry_epochs r \<and> ckt_tabled r' = ckt_tabled r \<and> (\<forall>e \<in> set es. \<not> raises_at P ps e)"
proof (induction es arbitrary: r)
  case Nil
  then show ?case by simp
next
  case (Cons e es)
  then obtain r1 where t: "table_peers P e ps r = (Inr (), r1)" "table_epochs P ps es r1 = (Inr (), r')"
    by (auto split: prod.splits sum.splits)
  have n: "\<not> raises_at P ps e" using table_peers_adds(3) [OF t(1)] by auto
  from Cons.IH [OF t(2)] have r: "entry_epochs r' \<subseteq> set es \<union> entry_epochs r1" "ckt_tabled r' = ckt_tabled r1"
    "\<forall>e \<in> set es. \<not> raises_at P ps e" by blast+
  have "entry_epochs r' \<subseteq> set (e # es) \<union> entry_epochs r" using r(1) table_peers_adds(1) [OF t(1)] by auto
  with n r(2,3) table_peers_adds(2) [OF t(1)] show ?case by simp
qed

text \<open>The epochs are visited in ascending order, so nothing above the one that raised is added.\<close>

lemma table_epochs_raise:
  "table_epochs P ps es r = (Inl y, r') \<Longrightarrow> sorted es \<Longrightarrow>
     ckt_tabled r' = ckt_tabled r \<and>
     (\<exists>b \<in> set es. raises_at P ps b \<and> entry_epochs r' \<subseteq> {e \<in> set es. e \<le> b} \<union> entry_epochs r)"
proof (induction es arbitrary: r)
  case Nil
  then show ?case by simp
next
  case (Cons e es)
  obtain q r1 where t: "table_peers P e ps r = (q, r1)" by (cases "table_peers P e ps r")
  show ?case
  proof (cases q)
    case (Inl z)
    with t Cons.prems(1) have "r' = r1" by simp
    moreover have "raises_at P ps e" using table_peers_adds(3) [OF t] Inl by simp
    ultimately show ?thesis using table_peers_adds(1,2) [OF t] by (intro conjI bexI [of _ e]) auto
  next
    case (Inr u)
    with t Cons.prems have "table_epochs P ps es r1 = (Inl y, r')" "sorted es" by simp_all
    from Cons.IH [OF this] obtain b where b: "ckt_tabled r' = ckt_tabled r1" "b \<in> set es" "raises_at P ps b"
      "entry_epochs r' \<subseteq> {e \<in> set es. e \<le> b} \<union> entry_epochs r1" by blast
    have "e \<le> b" using Cons.prems(2) b(2) by simp
    with b(4) table_peers_adds(1) [OF t] have "entry_epochs r' \<subseteq> {f \<in> set (e # es). f \<le> b} \<union> entry_epochs r" by auto
    with b table_peers_adds(2) [OF t] show ?thesis by (intro conjI bexI [of _ b]) simp_all
  qed
qed

section \<open>The invariant of the table's epochs\<close>

definition table_fresh :: "peers \<Rightarrow> clock_table \<Rightarrow> bool" where
  "table_fresh ps r \<longleftrightarrow>
     (if valid_peers ps
      then (ps \<noteq> [] \<longrightarrow> (\<forall>e \<in> set (ckt_tabled r). valid_epoch e)) \<and>
           (\<forall>e \<in> entry_epochs r. e \<in> set (ckt_tabled r) \<or> 256 ^ 8 \<le> e + 2 * ck_drift r)
      else ckt_tabled r = [])"

definition clock_nonce_wf :: "prims \<Rightarrow> peers \<Rightarrow> session_log \<Rightarrow> clock_table \<Rightarrow> bool" where
  "clock_nonce_wf P ps sl r \<longleftrightarrow> clock_table_wf P ps sl r \<and> (ck_steady r \<longrightarrow> table_fresh ps r)"

lemma entry_valid:
  assumes "clock_table_wf P ps sl r" "e \<in> entry_epochs r"
  shows "valid_epoch e" "ps \<noteq> []"
  using assms by (auto simp: entry_epochs_def clock_table_wf_def clock_entry_def h2_pseudonym_Inr)

lemma clock_advance_cases:
  assumes "clock_window now r = Inr W"
  obtains y r1 where "table_epochs P ps (sort (filter (\<lambda>e. e \<notin> set (ckt_tabled r)) (remdups W))) r = (Inl y, r1)"
      "clock_advance P now ps r = (Inl y, r1)"
  | r1 r' where "table_epochs P ps (sort (filter (\<lambda>e. e \<notin> set (ckt_tabled r)) (remdups W))) r = (Inr (), r1)"
      "clock_advance P now ps r = (Inr (), r')" "ckt_tabled r' = remdups W"
      "entry_epochs r' = entry_epochs r1 - (set (ckt_tabled r) - set W)"
proof (cases "table_epochs P ps (sort (filter (\<lambda>e. e \<notin> set (ckt_tabled r)) (remdups W))) r")
  case (Pair q r1)
  show ?thesis
  proof (cases q)
    case (Inl y)
    with Pair assms that(1) show ?thesis by (simp add: clock_advance_def Let_def)
  next
    case (Inr u)
    let ?r' = "r1\<lparr>ckt_table := filter (\<lambda>(k, p, e). e \<notin> set (filter (\<lambda>e. e \<notin> set (remdups W)) (ckt_tabled r))) (ckt_table r1),
        ckt_tabled := remdups W\<rparr>"
    have "clock_advance P now ps r = (Inr (), ?r')" using Pair Inr assms by (simp add: clock_advance_def Let_def)
    moreover have "entry_epochs ?r' = entry_epochs r1 - (set (ckt_tabled r) - set W)" by (force simp: entry_epochs_def image_iff)
    ultimately show ?thesis using Pair Inr that(2) [of r1 ?r'] by simp
  qed
qed

lemma window_current: "clock_window now r = Inr W \<Longrightarrow> \<exists>cur. current_epoch now r = Inr cur \<and> cur \<in> set W \<and> W = window_of (ck_drift r) cur"
  by (auto simp: clock_window_def window_mem_of split: sum.splits)

text \<open>A call that raises leaves entries at most one window below the end of the epochs.\<close>

lemma advance_fresh_raise:
  assumes w: "clock_window now r = Inr W" "ck_steady r" and f: "table_fresh ps r" and wf: "clock_table_wf P ps sl r"
    and a: "clock_advance P now ps r = (Inl y, r')"
  shows "table_fresh ps r'"
proof -
  let ?es = "sort (filter (\<lambda>e. e \<notin> set (ckt_tabled r)) (remdups W))"
  from clock_advance_cases [OF w(1), of P ps] a have t: "table_epochs P ps ?es r = (Inl y, r')" by (metis prod.inject sum.distinct(1))
  obtain b where b: "ckt_tabled r' = ckt_tabled r" "b \<in> set ?es" "raises_at P ps b"
    "entry_epochs r' \<subseteq> {e \<in> set ?es. e \<le> b} \<union> entry_epochs r"
    using table_epochs_raise [OF t] by (auto simp del: set_sort)
  have d: "ck_drift r' = ck_drift r" using clock_advance_clock [of r P now ps] a by (simp add: same_clock_def)
  have wf': "clock_table_wf P ps sl r'" using clock_advance_wf [OF wf, of now] a by simp
  obtain cur where W: "W = window_of (ck_drift r) cur" using window_current [OF w(1)] by blast
  have "e \<in> set (ckt_tabled r') \<or> 256 ^ 8 \<le> e + 2 * ck_drift r'" if v: "valid_peers ps" and e: "e \<in> entry_epochs r'" for e
  proof (cases "e \<in> entry_epochs r")
    case True
    with f v b(1) d show ?thesis by (simp add: table_fresh_def)
  next
    case False
    with e b(4) have i: "e \<in> set W" "e \<le> b" by auto
    have "\<not> valid_epoch b" using b(3) v by (auto simp: raises_at_iff valid_peers_def)
    moreover have "valid_epoch e" by (rule entry_valid(1) [OF wf' e])
    ultimately have "256 ^ 8 \<le> b" using i(2) by (auto simp: valid_epoch_def)
    moreover have "b \<in> set W" using b(2) by simp
    ultimately show ?thesis using i(1) w(2) d by (auto simp: W window_mem_of ck_steady_def)
  qed
  with f b(1) d show ?thesis by (auto simp: table_fresh_def)
qed

lemma advance_success:
  assumes w: "clock_window now r = Inr W" and f: "table_fresh ps r" and wf: "distinct (map fst ps)"
    and a: "clock_advance P now ps r = (Inr (), r')"
  shows "valid_peers ps" "ps \<noteq> [] \<Longrightarrow> e \<in> set W \<Longrightarrow> valid_epoch e" "table_fresh ps r'" "set (ckt_tabled r') = set W"
proof -
  let ?es = "sort (filter (\<lambda>e. e \<notin> set (ckt_tabled r)) (remdups W))"
  obtain r1 where t: "table_epochs P ps ?es r = (Inr (), r1)" "ckt_tabled r' = remdups W"
    "entry_epochs r' = entry_epochs r1 - (set (ckt_tabled r) - set W)"
    using clock_advance_cases [OF w, of P ps] a by (metis prod.inject sum.distinct(1))
  have ok: "\<not> raises_at P ps e" if "e \<in> set W" "e \<notin> set (ckt_tabled r)" for e
    using table_epochs_success [OF t(1)] that by simp
  obtain cur where cur: "cur \<in> set W" using window_current [OF w] by blast
  show v: "valid_peers ps"
  proof (rule ccontr)
    assume "\<not> ?thesis"
    with f have "ckt_tabled r = []" by (simp add: table_fresh_def)
    with ok [OF cur] have "\<not> raises_at P ps cur" by simp
    with wf \<open>\<not> ?thesis\<close> show False by (auto simp: raises_at_iff valid_peers_def)
  qed
  have valid: "valid_epoch e" if "ps \<noteq> []" "e \<in> set W" for e
  proof (cases "e \<in> set (ckt_tabled r)")
    case True
    with f v that(1) show ?thesis by (simp add: table_fresh_def)
  next
    case False
    with ok that show ?thesis by (cases ps) (auto simp: raises_at_iff)
  qed
  then show "ps \<noteq> [] \<Longrightarrow> e \<in> set W \<Longrightarrow> valid_epoch e" .
  have d: "ck_drift r' = ck_drift r" using clock_advance_clock [of r P now ps] a by (simp add: same_clock_def)
  have "e \<in> set W \<or> 256 ^ 8 \<le> e + 2 * ck_drift r'" if "e \<in> entry_epochs r'" for e
  proof -
    from that t(3) table_epochs_success [OF t(1)] have "e \<in> set ?es \<union> entry_epochs r" "e \<notin> set (ckt_tabled r) - set W" by blast+
    with f v d show ?thesis by (auto simp: table_fresh_def)
  qed
  with v valid t(2) show "table_fresh ps r'" by (simp add: table_fresh_def)
  show "set (ckt_tabled r') = set W" using t(2) by simp
qed

lemma clock_advance_nonce_wf:
  assumes "clock_nonce_wf P ps sl r"
  shows "clock_nonce_wf P ps sl (snd (clock_advance P now ps r))"
proof -
  have wf: "clock_table_wf P ps sl r" using assms by (simp add: clock_nonce_wf_def)
  have "table_fresh ps (snd (clock_advance P now ps r))" if s: "ck_steady (snd (clock_advance P now ps r))"
  proof -
    have st: "ck_steady r" using s same_clockD [OF clock_advance_clock [of r P now ps]] by simp
    with assms have f: "table_fresh ps r" by (simp add: clock_nonce_wf_def)
    show ?thesis
    proof (cases "clock_window now r")
      case (Inl x)
      with f show ?thesis by (simp add: clock_advance_def)
    next
      case (Inr W)
      obtain res r' where a: "clock_advance P now ps r = (res, r')" by (cases "clock_advance P now ps r")
      have di: "distinct (map fst ps)" using wf by (simp add: clock_table_wf_def)
      show ?thesis
      proof (cases res)
        case (Inl y)
        with advance_fresh_raise [OF Inr st f wf] a show ?thesis by simp
      next
        case (Inr u)
        with advance_success(3) [OF \<open>clock_window now r = Inr W\<close> f di] a show ?thesis by simp
      qed
    qed
  qed
  with clock_advance_wf [OF wf] show ?thesis by (simp add: clock_nonce_wf_def)
qed

text \<open>A hit is live: it is an epoch of the window, or above it.\<close>

lemma hit_live:
  assumes wf: "clock_nonce_wf P ps sl r" and st: "ck_steady r" and w: "clock_window now r = Inr W"
    and a: "clock_advance P now ps r = (Inr (), r')" and e: "e \<in> entry_epochs r'"
  shows "ck_live r now e"
proof -
  have f: "table_fresh ps r" and di: "distinct (map fst ps)" using wf st by (simp_all add: clock_nonce_wf_def clock_table_wf_def)
  note s = advance_success [OF w f di a]
  have "clock_table_wf P ps sl r'" using clock_advance_nonce_wf [OF wf, of now] a by (simp add: clock_nonce_wf_def)
  from entry_valid [OF this e] have v: "0 \<le> e" "ps \<noteq> []" by (simp_all add: valid_epoch_def)
  have d: "ck_drift r' = ck_drift r" using clock_advance_clock [of r P now ps] a by (simp add: same_clock_def)
  obtain cur where cur: "current_epoch now r = Inr cur" "W = window_of (ck_drift r) cur" using window_current [OF w] by blast
  from s(1,3,4) e d consider "e \<in> set W" | "256 ^ 8 \<le> e + 2 * ck_drift r" by (auto simp: table_fresh_def)
  then show ?thesis
  proof cases
    case 1
    then show ?thesis by (rule ck_window_live [OF w _ st])
  next
    case 2
    have c0: "cur \<in> set W" by (simp add: cur(2) window_mem_of)
    from s(2) [OF v(2) c0] have c: "0 \<le> cur" "cur < 256 ^ 8" by (simp_all add: valid_epoch_def)
    have "cur + ck_drift r \<in> set W" using c(1) st by (auto simp: cur(2) window_mem_of ck_steady_def)
    from s(2) [OF v(2) this] have "cur + ck_drift r < 256 ^ 8" by (simp add: valid_epoch_def)
    with 2 cur(1) show ?thesis by (auto simp: ck_live_def)
  qed
qed

section \<open>The contracts\<close>

lemma ck_update_fresh: "table_fresh ps (r\<lparr>ck_nonces := ns\<rparr>) = table_fresh ps r"
  by (simp add: table_fresh_def)

lemma clock_table_resolve_advance:
  "clock_table_resolve P now ps sl pid r = (res, r') \<Longrightarrow> r' = snd (clock_advance P now ps r)"
  by (auto simp: clock_table_resolve_def split: prod.splits sum.splits option.splits)

interpretation clock_nonce_table: resolver_contract clock_table_ops clock_nonce_wf
proof (unfold_locales, goal_cases)
  case (1 P ps sl r now pid res r')
  then have "r' = snd (clock_advance P now ps r)" by (auto simp: clock_table_ops_def dest: clock_table_resolve_advance)
  with clock_advance_nonce_wf [OF 1(1)] show ?case by simp
next
  case (2 P ps sl r now pid p e r')
  then show ?case using clock_tab.resolve_sound unfolding clock_nonce_wf_def by blast
next
  case (3 P now ps sl p e n r r' sl')
  then show ?case by (rule clock_tab.accept_log)
next
  case (4 P now ps sl p e n r x r' sl')
  then show ?case by (rule clock_tab.accept_log_raise)
next
  case (5 P ps sl r now p e n ares r' sl')
  then obtain ns where "r' = r\<lparr>ck_nonces := ns\<rparr>" by (auto simp: clock_table_ops_def dest: clock_accept_only_nonces)
  moreover have "clock_table_wf P ps sl' r'" using 5 clock_tab.accept_wf unfolding clock_nonce_wf_def by blast
  ultimately show ?case using 5(1) by (simp add: clock_nonce_wf_def ck_update_fresh)
next
  case (6 ps P now sl r r')
  let ?r = "r\<lparr>ckt_table := [], ckt_tabled := []\<rparr>"
  have "clock_nonce_wf P ps sl ?r" using 6(1) by (simp add: clock_nonce_wf_def clock_table_wf_def table_fresh_def entry_epochs_def)
  from clock_advance_nonce_wf [OF this, of now] 6(2) show ?case by (simp add: clock_table_ops_def clock_table_attach_def)
next
  case (7 P ps sl r sl')
  then show ?case by (simp add: clock_nonce_wf_def clock_table_wf_def)
qed

interpretation clock_table_nonce: nonce_resolver clock_table_ops clock_nonce_wf ck_remembers ck_live ck_steady
proof (unfold_locales, goal_cases)
  case (1 P now ps sl p e n r r' sl')
  then show ?case using ck_accept_remembers by (auto simp: clock_table_ops_def)
next
  case (2 p e n r now P ps sl q f m ares r' sl')
  then show ?case using ck_accept_keeps by (auto simp: clock_table_ops_def)
next
  case (3 p e n r now P ps sl ares r' sl')
  then show ?case using ck_accept_detects [OF 3(1,2), of P ps sl] by (simp add: clock_table_ops_def)
next
  case (4 P now ps sl q f m r ares r' sl')
  then show ?case using clock_accept_only_nonces by (fastforce simp: clock_table_ops_def)
next
  case (5 P now ps sl pid r rres r' p e n)
  then have "r' = snd (clock_advance P now ps r)" by (auto simp: clock_table_ops_def dest: clock_table_resolve_advance)
  then show ?case using same_clockD [OF clock_advance_clock] by simp
next
  case (6 P now ps sl pid r p e r')
  then have a: "clock_advance P now ps r = (Inr (), r')" "map_of (ckt_table r') pid = Some (p, e)"
    by (auto simp: clock_table_ops_def clock_table_resolve_def split: prod.splits sum.splits option.splits)
  then obtain W where w: "clock_window now r = Inr W" by (cases "clock_window now r") (simp_all add: clock_advance_def)
  from map_of_SomeD [OF a(2)] have "e \<in> entry_epochs r'" by (force simp: entry_epochs_def)
  then show ?case by (rule hit_live [OF 6(2,3) w a(1)])
next
  case (7 r now e now')
  then show ?case by (rule ck_live_antimono)
qed

end
