(* ===== verification/ClockTable_Runs.thy ===== *)
theory ClockTable_Runs
  imports ClockTable_Nonce ClockRuns
begin

text \<open>
  Strategy O4 over time.  Whatever requests a server has handled since it was attached, at whatever readings
  of the clock, half-filled tables included, the epochs of \<^verbatim>\<open>_tabled\<close> are complete: every enrolled device
  has its entry for each of them.  So the table finds every device whose epoch is in the current window.
\<close>

section \<open>Complete epochs\<close>

definition table_complete :: "prims \<Rightarrow> peers \<Rightarrow> clock_table \<Rightarrow> bool" where
  "table_complete P ps r \<longleftrightarrow>
     (\<forall>e \<in> set (ckt_tabled r). \<forall>(p, lam) \<in> set ps. map_of (ckt_table r) (pseudonym P lam e) = Some (p, e))"

lemma table_complete_nonces [simp]: "table_complete P ps (r\<lparr>ck_nonces := ns\<rparr>) = table_complete P ps r"
  by (simp add: table_complete_def)

text \<open>No call overwrites an entry with another one, and deletion looks at the epoch alone.\<close>

lemma sound_put:
  assumes nc: "no_collisions P ps (256 ^ 8)" and wf: "clock_table_wf P ps sl r" and k: "map_of (ckt_table r) k = Some v"
    and x: "(p, lam) \<in> set ps" "h2_pseudonym P lam e = Inr h"
  shows "map_of (AList.update h (p, e) (ckt_table r)) k = Some v"
proof (cases "k = h")
  case True
  obtain q f where v: "v = (q, f)" by (cases v)
  have "clock_entry P ps (k, q, f)" using wf map_of_SomeD [OF k] by (auto simp: clock_table_wf_def v)
  then obtain mu where mu: "(q, mu) \<in> set ps" "h2_pseudonym P mu f = Inr h" by (auto simp: clock_entry_def True dest: map_of_SomeD)
  from mu(2) x(2) have "0 \<le> f" "f < 256 ^ 8" "0 \<le> e" "e < 256 ^ 8" "pseudonym P mu f = pseudonym P lam e"
    by (simp_all add: h2_pseudonym_Inr valid_epoch_def)
  from no_collisionsD [OF nc mu(1) x(1) this] show ?thesis by (simp add: True v update_conv)
next
  case False
  with k show ?thesis by (simp add: update_conv)
qed

lemma table_peers_keeps:
  assumes nc: "no_collisions P ps (256 ^ 8)"
  shows "clock_table_wf P ps sl r \<Longrightarrow> set qs \<subseteq> set ps \<Longrightarrow> table_peers P e qs r = (res, r') \<Longrightarrow>
    (\<forall>k v. map_of (ckt_table r) k = Some v \<longrightarrow> map_of (ckt_table r') k = Some v) \<and>
    (res = Inr () \<longrightarrow> (\<forall>(p, lam) \<in> set qs. map_of (ckt_table r') (pseudonym P lam e) = Some (p, e)))"
proof (induction qs arbitrary: r)
  case Nil
  then show ?case by simp
next
  case (Cons x qs)
  obtain p lam where x: "x = (p, lam)" by (cases x)
  show ?case
  proof (cases "h2_pseudonym P lam e")
    case (Inl y)
    with Cons.prems(3) show ?thesis by (auto simp: x h2_counted_eq)
  next
    case (Inr h)
    let ?r = "(add_precompute 1 r)\<lparr>ckt_table := AList.update h (p, e) (ckt_table r)\<rparr>"
    have mem: "(p, lam) \<in> set ps" using Cons.prems(2) x by simp
    have "table_peers P e [(p, lam)] r = (Inr (), ?r)" using Inr by (simp add: h2_counted_eq)
    with table_peers_wf [OF Cons.prems(1), of "[(p, lam)]" e] mem have wf: "clock_table_wf P ps sl ?r" by simp
    have "table_peers P e qs ?r = (res, r')" using Cons.prems(3) Inr by (simp add: x h2_counted_eq)
    note IH = Cons.IH [OF wf _ this]
    have old: "map_of (ckt_table ?r) k = Some v" if "map_of (ckt_table r) k = Some v" for k v
      using sound_put [OF nc Cons.prems(1) that mem Inr] by simp
    have new: "map_of (ckt_table ?r) (pseudonym P lam e) = Some (p, e)" using Inr by (simp add: h2_pseudonym_Inr update_conv)
    from IH Cons.prems(2) have keep: "\<forall>k v. map_of (ckt_table ?r) k = Some v \<longrightarrow> map_of (ckt_table r') k = Some v"
      "res = Inr () \<Longrightarrow> \<forall>(p, lam) \<in> set qs. map_of (ckt_table r') (pseudonym P lam e) = Some (p, e)" by simp_all
    from keep(1) old have "\<forall>k v. map_of (ckt_table r) k = Some v \<longrightarrow> map_of (ckt_table r') k = Some v" by blast
    moreover have "map_of (ckt_table r') (pseudonym P lam e) = Some (p, e)" using keep(1) new by blast
    ultimately show ?thesis using keep(2) x by simp
  qed
qed

lemma table_epochs_keeps:
  assumes nc: "no_collisions P ps (256 ^ 8)"
  shows "clock_table_wf P ps sl r \<Longrightarrow> table_epochs P ps es r = (res, r') \<Longrightarrow>
    (\<forall>k v. map_of (ckt_table r) k = Some v \<longrightarrow> map_of (ckt_table r') k = Some v) \<and>
    (res = Inr () \<longrightarrow> (\<forall>e \<in> set es. \<forall>(p, lam) \<in> set ps. map_of (ckt_table r') (pseudonym P lam e) = Some (p, e)))"
proof (induction es arbitrary: r)
  case Nil
  then show ?case by simp
next
  case (Cons e es)
  obtain q r1 where t: "table_peers P e ps r = (q, r1)" by (cases "table_peers P e ps r")
  note one = table_peers_keeps [OF nc Cons.prems(1) subset_refl t]
  have wf: "clock_table_wf P ps sl r1" using table_peers_wf [OF Cons.prems(1) subset_refl, of e] t by simp
  show ?case
  proof (cases q)
    case (Inl y)
    with Cons.prems(2) t one show ?thesis by auto
  next
    case (Inr u)
    with Cons.prems(2) t have "table_epochs P ps es r1 = (res, r')" by simp
    from Cons.IH [OF wf this] one Inr show ?thesis by fastforce
  qed
qed

lemma map_of_filter_Some: "map_of al k = Some v \<Longrightarrow> Q (k, v) \<Longrightarrow> map_of (filter Q al) k = Some v"
  by (induction al) (auto split: if_splits)

lemma clock_advance_complete:
  assumes nc: "no_collisions P ps (256 ^ 8)" and wf: "clock_table_wf P ps sl r" and c: "table_complete P ps r"
  shows "table_complete P ps (snd (clock_advance P now ps r))"
proof (cases "clock_window now r")
  case (Inl x)
  with c show ?thesis by (simp add: clock_advance_def)
next
  case (Inr W)
  let ?es = "sort (filter (\<lambda>e. e \<notin> set (ckt_tabled r)) (remdups W))"
  obtain res r1 where t: "table_epochs P ps ?es r = (res, r1)" by (cases "table_epochs P ps ?es r")
  note keep = table_epochs_keeps [OF nc wf t]
  show ?thesis
  proof (cases res)
    case (Inl y)
    have "sorted ?es" by simp
    from table_epochs_raise [OF t [unfolded Inl] this] have "ckt_tabled r1 = ckt_tabled r" by blast
    moreover have "snd (clock_advance P now ps r) = r1" using t Inl \<open>clock_window now r = Inr W\<close> by (simp add: clock_advance_def Let_def)
    ultimately show ?thesis using c keep unfolding table_complete_def by fastforce
  next
    case (Inr u)
    let ?gone = "filter (\<lambda>e. e \<notin> set (remdups W)) (ckt_tabled r)"
    let ?r' = "r1\<lparr>ckt_table := filter (\<lambda>(k, p, e). e \<notin> set ?gone) (ckt_table r1), ckt_tabled := remdups W\<rparr>"
    have "map_of (ckt_table ?r') (pseudonym P lam e) = Some (p, e)" if e: "e \<in> set W" and p: "(p, lam) \<in> set ps" for e p lam
    proof -
      have "map_of (ckt_table r1) (pseudonym P lam e) = Some (p, e)"
      proof (cases "e \<in> set (ckt_tabled r)")
        case True
        with c p keep show ?thesis unfolding table_complete_def by fastforce
      next
        case False
        with e have "e \<in> set ?es" by simp
        with keep Inr p show ?thesis by fastforce
      qed
      with e show ?thesis by (simp add: map_of_filter_Some)
    qed
    moreover have "snd (clock_advance P now ps r) = ?r'" using t Inr \<open>clock_window now r = Inr W\<close> by (simp add: clock_advance_def Let_def)
    ultimately show ?thesis by (auto simp: table_complete_def)
  qed
qed

section \<open>A server over time\<close>

definition table_serves :: "prims \<Rightarrow> clock_table server \<Rightarrow> bool" where
  "table_serves P s \<longleftrightarrow> server_wf clock_table_wf P s \<and> table_complete P (srv_peers s) (srv_resolver s)"

lemma attach_serves:
  assumes nc: "no_collisions P (srv_peers s) (256 ^ 8)" "distinct (map fst (srv_peers s))" "cache_ok P s"
    and a: "clock_table_attach P now (srv_peers s) (srv_log s) r0 = (Inr (), srv_resolver s)"
  shows "table_serves P s"
proof -
  let ?r = "r0\<lparr>ckt_table := [], ckt_tabled := []\<rparr>"
  have "clock_table_wf P (srv_peers s) (srv_log s) ?r" "table_complete P (srv_peers s) ?r"
    using nc(2) by (simp_all add: clock_table_wf_def table_complete_def)
  from clock_advance_complete [OF nc(1) this, of now] clock_advance_wf [OF this(1), of now] a nc(2,3)
  show ?thesis by (simp add: table_serves_def server_wf_def clock_table_attach_def)
qed

lemma handle_complete:
  assumes "no_collisions P (srv_peers s) (256 ^ 8)" "table_serves P s" "handle_auth_request P clock_table_ops env msg s = (res, s')"
  shows "table_complete P (srv_peers s) (srv_resolver s')"
proof -
  have wf: "clock_table_wf P (srv_peers s) (srv_log s) (srv_resolver s)" and c: "table_complete P (srv_peers s) (srv_resolver s)"
    using assms(2) by (simp_all add: table_serves_def server_wf_def)
  have adv: "table_complete P (srv_peers s) r1"
    if "ro_resolve clock_table_ops P now (srv_peers s) (srv_log s) pid (srv_resolver s) = (rres, r1)" for now pid rres r1
    using clock_advance_complete [OF assms(1) wf c, of now] that clock_table_resolve_advance [of P now _ _ pid _ rres r1]
    by (simp add: clock_table_ops_def)
  have acc: "table_complete P (srv_peers s) r2"
    if "ro_accept clock_table_ops P now ps sl p e n r1 = (ares, r2, sl')" "table_complete P (srv_peers s) r1" for now ps sl p e n r1 ares r2 sl'
    using that clock_accept_only_nonces [of P now ps sl p e n r1 ares r2 sl'] by (auto simp: clock_table_ops_def)
  from handle_resolver [OF assms(3)] adv acc c show ?thesis by (elim disjE exE conjE) (simp, metis, metis)
qed

lemma handle_credential:
  assumes "handle_auth_request P ops env msg s = (res, s')"
  shows "ent_credential s' = ent_credential s"
proof -
  have root: "get_pairwise_root P q u = (x, u') \<Longrightarrow> ent_credential u' = ent_credential u" for q x and u u' :: "'a server"
    using get_pairwise_root_state [of P q u] by auto
  obtain v s1 where v: "verify_request P ops env msg s = (v, s1)" by fastforce
  have "ent_credential s1 = ent_credential s"
    using v by (auto simp: verify_request_def resolve_pseudonym_def server_failure_def Let_def dest!: root
        split: sum.splits prod.splits if_splits)
  with assms v show ?thesis
    by (auto simp: handle_auth_request_def answer_request_def Let_def split: sum.splits prod.splits)
qed

lemma server_reach_credential: "server_reach P ops s s' \<Longrightarrow> ent_credential s' = ent_credential s"
proof (induction rule: server_reach.induct)
  case (reach_request s' env msg res s'')
  then show ?case by (simp add: handle_credential)
next
  case (reach_invalidate s' q)
  then show ?case by (auto simp: invalidate_pairwise_root_def split: option.split)
qed simp_all

lemma reach_serves:
  "server_reach P clock_table_ops s s' \<Longrightarrow> no_collisions P (srv_peers s) (256 ^ 8) \<Longrightarrow> table_serves P s \<Longrightarrow>
     table_serves P s' \<and> srv_peers s' = srv_peers s"
proof (induction rule: server_reach.induct)
  case (reach_request s' env msg res s'')
  then have s': "table_serves P s'" "srv_peers s' = srv_peers s" by simp_all
  from s'(1) have wf: "server_wf clock_table_wf P s'" by (simp add: table_serves_def)
  from clock_tab.reach_wf [OF reach_one [OF reach_request.hyps(2)] wf]
  have wf'': "server_wf clock_table_wf P s''" "srv_peers s'' = srv_peers s'" by (simp_all add: srv_peers_def)
  with handle_complete [OF _ s'(1) reach_request.hyps(2)] reach_request.prems(1) s'(2) show ?case by (simp add: table_serves_def)
next
  case (reach_coverage s' cov)
  then have s': "server_wf clock_table_wf P s'" "table_complete P (srv_peers s) (srv_resolver s')" "srv_peers s' = srv_peers s"
    by (auto simp: table_serves_def)
  from clock_tab.reach_wf [OF server_reach.reach_coverage [OF reach_start] s'(1), of cov] s'(2,3) show ?case
    by (simp add: table_serves_def srv_peers_def)
next
  case (reach_invalidate s' q)
  then have s': "server_wf clock_table_wf P s'" "table_complete P (srv_peers s) (srv_resolver s')" "srv_peers s' = srv_peers s"
    by (auto simp: table_serves_def)
  from clock_tab.reach_wf [OF server_reach.reach_invalidate [OF reach_start] s'(1), of q] s'(2,3) show ?case
    by (simp add: table_serves_def)
next
  case (reach_block s' p)
  then have s': "server_wf clock_table_wf P s'" "table_complete P (srv_peers s) (srv_resolver s')" "srv_peers s' = srv_peers s"
    by (auto simp: table_serves_def)
  from clock_tab.reach_wf [OF server_reach.reach_block [OF reach_start] s'(1), of p] s'(2,3) show ?case
    by (simp add: table_serves_def srv_peers_def)
next
  case (reach_subscribe s' l)
  then have s': "server_wf clock_table_wf P s'" "table_complete P (srv_peers s) (srv_resolver s')" "srv_peers s' = srv_peers s"
    by (auto simp: table_serves_def)
  from clock_tab.reach_wf [OF server_reach.reach_subscribe [OF reach_start] s'(1), of l] s'(2,3) show ?case
    by (simp add: table_serves_def srv_peers_def)
qed simp

text \<open>Such a server finds every device whose epoch is in the window.\<close>

lemma served_finds:
  assumes s: "table_serves P s" and v: "valid_peers (srv_peers s)" and w: "clock_window now (srv_resolver s) = Inr W" "set W \<subseteq> {0 ..< 256 ^ 8}"
    and p: "(p, lam) \<in> set (srv_peers s)" "e \<in> set W" and nc: "no_collisions P (srv_peers s) (256 ^ 8)"
  shows "\<exists>r1. ro_resolve clock_table_ops P now (srv_peers s) (srv_log s) (pseudonym P lam e) (srv_resolver s) = (Inr (p, e), r1) \<and>
    same_clock (srv_resolver s) r1"
proof -
  let ?r = "srv_resolver s" and ?ps = "srv_peers s"
  have wf: "clock_table_wf P ?ps (srv_log s) ?r" and c: "table_complete P ?ps ?r" using s by (simp_all add: table_serves_def server_wf_def)
  obtain r1 where a: "clock_advance P now ?ps ?r = (Inr (), r1)" "ckt_tabled r1 = remdups W"
  proof (cases rule: clock_advance_cases [OF w(1), of P ?ps])
    case (1 y r1)
    have "sorted (sort (filter (\<lambda>e. e \<notin> set (ckt_tabled ?r)) (remdups W)))" by simp
    from table_epochs_raise [OF 1(1) this] obtain b where "b \<in> set W" "raises_at P ?ps b" by auto
    with w(2) v show ?thesis by (fastforce simp: raises_at_iff valid_peers_def valid_epoch_def)
  next
    case (2 r1 r')
    with that show ?thesis by blast
  qed
  from clock_advance_complete [OF nc wf c, of now] a p have "map_of (ckt_table r1) (pseudonym P lam e) = Some (p, e)"
    by (auto simp: table_complete_def)
  moreover have "same_clock ?r r1" using clock_advance_clock [of ?r P now ?ps] a(1) by simp
  ultimately show ?thesis using a(1) by (simp add: clock_table_ops_def clock_table_resolve_def)
qed

section \<open>What a run needs and gives\<close>

text \<open>
  A device and a server with one of the clock strategies, before a run: the parties hold each other's
  secrets and neither refuses, the window is inside the horizon \<open>E\<close> and contains the device's epoch, and
  the nonce the device is about to draw is not in the cache.
\<close>

definition clock_ready :: "prims \<Rightarrow> int \<Rightarrow> handshake_env \<Rightarrow> device \<Rightarrow> 'a clock_resolver_scheme server \<Rightarrow> bool" where
  "clock_ready P E h d s \<longleftrightarrow> env_ok h d \<and> paired (ent_credential d) (ent_credential s) \<and> willing d s \<and> device_wf P d \<and>
     valid_str (cred_identity (ent_credential d)) \<and> valid_peers (srv_peers s) \<and> no_collisions P (srv_peers s) E \<and> E \<le> 256 ^ 8 \<and>
     (\<exists>W. clock_window (env_now_resolve (he_server h)) (srv_resolver s) = Inr W \<and> set W \<subseteq> {0 ..< E} \<and>
       device_epoch (he_build h) d (cred_identity (ent_credential s)) \<in> set W) \<and>
     current_epoch (env_now_accept (he_server h)) (srv_resolver s) \<in> range Inr \<and>
     (\<forall>n. generate_nonce (env_dev_nonce (he_build h)) (dev_nonce_bits d) = Inr n \<longrightarrow>
       \<not> ck_remembers (cred_identity (ent_credential d)) (device_epoch (he_build h) d (cred_identity (ent_credential s))) n (srv_resolver s))"

text \<open>The run succeeds, both ends hold the key of Eq. 16 for the device's epoch, and the nonce is remembered.\<close>

definition clock_agrees :: "prims \<Rightarrow> ('a clock_resolver_scheme) resolver_ops \<Rightarrow> handshake_env \<Rightarrow> device \<Rightarrow> 'a clock_resolver_scheme server \<Rightarrow> bool" where
  "clock_agrees P ops h d s \<longleftrightarrow> (\<exists>a n_i n_j d' s'. handshake P ops h (cred_identity (ent_credential s)) d s =
      (Inr (session_key P (pair_root P d s) n_i n_j (device_epoch (he_build h) d (cred_identity (ent_credential s))), a), d', s') \<and>
    res_session_key a = session_key P (pair_root P d s) n_i n_j (device_epoch (he_build h) d (cred_identity (ent_credential s))) \<and>
    res_peer_identity a = cred_identity (ent_credential d) \<and>
    ck_remembers (cred_identity (ent_credential d)) (device_epoch (he_build h) d (cred_identity (ent_credential s))) n_i (srv_resolver s'))"

lemma clock_agrees_if_found:
  assumes "prims_ok P" "cache_ok P s" "clock_ready P E h d s" "ro_accept ops = clock_accept"
    and found: "\<And>W p lam e. clock_window (env_now_resolve (he_server h)) (srv_resolver s) = Inr W \<Longrightarrow> set W \<subseteq> {0 ..< E} \<Longrightarrow>
      (p, lam) \<in> set (srv_peers s) \<Longrightarrow> e \<in> set W \<Longrightarrow>
      \<exists>r1. ro_resolve ops P (env_now_resolve (he_server h)) (srv_peers s) (srv_log s) (pseudonym P lam e) (srv_resolver s) = (Inr (p, e), r1) \<and>
        same_clock (srv_resolver s) r1"
  shows "clock_agrees P ops h d s"
proof -
  let ?e = "device_epoch (he_build h) d (cred_identity (ent_credential s))"
  from assms(3) have c: "env_ok h d" "paired (ent_credential d) (ent_credential s)" "willing d s" "device_wf P d"
    "valid_str (cred_identity (ent_credential d))" "E \<le> 256 ^ 8" by (simp_all add: clock_ready_def)
  from assms(3) obtain W cur where w: "clock_window (env_now_resolve (he_server h)) (srv_resolver s) = Inr W" "set W \<subseteq> {0 ..< E}" "?e \<in> set W"
    and cur: "current_epoch (env_now_accept (he_server h)) (srv_resolver s) = Inr cur" by (auto simp: clock_ready_def)
  have v: "valid_epoch ?e" using c(6) w(2,3) by (auto simp: valid_epoch_def)
  from found [OF w(1,2) paired_peer [OF c(2)] w(3)] obtain r1 where
    r1: "ro_resolve ops P (env_now_resolve (he_server h)) (srv_peers s) (srv_log s)
      (pseudonym P (cred_lam (ent_credential d)) ?e) (srv_resolver s) = (Inr (cred_identity (ent_credential d), ?e), r1)"
    "same_clock (srv_resolver s) r1" by blast
  from clock_handshake [OF assms(1) c(1-4) assms(2) refl v assms(4) r1 cur c(5)] assms(3)
  show ?thesis unfolding clock_ready_def clock_agrees_def by blast
qed

lemma clock_agrees_scan:
  assumes "prims_ok P" "cache_ok P s" "clock_ready P E h d s"
  shows "clock_agrees P clock_scan_ops h d s"
proof (rule clock_agrees_if_found [OF assms])
  show "ro_accept clock_scan_ops = clock_accept" by (simp add: clock_scan_ops_def)
  from assms(3) have "no_collisions P (srv_peers s) E" "E \<le> 256 ^ 8" "valid_peers (srv_peers s)" by (simp_all add: clock_ready_def)
  from scan_finds [OF this] show "\<exists>r1. ro_resolve clock_scan_ops P (env_now_resolve (he_server h)) (srv_peers s) (srv_log s)
      (pseudonym P lam e) (srv_resolver s) = (Inr (p, e), r1) \<and> same_clock (srv_resolver s) r1"
    if "clock_window (env_now_resolve (he_server h)) (srv_resolver s) = Inr W" "set W \<subseteq> {0 ..< E}" "(p, lam) \<in> set (srv_peers s)" "e \<in> set W"
    for W p lam e using that by blast
qed

lemma clock_agrees_table:
  assumes "prims_ok P" "table_serves P s" "clock_ready P (256 ^ 8) h d s"
  shows "clock_agrees P clock_table_ops h d s"
proof (rule clock_agrees_if_found [OF assms(1) _ assms(3)])
  show "cache_ok P s" using assms(2) by (simp add: table_serves_def server_wf_def)
  show "ro_accept clock_table_ops = clock_accept" by (simp add: clock_table_ops_def)
  from assms(3) have "valid_peers (srv_peers s)" "no_collisions P (srv_peers s) (256 ^ 8)" by (simp_all add: clock_ready_def)
  from served_finds [OF assms(2) this(1) _ _ _ _ this(2)] show "\<exists>r1. ro_resolve clock_table_ops P (env_now_resolve (he_server h))
      (srv_peers s) (srv_log s) (pseudonym P lam e) (srv_resolver s) = (Inr (p, e), r1) \<and> same_clock (srv_resolver s) r1"
    if "clock_window (env_now_resolve (he_server h)) (srv_resolver s) = Inr W" "set W \<subseteq> {0 ..< 256 ^ 8}" "(p, lam) \<in> set (srv_peers s)" "e \<in> set W"
    for W p lam e using that by blast
qed

end
