(* ===== verification/Json_Fuel.thy ===== *)
theory Json_Fuel
  imports Json
begin

text \<open>
  The fuel of the JSON reader is enough: from twice the length of its input on, more fuel changes
  nothing, so a failure of the reader is a failure of the text.
\<close>

section \<open>What the scanners leave\<close>

lemma skip_ws_length: "length (skip_ws s) \<le> length s"
  by (simp add: skip_ws_def length_dropWhile_le)

lemma skip_ws_Cons: "skip_ws s = d # r \<Longrightarrow> length r < length s"
  using skip_ws_length [of s] by simp

lemma parse_chars_length: "parse_chars s = Some (t, r) \<Longrightarrow> length r < length s"
proof (induction s arbitrary: t r rule: parse_chars.induct)
  case (2 c s)
  show ?case
  proof (cases "c = 92")
    case False
    with 2(3,4) show ?thesis by (fastforce simp: parse_chars.simps split: if_splits option.splits)
  next
    case True
    with 2(4) obtain e s' where s: "s = e # s'" by (cases s) (auto simp: parse_chars.simps)
    show ?thesis
    proof (cases "e = 117")
      case True
      with 2(4) s \<open>c = 92\<close> obtain u q t' where q: "take_hex4 s' = Some (u, q)"
        "parse_chars (snd (join_surrogate u q)) = Some (t', r)" by (auto simp: parse_chars.simps split: option.splits)
      from 2(1) [OF refl _ _ s True q(1) _ q(2)] \<open>c = 92\<close> have "length r < length (snd (join_surrogate u q))" by simp
      with take_hex4_length [OF q(1)] join_surrogate_length [of u q] s show ?thesis by simp
    next
      case False
      with 2(4) s \<open>c = 92\<close> obtain x t' where q: "simple_escape e = Some x" "parse_chars s' = Some (t', r)"
        by (auto simp: parse_chars.simps split: option.splits)
      from 2(2) [OF refl _ _ s False q] \<open>c = 92\<close> s show ?thesis by simp
    qed
  qed
qed simp

lemma strip_prefix_shorter: "strip_prefix p s = Some r \<Longrightarrow> length r + length p = length s"
  by (induction p s rule: strip_prefix.induct) (auto split: if_splits)

lemma number_parts_length:
  "take_int_digits s = (ds, r) \<Longrightarrow> length r + length ds = length s"
  "take_frac s = (fr, r) \<Longrightarrow> length r \<le> length s"
  "take_exp s = (ex, r) \<Longrightarrow> length r \<le> length s"
proof -
  have tw: "length (dropWhile P s) + length (takeWhile P s) = length s" for P and s :: pystr
    by (metis add.commute length_append takeWhile_dropWhile_id)
  have dw: "length (dropWhile P s) \<le> length s" for P and s :: pystr by (rule length_dropWhile_le)
  show "take_int_digits s = (ds, r) \<Longrightarrow> length r + length ds = length s"
    using tw [of is_digit s] by (auto simp: take_int_digits_def split: list.splits if_splits)
  show "take_frac s = (fr, r) \<Longrightarrow> length r \<le> length s"
    using dw by (auto simp: take_frac_def le_SucI split: list.splits if_splits)
  show "take_exp s = (ex, r) \<Longrightarrow> length r \<le> length s"
    using dw by (auto simp: take_exp_def le_SucI Let_def split: list.splits if_splits)
qed

lemma parse_number_length: "parse_number s = Some (v, r) \<Longrightarrow> length r < length s"
proof -
  assume p: "parse_number s = Some (v, r)"
  obtain sg s0 where a: "(case s of c # r \<Rightarrow> if c = 45 then ([c], r) else ([], s) | [] \<Rightarrow> ([], [])) = (sg, s0)" by fastforce
  obtain ds s1 where b: "take_int_digits s0 = (ds, s1)" by fastforce
  obtain fr s2 where c: "take_frac s1 = (fr, s2)" by fastforce
  obtain ex s3 where d: "take_exp s2 = (ex, s3)" by fastforce
  have "length s0 \<le> length s" using a by (auto split: list.splits if_splits)
  moreover have "ds \<noteq> []" "r = s1 \<or> r = s3" using p a b c d by (auto simp: parse_number_def split: if_splits)
  ultimately show ?thesis
    using number_parts_length(1) [OF b] number_parts_length(2) [OF c] number_parts_length(3) [OF d] by (cases ds) auto
qed

lemma parse_word_length: "parse_word s = Some (v, r) \<Longrightarrow> length r < length s"
  unfolding parse_word_def
  by (auto dest!: strip_prefix_shorter parse_number_length split: option.splits)

section \<open>Every parser consumes\<close>

lemma parsers_consume:
  "parse_value n s = Some (v, r) \<Longrightarrow> length r < length s"
  "parse_items n s = Some (vs, r) \<Longrightarrow> length r < length s"
  "parse_members n s = Some (ms, r) \<Longrightarrow> length r < length s"
proof (induction n s and n s and n s arbitrary: v r and vs r and ms r rule: parse_value_parse_items_parse_members.induct)
  case (3 n c s)
  then show ?case
    by (auto dest!: parse_chars_length parse_word_length skip_ws_Cons split: if_splits option.splits list.splits) fastforce+
next
  case (5 n s)
  from 5(3) obtain v q d t where v: "parse_value n s = Some (v, q)" "skip_ws q = d # t"
    by (auto split: option.splits list.splits prod.splits)
  note l = 5(1) [OF v(1)] skip_ws_Cons [OF v(2)]
  from 5(3) v consider "r = t" | vs' where "parse_items n (skip_ws t) = Some (vs', r)" "d \<noteq> 93" "d = 44"
    by (auto split: if_splits option.splits)
  then show ?case
  proof cases
    case 1
    with l show ?thesis by simp
  next
    case 2
    from 5(2) [OF v(1) refl v(2) 2(2,3,1)] l skip_ws_length [of t] show ?thesis by simp
  qed
next
  case (8 n c s)
  from 8(3) obtain k q d t v q2 e t2 where v: "c = 34" "parse_chars s = Some (k, q)" "skip_ws q = d # t" "d = 58"
    "parse_value n (skip_ws t) = Some (v, q2)" "skip_ws q2 = e # t2"
    by (auto split: if_splits option.splits list.splits prod.splits)
  have "length q2 < length (skip_ws t)" using 8(1) v by blast
  then have l: "length t2 < length s"
    using parse_chars_length [OF v(2)] skip_ws_Cons [OF v(3)] skip_ws_length [of t] skip_ws_Cons [OF v(6)] by linarith
  from 8(3) v consider "r = t2" | ms' where "parse_members n (skip_ws t2) = Some (ms', r)" "e \<noteq> 125" "e = 44"
    by (auto split: if_splits option.splits)
  then show ?case
  proof cases
    case 1
    with l show ?thesis by simp
  next
    case 2
    have "length r < length (skip_ws t2)" using 8(2) v 2 by blast
    with l skip_ws_length [of t2] show ?thesis by simp
  qed
qed auto

section \<open>More fuel changes nothing\<close>

lemma parse_empty [simp]: "parse_value m [] = None" "parse_members m [] = None"
  by (cases m; simp)+

lemma fuel_enough:
  "2 * length s \<le> n \<Longrightarrow> 2 * length s \<le> m \<Longrightarrow> parse_value n s = parse_value m s"
  "2 * length s < n \<Longrightarrow> 2 * length s < m \<Longrightarrow> parse_items n s = parse_items m s"
  "2 * length s < n \<Longrightarrow> 2 * length s < m \<Longrightarrow> parse_members n s = parse_members m s"
proof (induction n s and n s and n s arbitrary: m and m and m rule: parse_value_parse_items_parse_members.induct)
  case (2 n)
  then show ?case by (cases m) auto
next
  case (3 n c s)
  from 3(4) obtain m' where m: "m = Suc m'" by (cases m) auto
  have "parse_members n (d # r) = parse_members m' (d # r)" if "c = 123" "skip_ws s = d # r" "d \<noteq> 125" for d r
    using 3(1) [OF _ that] 3(3,4) that skip_ws_Cons [OF that(2)] m by simp
  moreover have "parse_items n (d # r) = parse_items m' (d # r)" if "c = 91" "skip_ws s = d # r" "d \<noteq> 93" for d r
    using 3(2) [OF _ _ that] 3(3,4) that skip_ws_Cons [OF that(2)] m by simp
  ultimately show ?case by (simp add: m split: list.split option.split)
next
  case (5 n s)
  from 5(4) obtain m' where m: "m = Suc m'" by (cases m) auto
  have a: "parse_value n s = parse_value m' s" using 5(1,3,4) m by simp
  have "parse_items n (skip_ws t) = parse_items m' (skip_ws t)"
    if "parse_value n s = Some (v, r)" "skip_ws r = d # t" "d \<noteq> 93" "d = 44" for v r d t
  proof -
    have "length (skip_ws t) < length s"
      using parsers_consume(1) [OF that(1)] skip_ws_Cons [OF that(2)] skip_ws_length [of t] by linarith
    then show ?thesis using 5(2) [OF that(1) refl that(2-4)] 5(3,4) m by simp
  qed
  then show ?case by (auto simp: m a [symmetric] split: option.split list.split)
next
  case (8 n c s)
  from 8(4) obtain m' where m: "m = Suc m'" by (cases m) auto
  have "parse_value n (skip_ws t) = parse_value m' (skip_ws t)" if "c = 34" "parse_chars s = Some (k, q)" "skip_ws q = d # t" "d = 58" for k q d t
  proof -
    have "length (skip_ws t) < length s" using parse_chars_length [OF that(2)] skip_ws_Cons [OF that(3)] skip_ws_length [of t] by linarith
    then show ?thesis using 8(1) that 8(3,4) m by auto
  qed
  moreover have "parse_members n (skip_ws t2) = parse_members m' (skip_ws t2)"
    if "c = 34" "parse_chars s = Some (k, q)" "skip_ws q = d # t" "d = 58" "parse_value n (skip_ws t) = Some (v, q2)" "skip_ws q2 = e # t2"
      "e \<noteq> 125" "e = 44" for k q d t v q2 e t2
  proof -
    have "length (skip_ws t2) < length s"
      using parse_chars_length [OF that(2)] skip_ws_Cons [OF that(3)] skip_ws_length [of t] skip_ws_Cons [OF that(6)]
        parsers_consume(1) [OF that(5)] skip_ws_length [of t2] by linarith
    then show ?thesis using 8(2) that 8(3,4) m by auto
  qed
  ultimately show ?case by (auto simp: m split: option.split list.split)
qed auto

text \<open>The reader with any larger fuel.\<close>

lemma json_loads_fuel:
  assumes "2 * length s \<le> fuel"
  shows "json_loads s = (case parse_value fuel (skip_ws s) of
     None \<Rightarrow> Inl ValueError | Some (v, r) \<Rightarrow> if skip_ws r = [] then Inr v else Inl ValueError)"
proof -
  have "2 * length (skip_ws s) \<le> fuel" "2 * length (skip_ws s) \<le> 2 * length s + 2" using assms skip_ws_length [of s] by simp_all
  from fuel_enough(1) [OF this] show ?thesis by (simp add: json_loads_def)
qed

end
