(* ===== verification/Spec2Isabelle.thy ===== *)
theory Spec2Isabelle
  imports Desync ScriptProperties Transport_Loop ToyRuns ToyPopulation DeviceRuns Provisioning LoginGate ClockTable_Runs Json_Fuel
begin

text \<open>
  A model of the hybrid ECC authentication library (\<^verbatim>\<open>src/implementation/python/hybrid_ecc_auth\<close>), of
  the measurements of its pseudonym resolution (\<^verbatim>\<open>src/evaluation/resolution\<close>) and of the Python tools of its C port
  (\<^verbatim>\<open>src/implementation/c/tools\<close>), with the theorems that make them correct.

  The program.  A trusted authority enrols devices and servers: it derives a long-term secret from a
  master secret and each identity and tells the parties each other's secrets.  A device authenticates by
  one round trip: message M1 shows a pseudonym, the hash of its secret and an epoch, and a text encrypted
  under a root key that only the pair can derive; the server finds out whose pseudonym it is, checks and
  decrypts, records the epoch and answers with M2; both derive the session key from the root, both
  nonces and the epoch.  The server finds the device by one of five interchangeable strategies, which
  is also where replays are kept out.  Around this core are a log of accepted epochs and failures with a
  block list, JSON messages, a framed transport, key files, and three command-line programs.

  Theories, in the order they build on each other, and the code they model:

    \<^item> \<open>Prelude\<close>: lists, maps and options, the locale \<open>codec\<close> that all encodings instantiate.
      \<open>Errors\<close>: the exceptions (\<^verbatim>\<open>protocol/errors.py\<close> and those of the library) as one datatype; a function
      that may raise returns \<open>exn + 'a\<close>, and a method returns its result and the new state.
    \<^item> \<open>Pybytes\<close>, \<open>Base64\<close>, \<open>Json\<close>, \<open>Json_Roundtrip\<close>: the parts of Python's library the program relies on:
      integers as bytes, UTF-8, base64, \<^verbatim>\<open>json.dumps\<close> and \<^verbatim>\<open>json.loads\<close>.  A string is a list of code points.
    \<^item> \<open>Crypto\<close> (\<^verbatim>\<open>crypto/*.py\<close>): the wrappers over a record \<open>prims\<close> of the primitives that are not under
      \<^verbatim>\<open>src/\<close>.  \<open>TrustedAuthority\<close> (\<^verbatim>\<open>protocol/ta.py\<close>): credentials are mutable and shared, so they live in a
      store and are named by positions.  \<open>Entity\<close> (\<^verbatim>\<open>protocol/entity.py\<close>, \<^verbatim>\<open>rekey.py\<close>): roots and session keys.
    \<^item> \<open>Messages\<close> (\<^verbatim>\<open>protocol/messages.py\<close>), \<open>SessionLog\<close> (\<^verbatim>\<open>storage/session_log.py\<close>), \<open>LoginGate\<close>
      (\<^verbatim>\<open>protocol/login_gate.py\<close>), \<open>KeyStore\<close> (\<^verbatim>\<open>storage/keystore.py\<close>).  \<open>Files\<close>: POSIX paths as \<^verbatim>\<open>pathlib\<close> has
      them, directories and files, and where \<^verbatim>\<open>KeyStore.save\<close> puts a credential.
    \<^item> \<open>Resolver\<close> and the strategies of \<^verbatim>\<open>protocol/resolution.py\<close>: the interface as a record of methods and
      the locales \<open>resolver_contract\<close>, \<open>fresh_resolver\<close> (never an epoch that was accepted), \<open>counter_strategy\<close>
      (exactly the pseudonyms within the forward tolerance) and \<open>nonce_resolver\<close> (no nonce twice);
      \<open>LinearScan\<close> (O1), \<open>CounterTable\<close> (O2), \<open>ClockResolver\<close> (O3 and O4), \<open>TimeMemory\<close> (the rainbow tables), each
      with a theory of what it decides and costs, where the locales are interpreted; \<open>ClockTable_Nonce\<close> for O4, whose table
      keeps entries when a hash raises, and \<open>ClockTable_Runs\<close>, where it stays complete through any history.
    \<^item> \<open>Server\<close>, \<open>Server_Runs\<close> (\<^verbatim>\<open>protocol/server.py\<close>): the handler over any strategy, and histories of a
      server.  \<open>Device\<close>, \<open>DeviceRuns\<close> (\<^verbatim>\<open>protocol/device.py\<close>).  \<open>Handshake\<close>, \<open>Sync\<close>, \<open>ClockRuns\<close>: one run of both,
      and any schedule of runs and losses, abstracted to a counter of the epoch gap.  \<open>Population\<close>: many devices at one
      server with foreign bytes in between, and which of these bytes are harmless; what one step leaves as it was for everyone else.
    \<^item> \<open>Transport\<close>, \<open>Nodes\<close>, \<open>NodeRuns\<close>, \<open>Provisioning\<close> (\<^verbatim>\<open>demo/*.py\<close>): frames over a stream that arrives in
      pieces, the server node's connection handler and accept loop with the texts of its rejections (\<open>node_text\<close>), the device
      node, and enrolment from a manifest to key files under a directory.  \<open>CTools\<close> (\<^verbatim>\<open>gen_config.py\<close>, \<^verbatim>\<open>interop.py\<close>): the generated header, with a reader of it, and
      the thread that serves the C client; the client itself is played by the device.
    \<^item> \<open>Desync\<close> (\<^verbatim>\<open>desync_check.py\<close>), \<open>RfidSchemes\<close> (\<^verbatim>\<open>rfid_schemes.py\<close>), \<open>ResolutionCosts\<close>, \<open>CostBench\<close>, \<open>CostForms\<close>
      (\<^verbatim>\<open>resolution_costs.py\<close>): the locale \<open>cost_bench\<close> turns what one sample costs into a whole measurement.
      \<open>CostTradeoff\<close>: its measurement of the rainbow tables, which have no closed form.  \<open>CostModel\<close>: the checks and
      their summary, the interpolation, the rows for the simulation.  \<open>CostRun\<close>: \<^verbatim>\<open>run\<close> and \<^verbatim>\<open>main\<close>, all of it over a grid.
    \<^item> \<open>Literals\<close> (\<^verbatim>\<open>str.split\<close>, \<^verbatim>\<open>int\<close>, \<^verbatim>\<open>float\<close>, number formats), \<open>Printed\<close> (a reader of printed numbers and of rows of TeX), \<open>Collect\<close> (\<^verbatim>\<open>sim/collect.py\<close>): the
      simulator's files as a table of rows, with a reference reading of a file.  \<open>Figures\<close>, \<open>Figures_Complete\<close>
      (\<^verbatim>\<open>paper/make_figs.py\<close>): the ranked table, its summary and the points of the plots.
    \<^item> \<open>Transport_Loop\<close>: the receiving loop over any socket, a partial function that always ends.
    \<^item> \<open>Toy\<close>, \<open>ToyCosts\<close>, \<open>ToyCostRun\<close>, \<open>ToyRuns\<close>, \<open>ToyPopulation\<close>, \<open>ToyFigures\<close>: small concrete primitives, parties,
      messages and files at which the theorems are instantiated.  \<open>ComponentProperties\<close>, \<open>ScriptProperties\<close> and this theory hold
      the properties.

  The properties.  C1 and C2: both counter strategies agree on keys within the tolerance.  C3 and C4: in a population
  every device follows its own abstract gap, whatever the others do and whatever harmless bytes forgers send.  C5 to C9: an
  accepted message is never accepted again (O1 and O2), acceptance under O1 means authenticity and freshness, epochs
  increase under O2, and a blocked peer stays out.  C10 and C11 (in \<open>Desync\<close>): the two experiments on lost messages and
  restarts, with the bounds at which their outcomes change.  C12 to C15: the nodes agree and
  keep serving, with what can stop them: a nonce of a bad length (C14), a rejection too long for a frame
  (\<open>long_header_stops_server\<close> in \<open>NodeRuns\<close>), and for a single device a few forged messages (C15).  C16 to C18: the clock
  strategies.  C19 and C20: the strategies decide alike.  C21 to C23: the device.  C24 and C25: enrolment, for identities that give
  plain file names; what happens to others is in \<open>Provisioning\<close> (\<open>meeting_paths_lose_credential\<close>, \<open>nul_identity_raises\<close>).  C26 to C32
  (in \<open>ComponentProperties\<close>): encodings, transport, files, log, rainbow tables.  C33 to C35 (in \<open>ScriptProperties\<close>): the
  whole cost script, whose rows are the closed forms up to the sampled positions and which fails by nothing else, and the
  paper's numbers, from the simulator's files to the figures in the columns of the ranked table.  C36 (in \<open>Transport_Loop\<close>): receiving ends.  C37 to C40
  (in \<open>ComponentProperties\<close>): what a finished summary says, the cost model, and the C tools.  Beside them
  \<open>ComponentProperties\<close> has the rows of the single strategies when every device is drawn equally often.

  Assumptions are hypotheses by name.  \<open>sha256_ok\<close>, \<open>hkdf_ok\<close>: output lengths.  \<open>gcm_ok\<close>: what was encrypted
  decrypts.  \<open>gcm_checks_iv\<close>, \<open>gcm_raises\<close>: the documented exceptions.  \<open>urandom_ok\<close>: as many bytes as asked.
  \<open>no_collisions P ps E\<close>: the pseudonyms of the enrolled devices below the horizon \<open>E\<close> differ; the replay theorems
  do without it and name the collision instead.  No secrecy assumption is made and none is proved.
  Operating-system randomness, clock readings, sampled devices, \<^verbatim>\<open>repr\<close> and
  the texts of the library's own exceptions are arguments (\<open>py_texts\<close>); the texts of the program's rejections are
  the code's.

  Bounds.  Epochs are unbounded integers that must fit eight bytes, hence the horizons \<open>E \<le> 256 ^ 8\<close>.  Loops are
  structural or terminate by a measure, without fuel, except the JSON reader, whose fuel is twice the length of
  its input and which more fuel does not change (\<open>Json_Fuel\<close>).  The default chain length, a rounded floating-point cube root in the code, is the nearest integer here; the
  two agree below \<open>10 ^ 9\<close> points.  The depth of the key tree, a rounded logarithm in the code, is computed on
  integers; the two agree below \<open>10 ^ 10\<close> devices.  A clock reading is a rational.

  Floating point: means and deviations are rationals; the standard error, the logarithms and powers of the interpolation
  are reals without rounding; a number read from a file is the rational its digits denote, and a file with \<^verbatim>\<open>nan\<close> or
  \<^verbatim>\<open>inf\<close> is outside the model (\<open>None\<close>).  Deeply nested JSON is read without Python's recursion limit.

  Not modelled: log lines, printed text, latencies, argument parsing (except of the server address), symbolic links, permissions of
  directories and partial writes; \<^verbatim>\<open>load\<close> on key files that are not ASCII or hold fields the program never
  writes (the readers return \<open>None\<close> there); the files the scripts write and the rounding of what is read back from
  them; axes, colours, legends and every other layout of the plots in \<^verbatim>\<open>paper/make_figs.py\<close>; result files that
  are not ASCII; the C library and the simulation model, which are in other languages; timing, constant or not.

  Plan: the outcomes of a whole schedule under the clock strategies would be the next step.
\<close>

section \<open>Agreement\<close>

text \<open>
  C1: with the default strategy (O1, linear scan) a delivered run between a paired device and server
  whose epoch gap is within the forward tolerance succeeds; the key the device computes is the key
  the server computed, namely Eq. 16 over the common root, both nonces and the device's epoch; and
  the two are again in step, with a gap of one.
\<close>

theorem agreement_scan:
  assumes "prims_ok P" "linked linear_good P F E d s" "action_ok (dev_session_timeout d) (Run h)"
    and "1 \<le> epoch_gap d s" "epoch_gap d s \<le> F" "device_next d (cred_identity (ent_credential s)) + F < E"
  shows "\<exists>a n_i n_j d' s'. handshake P linear_scan_ops h (cred_identity (ent_credential s)) d s =
      (Inr (session_key P (pair_root P d s) n_i n_j (device_next d (cred_identity (ent_credential s))), a), d', s') \<and>
    res_session_key a = session_key P (pair_root P d s) n_i n_j (device_next d (cred_identity (ent_credential s))) \<and>
    res_peer_identity a = cred_identity (ent_credential d) \<and> linked linear_good P F E d' s' \<and> epoch_gap d' s' = 1"
  using linear_cs.run_in_window [OF assms] by blast

theorem agreement_scan_witness:
  "\<exists>a d' s' k. handshake toy linear_scan_ops toy_run srv_id toy_device (toy_server new_resolver) = (Inr (k, a), d', s') \<and>
     res_session_key a = k"
  using agreement_scan [OF toy_ok toy_scan_linked toy_ready] by (auto simp del: lit_Cons)

text \<open>C2: the same agreement under strategy O2, the precomputed table, which is again exact afterwards.\<close>

theorem agreement_table:
  assumes "prims_ok P" "linked table_good P F E d s" "action_ok (dev_session_timeout d) (Run h)"
    and "1 \<le> epoch_gap d s" "epoch_gap d s \<le> F" "device_next d (cred_identity (ent_credential s)) + F < E"
  shows "\<exists>a n_i n_j d' s'. handshake P counter_table_ops h (cred_identity (ent_credential s)) d s =
      (Inr (session_key P (pair_root P d s) n_i n_j (device_next d (cred_identity (ent_credential s))), a), d', s') \<and>
    res_session_key a = session_key P (pair_root P d s) n_i n_j (device_next d (cred_identity (ent_credential s))) \<and>
    res_peer_identity a = cred_identity (ent_credential d) \<and> linked table_good P F E d' s' \<and> epoch_gap d' s' = 1"
  using table_cs.run_in_window [OF assms] by blast

theorem agreement_table_witness:
  "\<exists>a d' s' k. handshake toy counter_table_ops toy_run srv_id toy_device (toy_server toy_table) = (Inr (k, a), d', s') \<and>
     res_session_key a = k"
  using agreement_table [OF toy_ok toy_table_linked toy_ready] by (auto simp del: lit_Cons)





text \<open>With a single device and a quiet network, the outcomes of a schedule are those of its gap counter.\<close>

theorem schedule_scan:
  assumes "prims_ok P" "linked linear_good P F E d s" "1 \<le> epoch_gap d s"
    and "\<forall>a \<in> set acts. action_ok (dev_session_timeout d) a"
    and "device_next d (cred_identity (ent_credential s)) + int (length acts) + F < E" "0 \<le> F"
  shows "list_all2 outcome_matches (fst (exec P linear_scan_ops (cred_identity (ent_credential s)) acts d s))
     (gap_run F (epoch_gap d s) acts)"
  by (rule linear_cs.exec_simulates [OF assms])

text \<open>A schedule with a burst of eight losses: the run before it succeeds, the two after it do not.\<close>

definition toy_schedule :: "action list" where
  "toy_schedule = Run toy_run # replicate 8 (Drop toy_device_env) @ [Run toy_run, Run toy_run]"

lemma toy_schedule_ok:
  "\<forall>a \<in> set toy_schedule. action_ok (dev_session_timeout toy_device) a"
  "device_next toy_device (cred_identity (ent_credential (toy_server r))) + int (length toy_schedule) + 8 < 100"
  using toy_action by (simp_all add: toy_schedule_def)

lemma toy_schedule_gap: "gap_run 8 1 toy_schedule = [True, False, False]"
  by (simp add: toy_schedule_def numeral_eq_Suc)

theorem schedule_scan_witness:
  "list_all2 outcome_matches (fst (exec toy linear_scan_ops srv_id toy_schedule toy_device (toy_server new_resolver)))
     [True, False, False]"
  using schedule_scan [OF toy_ok toy_scan_linked toy_ready(2) toy_schedule_ok]
  by (simp add: toy_gap toy_schedule_gap del: lit_Cons)

text \<open>The same simulation under strategy O2.\<close>

theorem schedule_table:
  assumes "prims_ok P" "linked table_good P F E d s" "1 \<le> epoch_gap d s"
    and "\<forall>a \<in> set acts. action_ok (dev_session_timeout d) a"
    and "device_next d (cred_identity (ent_credential s)) + int (length acts) + F < E" "0 \<le> F"
  shows "list_all2 outcome_matches (fst (exec P counter_table_ops (cred_identity (ent_credential s)) acts d s))
     (gap_run F (epoch_gap d s) acts)"
  by (rule table_cs.exec_simulates [OF assms])

theorem schedule_table_witness:
  "list_all2 outcome_matches (fst (exec toy counter_table_ops srv_id toy_schedule toy_device (toy_server toy_table)))
     [True, False, False]"
  using schedule_table [OF toy_ok toy_table_linked toy_ready(2) toy_schedule_ok]
  by (simp add: toy_gap toy_schedule_gap del: lit_Cons)

section \<open>Replay and authentication\<close>

text \<open>
  C5: replay protection under O1.  A server that has accepted a first message rejects that message
  ever after, whatever requests, blocks, cache drops and coverage changes happen in between and
  whatever its clock and randomness do, or else two enrolled pairs of a device and an epoch collide
  under SHA-256.
\<close>

theorem replay_scan:
  assumes "server_wf linear_wf P s" "handle_auth_request P linear_scan_ops env msg s = (Inr a, s1)"
    and "server_reach P linear_scan_ops s1 s2"
  shows "isl (fst (handle_auth_request P linear_scan_ops env' msg s2)) \<or> collision P (srv_peers s)"
proof (cases "handle_auth_request P linear_scan_ops env' msg s2")
  case (Pair r s3)
  show ?thesis
  proof (cases r)
    case (Inl x)
    with Pair show ?thesis by simp
  next
    case (Inr b)
    with linear.replay_is_collision [OF assms, of env' b s3] Pair show ?thesis by simp
  qed
qed

theorem replay_scan_witness:
  "\<exists>a s1. handle_auth_request toy linear_scan_ops toy_server_env toy_msg (toy_server new_resolver) = (Inr a, s1) \<and>
     (isl (fst (handle_auth_request toy linear_scan_ops toy_server_env toy_msg s1)) \<or> collision toy [(dev_id, 5)])"
proof -
  obtain a s1 where h: "handle_auth_request toy linear_scan_ops toy_server_env toy_msg (toy_server new_resolver) = (Inr a, s1)"
    using toy_accepts [OF toy_scan_run] by blast
  from replay_scan [OF toy_scan_wf h reach_start, of toy_server_env] h show ?thesis by simp
qed

text \<open>C6: the same replay protection under O2.\<close>

theorem replay_table:
  assumes "server_wf counter_wf P s" "handle_auth_request P counter_table_ops env msg s = (Inr a, s1)"
    and "server_reach P counter_table_ops s1 s2"
  shows "isl (fst (handle_auth_request P counter_table_ops env' msg s2)) \<or> collision P (srv_peers s)"
proof (cases "handle_auth_request P counter_table_ops env' msg s2")
  case (Pair r s3)
  show ?thesis
  proof (cases r)
    case (Inl x)
    with Pair show ?thesis by simp
  next
    case (Inr b)
    with counter.replay_is_collision [OF assms, of env' b s3] Pair show ?thesis by simp
  qed
qed

theorem replay_table_witness:
  "\<exists>a s1. handle_auth_request toy counter_table_ops toy_server_env toy_msg (toy_server toy_table) = (Inr a, s1) \<and>
     (isl (fst (handle_auth_request toy counter_table_ops toy_server_env toy_msg s1)) \<or> collision toy [(dev_id, 5)])"
proof -
  obtain a s1 where h: "handle_auth_request toy counter_table_ops toy_server_env toy_msg (toy_server toy_table) = (Inr a, s1)"
    using toy_accepts [OF toy_table_run] by blast
  from replay_table [OF toy_table_wf h reach_start, of toy_server_env] h show ?thesis by simp
qed





text \<open>
  C9: a blocked peer stays out.  Once a peer is blocked no later request, in no reachable state, is
  accepted in its name.
\<close>

theorem blocked_stays_out:
  assumes "server_wf linear_wf P s" "is_blocked (srv_log s) p" "server_reach P linear_scan_ops s s'"
    and "handle_auth_request P linear_scan_ops env msg s' = (Inr a, s'')"
  shows "res_peer_identity a \<noteq> p"
  by (rule linear.blocked_for_good [OF assms])

theorem blocked_stays_out_witness:
  "\<exists>msg a s1. handle_auth_request toy linear_scan_ops toy_server_env msg toy_blocked = (Inr a, s1) \<and>
     res_peer_identity a \<noteq> stranger"
proof -
  obtain msg a s1 where h: "handle_auth_request toy linear_scan_ops toy_server_env msg toy_blocked = (Inr a, s1)"
    using toy_blocked_accepts(3) by blast
  from blocked_stays_out [OF toy_blocked_accepts(2,1) reach_start h] h show ?thesis by blast
qed

section \<open>Nodes\<close>

text \<open>
  C12: the two demo processes agree.  A freshly started device node that loads the key file saved for it and
  authenticates, at the address given as host and port, against a server node holding the matching credential,
  with the epochs in step and any fragmentation of the stream in both directions, reports success with the
  fingerprint of the key that the server computed.
\<close>

theorem nodes_agree:
  assumes "prims_ok P" "linked linear_good P F E d s" "action_ok (dev_session_timeout d) (Run h)"
    and "1 \<le> epoch_gap d s" "epoch_gap d s \<le> F" "device_next d (cred_identity (ent_credential s)) + F < E"
    and "cred_role cred = lit ''device''"
      "new_device cred None DEFAULT_NONCE_BITS DEFAULT_SESSION_TIMEOUT_SECONDS 3 False = Inr d"
    and "length (cred_identity (ent_credential s)) \<le> 1000"
    and "cred_storable cred" "keystore_save cred old = Inr file" "host \<noteq> []" "port < 10 ^ 4300"
    and "network (host, int port) = server_network P linear_scan_ops (he_server h) str_of s sizes sizes'"
  shows "\<exists>a key n_i n_j d' s' msg. handshake P linear_scan_ops h (cred_identity (ent_credential s)) d s = (Inr (key, a), d', s') \<and>
    key = session_key P (pair_root P d s) n_i n_j (device_next d (cred_identity (ent_credential s))) \<and> res_session_key a = key \<and>
    cmd_authenticate P (Some file) (host @ 58 # nat_digits port) (cred_identity (ent_credential s)) False last_msg
      (he_build h) (he_complete h) network =
    Some (Inr (Succeeded (take 16 (hex (p_sha256 P key)))), Some msg)"
proof -
  from linear_cs.run_in_window [OF assms(1-6)] obtain a n_i n_j d' s' where
    run: "handshake P linear_scan_ops h (cred_identity (ent_credential s)) d s =
      (Inr (session_key P (pair_root P d s) n_i n_j (device_next d (cred_identity (ent_credential s))), a), d', s')"
    "res_session_key a = session_key P (pair_root P d s) n_i n_j (device_next d (cred_identity (ent_credential s)))" by blast
  have wf: "server_wf linear_wf P s" "device_wf P d" "valid_str (cred_identity (ent_credential s))"
    using assms(2) linear_cs.good_wf by (auto simp: linked_def server_wf_def paired_def)
  have P: "sha256_ok P" "gcm_ok P" using assms(1) by (simp_all add: prims_ok_def)
  have env: "urandom_ok (env_dev_nonce (he_build h))" "urandom_ok (env_dev_gcm (he_build h))"
    "urandom_ok (env_nonce (he_server h))" "urandom_ok (env_gcm (he_server h))" using assms(3) by simp_all
  have "length (nat_digits port) \<le> 4300" by (rule nat_digits_length [OF assms(13)]) simp
  from parse_addr_of [OF assms(12) this] keystore_roundtrip [OF assms(10), of old] assms(11)
  have cmd: "cmd_authenticate P (Some file) (host @ 58 # nat_digits port) sid False last_msg (he_build h) (he_complete h) network =
      Some (authenticate_once P cred (Inr (host, int port)) sid False last_msg (he_build h) (he_complete h) network)" for sid
    by (auto simp: cmd_authenticate_def)
  from nodes_once [where network = network and addr = "(host, int port)", OF P wf(1,2) assms(7,8) run(1) env wf(3) assms(9,14)] run cmd show ?thesis by fastforce
qed

theorem nodes_agree_witness:
  "\<exists>file k msg. keystore_save dev_cred None = Inr file \<and>
     cmd_authenticate toy (Some file) (lit ''localhost:8443'') srv_id False None toy_device_env toy_device_env
      (\<lambda>addr. server_network toy linear_scan_ops toy_server_env (\<lambda>_ _. []) (toy_server new_resolver) [1, 2] [3]) =
    Some (Inr (Succeeded (take 16 (hex (p_sha256 toy k)))), Some msg)"
proof -
  have c: "cred_role dev_cred = lit ''device''" "length srv_id \<le> 1000" by (simp_all add: dev_cred_def)
  have d: "new_device dev_cred None DEFAULT_NONCE_BITS DEFAULT_SESSION_TIMEOUT_SECONDS 3 False = Inr toy_device"
    by (simp add: new_device_def toy_device_def dev_cred_def DEFAULT_NONCE_BITS_def DEFAULT_SESSION_TIMEOUT_SECONDS_def
        coverage_or_default_def DEFAULT_FORWARD_TOLERANCE_def DEFAULT_REPLAY_LOOKBACK_def)
  have h: "he_build toy_run = toy_device_env" "he_complete toy_run = toy_device_env" "he_server toy_run = toy_server_env"
    by (simp_all add: toy_run_def)
  have st: "cred_storable dev_cred" by (simp add: cred_storable_def dev_cred_def valid_str_def lit_def nat_digits.simps)
  from keystore_roundtrip [OF st, of None] obtain f where f: "keystore_save dev_cred None = Inr f" by blast
  have addr: "lit ''localhost:8443'' = lit ''localhost'' @ 58 # nat_digits 8443" by (simp add: lit_def nat_digits.simps)
  have p: "lit ''localhost'' \<noteq> []" "(8443 :: nat) < 10 ^ 4300"
    by (simp add: lit_def, rule less_le_trans [of _ "10 ^ 4"], simp, rule power_increasing) simp_all
  let ?net = "\<lambda>addr :: pystr \<times> int. server_network toy linear_scan_ops toy_server_env (\<lambda>_ _. []) (toy_server new_resolver) [1, 2] [3]"
  from nodes_agree [OF toy_ok toy_scan_linked toy_ready c(1) d _ st f p, of ?net "\<lambda>_ _. []" "[1, 2]" "[3]" None] c(2)
  show ?thesis unfolding toy_names h addr using f by blast
qed




text \<open>
  C14: one message stops the server node.  A request that shows a fresh pseudonym of an unblocked peer
  and carries a nonce of a length the cipher refuses raises \<^verbatim>\<open>ValueError\<close>, which neither the request
  handler nor the node catches: the accept loop ends and no later connection is served.
\<close>

theorem bad_nonce_stops_server:
  assumes "hkdf_ok P" "gcm_checks_iv P" "scan_ready P n s"
    and "recv_frame (conn_socket conn) = (Inr msg, sock)" "message1_from_bytes msg = Inr m"
    and "\<not> (8 \<le> length (m1_gcm_nonce m) \<and> length (m1_gcm_nonce m) \<le> 128)"
    and "linear_resolve P (env_now_resolve env) (srv_peers s) (srv_log s) (m1_pid m) (srv_resolver s) = (Inr (p, e), r')"
    and "\<not> is_blocked (srv_log s) p" "coverage_ok s p"
  shows "\<exists>s'. serve P linear_scan_ops str_of ((env, conn) # cs) s = (Inl ValueError, s', []) \<and> srv_log s' = srv_log s"
proof -
  from bad_nonce_escapes [OF assms(1-3,5-9)] obtain s' where
    "handle_auth_request P linear_scan_ops env msg s = (Inl ValueError, s')" "srv_log s' = srv_log s" by blast
  with assms(4) show ?thesis by (simp add: handle_connection_def is_authentication_error_def)
qed

theorem bad_nonce_stops_server_witness:
  "\<exists>s'. serve toy linear_scan_ops (\<lambda>_ _. []) [(toy_server_env, toy_connection [1]), (toy_server_env, toy_connection [])] (toy_server new_resolver) =
     (Inl ValueError, s', [])"
proof -
  obtain sock where r: "recv_frame (conn_socket (toy_connection [1])) = (Inr (toy_wire [1]), sock)"
    using toy_connection_frame [of "[1]"] by auto
  have m: "\<not> (8 \<le> length (m1_gcm_nonce (toy_message1 [1])) \<and> length (m1_gcm_nonce (toy_message1 [1])) \<le> 128)"
    "m1_pid (toy_message1 [1]) = pseudonym toy 5 0" by (simp_all add: toy_message1_def)
  have s: "srv_resolver (toy_server new_resolver) = new_resolver" "\<not> is_blocked (srv_log (toy_server new_resolver)) dev_id"
    "coverage_ok (toy_server new_resolver) dev_id"
    by (simp_all add: toy_server_def is_blocked_def new_session_log_def coverage_ok_def)
  obtain r' where "linear_resolve toy (env_now_resolve toy_server_env) (srv_peers (toy_server new_resolver))
      (srv_log (toy_server new_resolver)) (m1_pid (toy_message1 [1])) (srv_resolver (toy_server new_resolver)) = (Inr (dev_id, 0), r')"
    using toy_scan_resolves unfolding m(2) s(1) by blast
  from bad_nonce_stops_server [OF toy_hkdf_ok toy_checks_iv toy_scan_ready [OF le0] r toy_wire_back m(1) this s(2,3)]
  show ?thesis by blast
qed

text \<open>A flood of failures blocks a peer whatever the log held before.\<close>

lemma streak_flood: "n \<le> streak p (evs @ replicate n (Fail p))"
proof (induction n)
  case (Suc n)
  have "evs @ replicate (Suc n) (Fail p) = (evs @ replicate n (Fail p)) @ [Fail p]"
    by (simp add: replicate_append_same [symmetric])
  with Suc show ?case by (simp only: streak_simps) simp
qed simp

lemma flood_blocks_any:
  assumes "1 \<le> m" "m \<le> int n"
  shows "p \<in> blocked (log_run (new_session_log m f l) (evs @ replicate n (Fail p)))"
proof -
  let ?evs = "evs @ replicate n (Fail p)" and ?k = "length evs + (nat m - 1)"
  have k: "Suc ?k = length evs + nat m" "nat m \<le> n" "0 < nat m" using assms by linarith+
  have "take (Suc ?k) ?evs = evs @ replicate (nat m) (Fail p)" unfolding k(1) using k(2) by simp
  then have "m \<le> int (streak p (take (Suc ?k) ?evs))" using streak_flood [of "nat m" p evs] by simp
  moreover have "?k < length ?evs" using k by simp
  moreover have "?evs ! ?k = replicate n (Fail p) ! (nat m - 1)" by (rule nth_append_length_plus)
  then have "?evs ! ?k = Fail p" using k by simp
  ultimately have "history_blocks m p ?evs" unfolding history_blocks_def by blast
  then show ?thesis by (simp add: log_run_blocked)
qed

text \<open>
  C15: anyone who has seen a lost first message of a device can have the device locked out.  As many
  messages with its fresh pseudonym as the server tolerates failures, each of which fails to open,
  put the device on the block list whatever the server's log held before, and no message is accepted
  in its name in any later state.
\<close>

theorem flood_locks_out:
  assumes "scan_open P F E p s" "\<forall>(env, msg) \<in> set es. garbage P s p msg"
    and "srv_log s = log_run (new_session_log m f l) evs" "1 \<le> m" "m \<le> int (length es)"
  shows "is_blocked (srv_log (requests P linear_scan_ops es s)) p \<and>
    (\<forall>s' \<in> {s'. server_reach P linear_scan_ops (requests P linear_scan_ops es s) s'}. \<forall>env msg.
       fst (handle_auth_request P linear_scan_ops env msg s') \<notin> Inr ` {a. res_peer_identity a = p})"
proof -
  let ?s = "requests P linear_scan_ops es s"
  note flood = garbage_flood [OF assms(1,2)]
  have "srv_log ?s = log_run (new_session_log m f l) (evs @ replicate (length es) (Fail p))"
    unfolding flood(1) assms(3) by (simp add: log_run_def map_replicate_const)
  then have b: "is_blocked (srv_log ?s) p" using flood_blocks_any [OF assms(4,5)] by (simp add: is_blocked_def)
  have wf: "server_wf linear_wf P ?s"
    using flood(2) linear_cs.good_wf by (auto simp: scan_open_def server_wf_def)
  have "fst (handle_auth_request P linear_scan_ops env msg s') \<notin> Inr ` {a. res_peer_identity a = p}"
    if "server_reach P linear_scan_ops ?s s'" for s' env msg
  proof (cases "handle_auth_request P linear_scan_ops env msg s'")
    case (Pair r s'')
    then show ?thesis using linear.blocked_for_good [OF wf b that, of env msg _ s''] by auto
  qed
  with b show ?thesis by blast
qed

theorem flood_locks_out_witness:
  "is_blocked (srv_log (requests toy linear_scan_ops (replicate 3 (toy_server_env, toy_wire (zeros 12))) (toy_server new_resolver))) dev_id"
proof -
  have g: "\<forall>(env, msg) \<in> set (replicate 3 (toy_server_env, toy_wire (zeros 12))). garbage toy (toy_server new_resolver) dev_id msg"
    using toy_garbage by simp
  have l: "srv_log (toy_server new_resolver) = log_run (new_session_log 3 8 16) []" by (simp add: toy_server_def log_run_def)
  from flood_locks_out [OF toy_open g l] show ?thesis by simp
qed

section \<open>Epochs from the clock\<close>

text \<open>
  Agreement under strategy O3, with the horizon explicit.  If the device's clock epoch lies in the server's window and its
  nonce was not used in that epoch, the run succeeds, both sides hold the key of Eq. 16 for that epoch,
  and the server remembers the nonce.
\<close>

theorem agreement_clock_scan:
  assumes "prims_ok P" "env_ok h d" "paired (ent_credential d) (ent_credential s)" "willing d s" "device_wf P d" "cache_ok P s"
    and "no_collisions P (srv_peers s) E" "E \<le> 256 ^ 8" "valid_peers (srv_peers s)"
    and "clock_window (env_now_resolve (he_server h)) (srv_resolver s) = Inr W" "set W \<subseteq> {0 ..< E}"
    and "device_epoch (he_build h) d (cred_identity (ent_credential s)) \<in> set W"
    and "current_epoch (env_now_accept (he_server h)) (srv_resolver s) = Inr cur" "valid_str (cred_identity (ent_credential d))"
    and "\<forall>n. generate_nonce (env_dev_nonce (he_build h)) (dev_nonce_bits d) = Inr n \<longrightarrow>
      \<not> ck_remembers (cred_identity (ent_credential d)) (device_epoch (he_build h) d (cred_identity (ent_credential s))) n (srv_resolver s)"
  shows "\<exists>a n_i n_j d' s'. handshake P clock_scan_ops h (cred_identity (ent_credential s)) d s =
      (Inr (session_key P (pair_root P d s) n_i n_j (device_epoch (he_build h) d (cred_identity (ent_credential s))), a), d', s') \<and>
    res_session_key a = session_key P (pair_root P d s) n_i n_j (device_epoch (he_build h) d (cred_identity (ent_credential s))) \<and>
    res_peer_identity a = cred_identity (ent_credential d) \<and>
    ck_remembers (cred_identity (ent_credential d)) (device_epoch (he_build h) d (cred_identity (ent_credential s))) n_i (srv_resolver s')"
proof -
  let ?e = "device_epoch (he_build h) d (cred_identity (ent_credential s))"
  have "valid_epoch ?e" using assms(8,11,12) by (auto simp: valid_epoch_def)
  moreover obtain r1 where "ro_resolve clock_scan_ops P (env_now_resolve (he_server h)) (srv_peers s) (srv_log s)
      (pseudonym P (cred_lam (ent_credential d)) ?e) (srv_resolver s) = (Inr (cred_identity (ent_credential d), ?e), r1)"
    "same_clock (srv_resolver s) r1"
    using scan_finds [OF assms(7-11) paired_peer [OF assms(3)] assms(12)] by blast
  moreover have "ro_accept clock_scan_ops = clock_accept" by (simp add: clock_scan_ops_def)
  ultimately show ?thesis using clock_handshake [OF assms(1-6) refl _ _ _ _ assms(13,14)] assms(15) by blast
qed

theorem agreement_clock_scan_witness:
  "\<exists>a k d' s'. handshake toy clock_scan_ops toy_run srv_id toy_clock_device (toy_server (new_clock_resolver 60 1)) = (Inr (k, a), d', s') \<and>
     res_session_key a = k"
proof -
  let ?s = "toy_server (new_clock_resolver 60 1)"
  have s: "srv_resolver ?s = new_clock_resolver 60 1" by (simp add: toy_server_def)
  have now: "env_now_resolve (he_server toy_run) = 0" "env_now_accept (he_server toy_run) = 0" by (simp_all add: toy_run_def toy_server_env_def)
  have e: "no_collisions toy (srv_peers ?s) 100" "(100 :: int) \<le> 256 ^ 8" "valid_peers (srv_peers ?s)"
    using toy_no_collisions [of 100] toy_valid_peers by simp_all
  have w: "clock_window (env_now_resolve (he_server toy_run)) (srv_resolver ?s) = Inr [0, 1]" "set [0, 1] \<subseteq> {0 ..< 100 :: int}"
    "current_epoch (env_now_accept (he_server toy_run)) (srv_resolver ?s) = Inr 0" using toy_window by (simp_all add: s now)
  have d: "device_epoch (he_build toy_run) toy_clock_device (cred_identity (ent_credential ?s)) \<in> set [0, 1]"
    by (simp add: toy_clock_pair(6))
  have i: "valid_str (cred_identity (ent_credential toy_clock_device))" by (simp add: dev_cred_def valid_str_def lit_def)
  from agreement_clock_scan [OF toy_ok toy_clock_pair(1-5) e w(1,2) d w(3) i] show ?thesis
    unfolding s toy_names using toy_unseen by blast
qed

text \<open>The same agreement under strategy O4 for an exact table, which is brought up to date first.\<close>

theorem agreement_clock_table:
  assumes "prims_ok P" "env_ok h d" "paired (ent_credential d) (ent_credential s)" "willing d s" "device_wf P d" "cache_ok P s"
    and "no_collisions P (srv_peers s) E" "E \<le> 256 ^ 8" "valid_peers (srv_peers s)"
    and "holds P (srv_peers s) (set (ckt_tabled (srv_resolver s))) (srv_resolver s)" "set (ckt_tabled (srv_resolver s)) \<subseteq> {0 ..< E}"
    and "clock_window (env_now_resolve (he_server h)) (srv_resolver s) = Inr W" "set W \<subseteq> {0 ..< E}"
    and "device_epoch (he_build h) d (cred_identity (ent_credential s)) \<in> set W"
    and "current_epoch (env_now_accept (he_server h)) (srv_resolver s) = Inr cur" "valid_str (cred_identity (ent_credential d))"
    and "\<forall>n. generate_nonce (env_dev_nonce (he_build h)) (dev_nonce_bits d) = Inr n \<longrightarrow>
      \<not> ck_remembers (cred_identity (ent_credential d)) (device_epoch (he_build h) d (cred_identity (ent_credential s))) n (srv_resolver s)"
  shows "\<exists>a n_i n_j d' s'. handshake P clock_table_ops h (cred_identity (ent_credential s)) d s =
      (Inr (session_key P (pair_root P d s) n_i n_j (device_epoch (he_build h) d (cred_identity (ent_credential s))), a), d', s') \<and>
    res_session_key a = session_key P (pair_root P d s) n_i n_j (device_epoch (he_build h) d (cred_identity (ent_credential s))) \<and>
    res_peer_identity a = cred_identity (ent_credential d) \<and>
    ck_remembers (cred_identity (ent_credential d)) (device_epoch (he_build h) d (cred_identity (ent_credential s))) n_i (srv_resolver s')"
proof -
  let ?e = "device_epoch (he_build h) d (cred_identity (ent_credential s))"
  have "valid_epoch ?e" using assms(8,13,14) by (auto simp: valid_epoch_def)
  moreover obtain r1 where "ro_resolve clock_table_ops P (env_now_resolve (he_server h)) (srv_peers s) (srv_log s)
      (pseudonym P (cred_lam (ent_credential d)) ?e) (srv_resolver s) = (Inr (cred_identity (ent_credential d), ?e), r1)"
    "same_clock (srv_resolver s) r1"
    using table_finds [OF assms(7-13) paired_peer [OF assms(3)] assms(14)] by blast
  moreover have "ro_accept clock_table_ops = clock_accept" by (simp add: clock_table_ops_def)
  ultimately show ?thesis using clock_handshake [OF assms(1-6) refl _ _ _ _ assms(15,16)] assms(17) by blast
qed

theorem agreement_clock_table_witness:
  "\<exists>a k d' s'. handshake toy clock_table_ops toy_run srv_id toy_clock_device (toy_server (new_clock_table 60 1)) = (Inr (k, a), d', s') \<and>
     res_session_key a = k"
proof -
  let ?s = "toy_server (new_clock_table 60 1)"
  have s: "srv_resolver ?s = new_clock_table 60 1" by (simp add: toy_server_def)
  have now: "env_now_resolve (he_server toy_run) = 0" "env_now_accept (he_server toy_run) = 0" by (simp_all add: toy_run_def toy_server_env_def)
  have e: "no_collisions toy (srv_peers ?s) 100" "(100 :: int) \<le> 256 ^ 8" "valid_peers (srv_peers ?s)"
    using toy_no_collisions [of 100] toy_valid_peers by simp_all
  have h: "holds toy (srv_peers ?s) (set (ckt_tabled (srv_resolver ?s))) (srv_resolver ?s)" "set (ckt_tabled (srv_resolver ?s)) \<subseteq> {0 ..< 100}"
    using toy_empty_table by (simp_all add: s)
  have w: "clock_window (env_now_resolve (he_server toy_run)) (srv_resolver ?s) = Inr [0, 1]" "set [0, 1] \<subseteq> {0 ..< 100 :: int}"
    "current_epoch (env_now_accept (he_server toy_run)) (srv_resolver ?s) = Inr 0" using toy_window by (simp_all add: s now)
  have d: "device_epoch (he_build toy_run) toy_clock_device (cred_identity (ent_credential ?s)) \<in> set [0, 1]"
    by (simp add: toy_clock_pair(6))
  have i: "valid_str (cred_identity (ent_credential toy_clock_device))" by (simp add: dev_cred_def valid_str_def lit_def)
  from agreement_clock_table [OF toy_ok toy_clock_pair(1-5) e h w(1,2) d w(3) i] show ?thesis
    unfolding s toy_names using toy_unseen by blast
qed

text \<open>
  C16: agreement under the clock strategies.  If the device's clock epoch lies in the server's window and
  its nonce was not used in that epoch, the run succeeds, both sides hold the key of Eq. 16 for that epoch,
  and the server remembers the nonce: with O3 in every state, with O4 in every state reached since the table
  was attached, whatever requests came, at whatever readings of the clock, and whichever of them raised
  while the table was filled.
\<close>

theorem agreement_clock:
  assumes "prims_ok P"
  shows "(cache_ok P s \<and> clock_ready P E h d s \<longrightarrow> clock_agrees P clock_scan_ops h d s) \<and>
    (cache_ok P t0 \<and> clock_table_attach P now (srv_peers t0) (srv_log t0) r0 = (Inr (), srv_resolver t0) \<and>
        server_reach P clock_table_ops t0 t \<and> clock_ready P (256 ^ 8) h d t \<longrightarrow>
      clock_agrees P clock_table_ops h d t)"
proof (intro conjI impI)
  assume "cache_ok P s \<and> clock_ready P E h d s"
  then show "clock_agrees P clock_scan_ops h d s" by (intro clock_agrees_scan [OF assms, of s E]) simp_all
next
  assume a: "cache_ok P t0 \<and> clock_table_attach P now (srv_peers t0) (srv_log t0) r0 = (Inr (), srv_resolver t0) \<and>
    server_reach P clock_table_ops t0 t \<and> clock_ready P (256 ^ 8) h d t"
  have same: "srv_peers t = srv_peers t0" using a server_reach_credential [of P clock_table_ops t0 t] by (simp add: srv_peers_def)
  from a have nc: "no_collisions P (srv_peers t0) (256 ^ 8)" "distinct (map fst (srv_peers t0))"
    by (simp_all add: clock_ready_def same valid_peers_def)
  from a have "table_serves P t" using reach_serves [OF _ nc(1) attach_serves [OF nc]] by blast
  with a show "clock_agrees P clock_table_ops h d t" by (intro clock_agrees_table [OF assms]) simp_all
qed

theorem agreement_clock_witness:
  "clock_agrees toy clock_scan_ops toy_run toy_clock_device (toy_server (new_clock_resolver 60 1)) \<and>
   (\<exists>r. clock_table_attach toy 0 [(dev_id, 5)] (new_session_log 3 8 16) (new_clock_table 60 1) = (Inr (), r) \<and>
      clock_agrees toy clock_table_ops toy_run toy_clock_device (toy_server r))"
proof -
  have ready: "clock_ready toy (256 ^ 8) toy_run toy_clock_device (toy_server r)"
    if "clock_window 0 r = Inr [0, 1]" "current_epoch 0 r = Inr 0" "\<And>p e n. \<not> ck_remembers p e n r" for r :: "'a clock_resolver_scheme"
    unfolding clock_ready_def using that toy_clock_pair toy_no_collisions [of "256 ^ 8" dev_id 5] toy_valid_peers
    by (auto simp: toy_run_def toy_server_env_def toy_server_def dev_cred_def srv_cred_def valid_str_def lit_def srv_peers_def)
  let ?r0 = "new_clock_table 60 1"
  have "no_collisions toy [(dev_id, 5)] (256 ^ 8)" "valid_peers [(dev_id, 5)]" "set (ckt_tabled ?r0) \<subseteq> {0 ..< 256 ^ 8}"
    "set [0, 1] \<subseteq> {0 ..< 256 ^ 8 :: int}" using toy_no_collisions toy_valid_peers toy_empty_table(2) by simp_all
  from clock_advance_exact [OF this(1) order_refl this(2) toy_empty_table(1) this(3) toy_window(2) this(4)] obtain r where
    a: "clock_advance toy 0 [(dev_id, 5)] ?r0 = (Inr (), r)" by blast
  have "?r0\<lparr>ckt_table := [], ckt_tabled := []\<rparr> = ?r0" by (simp add: new_clock_table_def)
  with a have at: "clock_table_attach toy 0 [(dev_id, 5)] (new_session_log 3 8 16) ?r0 = (Inr (), r)" by (simp add: clock_table_attach_def)
  have same: "same_clock ?r0 r" using clock_advance_clock [of ?r0 toy 0 "[(dev_id, 5)]"] a by simp
  then have "clock_window 0 r = Inr [0, 1]" "current_epoch 0 r = Inr 0" "\<And>p e n. \<not> ck_remembers p e n r"
    using toy_window(2,4) toy_unseen(2) same_clockD [OF same] by (simp_all add: clock_window_def current_epoch_def same_clock_def new_clock_table_def)
  from ready [OF this] have t: "cache_ok toy (toy_server r) \<and>
      clock_table_attach toy 0 (srv_peers (toy_server r)) (srv_log (toy_server r)) ?r0 = (Inr (), srv_resolver (toy_server r)) \<and>
      server_reach toy clock_table_ops (toy_server r) (toy_server r) \<and> clock_ready toy (256 ^ 8) toy_run toy_clock_device (toy_server r)"
    using at by (simp add: cache_ok_def toy_server_def srv_peers_def srv_cred_def reach_start)
  have s: "cache_ok toy (toy_server (new_clock_resolver 60 1)) \<and>
      clock_ready toy (256 ^ 8) toy_run toy_clock_device (toy_server (new_clock_resolver 60 1))"
    using ready [OF toy_window(1,3) toy_unseen(1)] by (simp add: cache_ok_def toy_server_def)
  show ?thesis using agreement_clock [OF toy_ok] s t at by blast
qed

text \<open>
  C17: replay protection under the clock strategies.  A message that was accepted is rejected by every
  request that sees the same clock reading for the window and for the nonce cache, in any state reached by
  requests not later than that reading, or else two enrolled pairs of a device and an epoch collide under
  SHA-256; for O3, and for O4 whatever calls of \<^verbatim>\<open>_advance\<close> raised half-way before.
\<close>

theorem nonce_replay_clock:
  assumes "env_now_resolve env' = T" "env_now_accept env' = T"
  shows "(server_wf clock_scan_wf P s \<and> ck_steady (srv_resolver s) \<and> handle_auth_request P clock_scan_ops env msg s = (Inr a, s1) \<and>
        server_until P clock_scan_ops T s1 s2 \<longrightarrow>
      fst (handle_auth_request P clock_scan_ops env' msg s2) \<in> range Inl \<or> collision P (srv_peers s)) \<and>
    (server_wf clock_nonce_wf P t \<and> ck_steady (srv_resolver t) \<and> handle_auth_request P clock_table_ops env msg t = (Inr b, t1) \<and>
        server_until P clock_table_ops T t1 t2 \<longrightarrow>
      fst (handle_auth_request P clock_table_ops env' msg t2) \<in> range Inl \<or> collision P (srv_peers t))"
proof (intro conjI impI)
  assume h: "server_wf clock_scan_wf P s \<and> ck_steady (srv_resolver s) \<and> handle_auth_request P clock_scan_ops env msg s = (Inr a, s1) \<and>
    server_until P clock_scan_ops T s1 s2"
  obtain r s3 where "handle_auth_request P clock_scan_ops env' msg s2 = (r, s3)" by (cases "handle_auth_request P clock_scan_ops env' msg s2")
  with h assms clock_scan_nonce.nonce_replay_is_collision [of P s env msg a s1 T s2 env' _ s3]
  show "fst (handle_auth_request P clock_scan_ops env' msg s2) \<in> range Inl \<or> collision P (srv_peers s)" by (cases r) auto
next
  assume h: "server_wf clock_nonce_wf P t \<and> ck_steady (srv_resolver t) \<and> handle_auth_request P clock_table_ops env msg t = (Inr b, t1) \<and>
    server_until P clock_table_ops T t1 t2"
  obtain r t3 where "handle_auth_request P clock_table_ops env' msg t2 = (r, t3)" by (cases "handle_auth_request P clock_table_ops env' msg t2")
  with h assms clock_table_nonce.nonce_replay_is_collision [of P t env msg b t1 T t2 env' _ t3]
  show "fst (handle_auth_request P clock_table_ops env' msg t2) \<in> range Inl \<or> collision P (srv_peers t)" by (cases r) auto
qed

theorem nonce_replay_clock_witness:
  "(\<exists>msg a s1. handle_auth_request toy clock_scan_ops toy_server_env msg (toy_server (new_clock_resolver 60 1)) = (Inr a, s1) \<and>
      (fst (handle_auth_request toy clock_scan_ops toy_server_env msg s1) \<in> range Inl \<or> collision toy [(dev_id, 5)])) \<and>
   (\<exists>msg a s1. handle_auth_request toy clock_table_ops toy_server_env msg (toy_server (new_clock_table 60 1)) = (Inr a, s1) \<and>
      (fst (handle_auth_request toy clock_table_ops toy_server_env msg s1) \<in> range Inl \<or> collision toy [(dev_id, 5)]))"
proof -
  have w: "server_wf clock_scan_wf toy (toy_server (new_clock_resolver 60 1))" "ck_steady (srv_resolver (toy_server (new_clock_resolver 60 1)))"
    by (simp_all add: server_wf_def clock_scan_wf_def cache_ok_def toy_server_def srv_peers_def srv_cred_def ck_steady_def new_clock_resolver_def)
  have v: "server_wf clock_nonce_wf toy (toy_server (new_clock_table 60 1))" "ck_steady (srv_resolver (toy_server (new_clock_table 60 1)))"
    by (simp_all add: server_wf_def clock_nonce_wf_def clock_table_wf_def table_fresh_def entry_epochs_def cache_ok_def toy_server_def
        srv_peers_def srv_cred_def ck_steady_def new_clock_table_def)
  have "env_now_resolve toy_server_env = 0" "env_now_accept toy_server_env = 0" by (simp_all add: toy_server_env_def)
  note r = nonce_replay_clock [OF this]
  have p: "srv_peers (toy_server r) = [(dev_id, 5)]" for r :: "'a clock_resolver_scheme"
    by (simp add: srv_peers_def toy_server_def srv_cred_def)
  obtain m a s1 where h: "handle_auth_request toy clock_scan_ops toy_server_env m (toy_server (new_clock_resolver 60 1)) = (Inr a, s1)"
    using toy_clock_accepts(1) by blast
  from r [THEN conjunct1, rule_format, OF conjI [OF w(1) conjI [OF w(2) conjI [OF h until_start]]]]
  have first: "fst (handle_auth_request toy clock_scan_ops toy_server_env m s1) \<in> range Inl \<or> collision toy [(dev_id, 5)]"
    by (simp only: p)
  obtain m' b t1 where k: "handle_auth_request toy clock_table_ops toy_server_env m' (toy_server (new_clock_table 60 1)) = (Inr b, t1)"
    using toy_clock_accepts(2) by blast
  from r [THEN conjunct2, rule_format, OF conjI [OF v(1) conjI [OF v(2) conjI [OF k until_start]]]]
  have "fst (handle_auth_request toy clock_table_ops toy_server_env m' t1) \<in> range Inl \<or> collision toy [(dev_id, 5)]"
    by (simp only: p)
  with first h k show ?thesis by blast
qed

text \<open>
  C18: why the two readings must agree.  A remembered nonce is detected as long as its epoch is in the
  window the cache is purged to; if the clock has left that window between resolving and accepting, the
  cache has forgotten the epoch and the same nonce is accepted again.
\<close>

theorem late_accept_forgets:
  assumes "clock_window now r = Inr W" "e \<in> set W" "ck_steady r" "ck_remembers p e n r" "valid_str p"
    and "current_epoch now' r = Inr cur" "e < cur - ck_drift r"
  shows "fst (clock_accept P now ps sl p e n r) = Inl (ReplayDetected p e) \<and> fst (clock_accept P now' ps sl p e n r) = Inr ()"
proof -
  obtain name where "utf8_encode p = Inr name" using assms(5) by (auto simp: utf8_encode_def)
  with ck_accept_detects [OF assms(4) ck_window_live [OF assms(1-3)]] late_accept_succeeds [OF assms(6,7)] show ?thesis by blast
qed

theorem late_accept_forgets_witness:
  "\<exists>r :: clock_resolver. fst (clock_accept toy 119 [] (new_session_log 3 8 16) dev_id 0 [1] r) = Inl (ReplayDetected dev_id 0) \<and>
     fst (clock_accept toy 120 [] (new_session_log 3 8 16) dev_id 0 [1] r) = Inr ()"
proof -
  let ?r = "(new_clock_resolver 60 1)\<lparr>ck_nonces := [(0, [map word_of_nat dev_id @ [0] @ [1]])]\<rparr>"
  have i: "utf8_encode dev_id = Inr (map word_of_nat dev_id)" "valid_str dev_id"
    by (simp_all add: utf8_encode_ascii is_ascii_def valid_str_def lit_def)
  have w: "clock_window 119 ?r = Inr [1, 0, 2]" "ck_steady ?r" "current_epoch 120 ?r = Inr 2" "ck_drift ?r = 1"
    by (simp_all add: clock_window_def current_epoch_def new_clock_resolver_def window_of_def ck_steady_def floor_eq_iff)
  have n: "ck_remembers dev_id 0 [1] ?r" using i by (auto simp: ck_remembers_def simp del: lit_Cons)
  have l: "0 \<in> set [1, 0, 2 :: int]" "0 < 2 - ck_drift ?r" using w(4) by simp_all
  show ?thesis by (rule exI [of _ ?r]) (rule late_accept_forgets [OF w(1) l(1) w(2) n i(2) w(3) l(2)])
qed

section \<open>Strategies\<close>

text \<open>
  C19: O1 and O2 are the same protocol: on the same enrolment and log they accept exactly the same
  pseudonyms, for the same device and epoch, namely those of an enrolled device at one of the epochs
  above the last accepted one and within the forward tolerance.
\<close>

theorem counter_strategies_agree:
  assumes "linear_good P F E ps sl r" "table_good P F E ps sl r'" "below_horizon sl ps F E"
  shows "(fst (linear_resolve P now ps sl pid r) = Inr (p, e) \<longleftrightarrow> fst (counter_resolve P now' ps sl pid r') = Inr (p, e)) \<and>
    (fst (linear_resolve P now ps sl pid r) = Inr (p, e) \<longleftrightarrow>
       (\<exists>lam. (p, lam) \<in> set ps \<and> last_epoch sl p < e \<and> e \<le> last_epoch sl p + F \<and> pseudonym P lam e = pid))"
proof -
  have "fst (linear_resolve P now ps sl pid r) = Inr (p, e) \<longleftrightarrow> counter_spec P F ps sl pid p e"
    using linear_cs.decides [OF assms(1,3), of now pid p e] by (simp add: linear_scan_ops_def)
  moreover have "fst (counter_resolve P now' ps sl pid r') = Inr (p, e) \<longleftrightarrow> counter_spec P F ps sl pid p e"
    using table_cs.decides [OF assms(2,3), of now' pid p e] by (simp add: counter_table_ops_def)
  ultimately show ?thesis by (auto simp: counter_spec_def)
qed

theorem counter_strategies_agree_witness:
  "\<forall>pid p e. fst (linear_resolve toy 0 [(dev_id, 5)] (new_session_log 3 8 16) pid new_resolver) = Inr (p, e) \<longleftrightarrow>
     fst (counter_resolve toy 0 [(dev_id, 5)] (new_session_log 3 8 16) pid toy_table) = Inr (p, e)"
proof (intro allI)
  fix pid p e
  show "fst (linear_resolve toy 0 [(dev_id, 5)] (new_session_log 3 8 16) pid new_resolver) = Inr (p, e) \<longleftrightarrow>
     fst (counter_resolve toy 0 [(dev_id, 5)] (new_session_log 3 8 16) pid toy_table) = Inr (p, e)"
    using counter_strategies_agree [OF toy_linear toy_table_good, of 0 pid p e 0] toy_horizon by (simp add: toy_server_def del: lit_Cons)
qed

text \<open>
  C20: O3 and O4 are the same protocol: they accept exactly the pseudonyms of an enrolled device at an
  epoch of the current window; O4 answers without a hash and, when the clock moves, hashes every
  device once per epoch that entered the window.
\<close>

theorem clock_strategies_agree:
  assumes "no_collisions P ps E" "E \<le> 256 ^ 8" "valid_peers ps" "holds P ps (set (ckt_tabled r')) r'"
    and "set (ckt_tabled r') \<subseteq> {0 ..< E}" "clock_window now r = Inr W" "clock_window now r' = Inr W" "set W \<subseteq> {0 ..< E}"
  shows "(fst (clock_scan_resolve P now ps sl pid r) = Inr (p, e) \<longleftrightarrow> fst (clock_table_resolve P now ps sl pid r') = Inr (p, e)) \<and>
    (fst (clock_scan_resolve P now ps sl pid r) = Inr (p, e) \<longleftrightarrow> (\<exists>lam. (p, lam) \<in> set ps \<and> e \<in> set W \<and> pseudonym P lam e = pid)) \<and>
    probes (snd (clock_table_resolve P now ps sl pid r')) = probes r' \<and>
    precompute_probes (snd (clock_table_resolve P now ps sl pid r')) =
      precompute_probes r' + int (length ps) * int (card (set W - set (ckt_tabled r')))"
proof -
  have s: "fst (clock_scan_resolve P now ps sl pid r) = Inr (p, e) \<longleftrightarrow> clock_spec P W ps pid p e"
    by (rule clock_scan_resolve_iff [OF assms(1-3,6,8)])
  have "snd (clock_table_resolve P now ps sl pid r') = snd (clock_advance P now ps r')"
    by (auto simp: clock_table_resolve_def split: prod.split sum.split option.split)
  with clock_advance_exact [OF assms(1-5,7,8)] have pre: "precompute_probes (snd (clock_table_resolve P now ps sl pid r')) =
      precompute_probes r' + int (length ps) * int (card (set W - set (ckt_tabled r')))" by auto
  show ?thesis using s pre clock_table_resolve_iff [OF assms(1-5,7,8), of sl pid] unfolding clock_spec_def by simp
qed

theorem clock_strategies_agree_witness:
  "\<forall>pid p e. (fst (clock_scan_resolve toy 0 [(dev_id, 5)] (new_session_log 3 8 16) pid (new_clock_resolver 60 1)) = Inr (p, e) \<longleftrightarrow>
     fst (clock_table_resolve toy 0 [(dev_id, 5)] (new_session_log 3 8 16) pid (new_clock_table 60 1)) = Inr (p, e)) \<and>
   precompute_probes (snd (clock_table_resolve toy 0 [(dev_id, 5)] (new_session_log 3 8 16) pid (new_clock_table 60 1))) = 2"
proof (intro allI)
  fix pid p e
  have n: "no_collisions toy [(dev_id, 5)] 100" "(100 :: int) \<le> 256 ^ 8" "set (ckt_tabled (new_clock_table 60 1)) \<subseteq> {0 ..< 100}"
    "set [0, 1] \<subseteq> {0 ..< 100 :: int}"
    using toy_no_collisions [of 100] toy_empty_table by simp_all
  note agree = clock_strategies_agree [OF n(1,2) toy_valid_peers toy_empty_table(1) n(3) toy_window(1,2) n(4),
      of "new_session_log 3 8 16" pid p e]
  have "precompute_probes (new_clock_table 60 1) = 0" by (simp add: new_clock_table_def)
  with agree show "(fst (clock_scan_resolve toy 0 [(dev_id, 5)] (new_session_log 3 8 16) pid (new_clock_resolver 60 1)) = Inr (p, e) \<longleftrightarrow>
     fst (clock_table_resolve toy 0 [(dev_id, 5)] (new_session_log 3 8 16) pid (new_clock_table 60 1)) = Inr (p, e)) \<and>
   precompute_probes (snd (clock_table_resolve toy 0 [(dev_id, 5)] (new_session_log 3 8 16) pid (new_clock_table 60 1))) = 2"
    by (simp add: toy_empty_table del: lit_Cons)
qed

section \<open>Devices and their enrolment\<close>

text \<open>
  C21: a counter device never repeats itself.  Two first messages it builds for one server, with any
  requests, responses, blocks and cache drops in between, show the pseudonyms of two epochs in strictly
  increasing order.
\<close>

theorem device_epochs_increase:
  assumes "device_wf P d" "\<not> dev_epoch_clock d" "build_auth_request P env p d = (Inr msg, d1)"
    and "device_reach P d1 d2" "build_auth_request P env' p d2 = (Inr msg', d3)"
  shows "\<exists>m m' e e'. message1_from_bytes msg = Inr m \<and> message1_from_bytes msg' = Inr m' \<and> e < e' \<and> valid_epoch e \<and> valid_epoch e' \<and>
    m1_pid m = pseudonym P (cred_lam (ent_credential d)) e \<and> m1_pid m' = pseudonym P (cred_lam (ent_credential d)) e'"
proof -
  have w: "device_wf P d1" "ent_credential d1 = ent_credential d" using build_wf [OF assms(1,3)] by simp_all
  have w2: "device_wf P d2" "ent_credential d2 = ent_credential d" using device_reach_wf [OF assms(4) w(1)] w(2) by simp_all
  from built_pseudonym [OF assms(1,3)] built_pseudonym [OF w2(1) assms(5)] epochs_strictly_increase [OF assms]
  show ?thesis unfolding w2(2) by blast
qed

lemma toy_device_wf: "device_wf toy toy_device"
  using toy_scan_linked by (simp add: linked_def)

lemma handshake_steps:
  assumes "handshake P ops h p d s = (Inr (k, a), d', s')"
  shows "\<exists>msg d1. build_auth_request P (he_build h) p d = (Inr msg, d1) \<and>
    complete_auth P (he_complete h) (res_response_bytes a) d1 = (Inr k, d')"
  using assms by (auto simp: handshake_def split: sum.splits prod.splits)

lemma toy_second_request:
  "\<exists>msg d1 d2 msg' d3. build_auth_request toy toy_device_env srv_id toy_device = (Inr msg, d1) \<and> device_reach toy d1 d2 \<and>
     build_auth_request toy toy_device_env srv_id d2 = (Inr msg', d3)"
proof -
  obtain k a d2 s2 where r1: "handshake toy linear_scan_ops toy_run srv_id toy_device (toy_server new_resolver) = (Inr (k, a), d2, s2)"
    "linked linear_good toy 8 100 d2 s2" "epoch_gap d2 s2 = 1" "ent_credential d2 = dev_cred" "ent_credential s2 = srv_cred"
    "dev_session_timeout d2 = 5" "device_next d2 srv_id = 1"
    using linear_cs.run_in_window [OF toy_ok toy_scan_linked toy_ready] by (auto simp: toy_creds simp del: lit_Cons)
  have ids: "cred_identity (ent_credential s2) = srv_id" by (simp add: r1(5) srv_cred_def del: lit_Cons)
  obtain k' b d4 s4 where "handshake toy linear_scan_ops toy_run srv_id d2 s2 = (Inr (k', b), d4, s4)"
    using linear_cs.run_in_window [OF toy_ok r1(2), of toy_run] r1(3,6,7) toy_action by (auto simp: ids simp del: lit_Cons)
  from handshake_steps [OF r1(1)] handshake_steps [OF this] show ?thesis
    using dev_complete [OF dev_start] by (simp add: toy_run_def del: lit_Cons) blast
qed

theorem device_epochs_increase_witness:
  "\<exists>msg msg' m m' e e'. message1_from_bytes msg = Inr m \<and> message1_from_bytes msg' = Inr m' \<and> e < e' \<and>
     m1_pid m = pseudonym toy 5 e \<and> m1_pid m' = pseudonym toy 5 e'"
proof -
  obtain msg d1 d2 msg' d3 where r: "build_auth_request toy toy_device_env srv_id toy_device = (Inr msg, d1)" "device_reach toy d1 d2"
    "build_auth_request toy toy_device_env srv_id d2 = (Inr msg', d3)" using toy_second_request by blast
  have c: "\<not> dev_epoch_clock toy_device" "cred_lam (ent_credential toy_device) = 5" by (simp_all add: toy_device_def dev_cred_def)
  from device_epochs_increase [OF toy_device_wf c(1) r] show ?thesis unfolding c(2) by blast
qed

text \<open>
  C22: a response is used at most once.  However the completion of a response ends, the session with the
  server it names is gone, and the same response is rejected as of an unknown peer from then on.
\<close>

theorem response_consumed:
  assumes "complete_auth P env msg d = (res, d')" "message2_from_bytes msg = Inr m" "m2_server_id m = JStr p"
  shows "map_of (dev_pending d') p = None \<and> fst (complete_auth P env' msg d') = Inl UnknownPeerError"
  using complete_uses_up [OF assms] complete_without_pending [OF assms(2,3)] by blast

text \<open>
  C23: what a key is worth to the device.  It gets a key only from a response within the timeout to an
  outstanding request, whose text opens under the pairwise root with the request's pseudonym and nonce
  as associated data and repeats the request's epoch; the key is Eq. 16 over the request's nonce, the
  nonce in the text and that epoch.
\<close>

theorem completion_authentic:
  assumes "device_wf P d" "complete_auth P env msg d = (Inr key, d')"
  shows "\<exists>m p ps k plaintext. message2_from_bytes msg = Inr m \<and> m2_server_id m = JStr p \<and> map_of (dev_pending d) p = Some ps \<and>
    \<not> dev_session_timeout d < env_monotonic env - pend_created_at ps \<and> root_of P (ent_credential d) p = Inr k \<and>
    aead_decrypt P k (m2_gcm_nonce m) (m2_ciphertext m) (m2_tag m) (pend_pid ps @ pend_n_i ps) = Inr plaintext \<and>
    int_from_bytes (last_n 8 plaintext) = pend_epoch ps \<and>
    derive_session_key P k (pend_n_i ps) (but_last_n 8 plaintext) (pend_epoch ps) = Inr key"
proof -
  from complete_cases [OF assms(2)] obtain m p ps n_j where c: "message2_from_bytes msg = Inr m" "m2_server_id m = JStr p"
    "map_of (dev_pending d) p = Some ps" "response_ok P env d ps m n_j"
    "derive_session_key P (pend_k_star ps) (pend_n_i ps) n_j (pend_epoch ps) = Inr key" by auto
  have "pending_ok P d (p, ps)" using assms(1) map_of_SomeD [OF c(3)] by (auto simp: device_wf_def)
  then have "root_of P (ent_credential d) p = Inr (pend_k_star ps)" by (simp add: pending_ok_def)
  with c show ?thesis unfolding response_ok_def by blast
qed

lemma toy_completion:
  "\<exists>msg d key d'. device_wf toy d \<and> complete_auth toy toy_device_env msg d = (Inr key, d')"
proof -
  obtain k a d' s' where "handshake toy linear_scan_ops toy_run srv_id toy_device (toy_server new_resolver) = (Inr (k, a), d', s')"
    using toy_scan_run by blast
  from handshake_steps [OF this] obtain msg d1 where
    "build_auth_request toy (he_build toy_run) srv_id toy_device = (Inr msg, d1)"
    "complete_auth toy (he_complete toy_run) (res_response_bytes a) d1 = (Inr k, d')" by blast
  moreover have "he_complete toy_run = toy_device_env" by (simp add: toy_run_def)
  ultimately show ?thesis using build_wf(1) [OF toy_device_wf] by metis
qed

theorem response_consumed_witness:
  "\<exists>msg d d' key. complete_auth toy toy_device_env msg d = (Inr key, d') \<and>
     fst (complete_auth toy toy_device_env msg d') = Inl UnknownPeerError"
proof -
  obtain msg d key d' where c: "complete_auth toy toy_device_env msg d = (Inr key, d')" using toy_completion by blast
  from complete_cases [OF c] obtain m p where "message2_from_bytes msg = Inr m" "m2_server_id m = JStr p" by auto
  from response_consumed [OF c this] c show ?thesis by blast
qed

theorem completion_authentic_witness:
  "\<exists>msg key k plaintext m. \<exists>ps :: pending_session. message2_from_bytes msg = Inr m \<and>
     aead_decrypt toy k (m2_gcm_nonce m) (m2_ciphertext m) (m2_tag m) (pend_pid ps @ pend_n_i ps) = Inr plaintext \<and>
     derive_session_key toy k (pend_n_i ps) (but_last_n 8 plaintext) (pend_epoch ps) = Inr key"
proof -
  obtain msg d key d' where c: "device_wf toy d" "complete_auth toy toy_device_env msg d = (Inr key, d')" using toy_completion by blast
  from completion_authentic [OF c] show ?thesis by blast
qed

text \<open>
  C24: credentials.  Whatever sequence of enrolments, batches and key sharings a trusted authority runs,
  every credential it has issued carries a valid role, the secret that Eq. 1 derives from its identity,
  in the range of the curve's scalars, and as peers only others' derived secrets, each at most once; and
  no two credentials share an identity.
\<close>

theorem issued_credentials:
  assumes "ta_reach P s ta st" "c \<in> set st"
  shows "cred_role c \<in> set VALID_ROLES \<and> derive_long_term_secret P (cred_identity c) s = Inr (cred_lam c) \<and>
    cred_lam c \<in> {1 ..< CURVE_ORDER} \<and> distinct (map fst (cred_peer_secrets c)) \<and>
    (\<forall>(p, lam) \<in> set (cred_peer_secrets c). p \<noteq> cred_identity c \<and> lam \<in> {1 ..< CURVE_ORDER} \<and>
       derive_long_term_secret P p s = Inr lam) \<and>
    distinct (map cred_identity st)"
proof -
  have ok: "cred_ok P s c" "distinct (map cred_identity st)" using ta_reach_ok [OF assms(1)] assms(2) by (auto simp: ta_ok_def)
  then have "\<forall>(p, lam) \<in> set (cred_peer_secrets c). p \<noteq> cred_identity c \<and> lam \<in> {1 ..< CURVE_ORDER} \<and>
       derive_long_term_secret P p s = Inr lam"
    using derive_range by (fastforce simp: cred_ok_def)
  with ok derive_range [of P "cred_identity c" s "cred_lam c"] show ?thesis by (simp add: cred_ok_def)
qed

definition toy_ta :: trusted_authority where
  "toy_ta = \<lparr>ta_master_secret = zeros 32, ta_registry = []\<rparr>"

theorem issued_credentials_witness:
  "\<exists>ta c. enroll toy toy_ta [] dev_id (lit ''device'') False = (Inr 0, ta, [c]) \<and> cred_lam c \<in> {1 ..< CURVE_ORDER} \<and>
     derive_long_term_secret toy dev_id (zeros 32) = Inr (cred_lam c)"
proof -
  have v: "lit ''device'' \<in> set VALID_ROLES" "valid_str dev_id" "map_of (ta_registry toy_ta) dev_id = None"
    by (simp_all add: VALID_ROLES_def valid_str_def lit_def toy_ta_def)
  obtain ta c where e: "enroll toy toy_ta [] dev_id (lit ''device'') False = (Inr 0, ta, [c])" "cred_identity c = dev_id"
    using enroll_total [OF v, of toy "[]" False] by (auto simp del: lit_Cons)
  have "ta_reach toy (zeros 32) toy_ta []" by (rule ta_start) (simp_all add: toy_ta_def)
  from issued_credentials [OF ta_enroll [OF this e(1)], of c] e show ?thesis by (auto simp del: lit_Cons)
qed

text \<open>
  C25: provisioning.  The manifest is well formed, the output directory exists or can be made, and every
  identity gives a file name the operating system takes as it is (no slash, no NUL, not too long) where
  no directory stands.  Then the command exits with 0 and leaves for every entry its own file in that
  directory, which only its owner can read and which loads back to the issued credential; the files of
  any device and any server of the manifest hold a pair that can run the protocol; and no other place of
  the file system changes once the directory is there.
\<close>

theorem manifest_provisions_pairs:
  assumes "manifest_ok es" "resolve_master_secret cwd out_dir master_hex files fresh = (Inr s, files1)"
    and "make_dirs files1 cwd out_dir = (Inr (), files2)"
    and "\<forall>e \<in> set es. \<forall>i. me_identity e = Some i \<longrightarrow> bundle_ok files2 cwd out_dir i"
    and "\<forall>v. p_ec_point P v \<noteq> []"
  shows "\<exists>D files' cred. enroll_manifest P cwd out_dir es master_hex files fresh = (Inr 0, files') \<and>
    find_node files2 cwd out_dir = Inr (D, FsDir) \<and>
    (\<forall>e \<in> set es. \<forall>i. me_identity e = Some i \<longrightarrow>
       stored files' cwd (bundle_path out_dir i) (cred i) \<and> cred_identity (cred i) = i \<and>
       me_role e = Some (cred_role (cred i)) \<and> derive_long_term_secret P i s = Inr (cred_lam (cred i))) \<and>
    (\<forall>e \<in> set es. \<forall>f \<in> set es. \<forall>i j. me_identity e = Some i \<longrightarrow> me_role e = Some (lit ''device'') \<longrightarrow>
       me_identity f = Some j \<longrightarrow> me_role f = Some (lit ''server'') \<longrightarrow> paired (cred i) (cred j)) \<and>
    (\<forall>q. (\<forall>e \<in> set es. \<forall>i. me_identity e = Some i \<longrightarrow> q \<noteq> D @ [i @ lit ''.json'']) \<longrightarrow> node_at files' q = node_at files2 q)"
  by (rule provision_manifest [OF assms])

definition toy_manifest :: "manifest_entry list" where
  "toy_manifest = [\<lparr>me_identity = Some dev_id, me_role = Some (lit ''device''), me_export_public_point = Some True\<rparr>,
     \<lparr>me_identity = Some srv_id, me_role = Some (lit ''server''), me_export_public_point = None\<rparr>]"

text \<open>An empty file system: the command makes the directory and the authority's secret.\<close>

definition toy_out :: py_path where
  "toy_out = to_path (lit ''out'')"

definition toy_files :: fs where
  "toy_files = [([lit ''out''], FsDir),
     ([lit ''out'', DEFAULT_MASTER_SECRET_FILENAME],
        FsFile \<lparr>kf_content = map word_of_nat (hex (zeros 32)), kf_mode = PRIVATE_FILE_MODE\<rparr>)]"

lemmas path_defs = path_join_def to_path_def path_root_def find_slot_def find_node_def path_str_def
  utf8_size_def utf8_char_def NAME_MAX_def PATH_MAX_def node_at_def entry_def path_is_dir_def

lemma toy_secret: "resolve_master_secret [] toy_out None [] zeros = (Inr (zeros 32), toy_files)"
  by (simp add: resolve_master_secret_def path_exists_def make_dirs.simps mkdir_exist_ok_def os_mkdir_def put_file_def
      path_defs Let_def toy_out_def toy_files_def DEFAULT_MASTER_SECRET_FILENAME_def lit_def)

lemma toy_out_there: "find_node toy_files [] toy_out = Inr ([lit ''out''], FsDir)"
  by (simp add: path_defs Let_def toy_out_def toy_files_def lit_def)

lemma toy_bundles: "bundle_ok toy_files [] toy_out dev_id" "bundle_ok toy_files [] toy_out srv_id"
  by (simp_all add: bundle_ok_def bundle_path_def plain_name_def path_defs Let_def toy_out_def toy_files_def
      DEFAULT_MASTER_SECRET_FILENAME_def lit_def)

theorem manifest_provisions_pairs_witness:
  "\<exists>files' c d. enroll_manifest toy [] toy_out toy_manifest None [] zeros = (Inr 0, files') \<and>
     stored files' [] (bundle_path toy_out dev_id) c \<and> stored files' [] (bundle_path toy_out srv_id) d \<and> paired c d"
proof -
  have m: "manifest_ok toy_manifest"
    by (simp add: manifest_ok_def entry_ok_def toy_manifest_def VALID_ROLES_def valid_str_def lit_def)
  have names: "\<forall>e \<in> set toy_manifest. \<forall>i. me_identity e = Some i \<longrightarrow> bundle_ok toy_files [] toy_out i"
    using toy_bundles by (simp add: toy_manifest_def del: lit_Cons)
  have ec: "\<forall>v. p_ec_point toy v \<noteq> []"
  proof
    fix v
    have "length (p_ec_point toy v) = 65" by (simp add: toy_def)
    then show "p_ec_point toy v \<noteq> []" by auto
  qed
  from manifest_provisions_pairs [OF m toy_secret dirs_there [OF toy_out_there] names ec] obtain files' cred where
    p: "enroll_manifest toy [] toy_out toy_manifest None [] zeros = (Inr 0, files')"
      "\<forall>e \<in> set toy_manifest. \<forall>i. me_identity e = Some i \<longrightarrow> stored files' [] (bundle_path toy_out i) (cred i)"
      "\<forall>e \<in> set toy_manifest. \<forall>f \<in> set toy_manifest. \<forall>i j. me_identity e = Some i \<longrightarrow> me_role e = Some (lit ''device'') \<longrightarrow>
         me_identity f = Some j \<longrightarrow> me_role f = Some (lit ''server'') \<longrightarrow> paired (cred i) (cred j)" by blast
  from p(2) have "stored files' [] (bundle_path toy_out dev_id) (cred dev_id)"
    "stored files' [] (bundle_path toy_out srv_id) (cred srv_id)"
    by (simp_all add: toy_manifest_def del: lit_Cons)
  moreover from p(3) have "paired (cred dev_id) (cred srv_id)" by (simp add: toy_manifest_def del: lit_Cons)
  ultimately show ?thesis using p(1) by blast
qed

end
